(* ===== verification/Prelude.thy ===== *)
theory Prelude
  imports Main "HOL-Library.Sublist"
begin

text \<open>
  Shared vocabulary of the development: results as sums (the error on the left), the
  functions of Go's \<open>strings\<close>, \<open>strconv\<close> and \<open>fmt\<close> packages that the modelled code
  calls, association lists for Go maps whose iteration order matters, and the generic
  lemmas about them.
\<close>

named_theorems str_simps \<open>evaluation of the string helpers\<close>
named_theorems step_simps \<open>definitions of the engine's operations, unfolded in proofs\<close>

type_synonym ('e, 'a) result = "'e + 'a"

section \<open>Strings\<close>

text \<open>\<open>strings.HasPrefix\<close>, \<open>strings.HasSuffix\<close> and \<open>strings.TrimSuffix\<close>.\<close>

fun has_prefix :: "string \<Rightarrow> string \<Rightarrow> bool" where
  "has_prefix s [] = True"
| "has_prefix [] (p # ps) = False"
| "has_prefix (c # cs) (p # ps) = (c = p \<and> has_prefix cs ps)"

definition has_suffix :: "string \<Rightarrow> string \<Rightarrow> bool" where
  "has_suffix s p = has_prefix (rev s) (rev p)"

definition trim_suffix :: "string \<Rightarrow> string \<Rightarrow> string" where
  "trim_suffix s p = (if has_suffix s p then take (length s - length p) s else s)"

definition trim_prefix :: "string \<Rightarrow> string \<Rightarrow> string" where
  "trim_prefix s p = (if has_prefix s p then drop (length p) s else s)"

lemma has_prefix_iff: "has_prefix s p \<longleftrightarrow> (\<exists>t. s = p @ t)"
  by (induction s p rule: has_prefix.induct) auto

lemma has_suffix_iff: "has_suffix s p \<longleftrightarrow> (\<exists>t. s = t @ p)"
proof
  assume "has_suffix s p"
  then obtain t where "rev s = rev p @ t"
    by (auto simp: has_suffix_def has_prefix_iff)
  then have "s = rev t @ p"
    by (metis rev_append rev_rev_ident)
  then show "\<exists>t. s = t @ p" ..
next
  assume "\<exists>t. s = t @ p"
  then show "has_suffix s p"
    by (auto simp: has_suffix_def has_prefix_iff)
qed

lemma trim_suffix_append [simp]: "trim_suffix (s @ p) p = s"
  by (simp add: trim_suffix_def has_suffix_iff)

lemma trim_prefix_append [simp]: "trim_prefix (p @ s) p = s"
  by (simp add: trim_prefix_def has_prefix_iff)

text \<open>
  \<open>strings.Cut s sep\<close> for a one-byte separator: the text before and after its first
  occurrence, and whether there was one.
\<close>

fun cut :: "string \<Rightarrow> char \<Rightarrow> string \<times> string \<times> bool" where
  "cut [] sep = ([], [], False)"
| "cut (c # cs) sep =
     (if c = sep then ([], cs, True)
      else (case cut cs sep of (before, after, found) \<Rightarrow> (c # before, after, found)))"

lemma cut_found: "cut s sep = (b, a, True) \<Longrightarrow> s = b @ sep # a \<and> sep \<notin> set b"
  by (induction s arbitrary: b) (auto split: if_splits prod.splits)

lemma cut_missing: "cut s sep = (b, a, False) \<Longrightarrow> b = s \<and> a = [] \<and> sep \<notin> set s"
  by (induction s arbitrary: b) (auto split: if_splits prod.splits)

lemma cut_append: "sep \<notin> set b \<Longrightarrow> cut (b @ sep # a) sep = (b, a, True)"
  by (induction b) auto

text \<open>\<open>strings.Split s sep\<close> for a one-byte separator: never empty, as in Go.\<close>

fun split_on :: "char \<Rightarrow> string \<Rightarrow> string list" where
  "split_on sep [] = [[]]"
| "split_on sep (c # cs) =
     (if c = sep then [] # split_on sep cs
      else (case split_on sep cs of
              [] \<Rightarrow> [[c]]
            | w # ws \<Rightarrow> (c # w) # ws))"

text \<open>\<open>strings.Join\<close>.\<close>

fun join_with :: "string \<Rightarrow> string list \<Rightarrow> string" where
  "join_with sep [] = []"
| "join_with sep [x] = x"
| "join_with sep (x # y # ys) = x @ sep @ join_with sep (y # ys)"

lemma split_on_nonempty [simp]: "split_on sep s \<noteq> []"
  by (cases s) (auto split: list.splits)

lemma split_on_no_sep: "w \<in> set (split_on sep s) \<Longrightarrow> sep \<notin> set w"
proof (induction s arbitrary: w)
  case Nil
  then show ?case by simp
next
  case (Cons c cs)
  obtain v vs where vs: "split_on sep cs = v # vs"
    by (cases "split_on sep cs") auto
  with Cons show ?case by (auto split: if_splits)
qed

lemma join_split: "join_with [sep] (split_on sep s) = s"
proof (induction s)
  case Nil
  then show ?case by simp
next
  case (Cons c cs)
  obtain v vs where vs: "split_on sep cs = v # vs"
    by (cases "split_on sep cs") auto
  with Cons show ?case by (cases vs) auto
qed

lemma split_on_append: "sep \<notin> set x \<Longrightarrow> split_on sep (x @ sep # y) = x # split_on sep y"
  by (induction x) auto

lemma split_on_word: "sep \<notin> set x \<Longrightarrow> split_on sep x = [x]"
  by (induction x) auto

lemma split_join: "ws \<noteq> [] \<Longrightarrow> (\<And>w. w \<in> set ws \<Longrightarrow> sep \<notin> set w) \<Longrightarrow> split_on sep (join_with [sep] ws) = ws"
  by (induction "[sep]" ws rule: join_with.induct) (auto simp: split_on_append split_on_word)

section \<open>Decimal numbers\<close>

text \<open>\<open>fmt.Sprintf("%d")\<close> on the integers the code formats, and \<open>strconv.Atoi\<close>'s digits.\<close>

definition digit_char :: "nat \<Rightarrow> char" where
  "digit_char d = char_of (48 + d)"

fun show_nat :: "nat \<Rightarrow> string" where
  "show_nat n = (if n < 10 then [digit_char n] else show_nat (n div 10) @ [digit_char (n mod 10)])"

declare show_nat.simps [simp del]

definition show_int :: "int \<Rightarrow> string" where
  "show_int i = (if i < 0 then ''-'' @ show_nat (nat (- i)) else show_nat (nat i))"

definition char_digit :: "char \<Rightarrow> nat option" where
  "char_digit c =
     (let d = (of_char c :: nat) in if 48 \<le> d \<and> d \<le> 57 then Some (d - 48) else None)"

fun digits_value :: "nat \<Rightarrow> string \<Rightarrow> nat option" where
  "digits_value acc [] = Some acc"
| "digits_value acc (c # cs) =
     (case char_digit c of None \<Rightarrow> None | Some d \<Rightarrow> digits_value (10 * acc + d) cs)"

lemma char_digit_char [simp]: "d < 10 \<Longrightarrow> char_digit (digit_char d) = Some d"
  by (simp add: char_digit_def digit_char_def)

lemma digits_value_append:
  "digits_value acc (xs @ ys) =
     (case digits_value acc xs of None \<Rightarrow> None | Some v \<Rightarrow> digits_value v ys)"
  by (induction xs arbitrary: acc) (auto split: option.splits)

lemma show_nat_nonempty [simp]: "show_nat n \<noteq> []"
  by (subst show_nat.simps) simp

lemma digits_value_show: "digits_value 0 (show_nat n) = Some n"
proof (induction n rule: show_nat.induct)
  case (1 n)
  show ?case
  proof (cases "n < 10")
    case True
    then show ?thesis by (subst show_nat.simps) simp
  next
    case False
    then have "digits_value 0 (show_nat (n div 10)) = Some (n div 10)"
      using "1.IH" by simp
    with False show ?thesis
      by (subst show_nat.simps) (simp add: digits_value_append)
  qed
qed

lemma show_nat_inj: "show_nat m = show_nat n \<longleftrightarrow> m = n"
  by (metis digits_value_show option.inject)

lemma show_nat_digits: "c \<in> set (show_nat n) \<Longrightarrow> \<exists>d. char_digit c = Some d"
proof (induction n rule: show_nat.induct)
  case (1 n)
  show ?case
  proof (cases "n < 10")
    case True
    with "1.prems" show ?thesis by (subst (asm) show_nat.simps) auto
  next
    case False
    with "1.prems" have "c \<in> set (show_nat (n div 10)) \<or> c = digit_char (n mod 10)"
      by (subst (asm) show_nat.simps) auto
    with "1.IH" False show ?thesis by auto
  qed
qed

section \<open>Association lists for Go maps\<close>

text \<open>
  A Go map whose iteration order the code's result could depend on is an association
  list: one list is one iteration order, and a theorem about every list is a theorem
  about every order the runtime may choose. \<open>alookup\<close> is \<open>m[k]\<close> with its \<open>ok\<close> result.
\<close>

abbreviation alookup :: "('k \<times> 'v) list \<Rightarrow> 'k \<Rightarrow> 'v option" where
  "alookup \<equiv> map_of"

fun aput :: "'k \<Rightarrow> 'v \<Rightarrow> ('k \<times> 'v) list \<Rightarrow> ('k \<times> 'v) list" where
  "aput k v [] = [(k, v)]"
| "aput k v ((k', v') # m) = (if k = k' then (k, v) # m else (k', v') # aput k v m)"

lemma alookup_aput [simp]: "alookup (aput k v m) = (alookup m)(k \<mapsto> v)"
  by (induction m) (auto simp: fun_eq_iff)

lemma keys_aput: "fst ` set (aput k v m) = insert k (fst ` set m)"
  by (induction m) (force split: if_splits)+

lemma distinct_aput: "distinct (map fst m) \<Longrightarrow> distinct (map fst (aput k v m))"
  by (induction m) (auto simp: keys_aput)

section \<open>Lists\<close>

definition before_in :: "'a list \<Rightarrow> 'a \<Rightarrow> 'a \<Rightarrow> bool" where
  "before_in xs a b \<longleftrightarrow> (\<exists>us vs. xs = us @ vs \<and> a \<in> set us \<and> b \<in> set vs)"

lemma before_in_append1: "before_in xs a b \<Longrightarrow> before_in (xs @ ys) a b"
  by (force simp: before_in_def)

lemma before_in_append2: "a \<in> set xs \<Longrightarrow> b \<in> set ys \<Longrightarrow> before_in (xs @ ys) a b"
  by (auto simp: before_in_def)

lemma before_in_split: "a \<in> set xs \<Longrightarrow> before_in (xs @ b # ys) a b"
  unfolding before_in_def by (rule exI [of _ xs], rule exI [of _ "b # ys"]) simp

lemma concat_map_if_Nil [simp]:
  "concat (map (\<lambda>i. if P i then [f i] else []) xs) = [] \<longleftrightarrow> (\<forall>i \<in> set xs. \<not> P i)"
  by (induction xs) auto

text \<open>\<open>%q\<close> on a name without characters to escape.\<close>

definition quote :: "string \<Rightarrow> string" where
  "quote s = CHR 0x22 # s @ [CHR 0x22]"

end
