(* ===== verification/Run_State.thy ===== *)
theory Run_State
  imports Prelude
begin

text \<open>
  The run-status machine of \<open>pkg/op/run_state.go\<close>: the three enumerations (condition,
  phase, reason) with their text codecs, the status record and the journal entry. The
  Go types are integers; \<open>condition_code\<close> and its siblings give the integer each
  constant has, and the codecs are stated on integers because the code checks the range.
\<close>

section \<open>Text codecs of the enumerations\<close>

datatype codec_error =
    UnknownValue string int
  | UnknownName string string

definition enum_marshal :: "string \<Rightarrow> string list \<Rightarrow> int \<Rightarrow> (codec_error, string) result" where
  "enum_marshal ty names c =
     (if c < 0 \<or> c \<ge> int (length names) then Inl (UnknownValue ty c) else Inr (names ! nat c))"

definition enum_string :: "string \<Rightarrow> string list \<Rightarrow> int \<Rightarrow> string" where
  "enum_string ty names c =
     (if 0 \<le> c \<and> c < int (length names) then names ! nat c
      else ty @ ''('' @ show_int c @ '')'')"

text \<open>The \<open>for value, candidate := range names\<close> loop: the first index whose name matches.\<close>

fun enum_find :: "int \<Rightarrow> string list \<Rightarrow> string \<Rightarrow> int option" where
  "enum_find v [] name = None"
| "enum_find v (n # ns) name = (if n = name then Some v else enum_find (v + 1) ns name)"

definition enum_unmarshal :: "string \<Rightarrow> string list \<Rightarrow> string \<Rightarrow> (codec_error, int) result" where
  "enum_unmarshal ty names name =
     (case enum_find 0 names name of None \<Rightarrow> Inl (UnknownName ty name) | Some v \<Rightarrow> Inr v)"

lemma enum_find_Some:
  "enum_find v ns name = Some c \<Longrightarrow>
     v \<le> c \<and> c < v + int (length ns) \<and> ns ! nat (c - v) = name"
proof (induction ns arbitrary: v)
  case Nil
  then show ?case by simp
next
  case (Cons n ns)
  show ?case
  proof (cases "n = name")
    case True
    with Cons.prems show ?thesis by simp
  next
    case False
    with Cons.prems have "enum_find (v + 1) ns name = Some c" by simp
    with Cons.IH have IH: "v + 1 \<le> c" "c < v + 1 + int (length ns)" "ns ! nat (c - (v + 1)) = name"
      by blast+
    from IH(1) have "nat (c - v) = Suc (nat (c - (v + 1)))" by simp
    with IH show ?thesis by simp
  qed
qed

lemma enum_find_nth:
  "distinct ns \<Longrightarrow> i < length ns \<Longrightarrow> enum_find v ns (ns ! i) = Some (v + int i)"
proof (induction ns arbitrary: v i)
  case Nil
  then show ?case by simp
next
  case (Cons n ns)
  then show ?case by (cases i) auto
qed

text \<open>
  What every document codec promises: a marshalled value is read back as itself, only
  a value that was marshalled reads back, and two values never share a name.
\<close>

locale text_codec =
  fixes marshal :: "int \<Rightarrow> (codec_error, string) result"
    and unmarshal :: "string \<Rightarrow> (codec_error, int) result"
    and in_range :: "int \<Rightarrow> bool"
  assumes marshal_ok: "in_range c \<Longrightarrow> \<exists>name. marshal c = Inr name"
    and marshal_err: "\<not> in_range c \<Longrightarrow> \<exists>e. marshal c = Inl e"
    and unmarshal_marshal: "marshal c = Inr name \<Longrightarrow> unmarshal name = Inr c"
    and marshal_unmarshal: "unmarshal name = Inr c \<Longrightarrow> marshal c = Inr name"
begin

lemma marshal_iff_range: "(\<exists>name. marshal c = Inr name) \<longleftrightarrow> in_range c"
  using marshal_ok marshal_err by (metis sum.distinct(2))

lemma marshal_inj: "marshal c = Inr name \<Longrightarrow> marshal d = Inr name \<Longrightarrow> c = d"
  using unmarshal_marshal by (metis sum.inject(2))

lemma unmarshal_inj: "unmarshal a = Inr c \<Longrightarrow> unmarshal b = Inr c \<Longrightarrow> a = b"
  using marshal_unmarshal by (metis sum.inject(2))

lemma unmarshal_range: "unmarshal name = Inr c \<Longrightarrow> in_range c"
  using marshal_unmarshal marshal_iff_range by blast

lemma codec_iff: "unmarshal name = Inr c \<longleftrightarrow> marshal c = Inr name"
  using unmarshal_marshal marshal_unmarshal by blast

end

lemma enum_text_codec:
  assumes "distinct names"
  shows "text_codec (enum_marshal ty names) (enum_unmarshal ty names)
           (\<lambda>c. 0 \<le> c \<and> c < int (length names))"
proof
  show "\<And>c. 0 \<le> c \<and> c < int (length names) \<Longrightarrow> \<exists>name. enum_marshal ty names c = Inr name"
    by (auto simp: enum_marshal_def)
  show "\<And>c. \<not> (0 \<le> c \<and> c < int (length names)) \<Longrightarrow> \<exists>e. enum_marshal ty names c = Inl e"
    by (auto simp: enum_marshal_def)
next
  fix c name
  assume "enum_marshal ty names c = Inr name"
  then have "nat c < length names" "0 \<le> c" "name = names ! nat c"
    by (auto simp: enum_marshal_def split: if_splits)
  with enum_find_nth [OF assms, of "nat c" 0]
  show "enum_unmarshal ty names name = Inr c" by (simp add: enum_unmarshal_def)
next
  fix c name
  assume "enum_unmarshal ty names name = Inr c"
  then have "enum_find 0 names name = Some c"
    by (auto simp: enum_unmarshal_def split: option.splits)
  from enum_find_Some [OF this]
  show "enum_marshal ty names c = Inr name" by (auto simp: enum_marshal_def)
qed

section \<open>The enumerations\<close>

datatype condition = Healthy | Degraded | ExecutionFailed | CompensationFailed

datatype phase = Preparing | Running | Pausing | Paused | Stopping | Stopped | Completed

datatype reason =
    ReasonUnspecified | ReasonActionFailed | ReasonCompensationFailed | ReasonRetryVetoed
  | ReasonHandlerFailed | ReasonAbsorbed | ReasonDegraded | ReasonFailed | ReasonPreflightFailed
  | ReasonFrameworkFailed | ReasonStarted | ReasonCompleted | ReasonStopped | ReasonPaused
  | ReasonUnwound

text \<open>The integer \<open>iota\<close> gives each constant.\<close>

primrec condition_code :: "condition \<Rightarrow> int" where
  "condition_code Healthy = 0"
| "condition_code Degraded = 1"
| "condition_code ExecutionFailed = 2"
| "condition_code CompensationFailed = 3"

primrec phase_code :: "phase \<Rightarrow> int" where
  "phase_code Preparing = 0"
| "phase_code Running = 1"
| "phase_code Pausing = 2"
| "phase_code Paused = 3"
| "phase_code Stopping = 4"
| "phase_code Stopped = 5"
| "phase_code Completed = 6"

primrec reason_code :: "reason \<Rightarrow> int" where
  "reason_code ReasonUnspecified = 0"
| "reason_code ReasonActionFailed = 1"
| "reason_code ReasonCompensationFailed = 2"
| "reason_code ReasonRetryVetoed = 3"
| "reason_code ReasonHandlerFailed = 4"
| "reason_code ReasonAbsorbed = 5"
| "reason_code ReasonDegraded = 6"
| "reason_code ReasonFailed = 7"
| "reason_code ReasonPreflightFailed = 8"
| "reason_code ReasonFrameworkFailed = 9"
| "reason_code ReasonStarted = 10"
| "reason_code ReasonCompleted = 11"
| "reason_code ReasonStopped = 12"
| "reason_code ReasonPaused = 13"
| "reason_code ReasonUnwound = 14"

definition condition_names :: "string list" where
  "condition_names = [''healthy'', ''degraded'', ''execution_failed'', ''compensation_failed'']"

definition phase_names :: "string list" where
  "phase_names = [''preparing'', ''running'', ''pausing'', ''paused'', ''stopping'', ''stopped'',
     ''completed'']"

definition reason_names :: "string list" where
  "reason_names = [[], ''action_failed'', ''compensation_failed'', ''retry_vetoed'',
     ''handler_failed'', ''absorbed'', ''degraded'', ''failed'', ''preflight_failed'',
     ''framework_failed'', ''started'', ''completed'', ''stopped'', ''paused'', ''unwound'']"

text \<open>
  \<open>MarshalText\<close> and \<open>MarshalYAML\<close> share one result; \<open>UnmarshalYAML\<close> is \<open>UnmarshalText\<close> on
  the string the YAML decoder hands over.
\<close>

definition marshal_condition :: "int \<Rightarrow> (codec_error, string) result" where
  "marshal_condition = enum_marshal ''op.Condition'' condition_names"

definition string_of_condition :: "int \<Rightarrow> string" where
  "string_of_condition = enum_string ''Condition'' condition_names"

definition unmarshal_condition :: "string \<Rightarrow> (codec_error, int) result" where
  "unmarshal_condition = enum_unmarshal ''op.Condition'' condition_names"

definition marshal_phase :: "int \<Rightarrow> (codec_error, string) result" where
  "marshal_phase = enum_marshal ''op.Phase'' phase_names"

definition string_of_phase :: "int \<Rightarrow> string" where
  "string_of_phase = enum_string ''Phase'' phase_names"

definition unmarshal_phase :: "string \<Rightarrow> (codec_error, int) result" where
  "unmarshal_phase = enum_unmarshal ''op.Phase'' phase_names"

definition marshal_reason :: "int \<Rightarrow> (codec_error, string) result" where
  "marshal_reason = enum_marshal ''op.Reason'' reason_names"

definition string_of_reason :: "int \<Rightarrow> string" where
  "string_of_reason = enum_string ''Reason'' reason_names"

definition unmarshal_reason :: "string \<Rightarrow> (codec_error, int) result" where
  "unmarshal_reason = enum_unmarshal ''op.Reason'' reason_names"

interpretation condition_codec:
  text_codec marshal_condition unmarshal_condition "\<lambda>c. 0 \<le> c \<and> c < 4"
proof -
  have "distinct condition_names" by (simp add: condition_names_def)
  from enum_text_codec [OF this, of "''op.Condition''"]
  show "text_codec marshal_condition unmarshal_condition (\<lambda>c. 0 \<le> c \<and> c < 4)"
    by (simp add: marshal_condition_def unmarshal_condition_def condition_names_def)
qed

interpretation phase_codec:
  text_codec marshal_phase unmarshal_phase "\<lambda>c. 0 \<le> c \<and> c < 7"
proof -
  have "distinct phase_names" by (simp add: phase_names_def)
  from enum_text_codec [OF this, of "''op.Phase''"]
  show "text_codec marshal_phase unmarshal_phase (\<lambda>c. 0 \<le> c \<and> c < 7)"
    by (simp add: marshal_phase_def unmarshal_phase_def phase_names_def)
qed

interpretation reason_codec:
  text_codec marshal_reason unmarshal_reason "\<lambda>c. 0 \<le> c \<and> c < 15"
proof -
  have "distinct reason_names" by (simp add: reason_names_def)
  from enum_text_codec [OF this, of "''op.Reason''"]
  show "text_codec marshal_reason unmarshal_reason (\<lambda>c. 0 \<le> c \<and> c < 15)"
    by (simp add: marshal_reason_def unmarshal_reason_def reason_names_def)
qed

section \<open>Severity\<close>

text \<open>Conditions are ordered by the integer of the constant, as \<open>condition > e.status.Condition\<close> is.\<close>

lemma condition_code_inj: "condition_code a = condition_code b \<longleftrightarrow> a = b"
  by (cases a; cases b) simp_all

instantiation condition :: linorder
begin

definition less_eq_condition :: "condition \<Rightarrow> condition \<Rightarrow> bool" where
  "less_eq_condition a b = (condition_code a \<le> condition_code b)"

definition less_condition :: "condition \<Rightarrow> condition \<Rightarrow> bool" where
  "less_condition a b = (condition_code a < condition_code b)"

instance
  by intro_classes (auto simp: less_eq_condition_def less_condition_def condition_code_inj)

end

lemma Healthy_least [simp]: "Healthy \<le> c"
  by (cases c) (simp_all add: less_eq_condition_def)

lemma CompensationFailed_greatest [simp]: "c \<le> CompensationFailed"
  by (cases c) (simp_all add: less_eq_condition_def)

lemma condition_order [simp]:
  "Healthy < Degraded" "Degraded < ExecutionFailed" "ExecutionFailed < CompensationFailed"
  "Healthy < ExecutionFailed" "Healthy < CompensationFailed" "Degraded < CompensationFailed"
  "\<not> ExecutionFailed \<le> Degraded" "\<not> CompensationFailed \<le> ExecutionFailed"
  "\<not> CompensationFailed \<le> Degraded"
  by (simp_all add: less_condition_def less_eq_condition_def)

section \<open>The status and the journal entry\<close>

record run_status =
  st_phase :: phase
  st_condition :: condition
  st_reason :: reason
  st_message :: string

definition run_status_string :: "run_status \<Rightarrow> string" where
  "run_status_string r =
     (let head = string_of_phase (phase_code (st_phase r)) @ ''/''
                 @ string_of_condition (condition_code (st_condition r))
      in if st_message r = [] then head else head @ '': '' @ st_message r)"

text \<open>
  The journal entry \<open>RunStatusTransition\<close>; its timestamp \<open>At\<close> is left out, the order of
  the journal standing for it.
\<close>

record transition =
  tr_phase :: phase
  tr_condition :: condition
  tr_unit_id :: string
  tr_reason :: reason
  tr_message :: string

lemma string_of_phase_inj: "string_of_phase (phase_code a) = string_of_phase (phase_code b) \<longleftrightarrow> a = b"
  by (cases a; cases b) (simp_all add: string_of_phase_def enum_string_def phase_names_def)

lemma string_of_condition_inj:
  "string_of_condition (condition_code a) = string_of_condition (condition_code b) \<longleftrightarrow> a = b"
  by (cases a; cases b) (simp_all add: string_of_condition_def enum_string_def condition_names_def)

lemma string_of_phase_no_slash: "CHR ''/'' \<notin> set (string_of_phase (phase_code a))"
  by (cases a) (simp_all add: string_of_phase_def enum_string_def phase_names_def)

lemma string_of_condition_no_colon: "CHR '':'' \<notin> set (string_of_condition (condition_code a))"
  by (cases a) (simp_all add: string_of_condition_def enum_string_def condition_names_def)

section \<open>Properties\<close>

lemma status_head_inj:
  assumes "string_of_phase (phase_code p) @ ''/'' @ string_of_condition (condition_code c) @ m
         = string_of_phase (phase_code p') @ ''/'' @ string_of_condition (condition_code c') @ m'"
  shows "p = p'" and "string_of_condition (condition_code c) @ m
         = string_of_condition (condition_code c') @ m'"
proof -
  from assms have "cut (string_of_phase (phase_code p) @ CHR ''/'' # string_of_condition (condition_code c) @ m) (CHR ''/'')
      = cut (string_of_phase (phase_code p') @ CHR ''/'' # string_of_condition (condition_code c') @ m') (CHR ''/'')"
    by simp
  then show "p = p'" and "string_of_condition (condition_code c) @ m
         = string_of_condition (condition_code c') @ m'"
    by (simp_all add: cut_append string_of_phase_no_slash string_of_phase_inj)
qed

lemma status_tail_inj:
  assumes "string_of_condition (condition_code c) @ CHR '':'' # m
         = string_of_condition (condition_code c') @ CHR '':'' # m'"
  shows "c = c' \<and> m = m'"
proof -
  from assms have "cut (string_of_condition (condition_code c) @ CHR '':'' # m) (CHR '':'')
      = cut (string_of_condition (condition_code c') @ CHR '':'' # m') (CHR '':'')"
    by simp
  then show ?thesis
    by (simp add: cut_append string_of_condition_no_colon string_of_condition_inj)
qed

lemma status_tail_cross:
  "string_of_condition (condition_code c) \<noteq> string_of_condition (condition_code c') @ CHR '':'' # m'"
  using string_of_condition_no_colon [of c] by (metis in_set_conv_decomp)

text \<open>The text codecs of the three status enumerations are exact: an integer marshals to
  a name if and only if that name unmarshals to the same integer, for the condition, the
  phase and the reason, so no value is lost or confused in a JSON or YAML document.\<close>

theorem status_codecs_exact:
  "(marshal_condition c = Inr n \<longleftrightarrow> unmarshal_condition n = Inr c)
   \<and> (marshal_phase c = Inr n \<longleftrightarrow> unmarshal_phase n = Inr c)
   \<and> (marshal_reason c = Inr n \<longleftrightarrow> unmarshal_reason n = Inr c)"
  by (simp add: condition_codec.codec_iff phase_codec.codec_iff reason_codec.codec_iff)

end
