(* ===== verification/Policies.thy ===== *)
theory Policies
  imports Run_State "HOL-Library.Word"
begin

text \<open>
  The run policies of \<open>pkg/op\<close>: \<open>RetryPolicy\<close> with its backoff curve
  (\<open>retry_policy.go\<close>), the \<open>TransitionPolicy\<close> and its reactions with the built-in floor
  (\<open>policies_config.go\<close>), and \<open>MissingResourcePolicy\<close> (\<open>missing_resource_policy.go\<close>).

  A \<open>time.Duration\<close> is a signed 64-bit integer and is kept as a \<open>64 word\<close> read by \<open>sint\<close>, so
  the products of the backoff curve wrap as they do in Go. \<open>time.ParseDuration\<close> is the
  argument \<open>parse\<close> (\<open>None\<close> for its error) and \<open>rand.Int64N\<close> the argument \<open>draw\<close>: what is
  proved holds for every parser, and for every generator that returns a value in \<open>[0, n)\<close>.
\<close>

section \<open>Retry\<close>

type_synonym duration = "64 word"

text \<open>\<open>BackoffStrategy\<close> is a string type; only three of its values have a meaning.\<close>

type_synonym backoff_strategy = string

definition backoff_none :: backoff_strategy where "backoff_none = ''none''"
definition backoff_linear :: backoff_strategy where "backoff_linear = ''linear''"
definition backoff_exponential :: backoff_strategy where "backoff_exponential = ''exponential''"

lemmas backoff_defs = backoff_none_def backoff_linear_def backoff_exponential_def

record retry_policy =
  max_attempts :: int
  backoff :: backoff_strategy
  initial_delay :: string
  max_delay :: string
  jitter :: bool

definition parse_initial_delay :: "(string \<Rightarrow> duration option) \<Rightarrow> retry_policy \<Rightarrow> duration" where
  "parse_initial_delay parse r =
     (if initial_delay r = [] then 0
      else (case parse (initial_delay r) of None \<Rightarrow> 0 | Some d \<Rightarrow> d))"

definition parse_max_delay :: "(string \<Rightarrow> duration option) \<Rightarrow> retry_policy \<Rightarrow> duration" where
  "parse_max_delay parse r =
     (if max_delay r = [] then 0
      else (case parse (max_delay r) of None \<Rightarrow> 0 | Some d \<Rightarrow> d))"

text \<open>\<open>for i := 0; i < attempt; i++ { delay *= 2 }\<close>.\<close>

fun double_times :: "nat \<Rightarrow> duration \<Rightarrow> duration" where
  "double_times 0 delay = delay"
| "double_times (Suc n) delay = double_times n (delay * 2)"

definition backoff_curve :: "retry_policy \<Rightarrow> duration \<Rightarrow> int \<Rightarrow> duration" where
  "backoff_curve r initial attempt =
     (if backoff r = backoff_none then initial
      else if backoff r = backoff_linear then initial * word_of_int (attempt + 1)
      else if backoff r = backoff_exponential then double_times (nat attempt) initial
      else initial)"

definition cap_delay :: "duration \<Rightarrow> duration \<Rightarrow> duration" where
  "cap_delay limit delay = (if 0 <s limit \<and> limit <s delay then limit else delay)"

text \<open>
  \<open>ComputeDelay\<close>. \<open>rand.Int64N\<close> panics on a non-positive bound, which \<open>delay + 1\<close> is when
  the delay is the largest duration: the result is then \<open>None\<close>.
\<close>

definition compute_delay ::
  "(string \<Rightarrow> duration option) \<Rightarrow> (duration \<Rightarrow> duration) \<Rightarrow> retry_policy \<Rightarrow> int \<Rightarrow> duration option"
where
  "compute_delay parse draw r attempt =
     (let initial = parse_initial_delay parse r in
      if initial = 0 then Some 0
      else
        let delay = cap_delay (parse_max_delay parse r) (backoff_curve r initial attempt) in
        if jitter r \<and> 0 <s delay then
          (if 0 <s delay + 1 then Some (draw (delay + 1)) else None)
        else Some delay)"

section \<open>Reactions\<close>

datatype reaction = ReactionContinue | ReactionPause | ReactionStop

primrec reaction_code :: "reaction \<Rightarrow> int" where
  "reaction_code ReactionContinue = 0"
| "reaction_code ReactionPause = 1"
| "reaction_code ReactionStop = 2"

definition reaction_names :: "string list" where
  "reaction_names = [''continue'', ''pause'', ''stop'']"

definition marshal_reaction :: "int \<Rightarrow> (codec_error, string) result" where
  "marshal_reaction = enum_marshal ''op.Reaction'' reaction_names"

definition string_of_reaction :: "int \<Rightarrow> string" where
  "string_of_reaction = enum_string ''Reaction'' reaction_names"

definition unmarshal_reaction :: "string \<Rightarrow> (codec_error, int) result" where
  "unmarshal_reaction = enum_unmarshal ''op.Reaction'' reaction_names"

interpretation reaction_codec:
  text_codec marshal_reaction unmarshal_reaction "\<lambda>c. 0 \<le> c \<and> c < 3"
proof -
  have "distinct reaction_names" by (simp add: reaction_names_def)
  from enum_text_codec [OF this, of "''op.Reaction''"]
  show "text_codec marshal_reaction unmarshal_reaction (\<lambda>c. 0 \<le> c \<and> c < 3)"
    by (simp add: marshal_reaction_def unmarshal_reaction_def reaction_names_def)
qed

text \<open>A stronger pending reaction replaces a weaker one: reactions are ordered by their integer.\<close>

lemma reaction_code_inj: "reaction_code a = reaction_code b \<longleftrightarrow> a = b"
  by (cases a; cases b) simp_all

instantiation reaction :: linorder
begin

definition less_eq_reaction :: "reaction \<Rightarrow> reaction \<Rightarrow> bool" where
  "less_eq_reaction a b = (reaction_code a \<le> reaction_code b)"

definition less_reaction :: "reaction \<Rightarrow> reaction \<Rightarrow> bool" where
  "less_reaction a b = (reaction_code a < reaction_code b)"

instance
  by intro_classes (auto simp: less_eq_reaction_def less_reaction_def reaction_code_inj)

end

datatype policy_error = CompensationFailedMayNotContinue | UnknownMissingPolicy string

record transition_policy =
  on_degraded :: reaction
  on_execution_failed :: reaction
  on_compensation_failed :: reaction

definition reaction_for :: "transition_policy \<Rightarrow> condition \<Rightarrow> reaction" where
  "reaction_for p c =
     (case c of
        Degraded \<Rightarrow> on_degraded p
      | ExecutionFailed \<Rightarrow> on_execution_failed p
      | CompensationFailed \<Rightarrow> on_compensation_failed p
      | Healthy \<Rightarrow> ReactionContinue)"

definition validate_transition_policy :: "transition_policy \<Rightarrow> (policy_error, unit) result" where
  "validate_transition_policy p =
     (if on_compensation_failed p = ReactionContinue
      then Inl CompensationFailedMayNotContinue
      else Inr ())"

record policies_config =
  pc_retry :: retry_policy
  pc_transition :: transition_policy

definition new_policies_config :: policies_config where
  "new_policies_config =
     \<lparr>pc_retry = \<lparr>max_attempts = 3, backoff = backoff_exponential, initial_delay = ''1s'',
                  max_delay = ''30s'', jitter = True\<rparr>,
      pc_transition = \<lparr>on_degraded = ReactionContinue, on_execution_failed = ReactionStop,
                       on_compensation_failed = ReactionStop\<rparr>\<rparr>"

definition validate_policies_config :: "policies_config \<Rightarrow> (policy_error, unit) result" where
  "validate_policies_config c = validate_transition_policy (pc_transition c)"

section \<open>Missing resources\<close>

datatype missing_resource_policy = MissingStop | MissingIgnore

definition missing_policy_code :: "missing_resource_policy \<Rightarrow> int" where
  "missing_policy_code p = (case p of MissingStop \<Rightarrow> 0 | MissingIgnore \<Rightarrow> 1)"

text \<open>
  \<open>String\<close> panics (\<open>None\<close>) on an integer that is neither constant; \<open>MarshalJSON\<close> and
  \<open>MarshalYAML\<close> render its result.
\<close>

definition missing_policy_string :: "int \<Rightarrow> string option" where
  "missing_policy_string p =
     (if p = 0 then Some ''stop'' else if p = 1 then Some ''ignore'' else None)"

definition parse_missing_policy :: "string \<Rightarrow> (policy_error, missing_resource_policy) result" where
  "parse_missing_policy name =
     (if name = ''stop'' then Inr MissingStop
      else if name = ''ignore'' then Inr MissingIgnore
      else Inl (UnknownMissingPolicy name))"

section \<open>Properties of the backoff\<close>

lemma double_times_word: "double_times n d = d * 2 ^ n"
  by (induction n arbitrary: d) (simp_all add: mult.assoc)

lemma sint_cap_le:
  assumes "0 <s limit"
  shows "sint (cap_delay limit d) \<le> sint limit"
  using assms by (auto simp: cap_delay_def word_sless_alt)

lemma sint_in_range:
  "- (2 ^ 63) \<le> i \<Longrightarrow> i < 2 ^ 63 \<Longrightarrow> sint (word_of_int i :: duration) = i"
  by (simp add: sint_sbintrunc' signed_take_bit_int_eq_self)

lemma duration_range:
  fixes d :: duration
  shows "- (2 ^ 63) \<le> sint d" and "sint d < 2 ^ 63"
  using sint_ge [of d] sint_lt [of d] by simp_all

lemma sint_plus_one:
  fixes d :: duration
  assumes "0 \<le> sint d" and "sint d < 2 ^ 63 - 1"
  shows "sint (d + 1) = sint d + 1"
proof -
  have "d + 1 = word_of_int (sint d + 1)" by simp
  with assms show ?thesis using sint_in_range [of "sint d + 1"] by simp
qed

lemma sint_times:
  fixes d :: duration
  assumes "0 \<le> sint d * k" and "sint d * k < 2 ^ 63"
  shows "sint (d * word_of_int k) = sint d * k"
proof -
  have "d * word_of_int k = word_of_int (sint d * k)" by simp
  with assms show ?thesis using sint_in_range [of "sint d * k"] by simp
qed

text \<open>The backoff curve over the integers, without the machine's wrap-around.\<close>

definition ideal_backoff :: "retry_policy \<Rightarrow> int \<Rightarrow> nat \<Rightarrow> int" where
  "ideal_backoff r initial attempt =
     (if backoff r = backoff_linear then initial * (int attempt + 1)
      else if backoff r = backoff_exponential then initial * 2 ^ attempt
      else initial)"

definition ideal_delay :: "retry_policy \<Rightarrow> int \<Rightarrow> int \<Rightarrow> nat \<Rightarrow> int" where
  "ideal_delay r initial limit attempt =
     (if 0 < limit then min limit (ideal_backoff r initial attempt)
      else ideal_backoff r initial attempt)"

lemma backoff_curve_ideal:
  assumes "0 < sint initial" and "ideal_backoff r (sint initial) attempt < 2 ^ 63"
  shows "sint (backoff_curve r initial (int attempt)) = ideal_backoff r (sint initial) attempt"
proof -
  have two: "(2::duration) ^ n = word_of_int (2 ^ n)" for n
    by simp
  show ?thesis
    using assms sint_times [of initial "int attempt + 1"] sint_times [of initial "2 ^ attempt"]
    by (auto simp: backoff_curve_def ideal_backoff_def backoff_defs double_times_word two
        simp del: of_int_power of_int_add split: if_splits)
qed

lemma ideal_backoff_pos: "0 < i \<Longrightarrow> 0 < ideal_backoff r i n"
  by (simp add: ideal_backoff_def)

lemma cap_delay_ideal:
  assumes "0 < sint initial" and "ideal_backoff r (sint initial) attempt < 2 ^ 63"
  shows "sint (cap_delay limit (backoff_curve r initial (int attempt)))
       = ideal_delay r (sint initial) (sint limit) attempt"
  using backoff_curve_ideal [OF assms]
  by (auto simp: cap_delay_def ideal_delay_def word_sless_alt min_def)

text \<open>A positive MaxDelay bounds every wait: when the cap is a positive duration below the
  largest one and the generator draws from its window, ComputeDelay returns (the draw cannot
  panic) and its result never exceeds the cap, whatever the strategy, the attempt and the
  overflow of the curve.\<close>

theorem compute_delay_capped:
  assumes "0 < sint (parse_max_delay parse r)" "sint (parse_max_delay parse r) < 2 ^ 63 - 1"
    and draw: "\<And>n. 0 < sint n \<Longrightarrow> 0 \<le> sint (draw n) \<and> sint (draw n) < sint n"
  shows "\<exists>d. compute_delay parse draw r attempt = Some d
             \<and> sint d \<le> sint (parse_max_delay parse r)"
proof -
  let ?limit = "parse_max_delay parse r"
  let ?d = "cap_delay ?limit (backoff_curve r (parse_initial_delay parse r) attempt)"
  have le: "sint ?d \<le> sint ?limit"
    using assms(1) by (intro sint_cap_le) (simp add: word_sless_alt)
  have plus: "sint (?d + 1) = sint ?d + 1" if "0 < sint ?d"
    using that le assms(2) by (intro sint_plus_one) simp_all
  have drawn: "sint (draw (?d + 1)) \<le> sint ?limit" if "0 < sint ?d"
    using plus [OF that] draw [of "?d + 1"] that le by simp
  show ?thesis
    using le plus drawn assms(1) by (auto simp: compute_delay_def Let_def word_sless_alt)
qed

lemma compute_delay_capped_witness:
  "let parse = (\<lambda>s. if s = ''1s'' then Some 1000000000 else if s = ''30s'' then Some 30000000000 else None);
       r = pc_retry new_policies_config
   in \<exists>d. compute_delay parse (\<lambda>n. 0) r 7 = Some d \<and> sint d \<le> sint (parse_max_delay parse r)"
  using compute_delay_capped
    [of "\<lambda>s. if s = ''1s'' then Some 1000000000 else if s = ''30s'' then Some 30000000000 else None"
        "pc_retry new_policies_config" "\<lambda>n. 0" 7]
  by (simp add: parse_max_delay_def new_policies_config_def)

text \<open>While the curve stays inside the 64-bit range the delay is the documented one: initial,
  initial times (attempt + 1), or initial doubled attempt times, cut at a positive MaxDelay;
  with jitter it is a value between zero and that ceiling.\<close>

theorem compute_delay_exact:
  fixes attempt :: nat
  assumes "0 < sint (parse_initial_delay parse r)"
    and "ideal_backoff r (sint (parse_initial_delay parse r)) attempt < 2 ^ 63 - 1"
    and draw: "\<And>n. 0 < sint n \<Longrightarrow> 0 \<le> sint (draw n) \<and> sint (draw n) < sint n"
  shows "\<exists>d. compute_delay parse draw r (int attempt) = Some d
     \<and> (let ceiling = ideal_delay r (sint (parse_initial_delay parse r))
                        (sint (parse_max_delay parse r)) attempt
        in if jitter r then 0 \<le> sint d \<and> sint d \<le> ceiling else sint d = ceiling)"
proof -
  let ?initial = "parse_initial_delay parse r"
  let ?limit = "parse_max_delay parse r"
  let ?ceiling = "ideal_delay r (sint ?initial) (sint ?limit) attempt"
  let ?d = "cap_delay ?limit (backoff_curve r ?initial (int attempt))"
  have d: "sint ?d = ?ceiling"
    using assms(1,2) by (intro cap_delay_ideal) simp_all
  have pos: "0 < ?ceiling" and bound: "?ceiling < 2 ^ 63 - 1"
    using assms(1,2) ideal_backoff_pos [OF assms(1), of r attempt]
    by (auto simp: ideal_delay_def)
  have plus: "sint (?d + 1) = ?ceiling + 1"
    using sint_plus_one [of ?d] d pos bound by simp
  have nz: "?initial \<noteq> 0"
    using assms(1) by auto
  show ?thesis
    using d pos plus nz draw [of "?d + 1"]
    by (auto simp: compute_delay_def Let_def word_sless_alt)
qed

lemma compute_delay_exact_witness:
  "let parse = (\<lambda>s. if s = ''1s'' then Some 1000000000 else if s = ''30s'' then Some 30000000000 else None);
       r = (pc_retry new_policies_config)\<lparr>jitter := False\<rparr>
   in \<exists>d. compute_delay parse (\<lambda>n. 0) r 2 = Some d \<and> sint d = 4000000000"
  using compute_delay_exact
    [of "\<lambda>s. if s = ''1s'' then Some 1000000000 else if s = ''30s'' then Some 30000000000 else None"
        "(pc_retry new_policies_config)\<lparr>jitter := False\<rparr>" 2 "\<lambda>n. 0"]
  by (simp add: parse_max_delay_def parse_initial_delay_def new_policies_config_def
      ideal_delay_def ideal_backoff_def backoff_defs)

lemma wrapped_delays:
  "(17179869184000000000 :: duration) = word_of_int (- 1266874889709551616)"
  "(36028797018963968000000000 :: duration) = 0"
  by (simp_all add: unsigned_numeral take_bit_eq_mod flip: word_uint_eq_iff word_of_int_eq_iff)

text \<open>The exponential curve is not guarded against overflow: under the built-in policy (one
  second, capped at thirty) the delay before attempt 34 wraps to a negative duration and the
  delay before attempt 55 to zero, so the cap is passed over and no wait happens.\<close>

theorem compute_delay_overflow:
  assumes "parse ''1s'' = Some 1000000000" and "parse ''30s'' = Some 30000000000"
  shows "(\<exists>d. compute_delay parse draw (pc_retry new_policies_config) 34 = Some d \<and> sint d < 0)
       \<and> compute_delay parse draw (pc_retry new_policies_config) 55 = Some 0"
  using assms sint_in_range [of "- 1266874889709551616"]
  by (simp add: compute_delay_def parse_initial_delay_def parse_max_delay_def
      new_policies_config_def backoff_curve_def backoff_defs double_times_word cap_delay_def
      wrapped_delays word_sless_alt)

lemma compute_delay_overflow_witness:
  "compute_delay (\<lambda>s. if s = ''1s'' then Some 1000000000 else Some 30000000000) (\<lambda>n. n)
     (pc_retry new_policies_config) 55 = Some 0"
  using compute_delay_overflow [of "\<lambda>s. if s = ''1s'' then Some 1000000000 else Some 30000000000" "\<lambda>n. n"]
  by simp

end
