(* ===== verification/Errors.thy ===== *)
theory Errors
  imports Run_State
begin

text \<open>
  Go errors as values. Leaves are the sentinels the engine compares with
  (\<open>op.ErrPaused\<close>, \<open>op.ErrStopped\<close>, \<open>op.ErrClaimKindMismatch\<close>, the two errors of a
  \<open>context\<close>), those the file provider compares with (\<open>os.ErrNotExist\<close>, \<open>syscall.ENOTEMPTY\<close>,
  \<open>errConflictSkip\<close>, \<open>op.ErrRecoverySourceNotFound\<close>) and \<open>errors.New\<close>;
  \<open>EWrap\<close> is \<open>fmt.Errorf\<close> with its literal parts and its \<open>%w\<close> operands in order,
  \<open>EJoin\<close> is \<open>errors.Join\<close>, and \<open>EFail\<close> is the engine's own \<open>dispatchFailure\<close>
  (\<open>pkg/op/graph_executor.go\<close>): the reason, whether it bypasses retry and handlers, and
  the cause.
\<close>

datatype gerror =
    ErrPaused
  | ErrStopped
  | ErrCanceled
  | ErrDeadlineExceeded
  | ErrClaimKindMismatch
  | ErrNotExist
  | ErrNotEmpty
  | ErrConflictSkip
  | ErrRecoverySourceNotFound
  | ENew string
  | EWrap "(string + gerror) list"
  | EJoin "gerror list"
  | EFail reason bool gerror

definition wrapf :: "string \<Rightarrow> gerror \<Rightarrow> gerror" where
  "wrapf p e = EWrap [Inl p, Inr e]"

text \<open>\<open>errors.Join\<close> drops nil errors and is nil when nothing is left.\<close>

definition join_errors :: "gerror list \<Rightarrow> gerror option" where
  "join_errors es = (if es = [] then None else Some (EJoin es))"

fun error_text :: "gerror \<Rightarrow> string" where
  "error_text ErrPaused = ''execution paused''"
| "error_text ErrStopped = ''execution stopped''"
| "error_text ErrCanceled = ''context canceled''"
| "error_text ErrDeadlineExceeded = ''context deadline exceeded''"
| "error_text ErrClaimKindMismatch = ''claim asserts a different kind than the path holds''"
| "error_text ErrNotExist = ''file does not exist''"
| "error_text ErrNotEmpty = ''directory not empty''"
| "error_text ErrConflictSkip = ''conflict policy skip: occupied target left untouched''"
| "error_text ErrRecoverySourceNotFound = ''recovery source not found''"
| "error_text (ENew s) = s"
| "error_text (EWrap ps) =
     concat (map (\<lambda>p. case p of Inl s \<Rightarrow> s | Inr e \<Rightarrow> error_text e) ps)"
| "error_text (EJoin es) = join_with [CHR 0x0A] (map error_text es)"
| "error_text (EFail r b e) = error_text e"

text \<open>\<open>errors.Is\<close> against a sentinel: the error itself, then every error it wraps.\<close>

fun err_is :: "gerror \<Rightarrow> gerror \<Rightarrow> bool" where
  "err_is target (EWrap ps) =
     (EWrap ps = target \<or> (\<exists>p \<in> set ps. case p of Inl s \<Rightarrow> False | Inr e \<Rightarrow> err_is target e))"
| "err_is target (EJoin es) = (EJoin es = target \<or> (\<exists>e \<in> set es. err_is target e))"
| "err_is target (EFail r b e) = (EFail r b e = target \<or> err_is target e)"
| "err_is target e = (e = target)"

text \<open>
  \<open>errors.As\<close> for \<open>*dispatchFailure\<close>: the first one in a depth-first walk, as its reason
  and its bypass flag.
\<close>

fun first_some :: "'a option list \<Rightarrow> 'a option" where
  "first_some [] = None"
| "first_some (None # xs) = first_some xs"
| "first_some (Some x # xs) = Some x"

lemma first_some_in: "first_some xs = Some x \<Longrightarrow> Some x \<in> set xs"
  by (induction xs rule: first_some.induct) auto

lemma first_some_None: "first_some xs = None \<longleftrightarrow> (\<forall>x \<in> set xs. x = None)"
  by (induction xs rule: first_some.induct) auto

fun dispatch_failure :: "gerror \<Rightarrow> (reason \<times> bool) option" where
  "dispatch_failure (EFail r b e) = Some (r, b)"
| "dispatch_failure (EWrap ps) =
     first_some (map (\<lambda>p. case p of Inl s \<Rightarrow> None | Inr e \<Rightarrow> dispatch_failure e) ps)"
| "dispatch_failure (EJoin es) = first_some (map dispatch_failure es)"
| "dispatch_failure e = None"

definition failure_reason :: "gerror \<Rightarrow> reason" where
  "failure_reason e =
     (case dispatch_failure e of Some (r, b) \<Rightarrow> r | None \<Rightarrow> ReasonActionFailed)"

definition standing_failure :: "reason \<Rightarrow> gerror \<Rightarrow> gerror" where
  "standing_failure base cause =
     (case dispatch_failure cause of Some _ \<Rightarrow> cause | None \<Rightarrow> EFail base False cause)"

definition condition_for_reason :: "reason \<Rightarrow> condition" where
  "condition_for_reason r =
     (case r of
        ReasonDegraded \<Rightarrow> Degraded
      | ReasonCompensationFailed \<Rightarrow> CompensationFailed
      | _ \<Rightarrow> ExecutionFailed)"

definition is_hard_failure :: "gerror \<Rightarrow> bool" where
  "is_hard_failure e = (case dispatch_failure e of Some (r, b) \<Rightarrow> b | None \<Rightarrow> False)"

lemma err_is_wrapf [simp]: "err_is ErrPaused (wrapf p e) = err_is ErrPaused e"
  "err_is ErrStopped (wrapf p e) = err_is ErrStopped e"
  by (simp_all add: wrapf_def)

lemma dispatch_failure_wrapf [simp]: "dispatch_failure (wrapf p e) = dispatch_failure e"
  by (cases "dispatch_failure e") (simp_all add: wrapf_def)

lemma is_hard_failure_wrapf [simp]: "is_hard_failure (wrapf p e) = is_hard_failure e"
  by (simp add: is_hard_failure_def)

lemma failure_reason_wrapf [simp]: "failure_reason (wrapf p e) = failure_reason e"
  by (simp add: failure_reason_def)

lemma error_text_wrapf [simp]: "error_text (wrapf p e) = p @ error_text e"
  by (simp add: wrapf_def)

lemma standing_failure_has_reason:
  "\<exists>r b. dispatch_failure (standing_failure base cause) = Some (r, b)"
  by (auto simp: standing_failure_def split: option.splits)

lemma standing_failure_idem [simp]:
  "standing_failure r' (standing_failure r e) = standing_failure r e"
  using standing_failure_has_reason [of r e]
  by (auto simp: standing_failure_def split: option.splits)

lemma is_hard_standing [simp]: "is_hard_failure (standing_failure r e) = is_hard_failure e"
  by (auto simp: standing_failure_def is_hard_failure_def split: option.splits)

lemma err_is_standing [simp]: "err_is ErrPaused (standing_failure r e) = err_is ErrPaused e"
  "err_is ErrStopped (standing_failure r e) = err_is ErrStopped e"
  by (auto simp: standing_failure_def split: option.splits)

lemma failure_reason_standing:
  "failure_reason (standing_failure r e)
     = (case dispatch_failure e of Some _ \<Rightarrow> failure_reason e | None \<Rightarrow> r)"
  by (auto simp: standing_failure_def failure_reason_def split: option.splits)

lemma join_errors_None [simp]: "join_errors es = None \<longleftrightarrow> es = []"
  by (simp add: join_errors_def)

end
