(* ===== verification/Values.thy ===== *)
theory Values
  imports Prelude "HOL-Library.Word"
begin

text \<open>
  Go values as the engine passes them (\<open>any\<close>), and \<open>IsTruthy\<close> of
  \<open>pkg/op/truthiness.go\<close>, which routes decision nodes, polls and handler verdicts.
\<close>

section \<open>Dynamic values\<close>

datatype ref_kind = KChan | KFunc | KPointer | KUnsafePointer

text \<open>
  \<open>VInt\<close> is any of the ten built-in integer types \<open>numericTruthy\<close> lists; floats are their
  IEEE bits. \<open>VJSONNumber s i f\<close> is the \<open>json.Number\<close> \<open>s\<close> with what its two accessors return:
  \<open>i\<close> is the result of \<open>Int64()\<close> and \<open>f\<close> whether the result of \<open>Float64()\<close> is non-zero,
  \<open>None\<close> where the accessor errs. A nil slice or map is \<open>None\<close>. \<open>VNamed t v\<close> is a value of
  the defined type \<open>t\<close> whose underlying value is \<open>v\<close>; \<open>VIface v\<close> is a non-nil interface held
  in a struct field; \<open>VStruct t fs\<close> has the non-blank fields \<open>fs\<close>.
\<close>

datatype gvalue =
    VNil
  | VBool bool
  | VStr string
  | VInt int
  | VUintptr nat
  | VFloat32 "32 word"
  | VFloat64 "64 word"
  | VComplex "64 word" "64 word"
  | VJSONNumber string "int option" "bool option"
  | VSlice "gvalue list option"
  | VArray "gvalue list"
  | VMap "(string \<times> gvalue) list option"
  | VRef ref_kind "nat option"
  | VStruct string "(string \<times> gvalue) list"
  | VNamed string gvalue
  | VIface gvalue

text \<open>A float is zero when every bit but the sign is.\<close>

definition float32_zero :: "32 word \<Rightarrow> bool" where
  "float32_zero w = (w = 0 \<or> w = 0x80000000)"

definition float64_zero :: "64 word \<Rightarrow> bool" where
  "float64_zero w = (w = 0 \<or> w = 0x8000000000000000)"

text \<open>\<open>reflect.Value.IsZero\<close>.\<close>

fun is_zero :: "gvalue \<Rightarrow> bool" where
  "is_zero VNil = True"
| "is_zero (VBool b) = (\<not> b)"
| "is_zero (VStr s) = (s = [])"
| "is_zero (VInt i) = (i = 0)"
| "is_zero (VUintptr n) = (n = 0)"
| "is_zero (VFloat32 w) = float32_zero w"
| "is_zero (VFloat64 w) = float64_zero w"
| "is_zero (VComplex re im) = (float64_zero re \<and> float64_zero im)"
| "is_zero (VJSONNumber s i f) = (s = [])"
| "is_zero (VSlice vs) = (vs = None)"
| "is_zero (VArray vs) = (\<forall>v \<in> set vs. is_zero v)"
| "is_zero (VMap m) = (m = None)"
| "is_zero (VRef k r) = (r = None)"
| "is_zero (VStruct t fs) = (\<forall>f \<in> set fs. is_zero (snd f))"
| "is_zero (VNamed t v) = is_zero v"
| "is_zero (VIface v) = False"

section \<open>Truthiness\<close>

definition number_truthy :: "int option \<Rightarrow> bool option \<Rightarrow> bool \<times> bool" where
  "number_truthy i f =
     (case i of
        Some n \<Rightarrow> (n \<noteq> 0, True)
      | None \<Rightarrow> (case f of Some nonzero \<Rightarrow> (nonzero, True) | None \<Rightarrow> (False, False)))"

definition numeric_truthy :: "gvalue \<Rightarrow> bool \<times> bool" where
  "numeric_truthy v =
     (case v of
        VInt n \<Rightarrow> (n \<noteq> 0, True)
      | VFloat32 w \<Rightarrow> (\<not> float32_zero w, True)
      | VFloat64 w \<Rightarrow> (\<not> float64_zero w, True)
      | _ \<Rightarrow> (False, False))"

definition scalar_truthy :: "gvalue \<Rightarrow> bool \<times> bool" where
  "scalar_truthy v =
     (case v of
        VBool b \<Rightarrow> (b, True)
      | VStr s \<Rightarrow> (s \<noteq> [], True)
      | VJSONNumber s i f \<Rightarrow> number_truthy i f
      | _ \<Rightarrow> numeric_truthy v)"

text \<open>The \<open>reflect.Kind\<close> switch: a defined type has the kind of its underlying value.\<close>

fun kind_truthy :: "gvalue \<Rightarrow> bool" where
  "kind_truthy (VArray vs) = (vs \<noteq> [])"
| "kind_truthy (VMap m) = (case m of None \<Rightarrow> False | Some kvs \<Rightarrow> kvs \<noteq> [])"
| "kind_truthy (VSlice vs) = (case vs of None \<Rightarrow> False | Some xs \<Rightarrow> xs \<noteq> [])"
| "kind_truthy (VRef k r) = (r \<noteq> None)"
| "kind_truthy (VStruct t fs) = (\<not> is_zero (VStruct t fs))"
| "kind_truthy (VNamed t v) = kind_truthy v"
| "kind_truthy v = True"

definition is_truthy :: "gvalue \<Rightarrow> bool" where
  "is_truthy v =
     (if v = VNil then False
      else (case scalar_truthy v of (truthy, is_scalar) \<Rightarrow>
        if is_scalar then truthy else kind_truthy v))"

lemmas truthy_defs = is_truthy_def scalar_truthy_def numeric_truthy_def number_truthy_def

lemma is_truthy_simps [simp]:
  "is_truthy VNil = False"
  "is_truthy (VBool b) = b"
  "is_truthy (VStr s) = (s \<noteq> [])"
  "is_truthy (VInt i) = (i \<noteq> 0)"
  by (simp_all add: truthy_defs)

end
