(* ===== verification/Recovery_Stack.thy ===== *)
theory Recovery_Stack
  imports Errors Values
begin

text \<open>
  The recovery stack of \<open>pkg/op/recovery_stack.go\<close> with the receipts of
  \<open>pkg/op/receipt.go\<close> it holds. A stack is a value; the \<open>parent\<close> pointer of the Go struct,
  which is only read (by \<open>ResultByUnitID\<close>), is the list of the enclosing stacks, innermost
  first, that the reader passes. The undo companion an entry's receipt names is the argument
  \<open>undo\<close> of \<open>unwind\<close>: a function on the state of the world it changes.
\<close>

section \<open>Receipts and stacks\<close>

text \<open>
  \<open>ReceiptBase\<close>: a receipt's compensator is nothing, the receipt itself, or a stack. The
  fields of the concrete receipt type that its undo companion reads are \<open>r_payload\<close>. The
  annotations, the attempt history and the resource reference are not modelled.
\<close>

datatype receipt =
    Receipt (r_unit_id: string) (r_forward: string) (r_compensating: string)
      (r_committed: bool) (r_compensator: compensator) (r_err: "gerror option")
      (r_compensation_error: "gerror option") (r_result: gvalue)
      (r_slots: "(string \<times> gvalue) list option") (r_payload: gvalue)
and compensator = NoCompensator | SelfCompensator | StackCompensator rstack
and recovery_entry = EReceipt receipt | EStack rstack
and rstack =
    RStack (entries: "recovery_entry list") (stack_unit_id: string) (stack_result: gvalue)
      (stack_err: "gerror option")

definition new_recovery_stack :: rstack where
  "new_recovery_stack = RStack [] [] VNil None"

definition new_receipt :: "gvalue \<Rightarrow> receipt" where
  "new_receipt payload = Receipt [] [] [] False NoCompensator None None VNil None payload"

fun set_slots :: "(string \<times> gvalue) list option \<Rightarrow> receipt \<Rightarrow> receipt" where
  "set_slots slots (Receipt u f c com k e ce v s p) = Receipt u f c com k e ce v slots p"

fun set_compensation_error :: "gerror \<Rightarrow> receipt \<Rightarrow> receipt" where
  "set_compensation_error err (Receipt u f c com k e ce v s p)
     = Receipt u f c com k e (Some err) v s p"

text \<open>
  \<open>ReceiptBase.Commit\<close>. A second commit does nothing; \<open>mint_err\<close> is the error of
  \<open>uuid.NewV7\<close>, if any; \<open>unit_names\<close> is the forward and the full action name of the unit the activation's
  caller id resolves to, \<open>None\<close> when there is no such unit.
\<close>

definition commit ::
  "gerror option \<Rightarrow> string \<Rightarrow> (string \<times> string) option \<Rightarrow> gvalue \<Rightarrow> compensator \<Rightarrow> gerror option
   \<Rightarrow> receipt \<Rightarrow> receipt \<times> gerror option"
where
  "commit mint_err caller unit_names v k err r =
     (if r_committed r then (r, None)
      else if mint_err \<noteq> None then (r, mint_err)
      else
        let uid = (if caller \<noteq> [] then caller else r_unit_id r);
            names = (if caller \<noteq> [] then unit_names else None);
            fwd = (case names of Some (a, full) \<Rightarrow> a | None \<Rightarrow> r_forward r);
            comp = (case names of
                      Some (a, full) \<Rightarrow> if r_compensating r = [] then full else r_compensating r
                    | None \<Rightarrow> r_compensating r)
        in (Receipt uid fwd comp True k err (r_compensation_error r) v (r_slots r) (r_payload r),
            None))"

section \<open>Operations\<close>

fun set_entries :: "recovery_entry list \<Rightarrow> rstack \<Rightarrow> rstack" where
  "set_entries es (RStack es' u v e) = RStack es u v e"

definition push :: "receipt \<Rightarrow> rstack \<Rightarrow> rstack" where
  "push r s = set_entries (entries s @ [EReceipt r]) s"

definition push_nested :: "rstack \<Rightarrow> rstack \<Rightarrow> rstack" where
  "push_nested child s = set_entries (entries s @ [EStack child]) s"

fun stamp :: "string \<Rightarrow> gvalue \<Rightarrow> gerror option \<Rightarrow> rstack \<Rightarrow> rstack" where
  "stamp u v e (RStack es u' v' e') = RStack es u v e"

definition stack_len :: "rstack \<Rightarrow> nat" where
  "stack_len s = length (entries s)"

definition discard :: "rstack \<Rightarrow> rstack" where
  "discard s = set_entries [] s"

definition receipt_or_nil :: "recovery_entry \<Rightarrow> receipt option" where
  "receipt_or_nil e = (case e of EReceipt r \<Rightarrow> Some r | EStack s \<Rightarrow> None)"

definition stack_or_nil :: "recovery_entry \<Rightarrow> rstack option" where
  "stack_or_nil e = (case e of EReceipt r \<Rightarrow> None | EStack s \<Rightarrow> Some s)"

text \<open>The last entry that satisfies a test: the loops run from the top of the stack down.\<close>

fun find_last :: "('a \<Rightarrow> 'b option) \<Rightarrow> 'a list \<Rightarrow> 'b option" where
  "find_last f [] = None"
| "find_last f (x # xs) = (case find_last f xs of Some y \<Rightarrow> Some y | None \<Rightarrow> f x)"

definition nested_stack_by_unit_id :: "string \<Rightarrow> rstack \<Rightarrow> rstack option" where
  "nested_stack_by_unit_id u s =
     find_last (\<lambda>e. case e of
                  EStack sub \<Rightarrow> if stack_unit_id sub \<noteq> [] \<and> stack_unit_id sub = u then Some sub else None
                | EReceipt r \<Rightarrow> None) (entries s)"

definition receipt_by_unit_id :: "string \<Rightarrow> rstack \<Rightarrow> receipt option" where
  "receipt_by_unit_id u s =
     find_last (\<lambda>e. case e of EReceipt r \<Rightarrow> if r_unit_id r = u then Some r else None
                            | EStack sub \<Rightarrow> None) (entries s)"

definition entry_result :: "string \<Rightarrow> recovery_entry \<Rightarrow> gvalue option" where
  "entry_result u e =
     (case e of
        EReceipt r \<Rightarrow> if r_unit_id r = u then Some (r_result r) else None
      | EStack sub \<Rightarrow> if stack_unit_id sub = u then Some (stack_result sub) else None)"

text \<open>\<open>ResultByUnitID\<close> on the chain of a stack and its ancestors, innermost first.\<close>

fun result_by_unit_id :: "string \<Rightarrow> rstack list \<Rightarrow> gvalue option" where
  "result_by_unit_id u [] = None"
| "result_by_unit_id u (s # parents) =
     (case find_last (entry_result u) (entries s) of
        Some v \<Rightarrow> Some v
      | None \<Rightarrow> result_by_unit_id u parents)"

definition entry_unit_id :: "recovery_entry \<Rightarrow> string" where
  "entry_unit_id e = (case e of EReceipt r \<Rightarrow> r_unit_id r | EStack sub \<Rightarrow> stack_unit_id sub)"

text \<open>\<open>supersede\<close> removes the topmost entry of the unit.\<close>

fun remove_last :: "('a \<Rightarrow> bool) \<Rightarrow> 'a list \<Rightarrow> 'a list" where
  "remove_last P [] = []"
| "remove_last P (x # xs) =
     (if \<exists>y \<in> set xs. P y then x # remove_last P xs else if P x then xs else x # xs)"

definition supersede :: "string \<Rightarrow> rstack \<Rightarrow> rstack" where
  "supersede u s = set_entries (remove_last (\<lambda>e. entry_unit_id e = u) (entries s)) s"

fun receipts :: "rstack \<Rightarrow> receipt list" and entry_receipts :: "recovery_entry \<Rightarrow> receipt list" where
  "receipts (RStack es u v e) = concat (map entry_receipts es)"
| "entry_receipts (EReceipt (Receipt u f c com k e ce v s p)) =
     Receipt u f c com k e ce v s p
     # (case k of StackCompensator child \<Rightarrow> receipts child | _ \<Rightarrow> [])"
| "entry_receipts (EStack s) = receipts s"

section \<open>Unwind\<close>

text \<open>
  \<open>Unwind\<close> walks the entries from the top down and compensates each of them, an entry
  without a compensator apart; a nested stack compensates by unwinding itself. Every error
  is collected in the order it occurred, and a failing receipt keeps it. A clean unwind
  clears the entries, a failed one keeps them all.
\<close>

definition to_compensate :: "recovery_entry \<Rightarrow> bool" where
  "to_compensate e = (case e of EReceipt r \<Rightarrow> r_compensator r \<noteq> NoCompensator | EStack s \<Rightarrow> True)"

fun unwind :: "(receipt \<Rightarrow> 'w \<Rightarrow> 'w \<times> gerror option) \<Rightarrow> rstack \<Rightarrow> 'w
                \<Rightarrow> rstack \<times> 'w \<times> gerror option"
and unwind_entries :: "(receipt \<Rightarrow> 'w \<Rightarrow> 'w \<times> gerror option) \<Rightarrow> recovery_entry list \<Rightarrow> 'w
                \<Rightarrow> recovery_entry list \<times> 'w \<times> gerror list"
and unwind_entry :: "(receipt \<Rightarrow> 'w \<Rightarrow> 'w \<times> gerror option) \<Rightarrow> recovery_entry \<Rightarrow> 'w
                \<Rightarrow> recovery_entry \<times> 'w \<times> gerror list"
where
  "unwind undo (RStack es u v e) w =
     (case unwind_entries undo es w of (es', w', errs) \<Rightarrow>
        (RStack (if errs = [] then [] else es') u v e, w', join_errors errs))"
| "unwind_entries undo [] w = ([], w, [])"
| "unwind_entries undo (x # xs) w =
     (case unwind_entries undo xs w of (xs', w1, errs1) \<Rightarrow>
      case unwind_entry undo x w1 of (x', w2, errs2) \<Rightarrow> (x' # xs', w2, errs1 @ errs2))"
| "unwind_entry undo (EReceipt r) w =
     (if r_compensator r = NoCompensator then (EReceipt r, w, [])
      else (case undo r w of
              (w', None) \<Rightarrow> (EReceipt r, w', [])
            | (w', Some err) \<Rightarrow> (EReceipt (set_compensation_error err r), w', [err])))"
| "unwind_entry undo (EStack s) w =
     (case unwind undo s w of
        (s', w', None) \<Rightarrow> (EStack s', w', [])
      | (s', w', Some err) \<Rightarrow> (EStack s', w', [err]))"

section \<open>The saga contract\<close>

text \<open>
  The reference: the receipts to undo, flattened in the order they were pushed, undone one
  by one from the last to the first whatever each undo answers.
\<close>

fun saga :: "rstack \<Rightarrow> receipt list" and saga_entry :: "recovery_entry \<Rightarrow> receipt list" where
  "saga (RStack es u v e) = concat (map saga_entry es)"
| "saga_entry (EReceipt r) = (if r_compensator r = NoCompensator then [] else [r])"
| "saga_entry (EStack s) = saga s"

fun undo_all :: "(receipt \<Rightarrow> 'w \<Rightarrow> 'w \<times> gerror option) \<Rightarrow> receipt list \<Rightarrow> 'w
                  \<Rightarrow> 'w \<times> (receipt \<times> gerror option) list" where
  "undo_all undo [] w = (w, [])"
| "undo_all undo (r # rs) w =
     (case undo r w of (w', err) \<Rightarrow>
      case undo_all undo rs w' of (w'', log) \<Rightarrow> (w'', (r, err) # log))"

definition log_errors :: "(receipt \<times> gerror option) list \<Rightarrow> gerror list" where
  "log_errors log = List.map_filter snd log"

text \<open>The errors \<open>errors.Join\<close> holds, those of a nested stack's join included.\<close>

fun leaf_errors :: "gerror \<Rightarrow> gerror list" where
  "leaf_errors (EJoin es) = concat (map leaf_errors es)"
| "leaf_errors e = [e]"

abbreviation all_leaf_errors :: "gerror list \<Rightarrow> gerror list" where
  "all_leaf_errors es \<equiv> concat (map leaf_errors es)"

lemma log_errors_simps [simp]:
  "log_errors [] = []"
  "log_errors ((r, None) # log) = log_errors log"
  "log_errors ((r, Some e) # log) = e # log_errors log"
  "log_errors (log @ log') = log_errors log @ log_errors log'"
  by (simp_all add: log_errors_def map_filter_simps List.map_filter_def)

lemma log_errors_member: "(r, Some e) \<in> set log \<Longrightarrow> log_errors log \<noteq> []"
  by (induction log) (auto simp: log_errors_def List.map_filter_def)

lemma undo_all_append:
  "undo_all undo (rs @ ss) w =
     (case undo_all undo rs w of (w', log) \<Rightarrow>
      case undo_all undo ss w' of (w'', log') \<Rightarrow> (w'', log @ log'))"
  by (induction rs arbitrary: w) (auto split: prod.splits)

lemma undo_all_log: "undo_all undo rs w = (w', log) \<Longrightarrow> map fst log = rs"
  by (induction rs arbitrary: w log) (auto split: prod.splits)

text \<open>
  What one unwind of a piece of the stack owes the reference: the same final world, an error
  if and only if some undo failed, the same errors in the same order, and every failed
  receipt still there carrying its error.
\<close>

definition unwound :: "(receipt \<Rightarrow> 'w \<Rightarrow> 'w \<times> gerror option) \<Rightarrow> receipt list \<Rightarrow> 'w
                        \<Rightarrow> receipt list \<Rightarrow> 'w \<Rightarrow> gerror list \<Rightarrow> bool" where
  "unwound undo before w after w' errs \<longleftrightarrow>
     (case undo_all undo (rev before) w of (wr, log) \<Rightarrow>
        w' = wr \<and> (errs = [] \<longleftrightarrow> log_errors log = [])
        \<and> all_leaf_errors errs = all_leaf_errors (log_errors log)
        \<and> (\<forall>(r, err) \<in> set log. \<forall>e. err = Some e \<longrightarrow> set_compensation_error e r \<in> set after))"

lemma unwound_append:
  assumes "unwound undo b w a w1 errs1" and "unwound undo b' w1 a' w2 errs2"
  shows "unwound undo (b' @ b) w (a' @ a) w2 (errs1 @ errs2)"
  using assms by (auto simp: unwound_def undo_all_append split: prod.splits)

lemma r_compensator_set_error [simp]: "r_compensator (set_compensation_error e r) = r_compensator r"
  by (cases r) simp

lemma unwind_parts:
  "\<And>s' w' e. unwind undo s w = (s', w', e) \<Longrightarrow>
     unwound undo (saga s) w (saga s') w' (case e of None \<Rightarrow> [] | Some x \<Rightarrow> [x])"
  "\<And>es' w' errs. unwind_entries undo es w = (es', w', errs) \<Longrightarrow>
     unwound undo (concat (map saga_entry es)) w (concat (map saga_entry es')) w' errs"
  "\<And>x' w' errs. unwind_entry undo x w = (x', w', errs) \<Longrightarrow>
     unwound undo (saga_entry x) w (saga_entry x') w' errs"
proof (induction undo s w and undo es w and undo x w
    rule: unwind_unwind_entries_unwind_entry.induct)
  case (1 undo es u v e w)
  then show ?case
    by (auto simp: unwound_def join_errors_def split: prod.splits option.splits dest: log_errors_member)
next
  case (3 undo x xs w)
  then show ?case
    by (auto split: prod.splits intro!: unwound_append)
next
  case (4 undo r w)
  then show ?case
    by (auto simp: unwound_def split: prod.splits option.splits if_splits)
next
  case (5 undo s w)
  then show ?case
    by (auto split: prod.splits option.splits)
qed (auto simp: unwound_def)

text \<open>C10: Unwind is the saga's compensation: the world it leaves is the one left by undoing every
  compensable receipt of the stack and of its nested stacks exactly once, from the last pushed
  to the first, none skipped because an earlier undo failed; it errs if and only if one of them
  did, and its error joins exactly those errors in that order.\<close>

theorem unwind_refines_saga:
  "case unwind undo s w of (s', w', e) \<Rightarrow>
     case undo_all undo (rev (saga s)) w of (wr, log) \<Rightarrow>
       w' = wr \<and> map fst log = rev (saga s)
       \<and> (e = None \<longleftrightarrow> log_errors log = [])
       \<and> (case e of None \<Rightarrow> True | Some j \<Rightarrow> leaf_errors j = all_leaf_errors (log_errors log))"
proof -
  obtain s' w' e where u: "unwind undo s w = (s', w', e)"
    by (cases "unwind undo s w") auto
  obtain wr log where a: "undo_all undo (rev (saga s)) w = (wr, log)"
    by (cases "undo_all undo (rev (saga s)) w") auto
  show ?thesis
    using unwind_parts(1) [OF u] undo_all_log [OF a]
    by (auto simp: u a unwound_def split: option.splits)
qed

lemma unwind_entries_length:
  "unwind_entries undo es w = (es', w', errs) \<Longrightarrow> length es' = length es"
  by (induction es arbitrary: es' w' errs) (auto split: prod.splits)

text \<open>A clean unwind empties the stack and a failed one keeps every entry, each receipt whose
  undo failed carrying that undo's error, so the record is enough to retry the compensation;
  the identity, the result and the status stamped on the stack never change.\<close>

theorem unwind_retains_failures:
  assumes "unwind undo s w = (s', w', e)"
  shows "stack_unit_id s' = stack_unit_id s \<and> stack_result s' = stack_result s
         \<and> stack_err s' = stack_err s
         \<and> (e = None \<longrightarrow> entries s' = [])
         \<and> (e \<noteq> None \<longrightarrow> stack_len s' = stack_len s)
         \<and> (\<forall>(r, err) \<in> set (snd (undo_all undo (rev (saga s)) w)).
              \<forall>x. err = Some x \<longrightarrow> set_compensation_error x r \<in> set (saga s'))"
proof -
  have keep: "stack_unit_id s' = stack_unit_id s \<and> stack_result s' = stack_result s
      \<and> stack_err s' = stack_err s \<and> (e = None \<longrightarrow> entries s' = [])
      \<and> (e \<noteq> None \<longrightarrow> stack_len s' = stack_len s)"
  proof (cases s)
    case (RStack es u v err)
    obtain es' w1 errs where es: "unwind_entries undo es w = (es', w1, errs)"
      by (cases "unwind_entries undo es w") auto
    from assms RStack es unwind_entries_length [OF es] show ?thesis
      by (cases "errs = []") (auto simp: stack_len_def join_errors_def)
  qed
  have "\<forall>(r, err) \<in> set (snd (undo_all undo (rev (saga s)) w)).
              \<forall>x. err = Some x \<longrightarrow> set_compensation_error x r \<in> set (saga s')"
    using unwind_parts(1) [OF assms] by (auto simp: unwound_def split: prod.splits)
  with keep show ?thesis by blast
qed

lemma unwind_retains_failures_witness:
  "let r = (\<lambda>u. Receipt u [] ''undo'' True SelfCompensator None None VNil None VNil);
       s = RStack [EReceipt (r ''a''), EStack (RStack [EReceipt (r ''b'')] ''sub'' VNil None)] ''top'' VNil None;
       undo = (\<lambda>r w. (w @ [r_unit_id r], if r_unit_id r = ''a'' then Some (ENew ''x'') else None))
   in case unwind undo s [] of (s', w', e) \<Rightarrow>
        w' = [''b'', ''a''] \<and> stack_len s' = 2 \<and> set_compensation_error (ENew ''x'') (r ''a'') \<in> set (saga s')"
  using unwind_retains_failures
    [of "\<lambda>r w. (w @ [r_unit_id r], if r_unit_id r = ''a'' then Some (ENew ''x'') else None)"
        "RStack [EReceipt (Receipt ''a'' [] ''undo'' True SelfCompensator None None VNil None VNil),
                 EStack (RStack [EReceipt (Receipt ''b'' [] ''undo'' True SelfCompensator None None VNil None VNil)]
                           ''sub'' VNil None)] ''top'' VNil None"
        "[]"]
  by (simp add: join_errors_def stack_len_def)

text \<open>What an unwind leaves of an entry: a receipt as it was or with the error of its undo, a nested stack with its
  identity, result and status.\<close>

fun keeps_entry :: "recovery_entry \<Rightarrow> recovery_entry \<Rightarrow> bool" where
  "keeps_entry (EReceipt r) (EReceipt r') \<longleftrightarrow> r' = r \<or> (\<exists>x. r' = set_compensation_error x r)"
| "keeps_entry (EStack s) (EStack s') \<longleftrightarrow>
     stack_unit_id s' = stack_unit_id s \<and> stack_result s' = stack_result s \<and> stack_err s' = stack_err s"
| "keeps_entry x y \<longleftrightarrow> False"

lemma unwind_entry_keeps: "unwind_entry undo x w = (x', w', errs) \<Longrightarrow> keeps_entry x x'"
proof (cases x)
  case (EStack s)
  assume u: "unwind_entry undo x w = (x', w', errs)"
  obtain s1 w1 e1 where "unwind undo s w = (s1, w1, e1)" by (metis prod_cases3)
  with u EStack unwind_retains_failures [of undo s w s1 w1 e1] show ?thesis by (auto split: option.splits)
qed (auto split: if_splits prod.splits option.splits)

lemma unwind_entries_keep: "unwind_entries undo es w = (es', w', errs) \<Longrightarrow> list_all2 keeps_entry es es'"
  by (induction es arbitrary: es' w' errs) (auto split: prod.splits dest: unwind_entry_keeps)

lemma unwind_keeps_entries:
  "unwind undo s w = (s', w', Some e) \<Longrightarrow> list_all2 keeps_entry (entries s) (entries s')"
  by (cases s) (auto simp: join_errors_def split: prod.splits if_splits dest: unwind_entries_keep)

section \<open>Lookups\<close>

lemma find_last_append: "find_last f (xs @ ys)
    = (case find_last f ys of Some y \<Rightarrow> Some y | None \<Rightarrow> find_last f xs)"
  by (induction xs) (auto split: option.splits)

lemma find_last_snoc [simp]:
  "find_last f (xs @ [x]) = (case f x of Some y \<Rightarrow> Some y | None \<Rightarrow> find_last f xs)"
  by (simp add: find_last_append)

lemma find_last_Some: "find_last f xs = Some y \<Longrightarrow> \<exists>x \<in> set xs. f x = Some y"
  by (induction xs) (auto split: option.splits)

lemma find_last_None: "find_last f xs = None \<longleftrightarrow> (\<forall>x \<in> set xs. f x = None)"
  by (induction xs) (auto split: option.splits)

lemma entries_push [simp]: "entries (push r s) = entries s @ [EReceipt r]"
  by (cases s) (simp add: push_def)

lemma entries_push_nested [simp]: "entries (push_nested c s) = entries s @ [EStack c]"
  by (cases s) (simp add: push_nested_def)

lemma entries_set_entries [simp]: "entries (set_entries es s) = es"
  by (cases s) simp

lemma entries_stamp [simp]: "entries (stamp u v e s) = entries s"
  by (cases s) simp

lemma stamp_sel [simp]:
  "stack_unit_id (stamp u v e s) = u" "stack_result (stamp u v e s) = v" "stack_err (stamp u v e s) = e"
  by (cases s; simp)+

lemma set_entries_sel [simp]:
  "stack_unit_id (set_entries es s) = stack_unit_id s" "stack_result (set_entries es s) = stack_result s"
  "stack_err (set_entries es s) = stack_err s"
  by (cases s; simp)+

lemma push_sel [simp]:
  "stack_unit_id (push r s) = stack_unit_id s" "stack_err (push r s) = stack_err s"
  "stack_unit_id (push_nested c s) = stack_unit_id s" "stack_err (push_nested c s) = stack_err s"
  by (simp_all add: push_def push_nested_def)

lemma receipt_by_unit_id_push [simp]:
  "receipt_by_unit_id u (push r s) = (if r_unit_id r = u then Some r else receipt_by_unit_id u s)"
  by (simp add: receipt_by_unit_id_def)

lemma receipt_by_unit_id_push_nested [simp]:
  "receipt_by_unit_id u (push_nested c s) = receipt_by_unit_id u s"
  by (simp add: receipt_by_unit_id_def)

lemma nested_stack_push_nested [simp]:
  "nested_stack_by_unit_id u (push_nested c s)
     = (if u \<noteq> [] \<and> stack_unit_id c = u then Some c else nested_stack_by_unit_id u s)"
  by (auto simp: nested_stack_by_unit_id_def)

lemma nested_stack_push [simp]: "nested_stack_by_unit_id u (push r s) = nested_stack_by_unit_id u s"
  by (simp add: nested_stack_by_unit_id_def)

text \<open>
  What a slot's promise and a resumed run expect of the record: the result recorded last for
  a unit is the one found, and recording a unit disturbs no other.
\<close>

locale result_ledger =
  fixes enter :: "string \<Rightarrow> gvalue \<Rightarrow> 's \<Rightarrow> 's"
    and find :: "string \<Rightarrow> 's \<Rightarrow> gvalue option"
  assumes find_same: "find u (enter u v s) = Some v"
    and find_other: "u \<noteq> u' \<Longrightarrow> find u' (enter u v s) = find u' s"
begin

lemma find_enter: "find u' (enter u v s) = (if u = u' then Some v else find u' s)"
  using find_same find_other by auto

lemma find_enter_all:
  "find u (fold (\<lambda>(k, v). enter k v) kvs s)
     = (case map_of (rev kvs) u of Some v \<Rightarrow> Some v | None \<Rightarrow> find u s)"
  by (induction kvs arbitrary: s) (auto simp: find_enter map_add_def split: option.splits)

end

definition record_receipt :: "string \<Rightarrow> gvalue \<Rightarrow> rstack list \<Rightarrow> rstack list" where
  "record_receipt u v ss =
     (case ss of [] \<Rightarrow> [push (fst (commit None u None v NoCompensator None (new_receipt VNil)))
                          new_recovery_stack]
      | s # parents \<Rightarrow>
          push (fst (commit None u None v NoCompensator None (new_receipt VNil))) s # parents)"

definition record_stack :: "string \<Rightarrow> gvalue \<Rightarrow> rstack list \<Rightarrow> rstack list" where
  "record_stack u v ss =
     (case ss of [] \<Rightarrow> [push_nested (stamp u v None new_recovery_stack) new_recovery_stack]
      | s # parents \<Rightarrow> push_nested (stamp u v None new_recovery_stack) s # parents)"

lemmas record_defs = record_receipt_def record_stack_def commit_def new_receipt_def
  new_recovery_stack_def entry_result_def

interpretation receipts_ledger: result_ledger record_receipt result_by_unit_id
  by unfold_locales (auto simp: record_defs split: list.splits option.splits)

interpretation stacks_ledger: result_ledger record_stack result_by_unit_id
  by unfold_locales (auto simp: record_defs split: list.splits option.splits)

lemma remove_last_absent: "\<not> (\<exists>x \<in> set xs. P x) \<Longrightarrow> remove_last P xs = xs"
  by (induction xs) auto

lemma remove_last_append:
  "remove_last P (xs @ ys) = (if \<exists>y \<in> set ys. P y then xs @ remove_last P ys else remove_last P xs @ ys)"
  by (induction xs) (auto simp: remove_last_absent)

lemma remove_last_snoc: "P x \<Longrightarrow> remove_last P (xs @ [x]) = xs"
  by (simp add: remove_last_append)

lemma length_remove_last:
  "length (remove_last P xs) = (if \<exists>x \<in> set xs. P x then length xs - 1 else length xs)"
  by (induction xs) (auto dest: length_pos_if_in_set)

end
