(* ===== verification/Kahn.thy ===== *)
theory Kahn
  imports Prelude
begin

text \<open>
  The Kahn loop that \<open>topologicallySorted\<close> (\<open>pkg/op/helpers.go\<close>) and
  \<open>Subgraph.validateEdgeCycles\<close> (\<open>pkg/op/subgraph.go\<close>) share, on vertex names and edge
  pairs. The loop dequeues each vertex at most once, so as many rounds as there are vertices
  are enough fuel (\<open>kahn_complete\<close>).
\<close>

section \<open>The loop\<close>

text \<open>\<open>adj[from]\<close>: the targets of the edges that leave a vertex, in edge order.\<close>

definition targets :: "('a \<times> 'a) list \<Rightarrow> 'a \<Rightarrow> 'a list" where
  "targets es v = map snd (filter (\<lambda>e. fst e = v) es)"

definition in_degree :: "('a \<times> 'a) list \<Rightarrow> 'a \<Rightarrow> int" where
  "in_degree es v = int (length (filter (\<lambda>e. snd e = v) es))"

text \<open>The inner loop: decrement each neighbour and enqueue the ones that reach zero.\<close>

fun relax :: "'a list \<Rightarrow> ('a \<Rightarrow> int) \<Rightarrow> 'a list \<Rightarrow> ('a \<Rightarrow> int) \<times> 'a list" where
  "relax [] deg queue = (deg, queue)"
| "relax (n # ns) deg queue =
     (let deg' = deg(n := deg n - 1)
      in relax ns deg' (if deg' n = 0 then queue @ [n] else queue))"

fun kahn_loop :: "nat \<Rightarrow> ('a \<Rightarrow> 'a list) \<Rightarrow> ('a \<Rightarrow> int) \<Rightarrow> 'a list \<Rightarrow> 'a list
                    \<Rightarrow> 'a list \<times> ('a \<Rightarrow> int)" where
  "kahn_loop 0 adj deg queue done = (done, deg)"
| "kahn_loop (Suc k) adj deg [] done = (done, deg)"
| "kahn_loop (Suc k) adj deg (v # queue) done =
     (case relax (adj v) deg queue of (deg', queue') \<Rightarrow>
        kahn_loop k adj deg' queue' (done @ [v]))"

definition kahn :: "'a list \<Rightarrow> ('a \<times> 'a) list \<Rightarrow> 'a list \<times> ('a \<Rightarrow> int)" where
  "kahn vs es =
     kahn_loop (length vs) (targets es) (in_degree es)
       (filter (\<lambda>v. in_degree es v = 0) vs) []"

section \<open>The invariant\<close>

definition pending_in :: "('a \<times> 'a) list \<Rightarrow> 'a set \<Rightarrow> 'a \<Rightarrow> int" where
  "pending_in es D v = int (length (filter (\<lambda>e. snd e = v \<and> fst e \<notin> D) es))"

definition kahn_inv :: "'a list \<Rightarrow> ('a \<times> 'a) list \<Rightarrow> ('a \<Rightarrow> int) \<Rightarrow> 'a list \<Rightarrow> 'a list \<Rightarrow> bool" where
  "kahn_inv vs es deg queue done \<longleftrightarrow>
     distinct (done @ queue) \<and> set (done @ queue) \<subseteq> set vs
     \<and> (\<forall>v. deg v = pending_in es (set done) v)
     \<and> (\<forall>v \<in> set vs. v \<in> set (done @ queue) \<longleftrightarrow> deg v = 0)
     \<and> (\<forall>xs b ys. done = xs @ b # ys \<longrightarrow> (\<forall>a. (a, b) \<in> set es \<longrightarrow> a \<in> set xs))"

lemma relax_spec:
  "(\<And>v. int (count_list ns v) \<le> deg v) \<Longrightarrow> relax ns deg queue = (deg', queue') \<Longrightarrow>
     deg' = (\<lambda>v. deg v - int (count_list ns v))
     \<and> (\<exists>new. queue' = queue @ new \<and> distinct new
              \<and> set new = {v \<in> set ns. deg v = int (count_list ns v)})"
proof (induction ns arbitrary: deg queue)
  case Nil
  then show ?case by auto
next
  case (Cons n ns)
  let ?deg = "deg(n := deg n - 1)"
  let ?q = "if ?deg n = 0 then queue @ [n] else queue"
  have le: "int (count_list ns v) \<le> ?deg v" for v
    using Cons.prems(1) [of v] by (auto split: if_splits)
  have r: "relax ns ?deg ?q = (deg', queue')"
    using Cons.prems(2) by (simp add: Let_def)
  from Cons.IH [OF le r] obtain new where
    deg': "deg' = (\<lambda>v. ?deg v - int (count_list ns v))" and
    new: "queue' = ?q @ new" "distinct new"
      "set new = {v \<in> set ns. ?deg v = int (count_list ns v)}"
    by blast
  have deg'': "deg' = (\<lambda>v. deg v - int (count_list (n # ns) v))"
    using deg' by (auto simp: fun_eq_iff)
  show ?case
  proof (cases "?deg n = 0")
    case True
    with le [of n] have "count_list ns n = 0" by simp
    then have notin: "n \<notin> set ns" by (simp add: count_list_0_iff)
    have "set (n # new) = {v \<in> set (n # ns). deg v = int (count_list (n # ns) v)}"
    proof -
      have "deg v = int (count_list (n # ns) v) \<longleftrightarrow> ?deg v = int (count_list ns v)" for v
        by auto
      with new(3) True notin \<open>count_list ns n = 0\<close> show ?thesis by auto
    qed
    moreover have "queue' = queue @ n # new" using new(1) True by simp
    moreover have "distinct (n # new)" using new(2,3) notin by simp
    ultimately show ?thesis using deg'' by blast
  next
    case False
    have "set new = {v \<in> set (n # ns). deg v = int (count_list (n # ns) v)}"
    proof -
      have "deg v = int (count_list (n # ns) v) \<longleftrightarrow> ?deg v = int (count_list ns v)" for v
        by auto
      moreover have "n \<in> set ns" if "?deg n = int (count_list ns n)"
        using that False by (auto simp: count_list_0_iff)
      ultimately show ?thesis using new(3) by auto
    qed
    moreover have "queue' = queue @ new" using new(1) False by simp
    ultimately show ?thesis using deg'' new(2) by blast
  qed
qed

lemma count_targets:
  "int (count_list (targets es v) b) = pending_in es D b - pending_in es (insert v D) b"
  if "v \<notin> D"
  using that
proof (induction es)
  case (Cons e es)
  then show ?case by (cases e) (simp add: targets_def pending_in_def)
qed (simp add: targets_def pending_in_def)

lemma pending_in_0: "pending_in es D b = 0 \<longleftrightarrow> (\<forall>a. (a, b) \<in> set es \<longrightarrow> a \<in> D)"
  by (auto simp: pending_in_def filter_empty_conv)

lemma pending_in_nonneg: "0 \<le> pending_in es D b"
  by (simp add: pending_in_def)

lemma in_targets: "b \<in> set (targets es v) \<longleftrightarrow> (v, b) \<in> set es"
  by (force simp: targets_def)

lemma kahn_inv_init:
  assumes "distinct vs"
  shows "kahn_inv vs es (in_degree es) (filter (\<lambda>v. in_degree es v = 0) vs) []"
  using assms by (auto simp: kahn_inv_def pending_in_def in_degree_def)

lemma kahn_inv_step:
  assumes inv: "kahn_inv vs es deg (v # queue) done"
    and wf: "\<And>a b. (a, b) \<in> set es \<Longrightarrow> b \<in> set vs"
    and relax: "relax (targets es v) deg queue = (deg', queue')"
  shows "kahn_inv vs es deg' queue' (done @ [v])"
proof -
  let ?D = "set done"
  have vD: "v \<notin> ?D" and dist: "distinct (done @ queue)" "v \<notin> set queue"
    and sub: "set (done @ v # queue) \<subseteq> set vs"
    and deg: "\<And>u. deg u = pending_in es ?D u"
    and zero: "\<And>u. u \<in> set vs \<Longrightarrow> u \<in> set (done @ v # queue) \<longleftrightarrow> deg u = 0"
    and order: "\<And>xs b ys a. done = xs @ b # ys \<Longrightarrow> (a, b) \<in> set es \<Longrightarrow> a \<in> set xs"
    using inv by (auto simp: kahn_inv_def)
  have count: "int (count_list (targets es v) u) = deg u - pending_in es (insert v ?D) u" for u
    using count_targets [OF vD, of es u] deg by simp
  have le: "int (count_list (targets es v) u) \<le> deg u" for u
    using count [of u] pending_in_nonneg [of es "insert v ?D" u] by simp
  obtain new where deg': "deg' = (\<lambda>u. pending_in es (insert v ?D) u)"
    and new: "queue' = queue @ new" "distinct new"
      "set new = {u \<in> set (targets es v). pending_in es (insert v ?D) u = 0}"
    using relax_spec [OF le relax] count by (auto simp: fun_eq_iff)
  have fresh: "u \<in> set vs \<and> deg u \<noteq> 0" if "u \<in> set new" for u
  proof -
    from that new(3) have "(v, u) \<in> set es" by (simp add: in_targets)
    with wf vD deg [of u] show ?thesis by (auto simp: pending_in_0)
  qed
  have disj: "set new \<inter> set (done @ v # queue) = {}"
    using fresh zero by blast
  have grow: "u \<in> set new \<longleftrightarrow> deg u \<noteq> 0 \<and> pending_in es (insert v ?D) u = 0" for u
  proof
    assume "u \<in> set new"
    then show "deg u \<noteq> 0 \<and> pending_in es (insert v ?D) u = 0"
      using fresh new(3) by blast
  next
    assume u: "deg u \<noteq> 0 \<and> pending_in es (insert v ?D) u = 0"
    then obtain a where "(a, u) \<in> set es" "a \<notin> ?D"
      using deg [of u] by (auto simp: pending_in_0)
    with u have "(v, u) \<in> set es" by (auto simp: pending_in_0)
    with u new(3) show "u \<in> set new" by (simp add: in_targets)
  qed
  have "u \<in> set (done @ v # queue @ new) \<longleftrightarrow> pending_in es (insert v ?D) u = 0" if "u \<in> set vs" for u
    using zero [OF that] grow [of u] deg [of u] by (auto simp: pending_in_0)
  moreover have "a \<in> set xs" if "done @ [v] = xs @ b # ys" "(a, b) \<in> set es" for xs b ys a
  proof (cases ys rule: rev_cases)
    case Nil
    have "deg v = 0" using zero [of v] sub by simp
    with that Nil deg [of v] show ?thesis by (simp add: pending_in_0)
  next
    case (snoc ys' y)
    with that order show ?thesis by simp
  qed
  ultimately show ?thesis
    using dist vD sub new(1,2) disj fresh deg' by (auto simp: kahn_inv_def)
qed

text \<open>With fuel for every vertex not yet done the loop ends because the queue is empty.\<close>

lemma kahn_loop_inv:
  assumes "kahn_inv vs es deg queue done" and "distinct vs"
    and "\<And>a b. (a, b) \<in> set es \<Longrightarrow> b \<in> set vs"
    and "length vs \<le> k + length done"
  shows "kahn_inv vs es (snd (kahn_loop k (targets es) deg queue done)) []
           (fst (kahn_loop k (targets es) deg queue done))"
  using assms
proof (induction k arbitrary: deg queue "done")
  case 0
  then have "distinct (done @ queue)" "set (done @ queue) \<subseteq> set vs"
    by (simp_all add: kahn_inv_def)
  then have "length (done @ queue) \<le> length vs"
    using \<open>distinct vs\<close> by (metis card_mono distinct_card List.finite_set)
  then have "length done + length queue \<le> length vs" by simp
  with 0(4) have "length queue = 0" by linarith
  with 0 show ?case by simp
next
  case (Suc k)
  show ?case
  proof (cases queue)
    case Nil
    with Suc.prems show ?thesis by simp
  next
    case (Cons v rest)
    obtain deg' queue' where r: "relax (targets es v) deg rest = (deg', queue')"
      by (cases "relax (targets es v) deg rest") auto
    have "kahn_inv vs es deg' queue' (done @ [v])"
    proof (rule kahn_inv_step [OF _ _ r])
      show "kahn_inv vs es deg (v # rest) done" using Suc.prems(1) Cons by simp
    qed (rule Suc.prems(3))
    from Suc.IH [OF this Suc.prems(2,3)] Suc.prems(4) show ?thesis
      by (simp add: Cons r)
  qed
qed

section \<open>What the loop delivers\<close>

definition acyclic_edges :: "('a \<times> 'a) list \<Rightarrow> bool" where
  "acyclic_edges es \<longleftrightarrow> acyclic (set es)"

lemma kahn_final:
  assumes "distinct vs" and "\<And>a b. (a, b) \<in> set es \<Longrightarrow> b \<in> set vs"
  shows "kahn_inv vs es (snd (kahn vs es)) [] (fst (kahn vs es))"
  unfolding kahn_def by (rule kahn_loop_inv) (auto simp: kahn_inv_init assms)

lemma kahn_distinct:
  assumes "distinct vs" and "\<And>a b. (a, b) \<in> set es \<Longrightarrow> b \<in> set vs"
  shows "distinct (fst (kahn vs es))" and "set (fst (kahn vs es)) \<subseteq> set vs"
  using kahn_final [of vs es] assms by (simp_all add: kahn_inv_def)

lemma kahn_order:
  assumes "distinct vs" and "\<And>a b. (a, b) \<in> set es \<Longrightarrow> b \<in> set vs"
    and "fst (kahn vs es) = xs @ b # ys" and "(a, b) \<in> set es"
  shows "a \<in> set xs"
proof -
  have "kahn_inv vs es (snd (kahn vs es)) [] (fst (kahn vs es))"
    using kahn_final [of vs es] assms(1,2) by blast
  with assms(3,4) show ?thesis by (auto simp: kahn_inv_def)
qed

text \<open>A vertex is left out exactly when some predecessor of it is.\<close>

lemma kahn_left_out:
  assumes "distinct vs" and "\<And>a b. (a, b) \<in> set es \<Longrightarrow> b \<in> set vs" and "v \<in> set vs"
  shows "v \<notin> set (fst (kahn vs es)) \<longleftrightarrow> (\<exists>a. (a, v) \<in> set es \<and> a \<notin> set (fst (kahn vs es)))"
proof -
  have "kahn_inv vs es (snd (kahn vs es)) [] (fst (kahn vs es))"
    using kahn_final [of vs es] assms(1,2) by blast
  with assms(3) have "v \<in> set (fst (kahn vs es)) \<longleftrightarrow> pending_in es (set (fst (kahn vs es))) v = 0"
    by (auto simp: kahn_inv_def)
  then show ?thesis by (auto simp: pending_in_0)
qed

lemma kahn_degree_left:
  assumes "distinct vs" and "\<And>a b. (a, b) \<in> set es \<Longrightarrow> b \<in> set vs" and "v \<in> set vs"
  shows "0 < snd (kahn vs es) v \<longleftrightarrow> v \<notin> set (fst (kahn vs es))"
proof -
  have "kahn_inv vs es (snd (kahn vs es)) [] (fst (kahn vs es))"
    using kahn_final [of vs es] assms(1,2) by blast
  with assms(3) pending_in_nonneg [of es "set (fst (kahn vs es))" v] show ?thesis
    by (auto simp: kahn_inv_def)
qed

lemma kahn_acyclic_complete:
  assumes "distinct vs" and "\<And>a b. (a, b) \<in> set es \<Longrightarrow> a \<in> set vs \<and> b \<in> set vs"
    and "acyclic_edges es"
  shows "set (fst (kahn vs es)) = set vs"
proof (rule ccontr)
  assume "set (fst (kahn vs es)) \<noteq> set vs"
  then obtain v where v: "v \<in> set vs - set (fst (kahn vs es))"
    using kahn_distinct(2) [of vs es] assms(1,2) by blast
  have "wf (set es)"
    using assms(3) by (simp add: acyclic_edges_def finite_acyclic_wf)
  then obtain m where m: "m \<in> set vs - set (fst (kahn vs es))"
    and least: "\<And>a. (a, m) \<in> set es \<Longrightarrow> a \<notin> set vs - set (fst (kahn vs es))"
    using v by (metis wfE_min)
  then obtain a where "(a, m) \<in> set es" "a \<notin> set (fst (kahn vs es))"
    using kahn_left_out [of vs es m] assms(1,2) by blast
  with least [of a] assms(2) show False by blast
qed

lemma kahn_complete_acyclic:
  assumes "distinct vs" and "\<And>a b. (a, b) \<in> set es \<Longrightarrow> a \<in> set vs \<and> b \<in> set vs"
    and "set (fst (kahn vs es)) = set vs"
  shows "acyclic_edges es"
proof -
  let ?done = "fst (kahn vs es)"
  have dist: "distinct ?done"
    using kahn_distinct(1) [of vs es] assms(1,2) by blast
  have order: "a \<in> set xs" if "?done = xs @ b # ys" "(a, b) \<in> set es" for xs b ys a
    using kahn_order [of vs es xs b ys a] assms(1,2) that by blast
  have lt: "\<exists>i j. i < j \<and> j < length ?done \<and> ?done ! i = a \<and> ?done ! j = b"
    if "(a, b) \<in> (set es)\<^sup>+" for a b
    using that
  proof (induction rule: trancl_induct)
    case (base b)
    then have "b \<in> set ?done" using assms(2,3) by blast
    then obtain xs ys where s: "?done = xs @ b # ys" by (meson split_list)
    with order base obtain i where "i < length xs" "xs ! i = a" by (metis in_set_conv_nth)
    with s show ?case
      by (intro exI [of _ i] exI [of _ "length xs"]) (simp add: nth_append)
  next
    case (step b c)
    then obtain i j where ij: "i < j" "j < length ?done" "?done ! i = a" "?done ! j = b" by blast
    from step have "c \<in> set ?done" using assms(2,3) by blast
    then obtain xs ys where s: "?done = xs @ c # ys" by (meson split_list)
    with order step obtain k where k: "k < length xs" "xs ! k = b" by (metis in_set_conv_nth)
    have "k = j"
      using dist ij k s by (metis (no_types, lifting) length_append nth_append nth_eq_iff_index_eq trans_less_add1)
    with k s ij show ?case
      by (intro exI [of _ i] exI [of _ "length xs"]) (simp add: nth_append)
  qed
  show ?thesis
    unfolding acyclic_edges_def acyclic_def
  proof (intro allI notI)
    fix x
    assume "(x, x) \<in> (set es)\<^sup>+"
    from lt [OF this] obtain i j where "i < j" "j < length ?done" "?done ! i = ?done ! j"
      by auto
    with dist show False by (simp add: nth_eq_iff_index_eq)
  qed
qed

end
