(* ===== verification/Units.thy ===== *)
theory Units
  imports Policies Recovery_Stack Kahn
begin

text \<open>
  The graph's units: slot bindings and their resolution (\<open>pkg/op/binding.go\<close>,
  \<open>variable.go\<close>, \<open>executable_unit.go\<close>), nodes, subgraphs and guarded edges (\<open>node.go\<close>,
  \<open>subgraph.go\<close>, \<open>guard_result.go\<close>, \<open>graph.go\<close>), the construction of a subgraph
  (\<open>populate\<close>: promise edges materialised, children sorted topologically), and the structural
  validation of its edges.
\<close>

section \<open>Bindings\<close>

record var_source =
  vs_kind :: string
  vs_name :: string

record variable =
  var_name :: string
  var_field :: string
  var_value :: gvalue
  var_source :: var_source

text \<open>A variable frame is a Go map that may be nil.\<close>

type_synonym frame = "(string \<rightharpoonup> variable) option"

datatype binding =
    Immediate gvalue
  | Promise string
  | VarBinding string string

record edge =
  e_from :: string
  e_to :: string
  e_guard :: int

text \<open>\<open>Edge\<close>: only a promise contributes an ordering edge, unguarded.\<close>

definition guard_none :: int where "guard_none = 0"
definition guard_truthy :: int where "guard_truthy = 1"
definition guard_falsy :: int where "guard_falsy = 2"

lemmas guard_defs = guard_none_def guard_truthy_def guard_falsy_def

definition binding_edge :: "string \<Rightarrow> binding \<Rightarrow> edge option" where
  "binding_edge consumer b =
     (case b of
        Promise u \<Rightarrow> Some \<lparr>e_from = u, e_to = consumer, e_guard = guard_none\<rparr>
      | Immediate v \<Rightarrow> None
      | VarBinding n f \<Rightarrow> None)"

text \<open>
  \<open>Resolve\<close>. A missing variable reads as the zero \<open>Variable\<close>, whose value is nil; a field is
  projected only out of a \<open>map[string]any\<close>, and a missing key reads as nil. The stack is
  given with its ancestors; no stack at all is the empty list.
\<close>

definition project_field :: "string \<Rightarrow> gvalue \<Rightarrow> gvalue" where
  "project_field f v =
     (case v of
        VMap (Some m) \<Rightarrow> (case map_of m f of Some x \<Rightarrow> x | None \<Rightarrow> VNil)
      | _ \<Rightarrow> VNil)"

definition frame_value :: "frame \<Rightarrow> string \<Rightarrow> gvalue" where
  "frame_value fr n =
     (case fr of
        None \<Rightarrow> VNil
      | Some m \<Rightarrow> (case m n of None \<Rightarrow> VNil | Some v \<Rightarrow> var_value v))"

definition resolve_binding :: "frame \<Rightarrow> rstack list \<Rightarrow> binding \<Rightarrow> gvalue" where
  "resolve_binding fr stacks b =
     (case b of
        Immediate v \<Rightarrow> v
      | Promise u \<Rightarrow> (case result_by_unit_id u stacks of Some v \<Rightarrow> v | None \<Rightarrow> VNil)
      | VarBinding n f \<Rightarrow>
          (case fr of
             None \<Rightarrow> VNil
           | Some _ \<Rightarrow> if f = [] then frame_value fr n else project_field f (frame_value fr n)))"

section \<open>Guards\<close>

definition guard_result_names :: "string list" where
  "guard_result_names = [''none'', ''truthy'', ''falsy'']"

definition marshal_guard :: "int \<Rightarrow> (codec_error, string) result" where
  "marshal_guard = enum_marshal ''op.GuardResult'' guard_result_names"

definition unmarshal_guard :: "string \<Rightarrow> (codec_error, int) result" where
  "unmarshal_guard = enum_unmarshal ''op.GuardResult'' guard_result_names"

interpretation guard_codec:
  text_codec marshal_guard unmarshal_guard "\<lambda>c. 0 \<le> c \<and> c < 3"
proof -
  have "distinct guard_result_names" by (simp add: guard_result_names_def)
  from enum_text_codec [OF this, of "''op.GuardResult''"]
  show "text_codec marshal_guard unmarshal_guard (\<lambda>c. 0 \<le> c \<and> c < 3)"
    by (simp add: marshal_guard_def unmarshal_guard_def guard_result_names_def)
qed

section \<open>Units\<close>

text \<open>
  A resolved \<open>Action\<close> is known by its dotted name and its Go-qualified full name; a unit binds
  one, or a name to resolve at dispatch, or neither. Annotations and elevation offers are not
  modelled.
\<close>

record action =
  act_name :: string
  act_full_name :: string

record unit_meta =
  m_id :: string
  m_action :: "action option"
  m_action_name :: string
  m_slots :: "(string \<times> binding) list"
  m_retry :: "retry_policy option"
  m_transition :: "transition_policy option"

datatype exec_unit =
    Node (meta: unit_meta) (on_error: "exec_unit option") (on_retry: "exec_unit option")
  | Subgraph (meta: unit_meta) (on_error: "exec_unit option") (on_retry: "exec_unit option")
      (unit_children: "exec_unit list") (unit_edges: "edge list")

definition unit_id :: "exec_unit \<Rightarrow> string" where
  "unit_id u = m_id (meta u)"

fun is_subgraph :: "exec_unit \<Rightarrow> bool" where
  "is_subgraph (Node m oe ort) = False"
| "is_subgraph (Subgraph m oe ort cs es) = True"

fun children_of :: "exec_unit \<Rightarrow> exec_unit list" where
  "children_of (Node m oe ort) = []"
| "children_of (Subgraph m oe ort cs es) = cs"

fun edges_of :: "exec_unit \<Rightarrow> edge list" where
  "edges_of (Node m oe ort) = []"
| "edges_of (Subgraph m oe ort cs es) = es"

definition resolve_slots :: "frame \<Rightarrow> rstack list \<Rightarrow> exec_unit \<Rightarrow> (string \<times> gvalue) list" where
  "resolve_slots fr stacks u =
     map (\<lambda>(name, b). (name, resolve_binding fr stacks b)) (m_slots (meta u))"

definition bound_action_name :: "exec_unit \<Rightarrow> string" where
  "bound_action_name u =
     (case m_action (meta u) of Some a \<Rightarrow> act_name a | None \<Rightarrow> m_action_name (meta u))"

text \<open>\<open>ChildByID\<close> reads a map filled in child order, so a later child replaces an earlier one.\<close>

definition child_by_id :: "exec_unit \<Rightarrow> string \<Rightarrow> exec_unit option" where
  "child_by_id s i =
     find_last (\<lambda>c. if unit_id c = i then Some c else None) (children_of s)"

lemma resolve_slots_names: "map fst (resolve_slots fr stacks u) = map fst (m_slots (meta u))"
  by (auto simp: resolve_slots_def)

lemma resolve_slots_lookup:
  "map_of (resolve_slots fr stacks u) n
     = map_option (resolve_binding fr stacks) (map_of (m_slots (meta u)) n)"
  by (simp add: resolve_slots_def map_of_map)

end
