(* ===== verification/Topology.thy ===== *)
theory Topology
  imports Units "HOL-Library.Multiset" "HOL-Library.List_Lexorder" "HOL-Library.Char_ord"
begin

text \<open>
  The structure of a subgraph: the topological order of its children (\<open>topologicallySorted\<close>
  of \<open>pkg/op/helpers.go\<close>), the construction of a subgraph from its specification, the walks
  over its descendants, and the validation of its edges (all of \<open>pkg/op/subgraph.go\<close>).
\<close>

section \<open>Topological order of the children\<close>

definition edge_pair :: "edge \<Rightarrow> string \<times> string" where
  "edge_pair e = (e_from e, e_to e)"

definition unit_by_id :: "exec_unit list \<Rightarrow> string \<Rightarrow> exec_unit option" where
  "unit_by_id us i = find_last (\<lambda>c. if unit_id c = i then Some c else None) us"

definition local_pairs :: "exec_unit list \<Rightarrow> edge list \<Rightarrow> (string \<times> string) list" where
  "local_pairs us es =
     map edge_pair (filter (\<lambda>e. e_from e \<in> set (map unit_id us) \<and> e_to e \<in> set (map unit_id us)) es)"

definition topologically_sorted :: "exec_unit list \<Rightarrow> edge list \<Rightarrow> exec_unit list" where
  "topologically_sorted us es =
     (if es = [] \<or> length us \<le> 1 then us
      else
        let order = fst (kahn (map unit_id us) (local_pairs us es));
            sorted = List.map_filter (unit_by_id us) order
        in if length sorted < length us
           then sorted @ filter (\<lambda>c. unit_id c \<notin> set (map unit_id sorted)) us
           else sorted)"

lemma local_pairs_in:
  "(a, b) \<in> set (local_pairs us es) \<Longrightarrow> a \<in> set (map unit_id us) \<and> b \<in> set (map unit_id us)"
  by (auto simp: local_pairs_def edge_pair_def)

lemma unit_by_id_Some:
  "unit_by_id us i = Some c \<Longrightarrow> c \<in> set us \<and> unit_id c = i"
  unfolding unit_by_id_def by (drule find_last_Some) (auto split: if_splits)

lemma unit_by_id_distinct:
  assumes "distinct (map unit_id us)" and "c \<in> set us"
  shows "unit_by_id us (unit_id c) = Some c"
proof (cases "unit_by_id us (unit_id c)")
  case None
  with assms(2) show ?thesis by (auto simp: unit_by_id_def find_last_None)
next
  case (Some d)
  then have "d \<in> set us" "unit_id d = unit_id c" using unit_by_id_Some by blast+
  with assms Some show ?thesis by (metis distinct_map inj_onD)
qed

lemma map_filter_unit_ids:
  assumes "distinct (map unit_id us)" and "set order \<subseteq> set (map unit_id us)"
  shows "map unit_id (List.map_filter (unit_by_id us) order) = order"
    and "set (List.map_filter (unit_by_id us) order) = {c \<in> set us. unit_id c \<in> set order}"
proof -
  have some: "\<exists>c. unit_by_id us i = Some c \<and> c \<in> set us \<and> unit_id c = i" if "i \<in> set order" for i
    using that assms unit_by_id_distinct by fastforce
  then show "map unit_id (List.map_filter (unit_by_id us) order) = order"
    by (induction order) (auto simp: List.map_filter_def dest: unit_by_id_Some)
  show "set (List.map_filter (unit_by_id us) order) = {c \<in> set us. unit_id c \<in> set order}"
  proof (intro equalityI subsetI)
    fix c
    assume "c \<in> set (List.map_filter (unit_by_id us) order)"
    then obtain i where "i \<in> set order" "unit_by_id us i = Some c"
      by (auto simp: List.map_filter_def)
    with unit_by_id_Some show "c \<in> {c \<in> set us. unit_id c \<in> set order}" by blast
  next
    fix c
    assume "c \<in> {c \<in> set us. unit_id c \<in> set order}"
    with unit_by_id_distinct [OF assms(1)] show "c \<in> set (List.map_filter (unit_by_id us) order)"
      by (auto simp: List.map_filter_def image_iff intro!: bexI [of _ "unit_id c"])
  qed
qed

text \<open>The two parts of the result: the units the loop ordered, then the ones it left out.\<close>

lemma topologically_sorted_parts:
  assumes "distinct (map unit_id us)" and "es \<noteq> []" and "1 < length us"
  obtains ordered where "map unit_id ordered = fst (kahn (map unit_id us) (local_pairs us es))"
    and "set ordered \<subseteq> set us" and "distinct ordered"
    and "topologically_sorted us es = ordered @ filter (\<lambda>c. c \<notin> set ordered) us"
proof -
  let ?order = "fst (kahn (map unit_id us) (local_pairs us es))"
  let ?ordered = "List.map_filter (unit_by_id us) ?order"
  have order: "distinct ?order" "set ?order \<subseteq> set (map unit_id us)"
    using kahn_distinct [OF assms(1)] local_pairs_in by blast+
  note ids = map_filter_unit_ids [OF assms(1) order(2)]
  have dist: "distinct ?ordered"
    using order(1) ids(1) by (metis distinct_map)
  have "c \<in> set ?ordered \<longleftrightarrow> unit_id c \<in> set (map unit_id ?ordered)" if "c \<in> set us" for c
    using that ids by simp
  then have rest: "filter (\<lambda>c. unit_id c \<notin> set (map unit_id ?ordered)) us = filter (\<lambda>c. c \<notin> set ?ordered) us"
    by (intro filter_cong) auto
  have full: "filter (\<lambda>c. c \<notin> set ?ordered) us = []" if "\<not> length ?ordered < length us"
  proof -
    have "card (set us) \<le> length us" by (rule card_length)
    with that have "card (set us) \<le> card (set ?ordered)"
      using dist by (simp add: distinct_card)
    moreover have "set ?ordered \<subseteq> set us" using ids(2) by blast
    ultimately have "set ?ordered = set us" by (simp add: card_subset_eq le_antisym card_mono)
    then show ?thesis by (simp add: filter_empty_conv)
  qed
  have "topologically_sorted us es = ?ordered @ filter (\<lambda>c. c \<notin> set ?ordered) us"
    using assms(2,3) rest full by (simp add: topologically_sorted_def Let_def)
  then show ?thesis
    using that [of ?ordered] ids dist by blast
qed

lemma local_pairs_trivial:
  assumes "length us \<le> 1" and "(a, b) \<in> set (local_pairs us es)"
  shows "a = b"
  using assms local_pairs_in [OF assms(2)] by (cases us) auto

text \<open>The shortcut of the code: without edges or with one child there is nothing to sort.\<close>

lemma topologically_sorted_short:
  assumes "es = [] \<or> length us \<le> 1"
  shows "topologically_sorted us es = us"
    and "acyclic (set (local_pairs us es)) \<Longrightarrow> set (local_pairs us es) = {}"
proof -
  show "topologically_sorted us es = us" using assms by (auto simp: topologically_sorted_def)
  assume ac: "acyclic (set (local_pairs us es))"
  have "(a, b) \<notin> set (local_pairs us es)" for a b
  proof
    assume ab: "(a, b) \<in> set (local_pairs us es)"
    then have "es \<noteq> []" by (auto simp: local_pairs_def)
    with assms local_pairs_trivial [OF _ ab] have "a = b" by simp
    with ab have "(a, a) \<in> (set (local_pairs us es))\<^sup>+" by (blast intro: r_into_trancl)
    with ac show False by (simp add: acyclic_def)
  qed
  then show "set (local_pairs us es) = {}" by (intro equals0I) (metis surj_pair)
qed

text \<open>C21: topologicallySorted never loses or duplicates a child, and when the edges between the
  children are acyclic every edge's source is placed before its target (edges that name a unit
  outside the list are ignored); on a cycle it still returns all of them.\<close>

theorem topologically_sorted_correct:
  assumes dist: "distinct (map unit_id us)"
  shows "mset (topologically_sorted us es) = mset us
    \<and> (acyclic (set (local_pairs us es)) \<longrightarrow>
         (\<forall>(a, b) \<in> set (local_pairs us es). before_in (map unit_id (topologically_sorted us es)) a b))"
proof (cases "es = [] \<or> length us \<le> 1")
  case True
  then show ?thesis using topologically_sorted_short [OF True] by auto
next
  case False
  then have "es \<noteq> []" "1 < length us" by simp_all
  from topologically_sorted_parts [OF dist this] obtain ordered where
    ids: "map unit_id ordered = fst (kahn (map unit_id us) (local_pairs us es))"
    and sub: "set ordered \<subseteq> set us" and od: "distinct ordered"
    and sorted: "topologically_sorted us es = ordered @ filter (\<lambda>c. c \<notin> set ordered) us"
    by blast
  have us: "distinct us" using dist by (simp add: distinct_map)
  have "mset (topologically_sorted us es) = mset us"
    unfolding sorted using od us sub
    by (intro set_eq_iff_mset_eq_distinct [THEN iffD1]) auto
  moreover have "before_in (map unit_id (topologically_sorted us es)) a b"
    if ac: "acyclic (set (local_pairs us es))" and ab: "(a, b) \<in> set (local_pairs us es)" for a b
  proof -
    have "set (map unit_id ordered) = set (map unit_id us)"
      unfolding ids by (rule kahn_acyclic_complete [OF dist local_pairs_in])
        (simp_all add: acyclic_edges_def ac)
    then have "b \<in> set (map unit_id ordered)" using local_pairs_in [OF ab] by blast
    then obtain xs ys where split: "map unit_id ordered = xs @ b # ys" by (meson split_list)
    have "a \<in> set xs"
      using kahn_order [OF dist _ split [unfolded ids] ab] local_pairs_in by blast
    then have "before_in (map unit_id ordered) a b"
      unfolding split by (rule before_in_split)
    then show ?thesis unfolding sorted by (simp add: before_in_append1)
  qed
  ultimately show ?thesis by blast
qed

definition sample_unit :: "string \<Rightarrow> exec_unit" where
  "sample_unit i =
     Node \<lparr>m_id = i, m_action = None, m_action_name = ''file.copy'', m_slots = [],
           m_retry = None, m_transition = None\<rparr> None None"

lemma topologically_sorted_correct_witness:
  "let us = map sample_unit [''b'', ''c'', ''a''];
       es = [\<lparr>e_from = ''a'', e_to = ''b'', e_guard = 0\<rparr>]
   in mset (topologically_sorted us es) = mset us
      \<and> map unit_id (topologically_sorted us es) = [''c'', ''a'', ''b'']"
proof -
  have "map unit_id (topologically_sorted (map sample_unit [''b'', ''c'', ''a''])
          [\<lparr>e_from = ''a'', e_to = ''b'', e_guard = 0\<rparr>]) = [''c'', ''a'', ''b'']"
    by code_simp
  moreover have "distinct (map unit_id (map sample_unit [''b'', ''c'', ''a'']))"
    by code_simp
  ultimately show ?thesis
    using topologically_sorted_correct
      [of "map sample_unit [''b'', ''c'', ''a'']" "[\<lparr>e_from = ''a'', e_to = ''b'', e_guard = 0\<rparr>]"]
    unfolding Let_def by blast
qed

section \<open>Construction\<close>

text \<open>
  \<open>materializeEdges\<close> appends to each subgraph's edges one edge per promise of a child node, in
  child order (a Go map holds the slots of one node; the list is one iteration order). It
  descends into the child subgraphs, whose own construction has already done so once.
\<close>

definition slot_edges :: "exec_unit \<Rightarrow> edge list" where
  "slot_edges u = List.map_filter (\<lambda>(n, b). binding_edge (unit_id u) b) (m_slots (meta u))"

fun materialize_edges :: "exec_unit \<Rightarrow> exec_unit" where
  "materialize_edges (Node m oe ort) = Node m oe ort"
| "materialize_edges (Subgraph m oe ort cs es) =
     Subgraph m oe ort (map materialize_edges cs)
       (es @ concat (map (\<lambda>c. if is_subgraph c then [] else slot_edges c) cs))"

fun sort_all :: "exec_unit \<Rightarrow> exec_unit" where
  "sort_all (Node m oe ort) = Node m oe ort"
| "sort_all (Subgraph m oe ort cs es) =
     Subgraph m oe ort (topologically_sorted (map sort_all cs) es) es"

text \<open>
  \<open>NewSubgraph\<close> and \<open>populate\<close>. A specification without an action panics (\<open>None\<close>). The parent id
  that \<open>addChild\<close> stamps on a child is implied by the nesting.
\<close>

definition new_subgraph ::
  "unit_meta \<Rightarrow> exec_unit option \<Rightarrow> exec_unit option \<Rightarrow> exec_unit list \<Rightarrow> edge list \<Rightarrow> exec_unit option"
where
  "new_subgraph m oe ort cs es =
     (if m_action m = None \<and> m_action_name m = [] then None
      else Some (sort_all (materialize_edges (Subgraph m oe ort cs es))))"

section \<open>Descendants\<close>

fun descendant_nodes :: "exec_unit \<Rightarrow> exec_unit list" where
  "descendant_nodes (Node m oe ort) = []"
| "descendant_nodes (Subgraph m oe ort cs es) =
     concat (map (\<lambda>c. if is_subgraph c then descendant_nodes c else [c]) cs)"

fun descendant_subgraphs :: "exec_unit \<Rightarrow> exec_unit list" where
  "descendant_subgraphs (Node m oe ort) = []"
| "descendant_subgraphs (Subgraph m oe ort cs es) =
     concat (map (\<lambda>c. if is_subgraph c then c # descendant_subgraphs c else []) cs)"

text \<open>The loop returns at the first direct child subgraph that is, or contains, the one sought.\<close>

fun descendant_subgraph_by_id :: "string \<Rightarrow> exec_unit \<Rightarrow> exec_unit option" where
  "descendant_subgraph_by_id i (Node m oe ort) = None"
| "descendant_subgraph_by_id i (Subgraph m oe ort cs es) =
     first_some (map (\<lambda>c. if \<not> is_subgraph c then None
                          else if unit_id c = i then Some c
                          else descendant_subgraph_by_id i c) cs)"

definition child_ids :: "exec_unit \<Rightarrow> string list" where
  "child_ids s = map unit_id (children_of s)"

definition resolve_executable :: "exec_unit \<Rightarrow> string \<Rightarrow> exec_unit option" where
  "resolve_executable root i =
     (if unit_id root = i then Some root
      else (case descendant_subgraph_by_id i root of
              Some s \<Rightarrow> Some s
            | None \<Rightarrow> find (\<lambda>n. unit_id n = i) (descendant_nodes root)))"

section \<open>Edge validation\<close>

datatype edge_violation =
    FromNotChild string
  | ToNotChild string
  | EdgeCycle "string list"
  | NoGuardedEdges nat
  | MixedEdges
  | BadDecisionNode string nat nat
  | ManyIncoming string int
  | RootCount "string list"
  | Unreachable string string

definition validate_edge_cycles :: "exec_unit \<Rightarrow> edge_violation option" where
  "validate_edge_cycles s =
     (if edges_of s = [] \<or> length (children_of s) \<le> 1 then None
      else (case kahn (child_ids s) (map edge_pair (edges_of s)) of (visited, degree) \<Rightarrow>
        if length visited = length (children_of s) then None
        else Some (EdgeCycle (filter (\<lambda>i. degree i > 0) (child_ids s)))))"

definition out_edges :: "edge list \<Rightarrow> string \<Rightarrow> edge list" where
  "out_edges es i = filter (\<lambda>e. e_from e = i) es"

definition guard_count :: "int \<Rightarrow> edge list \<Rightarrow> nat" where
  "guard_count g es = length (filter (\<lambda>e. e_guard e = g) es)"

definition validate_decision_nodes :: "edge list \<Rightarrow> edge_violation list" where
  "validate_decision_nodes guarded =
     concat (map (\<lambda>from.
       let truthy = guard_count guard_truthy (out_edges guarded from);
           falsy = guard_count guard_falsy (out_edges guarded from)
       in if truthy \<noteq> 1 \<or> falsy \<noteq> 1 then [BadDecisionNode from truthy falsy] else [])
     (sort (remdups (map e_from guarded))))"

text \<open>The breadth-first walk of \<open>validateDecisionTreeShape\<close>; a vertex enters the frontier once.\<close>

fun mark :: "string list \<Rightarrow> string list \<Rightarrow> string list \<Rightarrow> string list \<times> string list" where
  "mark [] reached frontier = (reached, frontier)"
| "mark (t # ts) reached frontier =
     (if t \<in> set reached then mark ts reached frontier
      else mark ts (t # reached) (frontier @ [t]))"

fun reach_loop :: "nat \<Rightarrow> edge list \<Rightarrow> string list \<Rightarrow> string list \<Rightarrow> string list" where
  "reach_loop 0 es reached frontier = reached"
| "reach_loop (Suc k) es reached [] = reached"
| "reach_loop (Suc k) es reached (i # frontier) =
     (case mark (map e_to (out_edges es i)) reached frontier of (reached', frontier') \<Rightarrow>
        reach_loop k es reached' frontier')"

definition validate_decision_tree_shape :: "exec_unit \<Rightarrow> edge list \<Rightarrow> edge_violation list" where
  "validate_decision_tree_shape s guarded =
     (let degree = in_degree (map edge_pair guarded);
          many = concat (map (\<lambda>i. if degree i > 1 then [ManyIncoming i (degree i)] else []) (child_ids s));
          roots = filter (\<lambda>i. degree i = 0) (child_ids s)
      in (case roots of
            [r] \<Rightarrow>
              let reached = reach_loop (Suc (length guarded)) guarded [r] [r]
              in many @ map (\<lambda>i. Unreachable i r) (filter (\<lambda>i. i \<notin> set reached) (child_ids s))
          | _ \<Rightarrow> many @ [RootCount roots]))"

definition validate_guarded_edges :: "exec_unit \<Rightarrow> edge_violation list" where
  "validate_guarded_edges s =
     (let guarded = filter (\<lambda>e. e_guard e \<noteq> guard_none) (edges_of s)
      in if guarded = [] then
           (if bound_action_name s = ''flow.choose'' \<and> length (children_of s) > 1
            then [NoGuardedEdges (length (children_of s))] else [])
         else
           (if length guarded \<noteq> length (edges_of s) then [MixedEdges] else [])
           @ validate_decision_nodes guarded @ validate_decision_tree_shape s guarded)"

definition validate_edges :: "exec_unit \<Rightarrow> edge_violation list" where
  "validate_edges s =
     (let ends = concat (map (\<lambda>e.
            (if child_by_id s (e_from e) = None then [FromNotChild (e_from e)] else [])
            @ (if child_by_id s (e_to e) = None then [ToNotChild (e_to e)] else [])) (edges_of s))
      in if ends \<noteq> [] then ends
         else (case validate_edge_cycles s of None \<Rightarrow> [] | Some v \<Rightarrow> [v]) @ validate_guarded_edges s)"

definition check_edges :: "exec_unit \<Rightarrow> edge_violation list" where
  "check_edges root = validate_edges root @ concat (map validate_edges (descendant_subgraphs root))"

section \<open>What the validation decides\<close>

lemma child_by_id_None: "child_by_id s i = None \<longleftrightarrow> i \<notin> set (child_ids s)"
  by (auto simp: child_by_id_def child_ids_def find_last_None)

lemma validate_edge_cycles_accepts:
  assumes dist: "distinct (child_ids s)"
    and local: "\<forall>e \<in> set (edges_of s). e_from e \<in> set (child_ids s) \<and> e_to e \<in> set (child_ids s)"
  shows "validate_edge_cycles s = None \<longleftrightarrow>
           acyclic (set (map edge_pair (edges_of s))) \<or> length (children_of s) \<le> 1"
proof (cases "edges_of s = [] \<or> length (children_of s) \<le> 1")
  case True
  then show ?thesis by (auto simp: validate_edge_cycles_def acyclic_def)
next
  case False
  let ?es = "map edge_pair (edges_of s)" and ?vs = "child_ids s"
  obtain visited degree where k: "kahn ?vs ?es = (visited, degree)"
    by (cases "kahn ?vs ?es") auto
  have ends: "a \<in> set ?vs \<and> b \<in> set ?vs" if "(a, b) \<in> set ?es" for a b
    using that local by (auto simp: edge_pair_def)
  have "distinct visited" "set visited \<subseteq> set ?vs"
    using kahn_distinct [OF dist, of ?es] ends k by auto
  then have len: "length visited = length (children_of s) \<longleftrightarrow> set visited = set ?vs"
    using dist by (metis card_subset_eq child_ids_def distinct_card length_map List.finite_set)
  have "set visited = set ?vs \<longleftrightarrow> acyclic (set ?es)"
    using kahn_acyclic_complete [OF dist, of ?es] kahn_complete_acyclic [OF dist, of ?es] ends k
    by (auto simp: acyclic_edges_def)
  with False k len show ?thesis by (auto simp: validate_edge_cycles_def)
qed

lemma validate_edge_cycles_reports:
  assumes dist: "distinct (child_ids s)"
    and local: "\<forall>e \<in> set (edges_of s). e_from e \<in> set (child_ids s) \<and> e_to e \<in> set (child_ids s)"
    and cyc: "validate_edge_cycles s = Some (EdgeCycle c)"
  shows "c \<noteq> [] \<and> (\<forall>b \<in> set c. \<exists>e \<in> set (edges_of s). e_from e \<in> set c \<and> e_to e = b)"
proof -
  let ?es = "map edge_pair (edges_of s)" and ?vs = "child_ids s"
  obtain visited degree where k: "kahn ?vs ?es = (visited, degree)"
    by (cases "kahn ?vs ?es") auto
  have ends: "a \<in> set ?vs \<and> b \<in> set ?vs" if "(a, b) \<in> set ?es" for a b
    using that local by (auto simp: edge_pair_def)
  have visited: "distinct visited" "set visited \<subseteq> set ?vs"
    using kahn_distinct [OF dist, of ?es] ends k by auto
  have c: "c = filter (\<lambda>i. degree i > 0) ?vs" and len: "length visited \<noteq> length (children_of s)"
    using cyc k by (auto simp: validate_edge_cycles_def split: if_splits)
  have "set c = set ?vs - set visited"
    using kahn_degree_left [OF dist, of ?es] ends k c by auto
  moreover have "set visited \<noteq> set ?vs"
    using len visited dist by (metis child_ids_def distinct_card length_map)
  moreover have "\<exists>e \<in> set (edges_of s). e_from e \<in> set ?vs - set visited \<and> e_to e = b"
    if "b \<in> set ?vs - set visited" for b
  proof -
    have "b \<notin> set (fst (kahn ?vs ?es)) \<longleftrightarrow> (\<exists>a. (a, b) \<in> set ?es \<and> a \<notin> set (fst (kahn ?vs ?es)))"
      by (rule kahn_left_out [OF dist]) (use ends that in blast)+
    with that k obtain a where "(a, b) \<in> set ?es" "a \<notin> set visited"
      unfolding k fst_conv by blast
    with ends show ?thesis by (auto simp: edge_pair_def)
  qed
  ultimately show ?thesis using visited(2) by (auto simp del: set_map)
qed

text \<open>The cycle check is exact on subgraphs of two or more children: it accepts if and only if
  the edges are acyclic, and the children it reports are a non-empty set each of which waits on
  another of them. On a subgraph of at most one child it accepts whatever the edges are.\<close>

theorem validate_edge_cycles_exact:
  assumes dist: "distinct (child_ids s)"
    and local: "\<forall>e \<in> set (edges_of s). e_from e \<in> set (child_ids s) \<and> e_to e \<in> set (child_ids s)"
  shows "(validate_edge_cycles s = None \<longleftrightarrow>
            acyclic (set (map edge_pair (edges_of s))) \<or> length (children_of s) \<le> 1)
    \<and> (\<forall>c. validate_edge_cycles s = Some (EdgeCycle c) \<longrightarrow>
          c \<noteq> [] \<and> (\<forall>b \<in> set c. \<exists>e \<in> set (edges_of s). e_from e \<in> set c \<and> e_to e = b))"
  using validate_edge_cycles_accepts [OF dist local] validate_edge_cycles_reports [OF dist local]
  by blast

lemma validate_edge_cycles_exact_witness:
  "let s = Subgraph (meta (sample_unit ''s'')) None None (map sample_unit [''a'', ''b'', ''c''])
             [\<lparr>e_from = ''a'', e_to = ''b'', e_guard = 0\<rparr>, \<lparr>e_from = ''b'', e_to = ''a'', e_guard = 0\<rparr>]
   in validate_edge_cycles s \<noteq> None \<and> \<not> acyclic (set (map edge_pair (edges_of s)))"
proof -
  let ?s = "Subgraph (meta (sample_unit ''s'')) None None (map sample_unit [''a'', ''b'', ''c''])
     [\<lparr>e_from = ''a'', e_to = ''b'', e_guard = 0\<rparr>, \<lparr>e_from = ''b'', e_to = ''a'', e_guard = 0\<rparr>]"
  have "distinct (child_ids ?s)" and "validate_edge_cycles ?s \<noteq> None"
    and "\<forall>e \<in> set (edges_of ?s). e_from e \<in> set (child_ids ?s) \<and> e_to e \<in> set (child_ids ?s)"
    by code_simp+
  with validate_edge_cycles_exact [of ?s] show ?thesis unfolding Let_def by blast
qed

lemma mark_spec:
  "mark ts reached frontier = (reached', frontier') \<Longrightarrow>
     set reached' = set reached \<union> set ts
     \<and> (\<exists>new. frontier' = frontier @ new \<and> distinct new \<and> set new = set ts - set reached)"
proof (induction ts arbitrary: reached frontier)
  case Nil
  then show ?case by auto
next
  case (Cons t ts)
  show ?case
  proof (cases "t \<in> set reached")
    case True
    with Cons.prems Cons.IH [of reached frontier] show ?thesis by auto
  next
    case False
    with Cons.prems Cons.IH [of "t # reached" "frontier @ [t]"] obtain new where
      r: "set reached' = set (t # reached) \<union> set ts"
      and new: "frontier' = (frontier @ [t]) @ new" "distinct new" "set new = set ts - set (t # reached)"
      by auto
    have "distinct (t # new)" "set (t # new) = set (t # ts) - set reached"
      using new False by auto
    moreover have "frontier' = frontier @ t # new" using new(1) by simp
    ultimately show ?thesis using r by auto
  qed
qed

definition edge_rel :: "edge list \<Rightarrow> (string \<times> string) set" where
  "edge_rel es = set (map edge_pair es)"

lemma out_edges_targets: "t \<in> set (map e_to (out_edges es i)) \<longleftrightarrow> (i, t) \<in> edge_rel es"
  by (auto simp: out_edges_def edge_rel_def edge_pair_def image_iff)

text \<open>Everything marked is reachable from what was marked at the start.\<close>

lemma reach_loop_sound:
  assumes "set frontier \<subseteq> set reached" and "set reached \<subseteq> (edge_rel es)\<^sup>* `` R"
  shows "set (reach_loop k es reached frontier) \<subseteq> (edge_rel es)\<^sup>* `` R"
  using assms
proof (induction k arbitrary: reached frontier)
  case 0
  then show ?case by simp
next
  case (Suc k)
  show ?case
  proof (cases frontier)
    case Nil
    with Suc.prems show ?thesis by simp
  next
    case (Cons i rest)
    obtain reached' frontier' where m:
      "mark (map e_to (out_edges es i)) reached rest = (reached', frontier')" by fastforce
    from mark_spec [OF m] have r': "set reached' = set reached \<union> set (map e_to (out_edges es i))"
      and f': "set frontier' \<subseteq> set rest \<union> set (map e_to (out_edges es i))" by auto
    have "i \<in> (edge_rel es)\<^sup>* `` R" using Cons Suc.prems by auto
    then have "set (map e_to (out_edges es i)) \<subseteq> (edge_rel es)\<^sup>* `` R"
      using out_edges_targets [of _ es i] by (auto intro: rtrancl_into_rtrancl)
    with r' f' Suc.prems Cons have "set reached' \<subseteq> (edge_rel es)\<^sup>* `` R" "set frontier' \<subseteq> set reached'"
      by auto
    with Suc.IH [of frontier' reached'] show ?thesis by (simp add: Cons m)
  qed
qed

text \<open>
  With one round for each vertex still to be marked and each one waiting, the walk ends with a
  set closed under the edges, so everything reachable is marked.
\<close>

lemma reach_loop_closed:
  assumes "set frontier \<subseteq> set reached"
    and "\<And>v. v \<in> set reached \<Longrightarrow> v \<notin> set frontier \<Longrightarrow> edge_rel es `` {v} \<subseteq> set reached"
    and "length frontier + card (set (map e_to es) - set reached) \<le> k"
  shows "edge_rel es `` set (reach_loop k es reached frontier) \<subseteq> set (reach_loop k es reached frontier)
    \<and> set reached \<subseteq> set (reach_loop k es reached frontier)"
  using assms
proof (induction k arbitrary: reached frontier)
  case 0
  then show ?case by auto
next
  case (Suc k)
  show ?case
  proof (cases frontier)
    case Nil
    with Suc.prems(2) show ?thesis by auto
  next
    case (Cons i rest)
    let ?ts = "map e_to (out_edges es i)"
    obtain reached' frontier' where m: "mark ?ts reached rest = (reached', frontier')" by fastforce
    from mark_spec [OF m] obtain new where r': "set reached' = set reached \<union> set ?ts"
      and new: "frontier' = rest @ new" "distinct new" "set new = set ?ts - set reached"
      by blast
    have ts: "edge_rel es `` {i} = set ?ts" using out_edges_targets [of _ es i] by blast
    have sub: "set frontier' \<subseteq> set reached'" using Suc.prems(1) Cons r' new by auto
    have closed: "edge_rel es `` {v} \<subseteq> set reached'" if "v \<in> set reached'" "v \<notin> set frontier'" for v
    proof (cases "v = i")
      case True
      then show ?thesis using ts r' by auto
    next
      case False
      with that new r' have "v \<in> set reached" "v \<notin> set frontier" using Cons by auto
      with Suc.prems(2) r' show ?thesis by blast
    qed
    have "set ?ts \<subseteq> set (map e_to es)" by (auto simp: out_edges_def)
    then have split: "set (map e_to es) - set reached = set new \<union> (set (map e_to es) - set reached')"
      and dis: "set new \<inter> (set (map e_to es) - set reached') = {}"
      using new(3) r' by auto
    then have "card (set (map e_to es) - set reached)
        = length new + card (set (map e_to es) - set reached')"
      unfolding split using dis new(2) by (simp add: card_Un_disjoint distinct_card)
    then have "length frontier' + card (set (map e_to es) - set reached') \<le> k"
      using Suc.prems(3) Cons new(1) by simp
    from Suc.IH [OF sub closed this] r' show ?thesis by (auto simp: Cons m)
  qed
qed

lemma reach_loop_exact:
  "set (reach_loop (Suc (length es)) es [r] [r]) = (edge_rel es)\<^sup>* `` {r}"
proof -
  have "card (set (map e_to es) - set [r]) \<le> card (set (map e_to es))" by (rule card_mono) auto
  also have "\<dots> \<le> length es" using card_length [of "map e_to es"] by simp
  finally have "length [r] + card (set (map e_to es) - set [r]) \<le> Suc (length es)" by simp
  then have closed: "edge_rel es `` set (reach_loop (Suc (length es)) es [r] [r])
      \<subseteq> set (reach_loop (Suc (length es)) es [r] [r])"
    and r: "r \<in> set (reach_loop (Suc (length es)) es [r] [r])"
    using reach_loop_closed [of "[r]" "[r]" es "Suc (length es)"] by auto
  have "v \<in> set (reach_loop (Suc (length es)) es [r] [r])" if "(r, v) \<in> (edge_rel es)\<^sup>*" for v
    using that
  proof (induction rule: rtrancl_induct)
    case base
    show ?case by (rule r)
  next
    case (step y z)
    then show ?case using closed by blast
  qed
  moreover have "set (reach_loop (Suc (length es)) es [r] [r]) \<subseteq> (edge_rel es)\<^sup>* `` {r}"
    by (rule reach_loop_sound) auto
  ultimately show ?thesis by blast
qed

text \<open>
  A decision tree: every edge joins two children and carries a guard, one child is the root,
  every other child has exactly one incoming edge and is reached from the root, and a child
  with outgoing edges has exactly one truthy and one falsy one.
\<close>

definition decision_tree :: "exec_unit \<Rightarrow> string \<Rightarrow> bool" where
  "decision_tree s r \<longleftrightarrow>
     (\<forall>e \<in> set (edges_of s). e_from e \<in> set (child_ids s) \<and> e_to e \<in> set (child_ids s)
        \<and> e_guard e \<noteq> guard_none)
     \<and> r \<in> set (child_ids s) \<and> (\<forall>e \<in> set (edges_of s). e_to e \<noteq> r)
     \<and> (\<forall>i \<in> set (child_ids s). (r, i) \<in> (edge_rel (edges_of s))\<^sup>*
          \<and> length (filter (\<lambda>e. e_to e = i) (edges_of s)) \<le> 1)
     \<and> (\<forall>e \<in> set (edges_of s).
          guard_count guard_truthy (out_edges (edges_of s) (e_from e)) = 1
          \<and> guard_count guard_falsy (out_edges (edges_of s) (e_from e)) = 1)"

lemma in_degree_edges: "in_degree (map edge_pair es) i = int (length (filter (\<lambda>e. e_to e = i) es))"
  by (simp add: in_degree_def filter_map comp_def edge_pair_def)

lemma unique_pred:
  assumes "length (filter (\<lambda>e. e_to e = i) es) \<le> 1" "(a, i) \<in> edge_rel es" "(b, i) \<in> edge_rel es"
  shows "a = b"
proof -
  obtain e f where ef: "e \<in> set es" "e_from e = a" "e_to e = i" "f \<in> set es" "e_from f = b" "e_to f = i"
    using assms(2,3) by (auto simp: edge_rel_def edge_pair_def)
  then have "e \<in> set (filter (\<lambda>e. e_to e = i) es)" "f \<in> set (filter (\<lambda>e. e_to e = i) es)" by auto
  with assms(1) have "e = f" by (cases "filter (\<lambda>e. e_to e = i) es") auto
  with ef show ?thesis by simp
qed

lemma decision_tree_acyclic:
  assumes "decision_tree s r"
  shows "acyclic (edge_rel (edges_of s))"
proof -
  let ?E = "edge_rel (edges_of s)"
  have ends: "a \<in> set (child_ids s) \<and> b \<in> set (child_ids s)" if "(a, b) \<in> ?E" for a b
    using assms that by (auto simp: decision_tree_def edge_rel_def edge_pair_def)
  have on: "(v, v) \<notin> ?E\<^sup>+" if "(r, v) \<in> ?E\<^sup>*" for v
    using that
  proof (induction rule: rtrancl_induct)
    case base
    have "(a, r) \<notin> ?E" for a
      using assms by (auto simp: decision_tree_def edge_rel_def edge_pair_def)
    then show ?case by (metis tranclD2)
  next
    case (step y z)
    show ?case
    proof
      assume "(z, z) \<in> ?E\<^sup>+"
      then obtain p where p: "(z, p) \<in> ?E\<^sup>*" "(p, z) \<in> ?E" by (metis tranclD2)
      have "z \<in> set (child_ids s)" using ends step(2) by blast
      then have "length (filter (\<lambda>e. e_to e = z) (edges_of s)) \<le> 1"
        using assms by (auto simp: decision_tree_def)
      from unique_pred [OF this p(2) step(2)] have "p = y" .
      with p step show False by (metis rtrancl_into_trancl1 trancl_rtrancl_trancl r_into_trancl
          trancl_into_rtrancl rtrancl_trancl_trancl rtrancl_into_trancl2)
    qed
  qed
  have "(v, v) \<notin> ?E\<^sup>+" for v
  proof
    assume v: "(v, v) \<in> ?E\<^sup>+"
    then obtain p where "(p, v) \<in> ?E" by (metis tranclD2)
    then have "(r, v) \<in> ?E\<^sup>*" using ends assms by (auto simp: decision_tree_def)
    with on v show False by blast
  qed
  then show ?thesis by (simp add: acyclic_def)
qed

lemma validate_decision_nodes_ok:
  "validate_decision_nodes es = [] \<longleftrightarrow>
     (\<forall>e \<in> set es. guard_count guard_truthy (out_edges es (e_from e)) = 1
                 \<and> guard_count guard_falsy (out_edges es (e_from e)) = 1)"
  by (auto simp: validate_decision_nodes_def Let_def)

lemma validate_shape_ok:
  "validate_decision_tree_shape s es = [] \<longleftrightarrow>
     (\<exists>r. filter (\<lambda>i. length (filter (\<lambda>e. e_to e = i) es) = 0) (child_ids s) = [r]
        \<and> (\<forall>i \<in> set (child_ids s). length (filter (\<lambda>e. e_to e = i) es) \<le> 1
              \<and> (r, i) \<in> (edge_rel es)\<^sup>*))"
proof -
  have many: "(\<forall>i \<in> set (child_ids s). \<not> in_degree (map edge_pair es) i > 1)
      \<longleftrightarrow> (\<forall>i \<in> set (child_ids s). length (filter (\<lambda>e. e_to e = i) es) \<le> 1)"
    by (auto simp: in_degree_edges)
  have roots: "filter (\<lambda>i. in_degree (map edge_pair es) i = 0) (child_ids s)
      = filter (\<lambda>i. length (filter (\<lambda>e. e_to e = i) es) = 0) (child_ids s)"
    by (simp add: in_degree_edges)
  show ?thesis
  proof (cases "\<exists>r. filter (\<lambda>i. in_degree (map edge_pair es) i = 0) (child_ids s) = [r]")
    case True
    then obtain r where r: "filter (\<lambda>i. in_degree (map edge_pair es) i = 0) (child_ids s) = [r]"
      by blast
    have "validate_decision_tree_shape s es = [] \<longleftrightarrow>
        (\<forall>i \<in> set (child_ids s). \<not> in_degree (map edge_pair es) i > 1) \<and>
        (\<forall>i \<in> set (child_ids s). (r, i) \<in> (edge_rel es)\<^sup>*)"
      by (auto simp: validate_decision_tree_shape_def Let_def r reach_loop_exact filter_empty_conv
          simp del: reach_loop.simps)
    then show ?thesis using many r roots by auto
  next
    case False
    then have "validate_decision_tree_shape s es \<noteq> []"
      by (auto simp: validate_decision_tree_shape_def Let_def split: list.splits)
    with False roots show ?thesis by simp
  qed
qed

lemma filter_singleton:
  assumes "distinct xs"
  shows "filter P xs = [r] \<longleftrightarrow> r \<in> set xs \<and> P r \<and> (\<forall>x \<in> set xs. P x \<longrightarrow> x = r)"
proof
  assume "filter P xs = [r]"
  then have "set (filter P xs) = {r}" by simp
  then show "r \<in> set xs \<and> P r \<and> (\<forall>x \<in> set xs. P x \<longrightarrow> x = r)" by auto
next
  assume "r \<in> set xs \<and> P r \<and> (\<forall>x \<in> set xs. P x \<longrightarrow> x = r)"
  then have "set (filter P xs) = {r}" by auto
  moreover have "distinct (filter P xs)" using assms by simp
  ultimately show "filter P xs = [r]"
    by (metis distinct_singleton distinct_remdups_id remdups.simps(1) set_ConsD set_empty
        distinct.simps(2) insert_not_empty list.exhaust list.set(1) list.set_intros(1) list.set_intros(2) singletonD)
qed

lemma validate_edges_split:
  "validate_edges s = [] \<longleftrightarrow>
     (\<forall>e \<in> set (edges_of s). e_from e \<in> set (child_ids s) \<and> e_to e \<in> set (child_ids s))
     \<and> validate_edge_cycles s = None \<and> validate_guarded_edges s = []"
  by (auto simp: validate_edges_def Let_def child_by_id_None split: option.splits if_splits)

lemma length_filter_all: "length (filter P xs) = length xs \<longleftrightarrow> (\<forall>x \<in> set xs. P x)"
  by (metis filter_True filter_id_conv length_filter_less linorder_neq_iff)

lemma validate_guarded_ok:
  assumes "\<exists>e \<in> set (edges_of s). e_guard e \<noteq> guard_none"
  shows "validate_guarded_edges s = [] \<longleftrightarrow>
    (\<forall>e \<in> set (edges_of s). e_guard e \<noteq> guard_none) \<and> validate_decision_nodes (edges_of s) = []
    \<and> validate_decision_tree_shape s (edges_of s) = []"
proof -
  have "filter (\<lambda>e. e_guard e \<noteq> guard_none) (edges_of s) \<noteq> []" using assms by (auto simp: filter_empty_conv)
  then show ?thesis
    using length_filter_all [of "\<lambda>e. e_guard e \<noteq> guard_none" "edges_of s"]
    by (auto simp: validate_guarded_edges_def Let_def)
qed

lemma accepted_is_tree:
  assumes dist: "distinct (child_ids s)"
    and guarded: "\<exists>e \<in> set (edges_of s). e_guard e \<noteq> guard_none" and ok: "validate_edges s = []"
  shows "\<exists>r. decision_tree s r"
proof -
  let ?es = "edges_of s" and ?vs = "child_ids s"
  have ends: "\<forall>e \<in> set ?es. e_from e \<in> set ?vs \<and> e_to e \<in> set ?vs"
    and g: "\<forall>e \<in> set ?es. e_guard e \<noteq> guard_none"
    and nodes: "validate_decision_nodes ?es = []"
    and shape: "validate_decision_tree_shape s ?es = []"
    using ok by (auto simp: validate_edges_split validate_guarded_ok [OF guarded])
  obtain r where
    roots: "filter (\<lambda>i. length (filter (\<lambda>e. e_to e = i) ?es) = 0) ?vs = [r]"
    and reach: "\<forall>i \<in> set ?vs. length (filter (\<lambda>e. e_to e = i) ?es) \<le> 1 \<and> (r, i) \<in> (edge_rel ?es)\<^sup>*"
    using shape unfolding validate_shape_ok by blast
  have r: "r \<in> set ?vs" and none: "length (filter (\<lambda>e. e_to e = r) ?es) = 0"
    using iffD1 [OF filter_singleton [OF dist] roots] by simp_all
  have "\<forall>e \<in> set ?es. e_to e \<noteq> r" using none by (simp add: filter_empty_conv)
  with r ends g reach nodes [unfolded validate_decision_nodes_ok] have "decision_tree s r"
    unfolding decision_tree_def by blast
  then show ?thesis ..
qed

lemma tree_has_one_root:
  assumes dist: "distinct (child_ids s)" and tree: "decision_tree s r"
  shows "filter (\<lambda>i. length (filter (\<lambda>e. e_to e = i) (edges_of s)) = 0) (child_ids s) = [r]"
proof -
  let ?es = "edges_of s"
  have "x = r" if x: "x \<in> set (child_ids s)" "length (filter (\<lambda>e. e_to e = x) ?es) = 0" for x
  proof -
    have "(r, x) \<in> (edge_rel ?es)\<^sup>*" using tree x by (auto simp: decision_tree_def)
    then show ?thesis
    proof (cases rule: rtranclE)
      case base
      then show ?thesis by simp
    next
      case (step y)
      then obtain e where "e \<in> set ?es" "e_to e = x"
        by (auto simp: edge_rel_def edge_pair_def)
      with x(2) show ?thesis by (simp add: filter_empty_conv)
    qed
  qed
  moreover have "r \<in> set (child_ids s)" "length (filter (\<lambda>e. e_to e = r) ?es) = 0"
    using tree by (auto simp: decision_tree_def filter_empty_conv)
  ultimately show ?thesis unfolding filter_singleton [OF dist] by blast
qed

lemma tree_is_accepted:
  assumes dist: "distinct (child_ids s)"
    and guarded: "\<exists>e \<in> set (edges_of s). e_guard e \<noteq> guard_none" and tree: "decision_tree s r"
  shows "validate_edges s = []"
proof -
  let ?es = "edges_of s" and ?vs = "child_ids s"
  have ends: "\<forall>e \<in> set ?es. e_from e \<in> set ?vs \<and> e_to e \<in> set ?vs"
    using tree by (simp add: decision_tree_def)
  have "validate_edge_cycles s = None"
    using validate_edge_cycles_accepts [OF dist ends] decision_tree_acyclic [OF tree]
    unfolding edge_rel_def by blast
  moreover have "validate_decision_tree_shape s ?es = []"
    using tree tree_has_one_root [OF dist tree] unfolding validate_shape_ok decision_tree_def by blast
  moreover have "validate_decision_nodes ?es = []" "\<forall>e \<in> set ?es. e_guard e \<noteq> guard_none"
    using tree unfolding validate_decision_nodes_ok decision_tree_def by blast+
  ultimately show ?thesis
    using ends by (simp add: validate_edges_split validate_guarded_ok [OF guarded])
qed

text \<open>C22: on a subgraph with a guarded edge the validation accepts exactly the decision trees:
  no violation is reported if and only if every edge joins two children under a guard, one
  child is the root, every other child has exactly one way in and is reached, and every child
  with a way out has exactly one truthy and one falsy edge.\<close>

theorem validate_edges_decision_tree:
  assumes "distinct (child_ids s)" and "\<exists>e \<in> set (edges_of s). e_guard e \<noteq> guard_none"
  shows "validate_edges s = [] \<longleftrightarrow> (\<exists>r. decision_tree s r)"
  using accepted_is_tree [OF assms] tree_is_accepted [OF assms] by blast

definition sample_edge :: "string \<Rightarrow> string \<Rightarrow> int \<Rightarrow> edge" where
  "sample_edge a b g = \<lparr>e_from = a, e_to = b, e_guard = g\<rparr>"

definition sample_choose :: exec_unit where
  "sample_choose =
     Subgraph (meta (sample_unit ''choose'')) None None (map sample_unit [''q'', ''yes'', ''no''])
       [sample_edge ''q'' ''yes'' guard_truthy, sample_edge ''q'' ''no'' guard_falsy]"

lemma validate_edges_decision_tree_witness: "\<exists>r. decision_tree sample_choose r"
proof -
  have "distinct (child_ids sample_choose)" "validate_edges sample_choose = []"
    "\<exists>e \<in> set (edges_of sample_choose). e_guard e \<noteq> guard_none"
    by code_simp+
  with validate_edges_decision_tree [of sample_choose] show ?thesis by blast
qed

end
