(* ===== verification/Control_Plane.thy ===== *)
theory Control_Plane
  imports Errors
begin

text \<open>
  The control plane of \<open>pkg/op/control_plane.go\<close>: commands go in through a bounded queue the
  executor polls, events go out to subscribers that each have a bounded buffer and lose what
  does not fit. Channels are lists with the capacity of the Go channel; a response channel is
  the entry it gets in \<open>cp_responses\<close>. What a client does to the plane between two of the
  executor's control points is a list of \<open>client_action\<close>s.
\<close>

section \<open>State and operations\<close>

datatype control_command = ControlPause | ControlStop | ControlStep | ControlOther int

definition control_command_string :: "control_command \<Rightarrow> string" where
  "control_command_string c =
     (case c of ControlPause \<Rightarrow> ''pause'' | ControlStop \<Rightarrow> ''stop'' | ControlStep \<Rightarrow> ''step''
      | ControlOther n \<Rightarrow> ''control('' @ show_int n @ '')'')"

record control_response =
  resp_status :: "run_status option"
  resp_err :: "gerror option"

datatype event_kind = EventPhaseChanged | EventError | EventResult

record control_event =
  ev_seq :: nat
  ev_kind :: event_kind
  ev_status :: run_status
  ev_unit_id :: string
  ev_err :: "gerror option"

text \<open>A request is known by a ticket, the client's handle on its response channel.\<close>

record control_request =
  req_cmd :: control_command
  req_ticket :: nat

record subscriber =
  sub_id :: nat
  sub_buffer :: "control_event list"

record control_plane =
  cp_requests :: "control_request list"
  cp_subscribers :: "subscriber list"
  cp_seq :: nat
  cp_responses :: "(nat \<times> control_response) list"
  cp_next :: nat

definition request_capacity :: nat where "request_capacity = 16"
definition event_capacity :: nat where "event_capacity = 64"

definition new_control_plane :: control_plane where
  "new_control_plane =
     \<lparr>cp_requests = [], cp_subscribers = [], cp_seq = 0, cp_responses = [], cp_next = 0\<rparr>"

definition answer :: "nat \<Rightarrow> control_response \<Rightarrow> control_plane \<Rightarrow> control_plane" where
  "answer t r p = p\<lparr>cp_responses := cp_responses p @ [(t, r)]\<rparr>"

definition request :: "control_command \<Rightarrow> control_plane \<Rightarrow> control_plane" where
  "request c p =
     (let t = cp_next p; p' = p\<lparr>cp_next := Suc t\<rparr>
      in if length (cp_requests p) < request_capacity
         then p'\<lparr>cp_requests := cp_requests p @ [\<lparr>req_cmd = c, req_ticket = t\<rparr>]\<rparr>
         else answer t \<lparr>resp_status = None,
                resp_err = Some (ENew ''control plane: request queue full'')\<rparr> p')"

definition subscribe :: "control_plane \<Rightarrow> control_plane" where
  "subscribe p =
     p\<lparr>cp_subscribers := cp_subscribers p @ [\<lparr>sub_id = cp_next p, sub_buffer = []\<rparr>],
       cp_next := Suc (cp_next p)\<rparr>"

definition cancel_subscription :: "nat \<Rightarrow> control_plane \<Rightarrow> control_plane" where
  "cancel_subscription i p =
     p\<lparr>cp_subscribers := filter (\<lambda>s. sub_id s \<noteq> i) (cp_subscribers p)\<rparr>"

text \<open>The subscriber's own read of its channel.\<close>

definition receive :: "nat \<Rightarrow> control_plane \<Rightarrow> control_plane" where
  "receive i p =
     p\<lparr>cp_subscribers :=
        map (\<lambda>s. if sub_id s = i then s\<lparr>sub_buffer := tl (sub_buffer s)\<rparr> else s) (cp_subscribers p)\<rparr>"

definition poll_request :: "control_plane \<Rightarrow> control_request option \<times> control_plane" where
  "poll_request p =
     (case cp_requests p of
        [] \<Rightarrow> (None, p)
      | r # rs \<Rightarrow> (Some r, p\<lparr>cp_requests := rs\<rparr>))"

definition deliver :: "control_event \<Rightarrow> subscriber \<Rightarrow> subscriber" where
  "deliver ev s =
     (if length (sub_buffer s) < event_capacity then s\<lparr>sub_buffer := sub_buffer s @ [ev]\<rparr> else s)"

text \<open>
  An emission stamps the event with the next number of the atomic counter and only then takes the mutex and fans the
  event out, so the two halves of one emission may have other emissions between them.
\<close>

definition stamp_event ::
  "event_kind \<Rightarrow> run_status \<Rightarrow> string \<Rightarrow> gerror option \<Rightarrow> control_plane \<Rightarrow> control_event \<times> control_plane"
where
  "stamp_event k st u err p =
     (let n = Suc (cp_seq p)
      in (\<lparr>ev_seq = n, ev_kind = k, ev_status = st, ev_unit_id = u, ev_err = err\<rparr>, p\<lparr>cp_seq := n\<rparr>))"

definition fan_out :: "control_event \<Rightarrow> control_plane \<Rightarrow> control_plane" where
  "fan_out ev p = p\<lparr>cp_subscribers := map (deliver ev) (cp_subscribers p)\<rparr>"

text \<open>An emission that no other one interrupts.\<close>

definition emit :: "event_kind \<Rightarrow> run_status \<Rightarrow> string \<Rightarrow> gerror option \<Rightarrow> control_plane \<Rightarrow> control_plane" where
  "emit k st u err p = (case stamp_event k st u err p of (ev, p') \<Rightarrow> fan_out ev p')"

datatype client_action = Request control_command | Subscribe | Cancel nat | Receive nat

fun client_step :: "client_action \<Rightarrow> control_plane \<Rightarrow> control_plane" where
  "client_step (Request c) p = request c p"
| "client_step Subscribe p = subscribe p"
| "client_step (Cancel i) p = cancel_subscription i p"
| "client_step (Receive i) p = receive i p"

section \<open>Steps of the plane\<close>

text \<open>The plane as one emitter sees it: client actions, polls and whole emissions in any order.\<close>

inductive plane_step :: "control_plane \<Rightarrow> control_plane \<Rightarrow> bool" where
  ps_client: "plane_step p (client_step a p)"
| ps_poll: "poll_request p = (r, p') \<Longrightarrow> plane_step p p'"
| ps_emit: "plane_step p (emit k st u err p)"
| ps_answer: "plane_step p (answer t r p)"

text \<open>
  The plane that \<open>n\<close> goroutines share, gather's iterations among them: the state holds the events that are stamped
  and not yet fanned out, one at most for each goroutine.
\<close>

type_synonym shared_plane = "control_plane \<times> control_event list"

inductive shared_step :: "nat \<Rightarrow> shared_plane \<Rightarrow> shared_plane \<Rightarrow> bool" for n where
  ss_client: "shared_step n (p, es) (client_step a p, es)"
| ss_poll: "poll_request p = (r, p') \<Longrightarrow> shared_step n (p, es) (p', es)"
| ss_answer: "shared_step n (p, es) (answer t r p, es)"
| ss_stamp: "\<lbrakk>length es < n; stamp_event k st u err p = (ev, p')\<rbrakk> \<Longrightarrow> shared_step n (p, es) (p', es @ [ev])"
| ss_fan_out: "ev \<in> set es \<Longrightarrow> shared_step n (p, es) (fan_out ev p, remove1 ev es)"

lemma plane_step_shared:
  assumes "plane_step p q" and "0 < n"
  shows "(shared_step n)\<^sup>*\<^sup>* (p, []) (q, [])"
  using assms
proof cases
  case (ps_emit k st u err)
  obtain ev p' where ev: "stamp_event k st u err p = (ev, p')" by (metis surj_pair)
  have "shared_step n (p, []) (p', [ev])" using ss_stamp [of "[]" n k st u err p ev p'] ev assms(2) by simp
  moreover have "shared_step n (p', [ev]) (fan_out ev p', [])" using ss_fan_out [of ev "[ev]" n p'] by simp
  moreover have "q = fan_out ev p'" by (simp add: ps_emit emit_def ev)
  ultimately show ?thesis by (meson rtranclp.simps)
qed (auto intro: shared_step.intros)

definition buffer_ok :: "nat \<Rightarrow> nat \<Rightarrow> control_event list \<Rightarrow> subscriber \<Rightarrow> bool" where
  "buffer_ok n newest es s \<longleftrightarrow>
     length (sub_buffer s) \<le> event_capacity
     \<and> distinct (map ev_seq (sub_buffer s @ es))
     \<and> (\<forall>ev \<in> set (sub_buffer s). ev_seq ev \<le> newest)
     \<and> (n \<le> 1 \<longrightarrow> sorted_wrt (<) (map ev_seq (sub_buffer s @ es)))"

definition plane_ok :: "nat \<Rightarrow> shared_plane \<Rightarrow> bool" where
  "plane_ok n pe \<longleftrightarrow>
     (case pe of (p, es) \<Rightarrow>
        length (cp_requests p) \<le> request_capacity
        \<and> sorted_wrt (<) (map req_ticket (cp_requests p))
        \<and> (\<forall>r \<in> set (cp_requests p). req_ticket r < cp_next p)
        \<and> length es \<le> n \<and> (\<forall>ev \<in> set es. ev_seq ev \<le> cp_seq p) \<and> distinct (map ev_seq es)
        \<and> (\<forall>s \<in> set (cp_subscribers p). buffer_ok n (cp_seq p) es s))"

lemma plane_ok_new: "plane_ok n (new_control_plane, [])"
  by (simp add: plane_ok_def new_control_plane_def)

lemma plane_ok_request: "plane_ok n (p, es) \<Longrightarrow> plane_ok n (request c p, es)"
  by (auto simp: plane_ok_def request_def Let_def answer_def sorted_wrt_append less_Suc_eq)

lemma sorted_short: "length xs \<le> Suc 0 \<Longrightarrow> sorted_wrt P xs"
  by (cases xs) auto

lemma plane_ok_subscribe: "plane_ok n (p, es) \<Longrightarrow> plane_ok n (subscribe p, es)"
  by (auto simp: plane_ok_def subscribe_def buffer_ok_def less_Suc_eq intro!: sorted_short)

lemma plane_ok_cancel: "plane_ok n (p, es) \<Longrightarrow> plane_ok n (cancel_subscription i p, es)"
  by (auto simp: plane_ok_def cancel_subscription_def)

lemma buffer_ok_tl: "buffer_ok n newest es s \<Longrightarrow> buffer_ok n newest es (s\<lparr>sub_buffer := tl (sub_buffer s)\<rparr>)"
  by (cases "sub_buffer s") (auto simp: buffer_ok_def)

lemma plane_ok_receive: "plane_ok n (p, es) \<Longrightarrow> plane_ok n (receive i p, es)"
  by (auto simp: plane_ok_def receive_def buffer_ok_tl)

lemma plane_ok_client: "plane_ok n (p, es) \<Longrightarrow> plane_ok n (client_step a p, es)"
  by (cases a) (simp_all add: plane_ok_request plane_ok_subscribe plane_ok_cancel plane_ok_receive)

lemma plane_ok_poll: "plane_ok n (p, es) \<Longrightarrow> poll_request p = (r, p') \<Longrightarrow> plane_ok n (p', es)"
  by (auto simp: plane_ok_def poll_request_def split: list.splits)

lemma plane_ok_answer: "plane_ok n (p, es) \<Longrightarrow> plane_ok n (answer t r p, es)"
  by (simp add: plane_ok_def answer_def)

lemma buffer_ok_stamp:
  assumes "buffer_ok n newest es s" "ev_seq ev = Suc newest" "\<forall>ev \<in> set es. ev_seq ev \<le> newest"
  shows "buffer_ok n (Suc newest) (es @ [ev]) s"
proof -
  have "\<forall>x \<in> set (sub_buffer s @ es). ev_seq x < ev_seq ev"
    using assms by (auto simp: buffer_ok_def less_Suc_eq_le)
  then have "distinct (map ev_seq ((sub_buffer s @ es) @ [ev]))"
    "n \<le> 1 \<longrightarrow> sorted_wrt (<) (map ev_seq ((sub_buffer s @ es) @ [ev]))"
    using assms(1) by (auto simp: buffer_ok_def sorted_wrt_append)
  then show ?thesis using assms(1) by (auto simp: buffer_ok_def)
qed

lemma plane_ok_stamp:
  assumes "plane_ok n (p, es)" "length es < n" "stamp_event k st u err p = (ev, p')"
  shows "plane_ok n (p', es @ [ev])"
proof -
  have ev: "ev_seq ev = Suc (cp_seq p)" "p' = p\<lparr>cp_seq := Suc (cp_seq p)\<rparr>"
    using assms(3) by (auto simp: stamp_event_def Let_def)
  have "\<forall>x \<in> set es. ev_seq x \<noteq> Suc (cp_seq p)" using assms(1) by (force simp: plane_ok_def)
  then show ?thesis
    using assms(1,2) ev buffer_ok_stamp by (auto simp: plane_ok_def)
qed

lemma distinct_take_out: "distinct (map f (xs @ es)) \<Longrightarrow> ev \<in> set es \<Longrightarrow> distinct (map f ((xs @ [ev]) @ remove1 ev es))"
proof -
  assume d: "distinct (map f (xs @ es))" and "ev \<in> set es"
  then obtain us vs where "es = us @ ev # vs" "ev \<notin> set us" by (metis split_list_first)
  with d show ?thesis by (auto simp: remove1_append)
qed

lemma buffer_ok_fan_out:
  assumes "buffer_ok n newest es s" "ev \<in> set es" "ev_seq ev \<le> newest" "length es \<le> n"
  shows "buffer_ok n newest (remove1 ev es) (deliver ev s)"
proof -
  have one: "es = [ev]" if "n \<le> 1" using that assms(2,4) by (cases es; cases "tl es") auto
  have d: "distinct (map ev_seq ((sub_buffer s @ [ev]) @ remove1 ev es))"
    using assms(1,2) by (intro distinct_take_out) (auto simp: buffer_ok_def)
  then show ?thesis
    using assms(1,3) one by (auto simp: buffer_ok_def deliver_def sorted_wrt_append)
qed

lemma plane_ok_fan_out: "plane_ok n (p, es) \<Longrightarrow> ev \<in> set es \<Longrightarrow> plane_ok n (fan_out ev p, remove1 ev es)"
  using distinct_take_out [of ev_seq "[]" es ev]
  by (auto simp: plane_ok_def fan_out_def length_remove1 dest: notin_set_remove1 intro!: buffer_ok_fan_out)

lemma shared_step_ok: "shared_step n pe qe \<Longrightarrow> plane_ok n pe \<Longrightarrow> plane_ok n qe"
  by (induction rule: shared_step.induct)
    (auto intro: plane_ok_client plane_ok_poll plane_ok_answer plane_ok_stamp plane_ok_fan_out)

lemma shared_reachable_ok: "(shared_step n)\<^sup>*\<^sup>* (new_control_plane, []) pe \<Longrightarrow> plane_ok n pe"
  by (induction rule: rtranclp_induct) (auto intro: plane_ok_new shared_step_ok)

text \<open>C40: Whatever clients, polls and the emissions of any number of goroutines do in whatever order, the command queue
  never holds more than sixteen requests and is served first in, first out; every subscriber's buffer holds at most
  sixty-four events, none twice, none in it that is still to be fanned out and none newer than the plane's counter.
  With one emission at a time each buffer is in strictly increasing sequence number; with more it need not be, because
  the number is taken before the lock.\<close>

theorem plane_bounded_and_ordered:
  assumes "(shared_step n)\<^sup>*\<^sup>* (new_control_plane, []) (p, es)"
  shows "length (cp_requests p) \<le> 16
    \<and> (\<forall>r p'. poll_request p = (Some r, p') \<longrightarrow> (\<forall>r' \<in> set (cp_requests p'). req_ticket r < req_ticket r'))
    \<and> (\<forall>s \<in> set (cp_subscribers p).
          length (sub_buffer s) \<le> 64 \<and> distinct (map ev_seq (sub_buffer s @ es))
          \<and> (\<forall>ev \<in> set (sub_buffer s). ev_seq ev \<le> cp_seq p)
          \<and> (n \<le> 1 \<longrightarrow> sorted_wrt (<) (map ev_seq (sub_buffer s))))"
  using shared_reachable_ok [OF assms]
  by (auto simp: plane_ok_def buffer_ok_def request_capacity_def event_capacity_def poll_request_def sorted_wrt_append
      split: list.splits)

lemma plane_bounded_and_ordered_witness:
  "length (cp_requests (request ControlPause (subscribe new_control_plane))) \<le> 16"
proof -
  have "plane_step new_control_plane (subscribe new_control_plane)" using ps_client [of _ Subscribe] by simp
  moreover have "plane_step (subscribe new_control_plane) (request ControlPause (subscribe new_control_plane))"
    using ps_client [of _ "Request ControlPause"] by simp
  ultimately have "(shared_step 1)\<^sup>*\<^sup>* (new_control_plane, []) (request ControlPause (subscribe new_control_plane), [])"
    using plane_step_shared [where n = 1] by (meson rtranclp_trans zero_less_one)
  from plane_bounded_and_ordered [OF this] show ?thesis by blast
qed

text \<open>
  \<open>Subscribe\<close> promises events in order. Two goroutines break the promise: the one that stamped second fans out first,
  and the subscriber reads number two before number one.
\<close>

definition running_status :: run_status where
  "running_status = \<lparr>st_phase = Running, st_condition = Healthy, st_reason = ReasonStarted, st_message = []\<rparr>"

definition overtaken :: control_plane where
  "overtaken =
     (let p0 = subscribe new_control_plane;
          (e1, p1) = stamp_event EventPhaseChanged running_status [] None p0;
          (e2, p2) = stamp_event EventPhaseChanged running_status [] None p1
      in fan_out e1 (fan_out e2 p2))"

lemma events_overtake:
  "(shared_step 2)\<^sup>*\<^sup>* (new_control_plane, []) (overtaken, [])
    \<and> map (map ev_seq \<circ> sub_buffer) (cp_subscribers overtaken) = [[2, 1]]"
proof -
  let ?p0 = "subscribe new_control_plane"
  obtain e1 p1 where e1: "stamp_event EventPhaseChanged running_status [] None ?p0 = (e1, p1)" by (metis surj_pair)
  obtain e2 p2 where e2: "stamp_event EventPhaseChanged running_status [] None p1 = (e2, p2)" by (metis surj_pair)
  have "e1 \<noteq> e2" using e1 e2 by (auto simp: stamp_event_def Let_def)
  then have steps: "shared_step 2 (new_control_plane, []) (?p0, [])" "shared_step 2 (?p0, []) (p1, [e1])"
    "shared_step 2 (p1, [e1]) (p2, [e1, e2])" "shared_step 2 (p2, [e1, e2]) (fan_out e2 p2, [e1])"
    "shared_step 2 (fan_out e2 p2, [e1]) (fan_out e1 (fan_out e2 p2), [])"
    using ss_client [of 2 new_control_plane "[]" Subscribe] ss_stamp [OF _ e1, of "[]" 2] ss_stamp [OF _ e2, of "[e1]" 2]
      ss_fan_out [of e2 "[e1, e2]" 2 p2] ss_fan_out [of e1 "[e1]" 2 "fan_out e2 p2"] by simp_all
  note run = rtranclp.rtrancl_into_rtrancl
  have "(shared_step 2)\<^sup>*\<^sup>* (new_control_plane, []) (fan_out e1 (fan_out e2 p2), [])"
    by (rule run [OF run [OF run [OF run [OF r_into_rtranclp [of "shared_step 2", OF steps(1)] steps(2)] steps(3)] steps(4)] steps(5)])
  moreover have "overtaken = fan_out e1 (fan_out e2 p2)" by (simp add: overtaken_def e1 e2 Let_def)
  moreover have "map (map ev_seq \<circ> sub_buffer) (cp_subscribers overtaken) = [[2, 1]]" by code_simp
  ultimately show ?thesis by simp
qed

end
