(* ===== verification/Engine.thy ===== *)
theory Engine
  imports Topology Control_Plane
begin

text \<open>
  The state of \<open>op.GraphExecutor\<close> (\<open>pkg/op/graph_executor.go\<close>) and the steps every dispatch
  shares: the transition choke point, the control point, policy resolution, the audit receipt
  of a dispatch exit, and the verification of a scope's claims.

  What lies outside the engine is the record \<open>world_ops\<close>: the run's context, the registry that
  resolves an action name, the providers behind the actions and their undo companions, timers,
  the uuid mint, the catalog's existence probe, and the clients of the control plane. Each of
  them acts on a state of the world of any type \<open>'w\<close>.
\<close>

section \<open>The world\<close>

text \<open>What an action's \<open>Do\<close> hands back as its compensator.\<close>

datatype comp_value = CvNone | CvReceipt receipt | CvStack rstack

datatype leaf_result = LeafReturn gvalue comp_value "gerror option" | LeafPanic string

datatype wait_event = WaitCanceled gerror | WaitDeadline | WaitTick

type_synonym slots = "(string \<times> gvalue) list"

record 'w world_ops =
  ctx_err :: "'w \<Rightarrow> gerror option"
  clients :: "'w \<Rightarrow> client_action list \<times> 'w"
  resolve_action :: "string \<Rightarrow> (gerror, action) result"
  do_leaf :: "action \<Rightarrow> string \<Rightarrow> slots \<Rightarrow> frame \<Rightarrow> 'w \<Rightarrow> leaf_result \<times> 'w"
  coerce_args :: "action \<Rightarrow> slots \<Rightarrow> 'w \<Rightarrow> (gerror, slots) result \<times> 'w"
  undo :: "receipt \<Rightarrow> 'w \<Rightarrow> 'w \<times> gerror option"
  sleep :: "duration \<Rightarrow> 'w \<Rightarrow> gerror option \<times> 'w"
  poll_wait :: "'w \<Rightarrow> wait_event \<times> 'w"
  mint :: "'w \<Rightarrow> gerror option \<times> 'w"
  probe_claim :: "gvalue \<Rightarrow> 'w \<Rightarrow> gerror option \<times> 'w"
  type_conflict :: "exec_unit \<Rightarrow> gerror option"
  parse_duration :: "string \<Rightarrow> duration option"
  draw_jitter :: "duration \<Rightarrow> duration"
  render_message :: "slots \<Rightarrow> string"
  format_duration :: "int \<Rightarrow> string"
  format_value :: "gvalue \<Rightarrow> string"

section \<open>The executor\<close>

text \<open>
  The fields of the executor that a dispatch changes, with the control plane it shares with
  its child executors and the world. The graph is fixed and passed by its root.
\<close>

record 'w engine =
  en_status :: run_status
  en_journal :: "transition list"
  en_pending :: reaction
  en_control :: control_plane
  en_world :: 'w

datatype outcome = Ok gvalue | Fail gerror | Panicked string | OutOfFuel

definition initial_status :: run_status where
  "initial_status =
     \<lparr>st_phase = Preparing, st_condition = Healthy, st_reason = ReasonUnspecified, st_message = []\<rparr>"

definition running_status :: run_status where
  "running_status = initial_status\<lparr>st_phase := Running\<rparr>"

definition new_engine :: "control_plane \<Rightarrow> 'w \<Rightarrow> 'w engine" where
  "new_engine p w =
     \<lparr>en_status = initial_status, en_journal = [], en_pending = ReactionContinue,
      en_control = p, en_world = w\<rparr>"

text \<open>
  \<open>newChildExecutor\<close>: own status, journal and pending reaction; the control plane and the
  environment are the parent's. \<open>back_to_parent\<close> takes them back when the child is done.
\<close>

definition child_engine :: "'w engine \<Rightarrow> 'w engine" where
  "child_engine m =
     m\<lparr>en_status := running_status, en_journal := [], en_pending := ReactionContinue\<rparr>"

definition back_to_parent :: "'w engine \<Rightarrow> 'w engine \<Rightarrow> 'w engine" where
  "back_to_parent m child = m\<lparr>en_control := en_control child, en_world := en_world child\<rparr>"

definition emit_event :: "event_kind \<Rightarrow> string \<Rightarrow> gerror option \<Rightarrow> 'w engine \<Rightarrow> 'w engine" where
  "emit_event k u err m = m\<lparr>en_control := emit k (en_status m) u err (en_control m)\<rparr>"

section \<open>Policies\<close>

definition units_by_id :: "exec_unit \<Rightarrow> string \<Rightarrow> exec_unit option" where
  "units_by_id root i =
     (case find_last (\<lambda>s. if unit_id s = i then Some s else None) (descendant_subgraphs root) of
        Some s \<Rightarrow> Some s
      | None \<Rightarrow> find_last (\<lambda>n. if unit_id n = i then Some n else None) (descendant_nodes root))"

definition transition_policy_for :: "exec_unit \<Rightarrow> string \<Rightarrow> transition_policy" where
  "transition_policy_for root i =
     (let own = (case units_by_id root i of Some u \<Rightarrow> m_transition (meta u) | None \<Rightarrow> None)
      in case own of
           Some p \<Rightarrow> p
         | None \<Rightarrow> (case m_transition (meta root) of
                      Some p \<Rightarrow> p
                    | None \<Rightarrow> pc_transition new_policies_config))"

definition retry_policy_for :: "exec_unit \<Rightarrow> exec_unit \<Rightarrow> retry_policy option" where
  "retry_policy_for root u =
     (case m_retry (meta u) of
        Some p \<Rightarrow> Some p
      | None \<Rightarrow>
          if is_subgraph u \<and> u \<noteq> root \<and> bound_action_name u = ''flow.subgraph''
          then Some (pc_retry new_policies_config) else None)"

section \<open>Transition\<close>

definition reject_message :: "condition \<Rightarrow> condition \<Rightarrow> string" where
  "reject_message have_c want =
     ''op: transition rejected: have '' @ string_of_condition (condition_code have_c)
     @ '', requested '' @ string_of_condition (condition_code want)"

definition transition_to ::
  "exec_unit \<Rightarrow> string \<Rightarrow> condition \<Rightarrow> reason \<Rightarrow> string \<Rightarrow> 'w engine \<Rightarrow> gerror option \<times> 'w engine"
where
  "transition_to root u c r msg m =
     (let st = en_status m in
      if c < st_condition st then (Some (ENew (reject_message (st_condition st) c)), m)
      else if c = st_condition st then (None, m)
      else
        let st' = \<lparr>st_phase = st_phase st, st_condition = c, st_reason = r, st_message = msg\<rparr>;
            entry = \<lparr>tr_phase = st_phase st', tr_condition = c, tr_unit_id = u, tr_reason = r,
                     tr_message = msg\<rparr>;
            reaction = reaction_for (transition_policy_for root u) c
        in (None, m\<lparr>en_status := st', en_journal := en_journal m @ [entry],
                    en_pending := (if reaction > en_pending m then reaction else en_pending m)\<rparr>))"

text \<open>\<open>assert.NoError\<close> turns a rejected transition into a panic.\<close>

definition framework_failure ::
  "exec_unit \<Rightarrow> string \<Rightarrow> gerror \<Rightarrow> 'w engine \<Rightarrow> outcome \<times> 'w engine"
where
  "framework_failure root u cause m =
     (case transition_to root u ExecutionFailed ReasonFrameworkFailed (error_text cause) m of
        (Some err, m') \<Rightarrow> (Panicked (error_text err), m')
      | (None, m') \<Rightarrow> (Fail (EFail ReasonFrameworkFailed True cause), m'))"

definition apply_pending_reaction :: "gvalue \<Rightarrow> 'w engine \<Rightarrow> outcome" where
  "apply_pending_reaction v m =
     (case en_pending m of
        ReactionStop \<Rightarrow> Fail (EFail (st_reason (en_status m)) True (ENew (st_message (en_status m))))
      | ReactionPause \<Rightarrow> Fail (EJoin [ErrPaused, ENew (st_message (en_status m))])
      | ReactionContinue \<Rightarrow> Ok v)"

section \<open>The control point\<close>

text \<open>
  Between two control points the clients act on the plane; then \<open>controlPoint\<close> serves at most
  one request.
\<close>

definition let_clients_act :: "'w world_ops \<Rightarrow> 'w engine \<Rightarrow> 'w engine" where
  "let_clients_act W m =
     (case clients W (en_world m) of (acts, w) \<Rightarrow>
        m\<lparr>en_control := fold client_step acts (en_control m), en_world := w\<rparr>)"

definition serve_request :: "control_request \<Rightarrow> 'w engine \<Rightarrow> gerror option \<times> 'w engine" where
  "serve_request req m =
     (let park = (\<lambda>ph r msg err.
            let st = (en_status m)\<lparr>st_phase := ph, st_reason := r, st_message := msg\<rparr>;
                m' = m\<lparr>en_status := st,
                       en_control := answer (req_ticket req) \<lparr>resp_status = Some st, resp_err = None\<rparr>
                                       (en_control m)\<rparr>
            in (Some err, emit_event EventPhaseChanged [] None m'))
      in case req_cmd req of
           ControlPause \<Rightarrow> park Paused ReasonPaused ''at a control-point'' ErrPaused
         | ControlStop \<Rightarrow> park Stopping ReasonStopped ''stop requested at a control-point'' ErrStopped
         | c \<Rightarrow> (None, m\<lparr>en_control := answer (req_ticket req)
               \<lparr>resp_status = None,
                resp_err = Some (ENew (''control: unsupported command '' @ control_command_string c))\<rparr>
               (en_control m)\<rparr>))"

definition control_point :: "'w world_ops \<Rightarrow> 'w engine \<Rightarrow> gerror option \<times> 'w engine" where
  "control_point W m0 =
     (let m = let_clients_act W m0
      in case poll_request (en_control m) of
           (None, p) \<Rightarrow> (None, m)
         | (Some req, p) \<Rightarrow> serve_request req (m\<lparr>en_control := p\<rparr>))"

section \<open>The audit receipt\<close>

text \<open>
  \<open>pushAuditReceipt\<close>. A stack compensator is stamped and nested as it is. Otherwise a receipt
  is pushed: the action's own or a bare one, committed only when the dispatch ran. The names
  \<open>Commit\<close> stamps come from the unit the graph resolves the id to.
\<close>

definition unit_names :: "exec_unit \<Rightarrow> string \<Rightarrow> (string \<times> string) option" where
  "unit_names root i =
     (case resolve_executable root i of
        None \<Rightarrow> None
      | Some u \<Rightarrow> Some (case m_action (meta u) of
            Some a \<Rightarrow> (act_name a, act_full_name a)
          | None \<Rightarrow> (m_action_name (meta u), m_action_name (meta u))))"

definition push_audit_receipt ::
  "'w world_ops \<Rightarrow> exec_unit \<Rightarrow> exec_unit \<Rightarrow> rstack \<Rightarrow> slots option \<Rightarrow> gvalue \<Rightarrow> comp_value
   \<Rightarrow> gerror option \<Rightarrow> bool \<Rightarrow> 'w engine \<Rightarrow> gerror option \<times> rstack \<times> 'w engine"
where
  "push_audit_receipt W root u stack slots v cv err dispatched m =
     (case cv of
        CvStack child \<Rightarrow> (None, push_nested (stamp (unit_id u) v err child) stack, m)
      | _ \<Rightarrow>
          let base = set_slots slots (case cv of CvReceipt r \<Rightarrow> r | _ \<Rightarrow> new_receipt VNil);
              k = (case cv of CvReceipt r \<Rightarrow> SelfCompensator | _ \<Rightarrow> NoCompensator)
          in if \<not> dispatched then (None, push base stack, m)
             else
               (case (if r_committed base then (None, en_world m) else mint W (en_world m)) of
                  (mint_err, w) \<Rightarrow>
                    (case commit mint_err (unit_id u) (unit_names root (unit_id u)) v k err base of
                       (receipt, commit_err) \<Rightarrow>
                         (map_option (wrapf (''commit audit receipt for '' @ unit_id u @ '': '')) commit_err,
                          push receipt stack, m\<lparr>en_world := w\<rparr>))))"

definition join_audit_stamp ::
  "'w world_ops \<Rightarrow> exec_unit \<Rightarrow> exec_unit \<Rightarrow> rstack \<Rightarrow> slots option \<Rightarrow> comp_value
   \<Rightarrow> gerror \<Rightarrow> bool \<Rightarrow> 'w engine \<Rightarrow> gerror \<times> rstack \<times> 'w engine"
where
  "join_audit_stamp W root u stack slots cv err dispatched m =
     (case push_audit_receipt W root u stack slots VNil cv (Some err) dispatched m of
        (None, stack', m') \<Rightarrow> (err, stack', m')
      | (Some stamp_err, stack', m') \<Rightarrow> (EJoin [err, stamp_err], stack', m'))"

section \<open>Claims of a scope\<close>

definition value_missing_policy :: "gvalue \<Rightarrow> int option" where
  "value_missing_policy v =
     (case v of VNamed t (VInt n) \<Rightarrow> if t = ''op.MissingResourcePolicy'' then Some n else None
              | _ \<Rightarrow> None)"

definition unit_missing_policy :: "exec_unit \<Rightarrow> int" where
  "unit_missing_policy u =
     (case first_some (map (\<lambda>(n, b). case b of Immediate v \<Rightarrow> value_missing_policy v | _ \<Rightarrow> None)
                         (m_slots (meta u))) of
        Some p \<Rightarrow> p
      | None \<Rightarrow> missing_policy_code MissingStop)"

text \<open>
  \<open>probe_claim\<close> is the catalog's part of the check: the canonical entry of an immediate
  resource, probed when its type takes part; \<open>None\<close> for a value that is no such claim.
\<close>

definition verify_claim_binding ::
  "'w world_ops \<Rightarrow> exec_unit \<Rightarrow> int \<Rightarrow> binding \<Rightarrow> 'w engine \<Rightarrow> gerror option \<times> 'w engine"
where
  "verify_claim_binding W u policy b m =
     (case b of
        Immediate v \<Rightarrow>
          (case probe_claim W v (en_world m) of
             (None, w) \<Rightarrow> (None, m\<lparr>en_world := w\<rparr>)
           | (Some err, w) \<Rightarrow>
               (if policy = missing_policy_code MissingStop \<or> err_is ErrClaimKindMismatch err
                then Some (EFail ReasonPreflightFailed False
                             (wrapf (unit_id u @ '': unmet intent: '') err))
                else None, m\<lparr>en_world := w\<rparr>))
      | _ \<Rightarrow> (None, m))"

fun verify_slots ::
  "'w world_ops \<Rightarrow> exec_unit \<Rightarrow> int \<Rightarrow> (string \<times> binding) list \<Rightarrow> 'w engine
   \<Rightarrow> gerror option \<times> 'w engine"
where
  "verify_slots W u policy [] m = (None, m)"
| "verify_slots W u policy ((n, b) # bs) m =
     (case verify_claim_binding W u policy b m of
        (Some err, m') \<Rightarrow> (Some err, m')
      | (None, m') \<Rightarrow> verify_slots W u policy bs m')"

fun verify_scope_claims ::
  "'w world_ops \<Rightarrow> exec_unit list \<Rightarrow> 'w engine \<Rightarrow> gerror option \<times> 'w engine"
where
  "verify_scope_claims W [] m = (None, m)"
| "verify_scope_claims W (u # us) m =
     (case verify_slots W u (unit_missing_policy u) (m_slots (meta u)) m of
        (Some err, m') \<Rightarrow> (Some err, m')
      | (None, m') \<Rightarrow> verify_scope_claims W us m')"

section \<open>How an engine evolves\<close>

text \<open>\<open>climbs c js c'\<close>: the entries of the journal piece \<open>js\<close> worsen the condition step by step
  from \<open>c\<close> to \<open>c'\<close>.\<close>

fun climbs :: "condition \<Rightarrow> transition list \<Rightarrow> condition \<Rightarrow> bool" where
  "climbs c [] c' = (c = c')"
| "climbs c (t # ts) c' = (c < tr_condition t \<and> climbs (tr_condition t) ts c')"

lemma climbs_append: "climbs a ts b \<Longrightarrow> climbs b us c \<Longrightarrow> climbs a (ts @ us) c"
  by (induction ts arbitrary: a) auto

lemma climbs_le: "climbs a ts b \<Longrightarrow> a \<le> b"
  by (induction ts arbitrary: a) (auto dest: order.strict_implies_order order_trans)

lemma climbs_sorted: "climbs a ts b \<Longrightarrow> sorted_wrt (<) (map tr_condition ts) \<and> (\<forall>t \<in> set ts. a < tr_condition t)"
  by (induction ts arbitrary: a) (auto dest: order.strict_trans)

lemma climbs_last: "climbs a ts b \<Longrightarrow> b = last (a # map tr_condition ts)"
  by (induction ts arbitrary: a) auto

definition journal_reactions :: "exec_unit \<Rightarrow> transition list \<Rightarrow> reaction list" where
  "journal_reactions root ts =
     map (\<lambda>t. reaction_for (transition_policy_for root (tr_unit_id t)) (tr_condition t)) ts"

lemma journal_reactions_append [simp]:
  "journal_reactions root (ts @ us) = journal_reactions root ts @ journal_reactions root us"
  by (simp add: journal_reactions_def)

definition evolves :: "exec_unit \<Rightarrow> 'w engine \<Rightarrow> 'w engine \<Rightarrow> bool" where
  "evolves root m m' \<longleftrightarrow>
     (\<exists>new. en_journal m' = en_journal m @ new
        \<and> climbs (st_condition (en_status m)) new (st_condition (en_status m'))
        \<and> en_pending m' = fold max (journal_reactions root new) (en_pending m))
     \<and> plane_step\<^sup>*\<^sup>* (en_control m) (en_control m')"

text \<open>
  A relation between the engine before and after a step that every step of a dispatch keeps:
  what is proved of the primitive steps in this contract holds of whole dispatches.
\<close>

locale engine_relation =
  fixes R :: "'w engine \<Rightarrow> 'w engine \<Rightarrow> bool" and root :: exec_unit
  assumes R_refl: "R m m"
    and R_trans: "R m1 m2 \<Longrightarrow> R m2 m3 \<Longrightarrow> R m1 m3"
    and R_world: "R m (m\<lparr>en_world := w\<rparr>)"
    and R_control: "plane_step (en_control m) p \<Longrightarrow> R m (m\<lparr>en_control := p\<rparr>)"
    and R_park: "R m (m\<lparr>en_status := (en_status m)\<lparr>st_phase := ph, st_reason := r, st_message := msg\<rparr>\<rparr>)"
    and R_transition: "transition_to root u c r msg m = (e, m') \<Longrightarrow> R m m'"
    and R_child: "R (child_engine m) mc \<Longrightarrow> R m (back_to_parent m mc)"
begin

lemma R_world': "R a m \<Longrightarrow> R a (m\<lparr>en_world := w\<rparr>)"
  using R_trans R_world by blast

lemma R_emit: "R m (emit_event k u err m)"
  unfolding emit_event_def by (rule R_control) (rule ps_emit)

lemma R_emit': "R a m \<Longrightarrow> R a (emit_event k u err m)"
  using R_trans R_emit by blast

lemma R_clients: "R m (m\<lparr>en_control := fold client_step acts (en_control m)\<rparr>)"
proof (induction acts arbitrary: m)
  case Nil
  then show ?case by (simp add: R_refl)
next
  case (Cons a acts)
  have "R m (m\<lparr>en_control := client_step a (en_control m)\<rparr>)"
    by (rule R_control) (rule ps_client)
  from R_trans [OF this Cons.IH] show ?case by simp
qed

lemma R_let_clients_act: "R m (let_clients_act W m)"
proof -
  obtain acts w where c: "clients W (en_world m) = (acts, w)" by fastforce
  have "R m ((m\<lparr>en_control := fold client_step acts (en_control m)\<rparr>)\<lparr>en_world := w\<rparr>)"
    by (rule R_world' [OF R_clients])
  then show ?thesis by (simp add: let_clients_act_def c)
qed

lemma R_answer: "R m (m\<lparr>en_control := answer t resp (en_control m)\<rparr>)"
  by (rule R_control) (rule ps_answer)

lemma R_serve: "serve_request req m = (e, m') \<Longrightarrow> R m m'"
proof -
  assume s: "serve_request req m = (e, m')"
  have park: "R m (emit_event k u err
      (m\<lparr>en_status := (en_status m)\<lparr>st_phase := ph, st_reason := r, st_message := msg\<rparr>,
         en_control := answer t resp (en_control m)\<rparr>))" for k u err ph r msg t resp
    using R_emit' [OF R_trans [OF R_park R_answer]] by simp
  show ?thesis
    using s park R_answer
    by (auto simp: serve_request_def Let_def split: control_command.splits)
qed

lemma R_control_point: "control_point W m = (e, m') \<Longrightarrow> R m m'"
proof -
  assume cp: "control_point W m = (e, m')"
  let ?m = "let_clients_act W m"
  have a: "R m ?m" by (rule R_let_clients_act)
  show ?thesis
  proof (cases "poll_request (en_control ?m)")
    case (Pair req p)
    show ?thesis
    proof (cases req)
      case None
      with Pair cp a show ?thesis by (simp add: control_point_def)
    next
      case (Some r)
      have "R ?m (?m\<lparr>en_control := p\<rparr>)"
        by (rule R_control) (rule ps_poll [OF Pair])
      moreover have "R (?m\<lparr>en_control := p\<rparr>) m'"
        using cp Pair Some by (intro R_serve) (simp add: control_point_def)
      ultimately show ?thesis using a R_trans by blast
    qed
  qed
qed

lemma R_framework_failure: "framework_failure root u cause m = (oc, m') \<Longrightarrow> R m m'"
  by (auto simp: framework_failure_def split: prod.splits option.splits dest: R_transition)

lemma R_push_audit: "push_audit_receipt W root u st ss v cv err d m = (e, st', m') \<Longrightarrow> R m m'"
  by (auto simp: push_audit_receipt_def Let_def R_refl R_world split: comp_value.splits if_splits prod.splits)

lemma R_join_audit: "join_audit_stamp W root u st ss cv err d m = (e, st', m') \<Longrightarrow> R m m'"
  by (auto simp: join_audit_stamp_def split: prod.splits option.splits dest: R_push_audit)

lemma R_verify_binding: "verify_claim_binding W u p b m = (e, m') \<Longrightarrow> R m m'"
  by (auto simp: verify_claim_binding_def R_refl R_world split: binding.splits prod.splits option.splits)

lemma R_verify_slots: "verify_slots W u p bs m = (e, m') \<Longrightarrow> R m m'"
  by (induction W u p bs m rule: verify_slots.induct)
    (auto simp: R_refl split: prod.splits option.splits dest: R_verify_binding intro: R_trans)

lemma R_verify_scope: "verify_scope_claims W us m = (e, m') \<Longrightarrow> R m m'"
  by (induction W us m rule: verify_scope_claims.induct)
    (auto simp: R_refl split: prod.splits option.splits dest: R_verify_slots intro: R_trans)

end

lemma evolves_refl: "evolves root m m"
  by (auto simp: evolves_def journal_reactions_def)

lemma evolves_trans:
  assumes "evolves root m1 m2" and "evolves root m2 m3"
  shows "evolves root m1 m3"
proof -
  from assms obtain xs ys where
    "en_journal m2 = en_journal m1 @ xs" "climbs (st_condition (en_status m1)) xs (st_condition (en_status m2))"
    "en_pending m2 = fold max (journal_reactions root xs) (en_pending m1)"
    "en_journal m3 = en_journal m2 @ ys" "climbs (st_condition (en_status m2)) ys (st_condition (en_status m3))"
    "en_pending m3 = fold max (journal_reactions root ys) (en_pending m2)"
    by (auto simp: evolves_def)
  then have "en_journal m3 = en_journal m1 @ (xs @ ys) \<and>
      climbs (st_condition (en_status m1)) (xs @ ys) (st_condition (en_status m3)) \<and>
      en_pending m3 = fold max (journal_reactions root (xs @ ys)) (en_pending m1)"
    using climbs_append by auto
  with assms show ?thesis
    unfolding evolves_def by (meson rtranclp_trans)
qed

lemma evolves_same_verdict:
  assumes "en_journal m' = en_journal m" and "st_condition (en_status m') = st_condition (en_status m)"
    and "en_pending m' = en_pending m" and "plane_step\<^sup>*\<^sup>* (en_control m) (en_control m')"
  shows "evolves root m m'"
  using assms by (auto simp: evolves_def journal_reactions_def)

lemma evolves_transition:
  assumes "transition_to root u c r msg m = (e, m')"
  shows "evolves root m m'"
proof (cases "c \<le> st_condition (en_status m)")
  case True
  with assms have "m' = m" by (auto simp: transition_to_def Let_def split: if_splits)
  then show ?thesis by (simp add: evolves_refl)
next
  case False
  then have "st_condition (en_status m) < c" by simp
  moreover from this have "\<not> c < st_condition (en_status m)" and "c \<noteq> st_condition (en_status m)"
    by (simp_all add: less_imp_not_less)
  ultimately show ?thesis
    using assms by (auto simp: transition_to_def Let_def evolves_def journal_reactions_def max_def)
qed

lemma evolves_child: "evolves root (child_engine m) mc \<Longrightarrow> evolves root m (back_to_parent m mc)"
  by (rule evolves_same_verdict) (simp_all add: evolves_def child_engine_def back_to_parent_def)

interpretation evolving: engine_relation "evolves root" root
  by unfold_locales
    (auto intro: evolves_refl evolves_same_verdict evolves_transition evolves_child
       dest: evolves_trans)

end
