(* ===== verification/Flow.thy ===== *)
theory Flow
  imports Engine
begin

text \<open>
  The flow provider (\<open>pkg/op/provider/flow/provider.go\<close>, \<open>helpers.go\<close>): the combinators
  subgraph, choose, gather and wait_until and the terminals complete, degraded and failed.
  Every function takes \<open>rec\<close>, the activation's \<open>DispatchChild\<close>: the dispatch of one child on a
  stack (with the stack's ancestors) under a frame.

  Gather's goroutines are modelled on one schedule, that of a limit of one: the pending
  iterations run in index order, each to its end, and the completions are read afterwards.
  The decision walk and the polling of wait_until carry fuel; \<open>OutOfFuel\<close> marks its end.
\<close>

type_synonym 'w dispatcher =
  "exec_unit \<Rightarrow> rstack \<Rightarrow> rstack list \<Rightarrow> frame \<Rightarrow> 'w engine \<Rightarrow> outcome \<times> rstack \<times> 'w engine"

section \<open>Walking the children\<close>

definition has_conditional_edges :: "exec_unit \<Rightarrow> bool" where
  "has_conditional_edges s = (\<exists>e \<in> set (edges_of s). e_guard e \<noteq> guard_none)"

definition decision_root :: "exec_unit \<Rightarrow> (gerror, exec_unit) result" where
  "decision_root s =
     (let targeted = map e_to (filter (\<lambda>e. e_guard e \<noteq> guard_none) (edges_of s))
      in case filter (\<lambda>c. unit_id c \<notin> set targeted) (children_of s) of
           [c] \<Rightarrow> Inr c
         | cs \<Rightarrow> Inl (ENew (''flow: choose subgraph '' @ quote (unit_id s) @ '': ''
                   @ show_nat (length cs) @ '' decision roots, want exactly 1'')))"

definition branch_from :: "exec_unit \<Rightarrow> string \<Rightarrow> gvalue \<Rightarrow> (gerror, exec_unit option) result" where
  "branch_from s i v =
     (let outgoing = filter (\<lambda>e. e_from e = i \<and> e_guard e \<noteq> guard_none) (edges_of s);
          guard = (if is_truthy v then guard_truthy else guard_falsy);
          matching = filter (\<lambda>e. e_guard e = guard) outgoing
      in if outgoing = [] then Inr None
         else if length matching \<noteq> 1 then
           Inl (ENew (''flow: choose node '' @ quote i @ '': '' @ show_nat (length matching)
                  @ '' out-edges match guard, want exactly 1''))
         else (case child_by_id s (e_to (hd matching)) of
                 None \<Rightarrow> Inl (ENew (''flow: choose node '' @ quote i @ '': edge targets no direct child''))
               | Some c \<Rightarrow> Inr (Some c)))"

fun walk_decision_tree ::
  "nat \<Rightarrow> 'w dispatcher \<Rightarrow> exec_unit \<Rightarrow> exec_unit \<Rightarrow> rstack \<Rightarrow> rstack list \<Rightarrow> frame \<Rightarrow> 'w engine
   \<Rightarrow> outcome \<times> rstack \<times> 'w engine"
where
  "walk_decision_tree 0 rec s current stack ps fr m = (OutOfFuel, stack, m)"
| "walk_decision_tree (Suc k) rec s current stack ps fr m =
     (case rec current stack ps fr m of
        (Ok v, stack', m') \<Rightarrow>
          (case branch_from s (unit_id current) v of
             Inl err \<Rightarrow> (Fail err, stack', m')
           | Inr None \<Rightarrow> (Ok v, stack', m')
           | Inr (Some next_unit) \<Rightarrow> walk_decision_tree k rec s next_unit stack' ps fr m')
      | (Fail e, stack', m') \<Rightarrow>
          (Fail (wrapf (''choose node '' @ quote (unit_id current) @ '': '') e), stack', m')
      | r \<Rightarrow> r)"

text \<open>
  The sequential walk stops early after a child whose \<open>ActionName()\<close> is \<open>flow.complete\<close>: the
  name the unit was bound by, which is empty when the unit binds a resolved action.
\<close>

fun walk_list ::
  "'w dispatcher \<Rightarrow> exec_unit list \<Rightarrow> gvalue \<Rightarrow> rstack \<Rightarrow> rstack list \<Rightarrow> frame \<Rightarrow> 'w engine
   \<Rightarrow> outcome \<times> rstack \<times> 'w engine"
where
  "walk_list rec [] result stack ps fr m = (Ok result, stack, m)"
| "walk_list rec (c # cs) result stack ps fr m =
     (case rec c stack ps fr m of
        (Ok v, stack', m') \<Rightarrow>
          (if m_action_name (meta c) = ''flow.complete'' then (Ok v, stack', m')
           else walk_list rec cs v stack' ps fr m')
      | (Fail e, stack', m') \<Rightarrow>
          (Fail (wrapf (''child '' @ quote (unit_id c) @ '': '') e), stack', m')
      | r \<Rightarrow> r)"

definition walk_subgraph_children ::
  "'w dispatcher \<Rightarrow> exec_unit \<Rightarrow> rstack \<Rightarrow> rstack list \<Rightarrow> frame \<Rightarrow> 'w engine
   \<Rightarrow> outcome \<times> rstack \<times> 'w engine"
where
  "walk_subgraph_children rec s stack ps fr m =
     (if has_conditional_edges s then
        (case decision_root s of
           Inl err \<Rightarrow> (Fail err, stack, m)
         | Inr r \<Rightarrow> walk_decision_tree (length (children_of s)) rec s r stack ps fr m)
      else walk_list rec (children_of s) VNil stack ps fr m)"

section \<open>Frames\<close>

text \<open>
  The names of the parameters that bubble up to a subgraph: the variables its descendants
  name, less those it binds by a slot of the same name, and the variables its own slots name.
  A node bound by name has no method to ask and panics (\<open>None\<close>).
\<close>

definition variable_names :: "(string \<times> binding) list \<Rightarrow> string list" where
  "variable_names bs = List.map_filter (\<lambda>(n, b). case b of VarBinding v f \<Rightarrow> Some v | _ \<Rightarrow> None) bs"

fun all_some :: "'a option list \<Rightarrow> 'a list option" where
  "all_some [] = Some []"
| "all_some (None # xs) = None"
| "all_some (Some x # xs) = map_option (Cons x) (all_some xs)"

fun parameter_names :: "exec_unit \<Rightarrow> string list option" where
  "parameter_names (Node m oe ort) =
     (if m_action m = None then None else Some (variable_names (m_slots m)))"
| "parameter_names (Subgraph m oe ort cs es) =
     (case all_some (map parameter_names cs) of
        None \<Rightarrow> None
      | Some nss \<Rightarrow>
          Some (filter (\<lambda>n. n \<notin> fst ` set (m_slots m)) (concat nss) @ variable_names (m_slots m)))"

definition frame_map :: "frame \<Rightarrow> string \<rightharpoonup> variable" where
  "frame_map fr = (case fr of None \<Rightarrow> Map.empty | Some f \<Rightarrow> f)"

definition unsourced :: "string \<Rightarrow> gvalue \<Rightarrow> variable" where
  "unsourced n v = \<lparr>var_name = n, var_field = [], var_value = v,
     var_source = \<lparr>vs_kind = ''unknown'', vs_name = []\<rparr>\<rparr>"

definition slot_value :: "string \<Rightarrow> slots \<Rightarrow> gvalue" where
  "slot_value n ss = (case map_of ss n of Some v \<Rightarrow> v | None \<Rightarrow> VNil)"

text \<open>The \<open>**kwargs\<close> parameter of a flow method is filled from the slot of that name.\<close>

definition kwargs_of :: "slots \<Rightarrow> (string \<times> gvalue) list" where
  "kwargs_of ss = (case slot_value ''kwargs'' ss of VMap (Some m) \<Rightarrow> m | _ \<Rightarrow> [])"

definition overlay_frame :: "string list \<Rightarrow> (string \<times> gvalue) list \<Rightarrow> frame \<Rightarrow> frame" where
  "overlay_frame params kwargs fr =
     Some (\<lambda>n. if n \<in> set params \<and> map_of kwargs n \<noteq> None
               then map_option (unsourced n) (map_of kwargs n)
               else frame_map fr n)"

definition build_iteration_frame :: "frame \<Rightarrow> gvalue \<Rightarrow> frame" where
  "build_iteration_frame fr item =
     Some ((\<lambda>n. if n = ''items'' \<or> n = ''limit'' then None else frame_map fr n)
             (''item'' \<mapsto> unsourced ''item'' item))"

section \<open>The combinators\<close>

text \<open>
  A flow method answers with an outcome and a compensator; \<open>cs\<close> is the activation's stack with
  ancestors \<open>ps\<close>. The caller is looked up in the graph by its id.
\<close>

type_synonym 'w action_result = "outcome \<times> comp_value \<times> 'w engine"

definition resolve_caller :: "exec_unit \<Rightarrow> string \<Rightarrow> string \<Rightarrow> (gerror, exec_unit) result" where
  "resolve_caller root who i =
     (case resolve_executable root i of
        None \<Rightarrow> Inl (ENew (who @ '': resolve caller '' @ quote i
                   @ '': no executable unit with ID '' @ quote i))
      | Some u \<Rightarrow> if is_subgraph u then Inr u
                  else Inl (ENew (who @ '': caller '' @ quote i @ '' is *op.Node, want *op.Subgraph'')))"

text \<open>A walk's answer as the combinator's: the stack is the compensator on both exits.\<close>

definition combinator_result ::
  "string \<Rightarrow> outcome \<times> rstack \<times> 'w engine \<Rightarrow> 'w action_result"
where
  "combinator_result who r =
     (case r of
        (Fail e, stack, m) \<Rightarrow> (Fail (wrapf (who @ '': '') e), CvStack stack, m)
      | (oc, stack, m) \<Rightarrow> (oc, CvStack stack, m))"

definition flow_choose ::
  "exec_unit \<Rightarrow> 'w dispatcher \<Rightarrow> string \<Rightarrow> rstack \<Rightarrow> rstack list \<Rightarrow> frame \<Rightarrow> 'w engine \<Rightarrow> 'w action_result"
where
  "flow_choose root rec i cs ps fr m =
     (case resolve_caller root ''flow.Choose'' i of
        Inl err \<Rightarrow> (Fail err, CvNone, m)
      | Inr s \<Rightarrow> combinator_result ''flow.Choose'' (walk_subgraph_children rec s cs ps fr m))"

definition flow_subgraph ::
  "'w world_ops \<Rightarrow> exec_unit \<Rightarrow> 'w dispatcher \<Rightarrow> string \<Rightarrow> slots \<Rightarrow> rstack \<Rightarrow> rstack list \<Rightarrow> frame
   \<Rightarrow> 'w engine \<Rightarrow> 'w action_result"
where
  "flow_subgraph W root rec i ss cs ps fr m =
     (case resolve_caller root ''flow.Subgraph'' i of
        Inl err \<Rightarrow> (Fail err, CvNone, m)
      | Inr s \<Rightarrow>
          (case parameter_names s of
             None \<Rightarrow> (Panicked ''nil pointer dereference'', CvNone, m)
           | Some params \<Rightarrow>
               (case type_conflict W s of
                  Some err \<Rightarrow> (Fail (wrapf ''flow.Subgraph: '' err), CvNone, m)
                | None \<Rightarrow> combinator_result ''flow.Subgraph''
                    (walk_subgraph_children rec s cs ps (overlay_frame params (kwargs_of ss) fr) m))))"

subsection \<open>Gather\<close>

definition gather_iteration_id :: "exec_unit \<Rightarrow> nat \<Rightarrow> string" where
  "gather_iteration_id s i = unit_id s @ ''#'' @ show_nat i"

record gather_run =
  gr_index :: nat
  gr_stack :: rstack
  gr_fresh :: bool

text \<open>
  \<open>classifyGatherRuns\<close>: an iteration with a completed prior stack contributes its result, one
  with a failed or paused prior stack re-enters that stack, the others run afresh.
\<close>

fun classify_gather_runs :: "rstack \<Rightarrow> exec_unit \<Rightarrow> nat \<Rightarrow> nat \<Rightarrow> gvalue list \<times> gather_run list" where
  "classify_gather_runs stack s i 0 = ([], [])"
| "classify_gather_runs stack s i (Suc n) =
     (case classify_gather_runs stack s (Suc i) n of (vs, runs) \<Rightarrow>
        (case nested_stack_by_unit_id (gather_iteration_id s i) stack of
           Some prior \<Rightarrow>
             (if stack_err prior = None then (stack_result prior # vs, runs)
              else (VNil # vs, \<lparr>gr_index = i, gr_stack = prior, gr_fresh = False\<rparr> # runs))
         | None \<Rightarrow> (VNil # vs, \<lparr>gr_index = i, gr_stack = new_recovery_stack, gr_fresh = True\<rparr> # runs)))"

text \<open>A re-entered stack is the entry itself, changed in place.\<close>

definition nested_for :: "string \<Rightarrow> recovery_entry \<Rightarrow> bool" where
  "nested_for u e = (case e of EStack sub \<Rightarrow> stack_unit_id sub = u | EReceipt r \<Rightarrow> False)"

fun replace_nested :: "string \<Rightarrow> rstack \<Rightarrow> recovery_entry list \<Rightarrow> recovery_entry list" where
  "replace_nested u child [] = []"
| "replace_nested u child (x # xs) =
     (if \<exists>y \<in> set xs. nested_for u y then x # replace_nested u child xs
      else (if nested_for u x then EStack child else x) # xs)"

datatype run_failure = NoFailure | FirstError gerror | Aborted outcome

fun run_iterations ::
  "'w dispatcher \<Rightarrow> exec_unit \<Rightarrow> gvalue list \<Rightarrow> frame \<Rightarrow> rstack \<Rightarrow> rstack list \<Rightarrow> gather_run list
   \<Rightarrow> 'w engine \<Rightarrow> (gather_run \<times> outcome) list \<times> 'w engine"
where
  "run_iterations rec s items fr stack ps [] m = ([], m)"
| "run_iterations rec s items fr stack ps (r # rs) m =
     (case walk_subgraph_children rec s (gr_stack r) (stack # ps)
             (build_iteration_frame fr (items ! gr_index r)) m of
        (oc, child, m') \<Rightarrow>
          (let r' = r\<lparr>gr_stack := child\<rparr>
           in case oc of
                Panicked p \<Rightarrow> ([(r', Panicked p)], m')
              | OutOfFuel \<Rightarrow> ([(r', OutOfFuel)], m')
              | _ \<Rightarrow> (case run_iterations rec s items fr stack ps rs m' of
                       (done, m'') \<Rightarrow> ((r', oc) # done, m''))))"

fun stamp_iterations ::
  "exec_unit \<Rightarrow> (gather_run \<times> outcome) list \<Rightarrow> rstack \<Rightarrow> gvalue list \<Rightarrow> rstack \<times> gvalue list"
where
  "stamp_iterations s [] stack vs = (stack, vs)"
| "stamp_iterations s ((r, oc) # done) stack vs =
     (let v = (case oc of Ok v \<Rightarrow> v | _ \<Rightarrow> VNil);
          err = (case oc of Fail e \<Rightarrow> Some e | _ \<Rightarrow> None);
          u = gather_iteration_id s (gr_index r);
          child = stamp u v err (gr_stack r);
          stack' = (if gr_fresh r then push_nested child stack
                    else set_entries (replace_nested u child (entries stack)) stack)
      in stamp_iterations s done stack' (vs[gr_index r := v]))"

fun first_failure :: "(gather_run \<times> outcome) list \<Rightarrow> run_failure" where
  "first_failure [] = NoFailure"
| "first_failure ((r, Ok v) # done) = first_failure done"
| "first_failure ((r, Fail e) # done) = (case first_failure done of Aborted oc \<Rightarrow> Aborted oc | _ \<Rightarrow> FirstError e)"
| "first_failure ((r, oc) # done) = Aborted oc"

definition flow_gather ::
  "exec_unit \<Rightarrow> 'w dispatcher \<Rightarrow> string \<Rightarrow> slots \<Rightarrow> rstack \<Rightarrow> rstack list \<Rightarrow> frame \<Rightarrow> 'w engine
   \<Rightarrow> 'w action_result"
where
  "flow_gather root rec i ss cs ps fr m =
     (let items = (case slot_value ''items'' ss of VSlice (Some vs) \<Rightarrow> vs | _ \<Rightarrow> [])
      in if items = [] then (Ok (VSlice (Some [])), CvStack cs, m)
         else
           (case resolve_caller root ''flow.Gather'' i of
              Inl err \<Rightarrow> (Fail err, CvStack cs, m)
            | Inr s \<Rightarrow>
                (case classify_gather_runs cs s 0 (length items) of
                   (vs, []) \<Rightarrow> (Ok (VSlice (Some vs)), CvStack cs, m)
                 | (vs, pending) \<Rightarrow>
                     (case run_iterations rec s items fr cs ps pending m of
                        (done, m') \<Rightarrow>
                          (case stamp_iterations s done cs vs of
                             (stack, vs') \<Rightarrow>
                               (case first_failure done of
                                  NoFailure \<Rightarrow> (Ok (VSlice (Some vs')), CvStack stack, m')
                                | FirstError e \<Rightarrow> (Fail (wrapf ''flow.Gather: '' e), CvStack stack, m')
                                | Aborted oc \<Rightarrow> (oc, CvStack stack, m')))))))"

subsection \<open>Wait until\<close>

text \<open>
  One poll: the body runs on a scratch child stack. A truthy result stamps that stack with the
  caller's id and nests it; a falsy one, and a failing body, drop it.
\<close>

datatype poll_result = PollReady gvalue | PollNotReady gvalue | PollFailed outcome

definition wait_poll ::
  "'w dispatcher \<Rightarrow> exec_unit \<Rightarrow> string \<Rightarrow> rstack \<Rightarrow> rstack list \<Rightarrow> frame \<Rightarrow> 'w engine
   \<Rightarrow> poll_result \<times> rstack \<times> 'w engine"
where
  "wait_poll rec s i cs ps fr m =
     (case walk_subgraph_children rec s new_recovery_stack (cs # ps) fr m of
        (Ok v, child, m') \<Rightarrow>
          (if is_truthy v then (PollReady v, push_nested (stamp i v None child) cs, m')
           else (PollNotReady v, cs, m'))
      | (oc, child, m') \<Rightarrow> (PollFailed oc, cs, m'))"

definition poll_failure :: "outcome \<Rightarrow> outcome" where
  "poll_failure oc = (case oc of Fail e \<Rightarrow> Fail (wrapf ''flow.WaitUntil: '' e) | _ \<Rightarrow> oc)"

text \<open>\<open>fmt\<close> prints the timeout and the last result; both texts are the environment's.\<close>

definition timeout_message :: "'w world_ops \<Rightarrow> string \<Rightarrow> int \<Rightarrow> nat \<Rightarrow> gvalue \<Rightarrow> string" where
  "timeout_message W i timeout polls last_result =
     ''flow.WaitUntil '' @ quote i @ '': timeout after '' @ format_duration W timeout @ '' (''
     @ show_nat polls @ '' polls; last result: '' @ format_value W last_result @ '')''"

fun wait_loop ::
  "nat \<Rightarrow> 'w world_ops \<Rightarrow> 'w dispatcher \<Rightarrow> exec_unit \<Rightarrow> string \<Rightarrow> int \<Rightarrow> nat \<Rightarrow> gvalue \<Rightarrow> rstack
   \<Rightarrow> rstack list \<Rightarrow> frame \<Rightarrow> 'w engine \<Rightarrow> 'w action_result"
where
  "wait_loop 0 W rec s i timeout polls last_result cs ps fr m = (OutOfFuel, CvStack cs, m)"
| "wait_loop (Suc k) W rec s i timeout polls last_result cs ps fr m =
     (case poll_wait W (en_world m) of (ev, w) \<Rightarrow>
        (let m1 = m\<lparr>en_world := w\<rparr>
         in case ev of
              WaitCanceled e \<Rightarrow> (Fail e, CvStack cs, m1)
            | WaitDeadline \<Rightarrow> (Fail (ENew (timeout_message W i timeout polls last_result)), CvStack cs, m1)
            | WaitTick \<Rightarrow>
                (case wait_poll rec s i cs ps fr m1 of
                   (PollReady v, cs', m2) \<Rightarrow> (Ok v, CvStack cs', m2)
                 | (PollNotReady v, cs', m2) \<Rightarrow> wait_loop k W rec s i timeout (Suc polls) v cs' ps fr m2
                 | (PollFailed oc, cs', m2) \<Rightarrow> (poll_failure oc, CvStack cs', m2))))"

definition slot_duration :: "string \<Rightarrow> slots \<Rightarrow> int" where
  "slot_duration n ss = (case slot_value n ss of VNamed t (VInt d) \<Rightarrow> d | _ \<Rightarrow> 0)"

definition flow_wait_until ::
  "nat \<Rightarrow> 'w world_ops \<Rightarrow> exec_unit \<Rightarrow> 'w dispatcher \<Rightarrow> string \<Rightarrow> slots \<Rightarrow> rstack \<Rightarrow> rstack list
   \<Rightarrow> frame \<Rightarrow> 'w engine \<Rightarrow> 'w action_result"
where
  "flow_wait_until k W root rec i ss cs ps fr m =
     (case resolve_caller root ''flow.WaitUntil'' i of
        Inl err \<Rightarrow> (Fail err, CvNone, m)
      | Inr s \<Rightarrow>
          if slot_duration ''timeout'' ss \<le> 0
          then (Fail (ENew ''flow.WaitUntil: timeout is required''), CvNone, m)
          else
            (case parameter_names s of
               None \<Rightarrow> (Panicked ''nil pointer dereference'', CvNone, m)
             | Some params \<Rightarrow>
                 (case type_conflict W s of
                    Some err \<Rightarrow> (Fail (wrapf ''flow.WaitUntil: '' err), CvNone, m)
                  | None \<Rightarrow>
                      (let fr' = overlay_frame params (kwargs_of ss) fr
                       in case wait_poll rec s i cs ps fr' m of
                            (PollReady v, cs', m1) \<Rightarrow> (Ok v, CvStack cs', m1)
                          | (PollFailed oc, cs', m1) \<Rightarrow> (poll_failure oc, CvStack cs', m1)
                          | (PollNotReady v, cs', m1) \<Rightarrow>
                              wait_loop k W rec s i (slot_duration ''timeout'' ss) 1 v cs' ps fr' m1))))"

section \<open>The terminals\<close>

definition flow_complete :: "slots \<Rightarrow> 'w engine \<Rightarrow> 'w action_result" where
  "flow_complete ss m = (Ok (slot_value ''output'' ss), CvNone, m)"

text \<open>\<open>assert.NoError\<close> around the transition: a rejected one panics.\<close>

definition flow_degraded ::
  "'w world_ops \<Rightarrow> exec_unit \<Rightarrow> string \<Rightarrow> slots \<Rightarrow> 'w engine \<Rightarrow> 'w action_result"
where
  "flow_degraded W root i ss m =
     (case transition_to root i Degraded ReasonDegraded
             (''flow.degraded executed: '' @ render_message W ss) m of
        (Some err, m') \<Rightarrow> (Panicked (error_text err), CvNone, m')
      | (None, m') \<Rightarrow> (Ok (VStr (render_message W ss)), CvNone, m'))"

definition flow_failed ::
  "'w world_ops \<Rightarrow> exec_unit \<Rightarrow> string \<Rightarrow> slots \<Rightarrow> 'w engine \<Rightarrow> 'w action_result"
where
  "flow_failed W root i ss m =
     (case transition_to root i ExecutionFailed ReasonFailed
             (''flow.failed executed: '' @ render_message W ss) m of
        (Some err, m') \<Rightarrow> (Panicked (error_text err), CvNone, m')
      | (None, m') \<Rightarrow> (Ok (VStr (render_message W ss)), CvNone, m'))"

section \<open>Dispatching an action\<close>

definition infallible_flow :: "string list" where
  "infallible_flow = [''flow.complete'', ''flow.degraded'', ''flow.failed'']"

definition compensable_flow :: "string list" where
  "compensable_flow = [''flow.subgraph'', ''flow.choose'', ''flow.gather'', ''flow.wait_until'']"

definition flow_method ::
  "nat \<Rightarrow> 'w world_ops \<Rightarrow> exec_unit \<Rightarrow> 'w dispatcher \<Rightarrow> string \<Rightarrow> string \<Rightarrow> slots \<Rightarrow> rstack \<Rightarrow> rstack list
   \<Rightarrow> frame \<Rightarrow> 'w engine \<Rightarrow> 'w action_result"
where
  "flow_method k W root rec name i ss cs ps fr m =
     (if name = ''flow.subgraph'' then flow_subgraph W root rec i ss cs ps fr m
      else if name = ''flow.choose'' then flow_choose root rec i cs ps fr m
      else if name = ''flow.gather'' then flow_gather root rec i ss cs ps fr m
      else if name = ''flow.wait_until'' then flow_wait_until k W root rec i ss cs ps fr m
      else if name = ''flow.complete'' then flow_complete ss m
      else if name = ''flow.degraded'' then flow_degraded W root i ss m
      else flow_failed W root i ss m)"

text \<open>
  \<open>Action.Do\<close>. A flow method first has its arguments converted and the consumed resources
  guarded (\<open>coerce_args\<close>), an error of which an infallible method turns into a panic; any other
  action is the world's.
\<close>

definition do_action ::
  "nat \<Rightarrow> 'w world_ops \<Rightarrow> exec_unit \<Rightarrow> 'w dispatcher \<Rightarrow> action \<Rightarrow> string \<Rightarrow> slots \<Rightarrow> rstack \<Rightarrow> rstack list
   \<Rightarrow> frame \<Rightarrow> 'w engine \<Rightarrow> 'w action_result"
where
  "do_action k W root rec a i ss cs ps fr m =
     (if act_name a \<in> set infallible_flow \<union> set compensable_flow then
        (case coerce_args W a ss (en_world m) of
           (Inl err, w) \<Rightarrow>
             (if act_name a \<in> set infallible_flow
              then Panicked (act_name a @ '': unexpected error from infallible method: '' @ error_text err)
              else Fail err, CvNone, m\<lparr>en_world := w\<rparr>)
         | (Inr ss', w) \<Rightarrow>
             flow_method k W root rec (act_name a) i ss' cs ps fr (m\<lparr>en_world := w\<rparr>))
      else
        (case do_leaf W a i ss fr (en_world m) of
           (LeafPanic p, w) \<Rightarrow> (Panicked p, CvNone, m\<lparr>en_world := w\<rparr>)
         | (LeafReturn v cv None, w) \<Rightarrow> (Ok v, cv, m\<lparr>en_world := w\<rparr>)
         | (LeafReturn v cv (Some err), w) \<Rightarrow> (Fail err, cv, m\<lparr>en_world := w\<rparr>)))"

end
