(* ===== verification/Executor.thy ===== *)
theory Executor
  imports Flow
begin

text \<open>
  The dispatch of units and the run (\<open>pkg/op/node.go\<close>, \<open>subgraph.go\<close>,
  \<open>graph_executor.go\<close>). Each Go function is one definition over \<open>rec\<close>, the recursive
  \<open>dispatchWithPolicy\<close> on the children; \<open>dispatch\<close> ties the knot with a depth that
  \<open>OutOfFuel\<close> marks the end of. Hooks, which only observe, are left out.
\<close>

section \<open>Nodes and subgraphs\<close>

text \<open>The action a unit is bound to: resolved at construction, or by name now, or none.\<close>

definition bound_action :: "'w world_ops \<Rightarrow> exec_unit \<Rightarrow> (gerror, action option) result" where
  "bound_action W u =
     (case m_action (meta u) of
        Some a \<Rightarrow> Inr (Some a)
      | None \<Rightarrow>
          if m_action_name (meta u) = [] then Inr None
          else (case resolve_action W (m_action_name (meta u)) of
                  Inl err \<Rightarrow> Inl err
                | Inr a \<Rightarrow> Inr (Some a)))"

text \<open>The two structural exits before the action runs: unresolvable and unbound.\<close>

definition unbound_exit ::
  "'w world_ops \<Rightarrow> exec_unit \<Rightarrow> exec_unit \<Rightarrow> string \<Rightarrow> gerror option \<Rightarrow> rstack \<Rightarrow> 'w engine
   \<Rightarrow> outcome \<times> rstack \<times> 'w engine"
where
  "unbound_exit W root u kind resolve_err stack m =
     (let lead = kind @ '' '' @ unit_id u @ '': '';
          err = (case resolve_err of Some e \<Rightarrow> e | None \<Rightarrow> ENew (lead @ ''no Action bound''))
      in case join_audit_stamp W root u stack None CvNone err False m of
           (err', stack', m') \<Rightarrow>
             (case framework_failure root (unit_id u)
                (case resolve_err of
                   Some e \<Rightarrow> wrapf (lead @ ''resolve action '' @ quote (m_action_name (meta u)) @ '': '') err'
                 | None \<Rightarrow> err') m' of
                (oc, m'') \<Rightarrow> (oc, stack', m'')))"

definition canceled_exit ::
  "'w world_ops \<Rightarrow> exec_unit \<Rightarrow> exec_unit \<Rightarrow> string \<Rightarrow> gerror \<Rightarrow> rstack \<Rightarrow> 'w engine
   \<Rightarrow> outcome \<times> rstack \<times> 'w engine"
where
  "canceled_exit W root u kind err stack m =
     (case join_audit_stamp W root u stack None CvNone err False m of
        (err', stack', m') \<Rightarrow> (Fail (wrapf (kind @ '' '' @ unit_id u @ '': '') err'), stack', m'))"

text \<open>The two exits after the action ran.\<close>

definition failed_exit ::
  "'w world_ops \<Rightarrow> exec_unit \<Rightarrow> exec_unit \<Rightarrow> string \<Rightarrow> slots \<Rightarrow> comp_value \<Rightarrow> gerror \<Rightarrow> rstack
   \<Rightarrow> 'w engine \<Rightarrow> outcome \<times> rstack \<times> 'w engine"
where
  "failed_exit W root u lead ss cv err stack m =
     (case join_audit_stamp W root u stack (Some ss) cv err True m of
        (err', stack', m') \<Rightarrow> (Fail (wrapf lead err'), stack', m'))"

definition success_exit ::
  "'w world_ops \<Rightarrow> exec_unit \<Rightarrow> exec_unit \<Rightarrow> slots \<Rightarrow> comp_value \<Rightarrow> gvalue \<Rightarrow> rstack
   \<Rightarrow> 'w engine \<Rightarrow> outcome \<times> rstack \<times> 'w engine"
where
  "success_exit W root u ss cv v stack m =
     (case push_audit_receipt W root u stack (Some ss) v cv None True m of
        (None, stack', m') \<Rightarrow> (Ok v, stack', m')
      | (Some stamp_err, stack', m') \<Rightarrow>
          (case framework_failure root (unit_id u) stamp_err m' of
             (oc, m'') \<Rightarrow> (oc, stack', m'')))"

text \<open>The part of \<open>Node.Execute\<close> after the resume check.\<close>

definition node_dispatch ::
  "nat \<Rightarrow> 'w world_ops \<Rightarrow> exec_unit \<Rightarrow> 'w dispatcher \<Rightarrow> 'w dispatcher"
where
  "node_dispatch k W root rec u stack ps fr m =
     (case bound_action W u of
        Inl err \<Rightarrow> unbound_exit W root u ''node'' (Some err) stack m
      | Inr None \<Rightarrow> unbound_exit W root u ''node'' None stack m
      | Inr (Some a) \<Rightarrow>
          (let ss = resolve_slots fr (stack # ps) u;
               m1 = emit_event EventPhaseChanged (unit_id u) None m
           in case do_action k W root rec a (unit_id u) ss stack ps fr m1 of
                (Fail err, cv, m2) \<Rightarrow>
                  (case join_audit_stamp W root u stack (Some ss) cv err True m2 of
                     (err', stack', m3) \<Rightarrow>
                       (Fail (wrapf (act_name a @ '': '') err'), stack',
                        emit_event EventError (unit_id u) (Some err') m3))
              | (Ok v, cv, m2) \<Rightarrow> success_exit W root u ss cv v stack m2
              | (oc, cv, m2) \<Rightarrow> (oc, stack, m2)))"

definition node_execute ::
  "nat \<Rightarrow> 'w world_ops \<Rightarrow> exec_unit \<Rightarrow> 'w dispatcher \<Rightarrow> 'w dispatcher"
where
  "node_execute k W root rec u stack ps fr m =
     (case ctx_err W (en_world m) of
        Some err \<Rightarrow> canceled_exit W root u ''node'' err stack m
      | None \<Rightarrow>
          (case control_point W m of
             (Some err, m1) \<Rightarrow> (Fail err, stack, m1)
           | (None, m1) \<Rightarrow>
               (case receipt_by_unit_id (unit_id u) stack of
                  Some r \<Rightarrow>
                    (if r_err r = None then (Ok (r_result r), stack, m1)
                     else node_dispatch k W root rec u stack ps fr m1)
                | None \<Rightarrow> node_dispatch k W root rec u stack ps fr m1)))"

text \<open>
  \<open>adoptPriorStack\<close>: nothing, the result of a completed prior stack, or the prior stack to
  resume into with the parent's entry for it removed.
\<close>

datatype adoption = NoPrior | Pruned gvalue | Adopted rstack rstack

definition adopt_prior_stack :: "exec_unit \<Rightarrow> rstack \<Rightarrow> adoption" where
  "adopt_prior_stack u stack =
     (case nested_stack_by_unit_id (unit_id u) stack of
        None \<Rightarrow> NoPrior
      | Some prior \<Rightarrow>
          if stack_err prior = None then Pruned (stack_result prior)
          else Adopted prior (supersede (unit_id u) stack))"

text \<open>
  Bubble-up: a condition the child executor recorded is recorded on the parent, unless a real
  failure carries it; a rejected transition panics (\<open>assert.NoError\<close>).
\<close>

definition bubble_up ::
  "exec_unit \<Rightarrow> exec_unit \<Rightarrow> outcome \<Rightarrow> run_status \<Rightarrow> 'w engine \<Rightarrow> gerror option \<times> 'w engine"
where
  "bubble_up root u oc st m =
     (if (case oc of Ok v \<Rightarrow> True | Fail e \<Rightarrow> err_is ErrPaused e | _ \<Rightarrow> False)
         \<and> st_condition st > Healthy
      then transition_to root (unit_id u) (st_condition st) (st_reason st) (st_message st) m
      else (None, m))"

definition subgraph_dispatch ::
  "nat \<Rightarrow> 'w world_ops \<Rightarrow> exec_unit \<Rightarrow> 'w dispatcher \<Rightarrow> exec_unit \<Rightarrow> rstack \<Rightarrow> rstack \<Rightarrow> rstack list
   \<Rightarrow> frame \<Rightarrow> 'w engine \<Rightarrow> outcome \<times> rstack \<times> 'w engine"
where
  "subgraph_dispatch k W root rec u child stack ps fr m =
     (case bound_action W u of
        Inl err \<Rightarrow> unbound_exit W root u ''subgraph'' (Some err) stack m
      | Inr None \<Rightarrow> unbound_exit W root u ''subgraph'' None stack m
      | Inr (Some a) \<Rightarrow>
          (let ss = resolve_slots fr (stack # ps) u
           in case verify_scope_claims W (children_of u) m of
                (Some err, m1) \<Rightarrow>
                  failed_exit W root u (''subgraph '' @ unit_id u @ '': '') ss CvNone err stack m1
              | (None, m1) \<Rightarrow>
                  (case do_action k W root rec a (unit_id u) ss child (stack # ps) fr (child_engine m1) of
                     (oc, cv, mc) \<Rightarrow>
                       (case bubble_up root u oc (en_status mc) (back_to_parent m1 mc) of
                          (Some err, m2) \<Rightarrow> (Panicked (error_text err), stack, m2)
                        | (None, m2) \<Rightarrow>
                            (case oc of
                               Fail err \<Rightarrow>
                                 failed_exit W root u
                                   (''subgraph '' @ unit_id u @ '': '' @ act_name a @ '': '') ss cv err stack m2
                             | Ok v \<Rightarrow> success_exit W root u ss cv v stack m2
                             | _ \<Rightarrow> (oc, stack, m2))))))"

definition subgraph_execute ::
  "nat \<Rightarrow> 'w world_ops \<Rightarrow> exec_unit \<Rightarrow> 'w dispatcher \<Rightarrow> 'w dispatcher"
where
  "subgraph_execute k W root rec u stack ps fr m =
     (case ctx_err W (en_world m) of
        Some err \<Rightarrow> canceled_exit W root u ''subgraph'' err stack m
      | None \<Rightarrow>
          (case control_point W m of
             (Some err, m1) \<Rightarrow> (Fail err, stack, m1)
           | (None, m1) \<Rightarrow>
               (case adopt_prior_stack u stack of
                  Pruned v \<Rightarrow> (Ok v, stack, m1)
                | NoPrior \<Rightarrow> subgraph_dispatch k W root rec u new_recovery_stack stack ps fr m1
                | Adopted prior stack' \<Rightarrow> subgraph_dispatch k W root rec u prior stack' ps fr m1)))"

definition unit_execute ::
  "nat \<Rightarrow> 'w world_ops \<Rightarrow> exec_unit \<Rightarrow> 'w dispatcher \<Rightarrow> 'w dispatcher"
where
  "unit_execute k W root rec u =
     (if is_subgraph u then subgraph_execute k W root rec u else node_execute k W root rec u)"

section \<open>Handlers\<close>

text \<open>
  \<open>dispatchHandler\<close>: the handler runs on a stack of its own; a panic is recovered as an error,
  and on any error the stack is unwound, the unwind's own error ignored.
\<close>

definition dispatch_handler ::
  "nat \<Rightarrow> 'w world_ops \<Rightarrow> exec_unit \<Rightarrow> 'w dispatcher \<Rightarrow> exec_unit \<Rightarrow> frame \<Rightarrow> 'w engine
   \<Rightarrow> outcome \<times> 'w engine"
where
  "dispatch_handler k W root rec h fr m =
     (case unit_execute k W root rec h new_recovery_stack [] fr m of
        (oc, hs, m1) \<Rightarrow>
          (let m2 = m1\<lparr>en_world := fst (snd (unwind (undo W) hs (en_world m1)))\<rparr>
           in case oc of
                Fail e \<Rightarrow> (Fail e, m2)
              | Panicked p \<Rightarrow> (Fail (ENew (''handler panicked: '' @ p)), m2)
              | _ \<Rightarrow> (oc, m1)))"

text \<open>
  \<open>resolveFailure\<close>. The cause is nil (\<open>None\<close>) only when no attempt was made at all, which a
  negative MaxAttempts brings about; the failure then wraps a nil cause, an empty one here.
\<close>

definition standing_failure_opt :: "reason \<Rightarrow> gerror option \<Rightarrow> gerror" where
  "standing_failure_opt base cause =
     (case cause of Some e \<Rightarrow> standing_failure base e | None \<Rightarrow> EFail base False (ENew []))"

definition resolve_failure ::
  "nat \<Rightarrow> 'w world_ops \<Rightarrow> exec_unit \<Rightarrow> 'w dispatcher \<Rightarrow> exec_unit \<Rightarrow> frame \<Rightarrow> reason \<Rightarrow> gerror option
   \<Rightarrow> 'w engine \<Rightarrow> outcome \<times> 'w engine"
where
  "resolve_failure k W root rec u fr base cause m =
     (case on_error u of
        None \<Rightarrow> (Fail (standing_failure_opt base cause), m)
      | Some h \<Rightarrow>
          (case dispatch_handler k W root rec h fr m of
             (Ok v, m') \<Rightarrow>
               (if is_truthy v then Ok v else Fail (standing_failure_opt base cause), m')
           | (Fail e, m') \<Rightarrow> (Fail (EFail ReasonHandlerFailed False e), m')
           | r \<Rightarrow> r))"

text \<open>\<open>gateRetry\<close>: \<open>None\<close> keeps retrying, \<open>Some\<close> ends the loop with an outcome.\<close>

definition gate_retry ::
  "nat \<Rightarrow> 'w world_ops \<Rightarrow> exec_unit \<Rightarrow> 'w dispatcher \<Rightarrow> exec_unit \<Rightarrow> frame \<Rightarrow> gerror
   \<Rightarrow> 'w engine \<Rightarrow> outcome option \<times> 'w engine"
where
  "gate_retry k W root rec u fr prev m =
     (case on_retry u of
        None \<Rightarrow> (None, m)
      | Some h \<Rightarrow>
          (case dispatch_handler k W root rec h fr m of
             (Ok v, m1) \<Rightarrow>
               (if is_truthy v then (None, m1)
                else (case resolve_failure k W root rec u fr ReasonRetryVetoed (Some prev) m1 of
                        (oc, m2) \<Rightarrow> (Some oc, m2)))
           | (Fail e, m1) \<Rightarrow> (Some (Fail (EFail ReasonHandlerFailed False e)), m1)
           | (oc, m1) \<Rightarrow> (Some oc, m1)))"

section \<open>Dispatch with policy\<close>

definition wait_retry_delay ::
  "'w world_ops \<Rightarrow> retry_policy option \<Rightarrow> int \<Rightarrow> 'w engine \<Rightarrow> outcome option \<times> 'w engine"
where
  "wait_retry_delay W policy attempt m =
     (case policy of
        None \<Rightarrow> (None, m)
      | Some p \<Rightarrow>
          if attempt = 0 then (None, m)
          else (case compute_delay (parse_duration W) (draw_jitter W) p (attempt - 1) of
                  None \<Rightarrow> (Some (Panicked ''invalid argument to Int64N''), m)
                | Some d \<Rightarrow>
                    if d \<le>s 0 then (None, m)
                    else (case sleep W d (en_world m) of
                            (None, w) \<Rightarrow> (None, m\<lparr>en_world := w\<rparr>)
                          | (Some err, w) \<Rightarrow> (Some (Fail err), m\<lparr>en_world := w\<rparr>))))"

text \<open>
  The attempt loop: \<open>n\<close> attempts are left, \<open>attempt\<close> have been made, \<open>prev\<close> is the error of the
  latest.
\<close>

fun attempt_loop ::
  "nat \<Rightarrow> 'w world_ops \<Rightarrow> exec_unit \<Rightarrow> 'w dispatcher \<Rightarrow> retry_policy option \<Rightarrow> exec_unit \<Rightarrow> rstack list
   \<Rightarrow> frame \<Rightarrow> nat \<Rightarrow> nat \<Rightarrow> gerror option \<Rightarrow> rstack \<Rightarrow> 'w engine \<Rightarrow> outcome \<times> rstack \<times> 'w engine"
where
  "attempt_loop k W root rec policy u ps fr 0 attempt prev stack m =
     (case resolve_failure k W root rec u fr ReasonActionFailed prev m of (oc, m') \<Rightarrow> (oc, stack, m'))"
| "attempt_loop k W root rec policy u ps fr (Suc n) attempt prev stack m =
     (case wait_retry_delay W policy (int attempt) m of
        (Some oc, m1) \<Rightarrow> (oc, stack, m1)
      | (None, m1) \<Rightarrow>
          (case unit_execute k W root rec u stack ps fr m1 of
             (Ok v, stack', m2) \<Rightarrow> (apply_pending_reaction v m2, stack', m2)
           | (Fail err, stack', m2) \<Rightarrow>
               (if err_is ErrPaused err \<or> ctx_err W (en_world m2) \<noteq> None then (Fail err, stack', m2)
                else if is_hard_failure err then (Fail err, stack', m2)
                else if 0 < n then
                  (case gate_retry k W root rec u fr err m2 of
                     (Some oc, m3) \<Rightarrow> (oc, stack', m3)
                   | (None, m3) \<Rightarrow>
                       attempt_loop k W root rec policy u ps fr n (Suc attempt) (Some err) stack' m3)
                else attempt_loop k W root rec policy u ps fr n (Suc attempt) (Some err) stack' m2)
           | r \<Rightarrow> r))"

definition attempts_for :: "retry_policy option \<Rightarrow> nat" where
  "attempts_for policy = (case policy of None \<Rightarrow> 1 | Some p \<Rightarrow> nat (max_attempts p + 1))"

definition dispatch_with_policy ::
  "nat \<Rightarrow> 'w world_ops \<Rightarrow> exec_unit \<Rightarrow> 'w dispatcher \<Rightarrow> 'w dispatcher"
where
  "dispatch_with_policy k W root rec u stack ps fr m =
     (let policy = retry_policy_for root u
      in attempt_loop k W root rec policy u ps fr (attempts_for policy) 0 None stack m)"

text \<open>The depth of the recursion is that of the graph: \<open>n\<close> bounds it.\<close>

primrec dispatch :: "nat \<Rightarrow> nat \<Rightarrow> 'w world_ops \<Rightarrow> exec_unit \<Rightarrow> 'w dispatcher" where
  "dispatch 0 k W root = (\<lambda>u stack ps fr m. (OutOfFuel, stack, m))"
| "dispatch (Suc n) k W root = dispatch_with_policy k W root (dispatch n k W root)"

section \<open>The run\<close>

text \<open>
  What a run asks of its environment besides the dispatches: whether the graph carries a
  catalog, the build of the runtime environment, the resolver of the parameters, the
  rehydration of the ledger, the re-arming of the stack's receipts and the binding of the
  pending resources to the run's root.
\<close>

record 'w session_ops =
  has_catalog :: bool
  build_environment :: "'w \<Rightarrow> gerror option \<times> 'w"
  environment_variables :: "'w \<Rightarrow> string \<rightharpoonup> variable"
  resolve_parameters :: "string list \<Rightarrow> 'w \<Rightarrow> (gerror list, string \<rightharpoonup> variable) result"
  rehydrate_ledger :: "'w \<Rightarrow> gerror option \<times> 'w"
  rearm_stack :: "rstack \<Rightarrow> 'w \<Rightarrow> gerror option \<times> rstack \<times> 'w"
  bind_pending :: "'w \<Rightarrow> 'w"

text \<open>The executor between runs: its engine state, its recovery tree and its variable frame.\<close>

record 'w executor =
  ex_engine :: "'w engine"
  ex_stack :: rstack
  ex_variables :: frame

definition new_executor :: "control_plane \<Rightarrow> 'w \<Rightarrow> 'w executor" where
  "new_executor p w =
     \<lparr>ex_engine = new_engine p w, ex_stack = new_recovery_stack, ex_variables = None\<rparr>"

definition set_status ::
  "phase \<Rightarrow> condition \<Rightarrow> reason \<Rightarrow> string \<Rightarrow> 'w engine \<Rightarrow> 'w engine"
where
  "set_status ph c r msg m =
     m\<lparr>en_status := \<lparr>st_phase = ph, st_condition = c, st_reason = r, st_message = msg\<rparr>\<rparr>"

definition set_phase :: "phase \<Rightarrow> 'w engine \<Rightarrow> 'w engine" where
  "set_phase ph m = m\<lparr>en_status := (en_status m)\<lparr>st_phase := ph\<rparr>\<rparr>"

definition bind_variables ::
  "'w world_ops \<Rightarrow> 'w session_ops \<Rightarrow> exec_unit \<Rightarrow> (string \<rightharpoonup> variable) \<Rightarrow> 'w engine
   \<Rightarrow> (outcome, frame) result"
where
  "bind_variables W S root caller m =
     (case parameter_names root of
        None \<Rightarrow> Inl (Panicked ''nil pointer dereference'')
      | Some params \<Rightarrow>
          (case type_conflict W root of
             Some err \<Rightarrow> Inl (Fail err)
           | None \<Rightarrow>
               (case resolve_parameters S params (en_world m) of
                  Inl errs \<Rightarrow> Inl (Fail (EJoin errs))
                | Inr resolved \<Rightarrow>
                    Inr (Some (environment_variables S (en_world m) ++ resolved ++ caller)))))"

definition prepare_resume ::
  "'w session_ops \<Rightarrow> rstack \<Rightarrow> 'w engine \<Rightarrow> gerror option \<times> rstack \<times> 'w engine"
where
  "prepare_resume S stack m =
     (case rehydrate_ledger S (en_world m) of
        (Some err, w) \<Rightarrow>
          (Some (wrapf ''Run: rehydrate resource ledger: '' err), stack,
           set_status Stopped ExecutionFailed ReasonPreflightFailed ''resource ledger rehydrate failed''
             (m\<lparr>en_world := w\<rparr>))
      | (None, w) \<Rightarrow>
          (case rearm_stack S stack w of
             (Some err, stack', w') \<Rightarrow>
               (Some (wrapf ''Run: re-arm recovery stack: '' err), stack',
                set_status Stopped ExecutionFailed ReasonPreflightFailed ''recovery stack re-arm failed''
                  (m\<lparr>en_world := w'\<rparr>))
           | (None, stack', w') \<Rightarrow> (None, stack', m\<lparr>en_world := w'\<rparr>)))"

definition wrap_compensation :: "gerror \<Rightarrow> gerror \<Rightarrow> gerror" where
  "wrap_compensation err undo_err = EWrap [Inr err, Inl ''; compensation: '', Inr undo_err]"

definition fail_and_unwind ::
  "'w world_ops \<Rightarrow> gerror \<Rightarrow> rstack \<Rightarrow> 'w engine \<Rightarrow> gerror \<times> rstack \<times> 'w engine"
where
  "fail_and_unwind W err stack m =
     (case unwind (undo W) stack (en_world m) of
        (stack', w, Some undo_err) \<Rightarrow>
          (wrap_compensation err undo_err, stack',
           emit_event EventError [] (Some undo_err)
             (set_status Stopped CompensationFailed ReasonCompensationFailed
                ''unwind failed: compensation error'' (m\<lparr>en_world := w\<rparr>)))
      | (stack', w, None) \<Rightarrow>
          (let m1 = m\<lparr>en_world := w\<rparr>;
               implied = condition_for_reason (failure_reason err);
               keep = st_condition (en_status m) > implied;
               c = (if keep then st_condition (en_status m) else implied);
               r = (if keep then st_reason (en_status m) else failure_reason err)
           in (err, stack',
               emit_event EventError [] (Some err)
                 (set_status Stopped c r ''unhandled failure; stack unwound cleanly'' m1))))"

definition stop_and_unwind ::
  "'w world_ops \<Rightarrow> gerror \<Rightarrow> rstack \<Rightarrow> 'w engine \<Rightarrow> gerror \<times> rstack \<times> 'w engine"
where
  "stop_and_unwind W err stack m =
     (case unwind (undo W) stack (en_world m) of
        (stack', w, Some undo_err) \<Rightarrow>
          (wrap_compensation err undo_err, stack',
           emit_event EventError [] (Some undo_err)
             (set_status Stopped CompensationFailed ReasonCompensationFailed
                ''stop unwind failed: compensation error'' (m\<lparr>en_world := w\<rparr>)))
      | (stack', w, None) \<Rightarrow>
          (err, stack',
           emit_event EventPhaseChanged [] None
             (set_status Stopped (st_condition (en_status m)) ReasonStopped
                ''stopped by operator; stack unwound cleanly'' (m\<lparr>en_world := w\<rparr>))))"

text \<open>The end of \<open>Run\<close>: how the root's dispatch decides the terminal status.\<close>

definition finish_run ::
  "'w world_ops \<Rightarrow> outcome \<times> rstack \<times> 'w engine \<Rightarrow> outcome \<times> rstack \<times> 'w engine"
where
  "finish_run W r =
     (case r of
        (Ok v, stack, m) \<Rightarrow>
          (let m1 = set_phase Completed m
           in (Ok v, stack,
               emit_event EventResult [] None (emit_event EventPhaseChanged [] None m1)))
      | (Fail err, stack, m) \<Rightarrow>
          if err_is ErrPaused err then
            (Fail err, stack,
             emit_event EventPhaseChanged [] None
               (m\<lparr>en_status := (en_status m)\<lparr>st_phase := Paused, st_reason := ReasonPaused,
                                              st_message := []\<rparr>\<rparr>))
          else
            (case (if err_is ErrStopped err then stop_and_unwind W err stack m
                   else fail_and_unwind W err stack m) of
               (err', stack', m') \<Rightarrow> (Fail err', stack', m'))
      | (oc, stack, m) \<Rightarrow> (oc, stack, m))"

definition start_dispatch ::
  "nat \<Rightarrow> nat \<Rightarrow> 'w world_ops \<Rightarrow> 'w session_ops \<Rightarrow> exec_unit \<Rightarrow> rstack \<Rightarrow> frame \<Rightarrow> 'w engine
   \<Rightarrow> outcome \<times> rstack \<times> 'w engine"
where
  "start_dispatch n k W S root stack fr m =
     (let m1 = m\<lparr>en_world := bind_pending S (en_world m)\<rparr>;
          m2 = emit_event EventPhaseChanged [] None (set_phase Running m1)
      in finish_run W (dispatch n k W root root stack [] fr m2))"

definition run ::
  "nat \<Rightarrow> nat \<Rightarrow> 'w world_ops \<Rightarrow> 'w session_ops \<Rightarrow> exec_unit \<Rightarrow> (string \<rightharpoonup> variable) \<Rightarrow> 'w executor
   \<Rightarrow> outcome \<times> 'w executor"
where
  "run n k W S root caller e =
     (let m = ex_engine e; resuming = (st_phase (en_status m) = Paused);
          preflight = (\<lambda>msg m. set_status Stopped ExecutionFailed ReasonPreflightFailed msg m)
      in if st_phase (en_status m) \<noteq> Preparing \<and> \<not> resuming
         then (Fail (ENew (''executor already used (state: '' @ run_status_string (en_status m) @ '')'')), e)
         else if \<not> has_catalog S
         then (Fail (ENew ''Run: graph carries no resource catalog''),
               e\<lparr>ex_engine := preflight ''graph carries no resource catalog'' m\<rparr>)
         else
           (case build_environment S (en_world m) of
              (Some err, w) \<Rightarrow>
                (Fail (wrapf ''Run: build runtime environment: '' err),
                 e\<lparr>ex_engine := preflight ''runtime environment build failed'' (m\<lparr>en_world := w\<rparr>)\<rparr>)
            | (None, w) \<Rightarrow>
                (let m1 = m\<lparr>en_world := w\<rparr>
                 in if resuming then
                      (case prepare_resume S (ex_stack e) m1 of
                         (Some err, stack, m2) \<Rightarrow>
                           (Fail err, \<lparr>ex_engine = m2, ex_stack = stack, ex_variables = None\<rparr>)
                       | (None, stack, m2) \<Rightarrow>
                           (case start_dispatch n k W S root stack (ex_variables e) m2 of
                              (oc, stack', m3) \<Rightarrow>
                                (oc, \<lparr>ex_engine = m3, ex_stack = stack', ex_variables = None\<rparr>)))
                    else
                      (case bind_variables W S root caller m1 of
                         Inl (Fail err) \<Rightarrow>
                           (Fail err, e\<lparr>ex_engine := preflight ''variable binding failed'' m1,
                                        ex_variables := None\<rparr>)
                       | Inl oc \<Rightarrow> (oc, e\<lparr>ex_engine := m1, ex_variables := None\<rparr>)
                       | Inr fr \<Rightarrow>
                           (case start_dispatch n k W S root new_recovery_stack fr m1 of
                              (oc, stack', m3) \<Rightarrow>
                                (oc, \<lparr>ex_engine = m3, ex_stack = stack', ex_variables = None\<rparr>))))))"

end
