(* ===== verification/Demo_World.thy ===== *)
theory Demo_World
  imports Executor
begin

text \<open>
  A small world to run the model in: a log of what the providers were asked to do and the list of
  the effects that stand. An action succeeds with a receipt that names the unit, except
  \<open>demo.fail\<close>, which fails, and \<open>demo.flaky\<close>, which fails until it has been tried twice;
  undoing a receipt takes its effect back. Nothing else of the environment interferes. The
  witnesses of the engine's theorems run here.
\<close>

type_synonym demo_state = "string list \<times> gvalue list"

definition demo_leaf :: "action \<Rightarrow> string \<Rightarrow> slots \<Rightarrow> frame \<Rightarrow> demo_state \<Rightarrow> leaf_result \<times> demo_state" where
  "demo_leaf a i ss fr w =
     (let log = fst w @ [i]
      in if act_name a = ''demo.fail'' \<or> act_name a = ''demo.flaky'' \<and> length (filter (\<lambda>x. x = i) log) < 3
         then (LeafReturn VNil CvNone (Some (ENew ''demo failure'')), (log, snd w))
         else (LeafReturn (VStr i) (CvReceipt (new_receipt (VStr i))) None, (log, VStr i # snd w)))"

definition demo_undo :: "receipt \<Rightarrow> demo_state \<Rightarrow> demo_state \<times> gerror option" where
  "demo_undo r w = ((fst w @ [''undo '' @ r_unit_id r], remove1 (r_payload r) (snd w)), None)"

definition demo_world :: "demo_state world_ops" where
  "demo_world =
     \<lparr>ctx_err = (\<lambda>w. None),
      clients = (\<lambda>w. ([], w)),
      resolve_action = (\<lambda>n. Inl (ENew (''unknown action '' @ n))),
      do_leaf = demo_leaf,
      coerce_args = (\<lambda>a ss w. (Inr ss, w)),
      undo = demo_undo,
      sleep = (\<lambda>d w. (None, w)),
      poll_wait = (\<lambda>w. (WaitDeadline, w)),
      mint = (\<lambda>w. (None, w)),
      probe_claim = (\<lambda>v w. (None, w)),
      type_conflict = (\<lambda>u. None),
      parse_duration = (\<lambda>s. Some 0),
      draw_jitter = (\<lambda>d. d),
      render_message = (\<lambda>ss. ''message''),
      format_duration = (\<lambda>d. show_int d),
      format_value = (\<lambda>v. ''value'')\<rparr>"

definition demo_session :: "demo_state session_ops" where
  "demo_session =
     \<lparr>has_catalog = True,
      build_environment = (\<lambda>w. (None, w)),
      environment_variables = (\<lambda>w. Map.empty),
      resolve_parameters = (\<lambda>ps w. Inr Map.empty),
      rehydrate_ledger = (\<lambda>w. (None, w)),
      rearm_stack = (\<lambda>s w. (None, s, w)),
      bind_pending = (\<lambda>w. w)\<rparr>"

definition demo_meta :: "string \<Rightarrow> string \<Rightarrow> retry_policy option \<Rightarrow> unit_meta" where
  "demo_meta i a p =
     \<lparr>m_id = i, m_action = Some \<lparr>act_name = a, act_full_name = a\<rparr>, m_action_name = [],
      m_slots = [], m_retry = p, m_transition = None\<rparr>"

definition demo_node :: "string \<Rightarrow> string \<Rightarrow> exec_unit" where
  "demo_node i a = Node (demo_meta i a None) None None"

definition demo_subgraph :: "string \<Rightarrow> exec_unit list \<Rightarrow> exec_unit" where
  "demo_subgraph i cs = Subgraph (demo_meta i ''flow.subgraph'' None) None None cs []"

definition demo_retry :: "int \<Rightarrow> retry_policy" where
  "demo_retry n = \<lparr>max_attempts = n, backoff = ''none'', initial_delay = [], max_delay = [], jitter = False\<rparr>"

definition demo_root :: exec_unit where
  "demo_root = demo_subgraph ''root''
     [demo_node ''a'' ''demo.ok'', demo_subgraph ''sub'' [demo_node ''b'' ''demo.ok'', demo_node ''c'' ''demo.fail'']]"

definition demo_executor :: "demo_state executor" where
  "demo_executor = new_executor new_control_plane ([], [])"

definition demo_start :: "demo_state engine" where
  "demo_start = set_phase Running (new_engine new_control_plane ([], []))"

end
