(* ===== verification/Evolution.thy ===== *)
theory Evolution
  imports Demo_World
begin

text \<open>
  How whole dispatches move an executor: what every primitive step of the engine keeps
  (\<open>engine_relation\<close>) is kept by the flow combinators, by the execution of nodes and subgraphs,
  by handlers and the attempt loop, and so by \<open>dispatch\<close> at any depth.
\<close>

definition keeps :: "('w engine \<Rightarrow> 'w engine \<Rightarrow> bool) \<Rightarrow> 'w dispatcher \<Rightarrow> bool" where
  "keeps R rec \<longleftrightarrow> (\<forall>u st ps fr m oc st' m'. rec u st ps fr m = (oc, st', m') \<longrightarrow> R m m')"

lemma keepsD: "keeps R rec \<Longrightarrow> rec u st ps fr m = (oc, st', m') \<Longrightarrow> R m m'"
  by (simp add: keeps_def)

lemma keepsI: "(\<And>u st ps fr m oc st' m'. rec u st ps fr m = (oc, st', m') \<Longrightarrow> R m m') \<Longrightarrow> keeps R rec"
  by (simp add: keeps_def)

context engine_relation
begin

lemma R_trans2: "R m1 m2 \<Longrightarrow> R m2 m3 \<Longrightarrow> R m3 m4 \<Longrightarrow> R m1 m4"
  using R_trans by blast

lemma R_walk_tree:
  "keeps R rec \<Longrightarrow> walk_decision_tree k rec s c st ps fr m = (oc, st', m') \<Longrightarrow> R m m'"
proof (induction k rec s c st ps fr m rule: walk_decision_tree.induct)
  case (2 k rec s c st ps fr m)
  obtain oc1 st1 m1 where r: "rec c st ps fr m = (oc1, st1, m1)" by (metis prod_cases3)
  from keepsD [OF "2.prems"(1) r] have "R m m1" .
  with 2 r show ?case
    by (auto split: outcome.splits sum.splits option.splits intro: R_trans)
qed (simp add: R_refl)

lemma R_walk_list:
  "keeps R rec \<Longrightarrow> walk_list rec cs v st ps fr m = (oc, st', m') \<Longrightarrow> R m m'"
proof (induction rec cs v st ps fr m rule: walk_list.induct)
  case (2 rec c cs v st ps fr m)
  obtain oc1 st1 m1 where r: "rec c st ps fr m = (oc1, st1, m1)" by (metis prod_cases3)
  from keepsD [OF "2.prems"(1) r] have "R m m1" .
  with 2 r show ?case
    by (auto split: outcome.splits if_splits intro: R_trans)
qed (simp add: R_refl)

lemma R_walk:
  "keeps R rec \<Longrightarrow> walk_subgraph_children rec s st ps fr m = (oc, st', m') \<Longrightarrow> R m m'"
  by (auto simp: walk_subgraph_children_def R_refl split: if_splits sum.splits
      dest: R_walk_tree R_walk_list)

lemma R_run_iterations:
  "keeps R rec \<Longrightarrow> run_iterations rec s items fr st ps rs m = (done, m') \<Longrightarrow> R m m'"
proof (induction rec s items fr st ps rs m arbitrary: "done" rule: run_iterations.induct)
  case (2 rec s items fr st ps r rs m)
  obtain oc1 st1 m1 where w:
    "walk_subgraph_children rec s (gr_stack r) (st # ps)
       (build_iteration_frame fr (items ! gr_index r)) m = (oc1, st1, m1)" by (metis prod_cases3)
  from R_walk [OF "2.prems"(1) w] have "R m m1" .
  with 2 w show ?case
    by (auto simp: Let_def split: outcome.splits prod.splits intro: R_trans)
qed (simp add: R_refl)

lemma R_wait_poll:
  "keeps R rec \<Longrightarrow> wait_poll rec s i cs ps fr m = (pr, cs', m') \<Longrightarrow> R m m'"
  by (auto simp: wait_poll_def split: prod.splits outcome.splits if_splits dest: R_walk)

lemma R_wait_loop:
  "keeps R rec \<Longrightarrow> wait_loop k W rec s i t p v cs ps fr m = (oc, cv, m') \<Longrightarrow> R m m'"
proof (induction k W rec s i t p v cs ps fr m rule: wait_loop.induct)
  case (2 k W rec s i t p v cs ps fr m)
  obtain ev w where pw: "poll_wait W (en_world m) = (ev, w)" by fastforce
  obtain pr cs1 m1 where wp: "wait_poll rec s i cs ps fr (m\<lparr>en_world := w\<rparr>) = (pr, cs1, m1)"
    by (metis prod_cases3)
  have "R m m1" using R_wait_poll [OF "2.prems"(1) wp] R_world R_trans by blast
  with 2 pw wp show ?case
    by (auto simp: Let_def R_world split: wait_event.splits poll_result.splits intro: R_trans)
qed (simp add: R_refl)

lemma R_combinator_result:
  "combinator_result who (a, b, mm) = (oc, cv, m') \<Longrightarrow> m' = mm"
  by (auto simp: combinator_result_def split: outcome.splits)

lemma R_choose:
  "keeps R rec \<Longrightarrow> flow_choose root rec i cs ps fr m = (oc, cv, m') \<Longrightarrow> R m m'"
  by (cases "walk_subgraph_children rec (projr (resolve_caller root ''flow.Choose'' i)) cs ps fr m")
    (auto simp: flow_choose_def R_refl split: sum.splits dest: R_walk R_combinator_result)

lemma R_subgraph:
  "keeps R rec \<Longrightarrow> flow_subgraph W root rec i ss cs ps fr m = (oc, cv, m') \<Longrightarrow> R m m'"
  unfolding flow_subgraph_def
  by (auto simp: R_refl combinator_result_def split: sum.splits option.splits prod.splits outcome.splits
      dest: R_walk)

lemma R_gather:
  "keeps R rec \<Longrightarrow> flow_gather root rec i ss cs ps fr m = (oc, cv, m') \<Longrightarrow> R m m'"
  unfolding flow_gather_def Let_def
  by (auto simp: R_refl simp del: run_iterations.simps
      split: if_splits sum.splits prod.splits list.splits run_failure.splits dest: R_run_iterations)

lemma R_wait_until:
  "keeps R rec \<Longrightarrow> flow_wait_until k W root rec i ss cs ps fr m = (oc, cv, m') \<Longrightarrow> R m m'"
  unfolding flow_wait_until_def Let_def
  by (auto simp: R_refl split: if_splits sum.splits option.splits prod.splits poll_result.splits
      dest: R_wait_poll R_wait_loop intro: R_trans)

lemma R_degraded: "flow_degraded W root i ss m = (oc, cv, m') \<Longrightarrow> R m m'"
  by (auto simp: flow_degraded_def split: prod.splits option.splits dest: R_transition)

lemma R_failed: "flow_failed W root i ss m = (oc, cv, m') \<Longrightarrow> R m m'"
  by (auto simp: flow_failed_def split: prod.splits option.splits dest: R_transition)

lemma R_flow_method:
  "keeps R rec \<Longrightarrow> flow_method k W root rec n i ss cs ps fr m = (oc, cv, m') \<Longrightarrow> R m m'"
  by (auto simp: flow_method_def flow_complete_def R_refl split: if_splits
      dest: R_subgraph R_choose R_gather R_wait_until R_degraded R_failed)

lemma R_do_action:
  "keeps R rec \<Longrightarrow> do_action k W root rec a i ss st ps fr m = (oc, cv, m') \<Longrightarrow> R m m'"
  by (auto simp: do_action_def R_world
      split: if_splits prod.splits sum.splits leaf_result.splits option.splits
      dest: R_flow_method intro: R_trans [OF R_world])

subsection \<open>Units, handlers and attempts\<close>

lemma R_unbound: "unbound_exit W root u kd re st m = (oc, st', m') \<Longrightarrow> R m m'"
  unfolding unbound_exit_def Let_def
  by (auto split: prod.splits dest!: R_join_audit R_framework_failure intro: R_trans)

lemma R_canceled: "canceled_exit W root u kd e st m = (oc, st', m') \<Longrightarrow> R m m'"
  by (auto simp: canceled_exit_def split: prod.splits dest: R_join_audit)

lemma R_failed_exit: "failed_exit W root u l ss cv e st m = (oc, st', m') \<Longrightarrow> R m m'"
  by (auto simp: failed_exit_def split: prod.splits dest: R_join_audit)

lemma R_success: "success_exit W root u ss cv v st m = (oc, st', m') \<Longrightarrow> R m m'"
  by (auto simp: success_exit_def split: prod.splits option.splits
      dest!: R_push_audit R_framework_failure intro: R_trans)

lemma R_node_dispatch:
  assumes "keeps R rec" and "node_dispatch k W root rec u st ps fr m = (oc, st', m')"
  shows "R m m'"
  using assms(2) unfolding node_dispatch_def Let_def
  by (auto split: sum.splits option.splits prod.splits outcome.splits
      dest!: R_unbound R_success R_join_audit R_do_action [OF assms(1)]
      intro: R_trans R_emit R_emit')

lemma R_node_execute:
  assumes "keeps R rec" and "node_execute k W root rec u st ps fr m = (oc, st', m')"
  shows "R m m'"
  using assms(2) unfolding node_execute_def
  by (auto split: option.splits prod.splits if_splits
      dest!: R_canceled R_control_point R_node_dispatch [OF assms(1)] intro: R_trans)

lemma R_bubble_up: "bubble_up root u oc s m = (e, m') \<Longrightarrow> R m m'"
  by (auto simp: bubble_up_def R_refl split: if_splits dest: R_transition)

lemma R_subgraph_dispatch:
  assumes "keeps R rec" and "subgraph_dispatch k W root rec u ch st ps fr m = (oc, st', m')"
  shows "R m m'"
  using assms(2) unfolding subgraph_dispatch_def Let_def
  by (auto split: sum.splits option.splits prod.splits outcome.splits
      dest!: R_unbound R_success R_failed_exit R_verify_scope R_bubble_up R_do_action [OF assms(1), THEN R_child]
      intro: R_trans R_trans2)

lemma R_subgraph_execute:
  assumes "keeps R rec" and "subgraph_execute k W root rec u st ps fr m = (oc, st', m')"
  shows "R m m'"
  using assms(2) unfolding subgraph_execute_def
  by (auto split: option.splits prod.splits adoption.splits
      dest!: R_canceled R_control_point R_subgraph_dispatch [OF assms(1)] intro: R_trans)

lemma R_unit_execute:
  "keeps R rec \<Longrightarrow> unit_execute k W root rec u st ps fr m = (oc, st', m') \<Longrightarrow> R m m'"
  by (auto simp: unit_execute_def split: if_splits dest: R_node_execute R_subgraph_execute)

lemma R_handler:
  "keeps R rec \<Longrightarrow> dispatch_handler k W root rec h fr m = (oc, m') \<Longrightarrow> R m m'"
  by (auto simp: dispatch_handler_def Let_def split: prod.splits outcome.splits
      dest: R_unit_execute intro: R_world')

lemma R_resolve_failure:
  "keeps R rec \<Longrightarrow> resolve_failure k W root rec u fr b c m = (oc, m') \<Longrightarrow> R m m'"
  by (auto simp: resolve_failure_def R_refl split: option.splits prod.splits outcome.splits
      dest: R_handler)

lemma R_gate_retry:
  assumes "keeps R rec" and "gate_retry k W root rec u fr e m = (oc, m')"
  shows "R m m'"
  using assms(2)
  by (auto simp: gate_retry_def R_refl split: option.splits prod.splits outcome.splits if_splits
      dest!: R_handler [OF assms(1)] R_resolve_failure [OF assms(1)] intro: R_trans)

lemma R_delay: "wait_retry_delay W p a m = (oc, m') \<Longrightarrow> R m m'"
  by (auto simp: wait_retry_delay_def R_refl R_world split: option.splits if_splits prod.splits)

lemma R_attempt_loop:
  "keeps R rec \<Longrightarrow> attempt_loop k W root rec p u ps fr n a e st m = (oc, st', m') \<Longrightarrow> R m m'"
proof (induction n arbitrary: a e st m)
  case 0
  then show ?case by (auto split: prod.splits dest: R_resolve_failure)
next
  case (Suc n)
  obtain d m1 where d: "wait_retry_delay W p (int a) m = (d, m1)" by fastforce
  obtain oc2 st2 m2 where x: "unit_execute k W root rec u st ps fr m1 = (oc2, st2, m2)"
    by (metis prod_cases3)
  have "R m m1" by (rule R_delay [OF d])
  moreover have "R m m2"
    using R_unit_execute [OF Suc.prems(1) x] calculation R_trans by blast
  ultimately show ?case
    using Suc d x
    by (auto split: option.splits outcome.splits prod.splits if_splits
        dest!: R_gate_retry [OF Suc.prems(1)] R_resolve_failure [OF Suc.prems(1)] intro: R_trans R_trans2)
qed

lemma R_dispatch: "keeps R (dispatch n k W root)"
proof (induction n)
  case 0
  then show ?case by (auto simp: keeps_def R_refl)
next
  case (Suc n)
  then show ?case
    by (auto intro!: keepsI simp: dispatch_with_policy_def Let_def dest: R_attempt_loop)
qed

end

section \<open>What a dispatch does to its executor\<close>

text \<open>C11: however a dispatch ends, and whatever the retries, handlers, child executors, providers
  and clients of the control plane do, the executor's journal only grows, by entries of strictly
  worsening condition, the last of which is the condition the dispatch leaves; the pending
  reaction is the worst of the one it had and the reactions the transition policies of the new
  entries' units name; and the control plane moved by its own steps alone.\<close>

theorem dispatch_evolves:
  assumes "dispatch n k W root u st ps fr m = (oc, st', m')"
  shows "\<exists>new. en_journal m' = en_journal m @ new
    \<and> sorted_wrt (<) (map tr_condition new)
    \<and> (\<forall>t \<in> set new. st_condition (en_status m) < tr_condition t)
    \<and> st_condition (en_status m') = last (st_condition (en_status m) # map tr_condition new)
    \<and> en_pending m' = fold max (map (\<lambda>t. reaction_for (transition_policy_for root (tr_unit_id t))
                                           (tr_condition t)) new) (en_pending m)
    \<and> plane_step\<^sup>*\<^sup>* (en_control m) (en_control m')"
  using keepsD [OF evolving.R_dispatch assms] climbs_sorted climbs_last
  by (fastforce simp: evolves_def journal_reactions_def)

lemma dispatch_evolves_witness:
  "let d = demo_node ''d'' ''flow.degraded'';
       m' = snd (snd (dispatch 1 0 demo_world d d new_recovery_stack [] None demo_start))
   in map tr_condition (en_journal m') = [Degraded] \<and> st_condition (en_status m') = Degraded"
proof -
  let ?d = "demo_node ''d'' ''flow.degraded''"
  obtain oc st' m' where x:
    "dispatch 1 0 demo_world ?d ?d new_recovery_stack [] None demo_start = (oc, st', m')"
    by (metis prod_cases3)
  have "map tr_condition (en_journal (snd (snd
      (dispatch 1 0 demo_world ?d ?d new_recovery_stack [] None demo_start)))) = [Degraded]"
    by code_simp
  then have j: "map tr_condition (en_journal m') = [Degraded]" by (simp only: x snd_conv)
  have "en_journal demo_start = []" by code_simp
  with dispatch_evolves [OF x] j have "st_condition (en_status m') = Degraded" by auto
  with j show ?thesis by (simp only: Let_def x snd_conv)
qed

end
