(* ===== verification/Walk.thy ===== *)
theory Walk
  imports Flow
begin

text \<open>
  The decision walk against its specification: \<open>walks\<close> says which path of children a choose
  takes, and on every decision tree the validation accepts the walk of the code takes such a
  path, to its end.
\<close>

section \<open>The specification of a walk\<close>

definition guard_for :: "gvalue \<Rightarrow> int" where
  "guard_for v = (if is_truthy v then guard_truthy else guard_falsy)"

inductive walks ::
  "'w dispatcher \<Rightarrow> exec_unit \<Rightarrow> rstack list \<Rightarrow> frame \<Rightarrow> exec_unit \<Rightarrow> rstack \<Rightarrow> 'w engine
   \<Rightarrow> exec_unit list \<Rightarrow> outcome \<times> rstack \<times> 'w engine \<Rightarrow> bool"
  for rec s ps fr where
  walks_leaf: "\<lbrakk>rec c st ps fr m = (Ok v, st', m'); out_edges (edges_of s) (unit_id c) = []\<rbrakk>
     \<Longrightarrow> walks rec s ps fr c st m [c] (Ok v, st', m')"
| walks_fail: "rec c st ps fr m = (Fail e, st', m')
     \<Longrightarrow> walks rec s ps fr c st m [c]
           (Fail (wrapf (''choose node '' @ quote (unit_id c) @ '': '') e), st', m')"
| walks_abort: "\<lbrakk>rec c st ps fr m = (oc, st', m'); oc = OutOfFuel \<or> (\<exists>p. oc = Panicked p)\<rbrakk>
     \<Longrightarrow> walks rec s ps fr c st m [c] (oc, st', m')"
| walks_branch: "\<lbrakk>rec c st ps fr m = (Ok v, st1, m1);
      e \<in> set (edges_of s); e_from e = unit_id c; e_guard e = guard_for v;
      d \<in> set (children_of s); unit_id d = e_to e;
      walks rec s ps fr d st1 m1 path r\<rbrakk>
     \<Longrightarrow> walks rec s ps fr c st m (c # path) r"

inductive_cases walks_cases: "walks rec s ps fr c st m path r"

section \<open>One step in a decision tree\<close>

lemma child_by_id_in: "child_by_id s i = Some c \<Longrightarrow> c \<in> set (children_of s) \<and> unit_id c = i"
  by (auto simp: child_by_id_def dest!: find_last_Some split: if_splits)

lemma child_ids_unit: "i \<in> set (child_ids s) \<Longrightarrow> \<exists>c. child_by_id s i = Some c"
  by (metis child_by_id_None not_None_eq)

lemma decision_tree_outgoing:
  assumes "decision_tree s r"
  shows "filter (\<lambda>e. e_from e = i \<and> e_guard e \<noteq> guard_none) (edges_of s) = out_edges (edges_of s) i"
  using assms by (auto simp: decision_tree_def out_edges_def intro: filter_cong)

lemma decision_tree_branch:
  assumes tree: "decision_tree s r" and out: "out_edges (edges_of s) i \<noteq> []"
  shows "\<exists>e d. branch_from s i v = Inr (Some d) \<and> e \<in> set (edges_of s) \<and> e_from e = i
           \<and> e_guard e = guard_for v \<and> d \<in> set (children_of s) \<and> unit_id d = e_to e"
proof -
  let ?out = "out_edges (edges_of s) i"
  let ?match = "filter (\<lambda>e. e_guard e = guard_for v) ?out"
  obtain e0 where "e0 \<in> set (edges_of s)" "e_from e0 = i"
    using out by (auto simp: out_edges_def filter_empty_conv)
  then have "guard_count (guard_for v) ?out = 1"
    using tree by (auto simp: decision_tree_def guard_for_def)
  then obtain e where e: "?match = [e]"
    by (auto simp: guard_count_def length_Suc_conv)
  then have "e \<in> set ?match" by simp
  then have mem: "e \<in> set (edges_of s)" "e_from e = i" "e_guard e = guard_for v"
    by (auto simp: out_edges_def)
  then have "e_to e \<in> set (child_ids s)" using tree by (auto simp: decision_tree_def)
  then obtain d where d: "child_by_id s (e_to e) = Some d" using child_ids_unit by blast
  have "branch_from s i v = Inr (Some d)"
    using out e d
    by (simp add: branch_from_def Let_def decision_tree_outgoing [OF tree] guard_for_def [symmetric])
  with mem child_by_id_in [OF d] show ?thesis by blast
qed

lemma decision_tree_leaf:
  "decision_tree s r \<Longrightarrow> out_edges (edges_of s) i = [] \<Longrightarrow> branch_from s i v = Inr None"
  by (simp add: branch_from_def Let_def decision_tree_outgoing)

lemma decision_tree_root:
  assumes tree: "decision_tree s r" and dist: "distinct (child_ids s)"
  shows "\<exists>c. decision_root s = Inr c \<and> c \<in> set (children_of s) \<and> unit_id c = r"
proof -
  let ?targets = "map e_to (filter (\<lambda>e. e_guard e \<noteq> guard_none) (edges_of s))"
  have all: "filter (\<lambda>e. e_guard e \<noteq> guard_none) (edges_of s) = edges_of s"
    using tree by (auto simp: decision_tree_def filter_id_conv)
  obtain c where c: "c \<in> set (children_of s)" "unit_id c = r"
    using tree by (auto simp: decision_tree_def child_ids_def)
  have only: "d = c" if d: "d \<in> set (children_of s)" "unit_id d \<notin> e_to ` set (edges_of s)" for d
  proof -
    have "(r, unit_id d) \<in> (edge_rel (edges_of s))\<^sup>*"
      using tree d(1) by (auto simp: decision_tree_def child_ids_def)
    moreover have "(y, unit_id d) \<notin> edge_rel (edges_of s)" for y
      using d(2) by (force simp: edge_rel_def edge_pair_def)
    ultimately have "unit_id d = r" by (metis rtranclE)
    then show ?thesis
      using dist c d(1) by (auto simp: child_ids_def distinct_map inj_on_def)
  qed
  have "distinct (children_of s)" using dist by (simp add: child_ids_def distinct_map)
  moreover have targets: "set ?targets = e_to ` set (edges_of s)" unfolding all by simp
  moreover have "unit_id c \<notin> e_to ` set (edges_of s)"
    using tree c by (auto simp: decision_tree_def)
  ultimately have "filter (\<lambda>d. unit_id d \<notin> set ?targets) (children_of s) = [c]"
    using c(1) only by (intro iffD2 [OF filter_singleton]) (simp_all only: targets, blast+)
  then show ?thesis using c by (simp add: decision_root_def Let_def)
qed

section \<open>The walk takes a path\<close>

definition ahead :: "exec_unit \<Rightarrow> string \<Rightarrow> string set" where
  "ahead s i = (edge_rel (edges_of s))\<^sup>* `` {i}"

lemma ahead_children:
  assumes "decision_tree s r" and "i \<in> set (child_ids s)"
  shows "ahead s i \<subseteq> set (child_ids s)"
proof
  fix j assume "j \<in> ahead s i"
  then have "(i, j) \<in> (edge_rel (edges_of s))\<^sup>*" by (simp add: ahead_def)
  then show "j \<in> set (child_ids s)"
    using assms by (cases rule: rtranclE) (auto simp: decision_tree_def edge_rel_def edge_pair_def)
qed

lemma ahead_shrinks:
  assumes "decision_tree s r" and "e \<in> set (edges_of s)"
  shows "ahead s (e_to e) \<subset> ahead s (e_from e)"
proof -
  have e: "(e_from e, e_to e) \<in> edge_rel (edges_of s)"
    using assms(2) by (force simp: edge_rel_def edge_pair_def)
  have "e_from e \<notin> ahead s (e_to e)"
    using decision_tree_acyclic [OF assms(1)] e
    by (auto simp: ahead_def acyclic_def dest: rtrancl_into_trancl2)
  moreover have "e_from e \<in> ahead s (e_from e)" by (simp add: ahead_def)
  moreover have "ahead s (e_to e) \<subseteq> ahead s (e_from e)"
    using e by (auto simp: ahead_def intro: converse_rtrancl_into_rtrancl)
  ultimately show ?thesis by blast
qed

text \<open>The children on a path: each at most once, all of them ahead of the first.\<close>

definition path_ok :: "exec_unit \<Rightarrow> exec_unit \<Rightarrow> exec_unit list \<Rightarrow> bool" where
  "path_ok s c path \<longleftrightarrow>
     path \<noteq> [] \<and> hd path = c \<and> distinct path \<and> set path \<subseteq> set (children_of s)
     \<and> unit_id ` set path \<subseteq> ahead s (unit_id c)"

lemma path_ok_single: "c \<in> set (children_of s) \<Longrightarrow> path_ok s c [c]"
  by (simp add: path_ok_def ahead_def)

lemma path_ok_Cons:
  assumes "decision_tree s r" and "e \<in> set (edges_of s)" and "e_from e = unit_id c"
    and "unit_id d = e_to e" and "c \<in> set (children_of s)" and "path_ok s d path"
  shows "path_ok s c (c # path)"
proof -
  have sub: "ahead s (unit_id d) \<subset> ahead s (unit_id c)"
    using ahead_shrinks [OF assms(1,2)] assms(3,4) by simp
  have "unit_id c \<notin> ahead s (unit_id d)"
  proof
    assume "unit_id c \<in> ahead s (unit_id d)"
    then have "ahead s (unit_id c) \<subseteq> ahead s (unit_id d)"
      by (auto simp: ahead_def)
    with sub show False by blast
  qed
  with assms(5,6) sub show ?thesis
    by (auto simp: path_ok_def ahead_def)
qed

lemma walk_decision_tree_walks:
  assumes tree: "decision_tree s r" and c: "c \<in> set (children_of s)"
    and k: "card (ahead s (unit_id c)) \<le> k"
  shows "\<exists>path. walks rec s ps fr c st m path (walk_decision_tree k rec s c st ps fr m)
           \<and> path_ok s c path"
  using c k
proof (induction k arbitrary: c st m)
  case 0
  have "unit_id c \<in> set (child_ids s)" using 0 by (simp add: child_ids_def)
  from ahead_children [OF tree this] have "finite (ahead s (unit_id c))"
    by (rule finite_subset) simp
  moreover have "unit_id c \<in> ahead s (unit_id c)" by (simp add: ahead_def)
  ultimately show ?case using 0 by auto
next
  case (Suc k)
  obtain oc st1 m1 where x: "rec c st ps fr m = (oc, st1, m1)" by (metis prod_cases3)
  have one: "path_ok s c [c]" by (rule path_ok_single [OF Suc.prems(1)])
  show ?case
  proof (cases oc)
    case (Ok v)
    show ?thesis
    proof (cases "out_edges (edges_of s) (unit_id c) = []")
      case True
      with x Ok have "walks rec s ps fr c st m [c] (Ok v, st1, m1)"
        by (intro walks_leaf) simp_all
      with x Ok one show ?thesis
        by (auto simp: decision_tree_leaf [OF tree True])
    next
      case False
      from decision_tree_branch [OF tree False, of v] obtain e d where
        b: "branch_from s (unit_id c) v = Inr (Some d)" and
        e: "e \<in> set (edges_of s)" "e_from e = unit_id c" "e_guard e = guard_for v"
          "d \<in> set (children_of s)" "unit_id d = e_to e" by blast
      have "finite (ahead s (unit_id c))"
        by (rule finite_subset [OF ahead_children [OF tree]])
          (use Suc.prems(1) in \<open>simp_all add: child_ids_def\<close>)
      moreover have "ahead s (unit_id d) \<subset> ahead s (unit_id c)"
        using ahead_shrinks [OF tree e(1)] e by simp
      ultimately have "card (ahead s (unit_id d)) \<le> k"
        using psubset_card_mono [of "ahead s (unit_id c)" "ahead s (unit_id d)"] Suc.prems(2) by linarith
      from Suc.IH [OF e(4) this, of st1 m1] obtain path where
        p: "walks rec s ps fr d st1 m1 path (walk_decision_tree k rec s d st1 ps fr m1)"
          "path_ok s d path" by blast
      have "walks rec s ps fr c st m (c # path) (walk_decision_tree k rec s d st1 ps fr m1)"
        using x Ok e p(1) by (intro walks_branch [of rec c st ps fr m v]) simp_all
      moreover have "path_ok s c (c # path)"
        by (rule path_ok_Cons [OF tree e(1,2,5) Suc.prems(1) p(2)])
      ultimately show ?thesis using x Ok b by auto
    qed
  qed (use x one in \<open>auto intro!: exI [of _ "[c]"] intro: walks_fail [simplified] walks_abort\<close>)
qed

lemma accepted_walks:
  assumes "distinct (child_ids s)" and "\<exists>e \<in> set (edges_of s). e_guard e \<noteq> guard_none"
    and "validate_edges s = []"
  shows "\<exists>c path. decision_root s = Inr c \<and> c \<in> set (children_of s)
           \<and> (\<forall>e \<in> set (edges_of s). e_to e \<noteq> unit_id c)
           \<and> walks rec s ps fr c st m path
               (walk_decision_tree (length (children_of s)) rec s c st ps fr m)
           \<and> path_ok s c path"
proof -
  obtain r where tree: "decision_tree s r"
    using accepted_is_tree [OF assms] by blast
  obtain c where c: "decision_root s = Inr c" "c \<in> set (children_of s)" "unit_id c = r"
    using decision_tree_root [OF tree assms(1)] by blast
  have "card (ahead s (unit_id c)) \<le> card (set (child_ids s))"
    using ahead_children [OF tree, of "unit_id c"] c(2)
    by (intro card_mono) (auto simp: child_ids_def)
  also have "\<dots> \<le> length (children_of s)"
    using card_length [of "child_ids s"] by (simp add: child_ids_def)
  finally show ?thesis
    using walk_decision_tree_walks [OF tree c(2)] c tree by (auto simp: decision_tree_def)
qed

text \<open>C16: a subgraph with guarded edges that the validation accepts is walked as a decision: from
  its one root the walk dispatches exactly the children of one path, each at most once, taking
  after each child the edge whose guard is that child's truthiness, until a child without a way
  out gives the result or a child fails; it never ends for a defect of the tree or for want of
  steps.\<close>

theorem accepted_choose_walks_one_path:
  assumes "distinct (child_ids s)" and "\<exists>e \<in> set (edges_of s). e_guard e \<noteq> guard_none"
    and "validate_edges s = []"
  shows "\<exists>c path. c \<in> set (children_of s) \<and> (\<forall>e \<in> set (edges_of s). e_to e \<noteq> unit_id c)
           \<and> walks rec s ps fr c st m path (walk_subgraph_children rec s st ps fr m)
           \<and> hd path = c \<and> distinct path \<and> set path \<subseteq> set (children_of s)"
proof -
  have "has_conditional_edges s" using assms(2) by (simp add: has_conditional_edges_def)
  moreover obtain c path where c: "decision_root s = Inr c" "c \<in> set (children_of s)"
    "\<forall>e \<in> set (edges_of s). e_to e \<noteq> unit_id c" and p: "path_ok s c path"
    "walks rec s ps fr c st m path (walk_decision_tree (length (children_of s)) rec s c st ps fr m)"
    using accepted_walks [OF assms, of rec ps fr st m] by blast
  ultimately have "walks rec s ps fr c st m path (walk_subgraph_children rec s st ps fr m)"
    by (simp add: walk_subgraph_children_def)
  with c(2,3) p(1) show ?thesis unfolding path_ok_def by blast
qed

definition constant_rec :: "gvalue \<Rightarrow> 'w dispatcher" where
  "constant_rec v u st ps fr m = (Ok v, st, m)"

lemma accepted_choose_walks_one_path_witness:
  "\<exists>c path. c \<in> set (children_of sample_choose)
     \<and> walks (constant_rec (VBool True)) sample_choose [] None c
         new_recovery_stack (new_engine new_control_plane ()) path
         (walk_subgraph_children (constant_rec (VBool True)) sample_choose new_recovery_stack [] None
            (new_engine new_control_plane ()))"
proof -
  have a: "distinct (child_ids sample_choose)" "validate_edges sample_choose = []"
    "\<exists>e \<in> set (edges_of sample_choose). e_guard e \<noteq> guard_none"
    by code_simp+
  show ?thesis
    using accepted_choose_walks_one_path [OF a(1,3,2), where rec = "constant_rec (VBool True)"
        and ps = "[]" and fr = None and st = new_recovery_stack
        and m = "new_engine new_control_plane ()"]
    by blast
qed

end
