(* ===== verification/Fuel.thy ===== *)
theory Fuel
  imports Walk Demo_World
begin

text \<open>
  The fuel of the model is enough: on a graph whose units are told apart by their ids, whose edges
  the validation accepts and which does not poll, a depth that reaches the height of a unit gives
  the outcome of its dispatch, and more fuel gives the same.
\<close>

section \<open>The units of a graph\<close>

fun all_units :: "exec_unit \<Rightarrow> exec_unit list" where
  "all_units (Node m oe ort) = [Node m oe ort]"
| "all_units (Subgraph m oe ort cs es) = Subgraph m oe ort cs es # concat (map all_units cs)"

fun height :: "exec_unit \<Rightarrow> nat" where
  "height (Node m oe ort) = 1"
| "height (Subgraph m oe ort cs es) = Suc (fold max (map height cs) 0)"

definition unit_handlers :: "exec_unit \<Rightarrow> exec_unit list" where
  "unit_handlers u = List.map_filter (\<lambda>h. h) [on_error u, on_retry u]"

definition graph_ids :: "exec_unit \<Rightarrow> string list" where
  "graph_ids root = map unit_id (all_units root)"

definition self_resolving :: "exec_unit \<Rightarrow> bool" where
  "self_resolving root \<longleftrightarrow>
     distinct (graph_ids root)
     \<and> (\<forall>u \<in> set (all_units root). \<forall>h \<in> set (unit_handlers u). unit_id h \<notin> set (graph_ids root))"

lemma all_units_self [simp]: "u \<in> set (all_units u)"
  by (cases u) auto

lemma all_units_childI: "c \<in> set cs \<Longrightarrow> \<exists>x \<in> set cs. c \<in> set (all_units x)"
  using all_units_self by blast

lemma fold_max_ge: "(a::nat) \<le> fold max xs a \<and> (\<forall>x \<in> set xs. x \<le> fold max xs a)"
proof (induction xs arbitrary: a)
  case (Cons y ys)
  have "max y a \<le> fold max ys (max y a)" and "\<forall>x \<in> set ys. x \<le> fold max ys (max y a)"
    using Cons.IH [of "max y a"] by blast+
  then show ?case by auto
qed simp

lemma height_child: "c \<in> set (children_of s) \<Longrightarrow> height c < height s"
proof (cases s)
  case (Subgraph m oe ort cs es)
  assume "c \<in> set (children_of s)"
  with Subgraph have "height c \<in> set (map height cs)" by simp
  then show ?thesis using fold_max_ge [where xs = "map height cs" and a = 0] Subgraph by auto
qed simp

lemma height_pos: "0 < height u"
  by (cases u) auto

lemma all_units_trans: "u \<in> set (all_units s) \<Longrightarrow> v \<in> set (all_units u) \<Longrightarrow> v \<in> set (all_units s)"
  by (induction s rule: all_units.induct) auto

lemma all_units_child:
  "s \<in> set (all_units root) \<Longrightarrow> c \<in> set (children_of s) \<Longrightarrow> c \<in> set (all_units root)"
proof -
  assume "s \<in> set (all_units root)" and "c \<in> set (children_of s)"
  moreover from this(2) have "c \<in> set (all_units s)" by (cases s) (auto intro: all_units_childI)
  ultimately show ?thesis using all_units_trans by blast
qed

section \<open>Lookup by id\<close>
lemma descendant_subgraph_sound:
  "descendant_subgraph_by_id i s = Some u \<Longrightarrow> u \<in> set (all_units s) \<and> unit_id u = i"
proof (induction i s rule: descendant_subgraph_by_id.induct)
  case (2 i m oe ort cs es)
  then obtain c where c: "c \<in> set cs" "is_subgraph c"
    "(if unit_id c = i then Some c else descendant_subgraph_by_id i c) = Some u"
    by (auto dest!: first_some_in split: if_splits)
  then show ?case
    using "2.IH" [of c] by (cases "unit_id c = i") (auto intro: all_units_childI)
qed simp

lemma subgraph_above: "u \<in> set (all_units c) \<Longrightarrow> is_subgraph u \<Longrightarrow> is_subgraph c"
  by (cases c) auto

lemma descendant_subgraph_complete:
  "u \<in> set (all_units s) \<Longrightarrow> is_subgraph u \<Longrightarrow> u \<noteq> s \<Longrightarrow> unit_id u = i
   \<Longrightarrow> descendant_subgraph_by_id i s \<noteq> None"
proof (induction i s rule: descendant_subgraph_by_id.induct)
  case (2 i m oe ort cs es)
  then obtain c where c: "c \<in> set cs" "u \<in> set (all_units c)" by auto
  have sub: "is_subgraph c" by (rule subgraph_above [OF c(2) "2.prems"(2)])
  have "(if unit_id c = i then Some c else descendant_subgraph_by_id i c) \<noteq> None"
    using "2.IH" [OF c(1)] c sub "2.prems" by auto
  moreover define f where "f = (\<lambda>c. if \<not> is_subgraph c then None
      else if unit_id c = i then Some c else descendant_subgraph_by_id i c)"
  ultimately have "f c \<noteq> None" using sub by simp
  moreover have "f c \<in> set (map f cs)" unfolding set_map using c(1) by (rule imageI)
  ultimately have "first_some (map f cs) \<noteq> None" by (metis first_some_None)
  moreover have "descendant_subgraph_by_id i (Subgraph m oe ort cs es) = first_some (map f cs)"
    by (simp only: descendant_subgraph_by_id.simps f_def)
  ultimately show ?case by (simp only: not_False_eq_True)
qed auto

lemma descendant_nodes_sound: "n \<in> set (descendant_nodes s) \<Longrightarrow> n \<in> set (all_units s)"
proof (induction s rule: descendant_nodes.induct)
  case (2 m oe ort cs es)
  then obtain c where "c \<in> set cs" "if is_subgraph c then n \<in> set (descendant_nodes c) else n = c"
    by (auto split: if_splits)
  with "2.IH" [of c] show ?case by (auto intro: all_units_childI split: if_splits)
qed simp

lemma descendant_nodes_complete:
  "u \<in> set (all_units s) \<Longrightarrow> \<not> is_subgraph u \<Longrightarrow> is_subgraph s \<Longrightarrow> u \<in> set (descendant_nodes s)"
proof (induction s rule: descendant_nodes.induct)
  case (2 m oe ort cs es)
  then obtain c where c: "c \<in> set cs" "u \<in> set (all_units c)" by auto
  show ?case
  proof (cases c)
    case (Node m' oe' ort')
    with c show ?thesis by force
  next
    case (Subgraph m' oe' ort' cs' es')
    then have sub: "is_subgraph c" by simp
    then have "u \<in> set (descendant_nodes c)" using "2.IH" [OF c(1)] c "2.prems" by simp
    then show ?thesis using c(1) sub by (auto intro!: bexI [of _ c])
  qed
qed simp

lemma find_in: "find P xs = Some x \<Longrightarrow> x \<in> set xs \<and> P x"
  by (induction xs) (auto split: if_splits)

lemma resolve_sound: "resolve_executable root i = Some u \<Longrightarrow> u \<in> set (all_units root) \<and> unit_id u = i"
  by (auto simp: resolve_executable_def dest: descendant_subgraph_sound find_in
      intro: descendant_nodes_sound split: if_splits option.splits)

lemma resolve_own:
  assumes "distinct (graph_ids root)" and u: "u \<in> set (all_units root)"
  shows "resolve_executable root (unit_id u) = Some u"
proof -
  have some: "resolve_executable root (unit_id u) \<noteq> None"
  proof (cases "u = root")
    case False
    show ?thesis
    proof (cases "is_subgraph u")
      case True
      with descendant_subgraph_complete [OF u True False refl] show ?thesis
        by (auto simp: resolve_executable_def)
    next
      case nu: False
      have "is_subgraph root" using u False by (cases root) auto
      then have "u \<in> set (descendant_nodes root)" using descendant_nodes_complete u nu by blast
      then have "find (\<lambda>n. unit_id n = unit_id u) (descendant_nodes root) \<noteq> None"
        unfolding find_None_iff by blast
      then show ?thesis by (simp add: resolve_executable_def split: option.splits)
    qed
  qed (simp add: resolve_executable_def)
  then obtain v where v: "resolve_executable root (unit_id u) = Some v" by blast
  from resolve_sound [OF v] have "v \<in> set (all_units root)" "unit_id v = unit_id u" by simp_all
  with assms have "v = u" by (auto simp: graph_ids_def distinct_map inj_on_def)
  with v show ?thesis by simp
qed

lemma resolve_handler:
  "self_resolving root \<Longrightarrow> u \<in> set (all_units root) \<Longrightarrow> h \<in> set (unit_handlers u)
   \<Longrightarrow> resolve_executable root (unit_id h) = None"
proof (rule ccontr)
  assume a: "self_resolving root" "u \<in> set (all_units root)" "h \<in> set (unit_handlers u)"
    "resolve_executable root (unit_id h) \<noteq> None"
  then obtain v where "resolve_executable root (unit_id h) = Some v" by blast
  from resolve_sound [OF this] have "unit_id h \<in> set (graph_ids root)"
    by (metis graph_ids_def image_eqI list.set_map)
  with a(1-3) show False unfolding self_resolving_def by blast
qed


section \<open>Agreement of two dispatchers\<close>

text \<open>Two dispatchers agree on some units: the first never runs out, the second does the same.\<close>

definition agree :: "exec_unit set \<Rightarrow> 'w dispatcher \<Rightarrow> 'w dispatcher \<Rightarrow> bool" where
  "agree C rec rec' \<longleftrightarrow>
     (\<forall>c \<in> C. \<forall>st ps fr m. rec' c st ps fr m = rec c st ps fr m \<and> fst (rec c st ps fr m) \<noteq> OutOfFuel)"

lemma agreeD:
  "agree C rec rec' \<Longrightarrow> c \<in> C \<Longrightarrow> rec' c st ps fr m = rec c st ps fr m"
  "agree C rec rec' \<Longrightarrow> c \<in> C \<Longrightarrow> rec c st ps fr m \<noteq> (OutOfFuel, r)"
  by (auto simp: agree_def) (metis fst_conv)

lemma agree_mono: "agree C rec rec' \<Longrightarrow> D \<subseteq> C \<Longrightarrow> agree D rec rec'"
  by (auto simp: agree_def)

text \<open>The walks of a subgraph's children, for one the validation accepts.\<close>

definition edges_ok :: "exec_unit \<Rightarrow> bool" where
  "edges_ok s \<longleftrightarrow> distinct (child_ids s) \<and> validate_edges s = []"

lemma agree_walk_list:
  "agree C rec rec' \<Longrightarrow> set cs \<subseteq> C \<Longrightarrow>
     walk_list rec' cs v st ps fr m = walk_list rec cs v st ps fr m
     \<and> fst (walk_list rec cs v st ps fr m) \<noteq> OutOfFuel"
proof (induction rec cs v st ps fr m rule: walk_list.induct)
  case (2 rec c cs v st ps fr m)
  then have c: "rec' c st ps fr m = rec c st ps fr m" "rec c st ps fr m \<noteq> (OutOfFuel, r)" for r
    using agreeD [of C rec rec' c] by auto
  obtain oc st1 m1 where x: "rec c st ps fr m = (oc, st1, m1)" by (metis prod_cases3)
  show ?case
  proof (cases oc)
    case (Ok v')
    with 2 x c show ?thesis by simp
  qed (use x c in auto)
qed simp

lemma agree_walk_tree:
  "agree (set (children_of s)) rec rec' \<Longrightarrow> c \<in> set (children_of s) \<Longrightarrow>
     walk_decision_tree k rec' s c st ps fr m = walk_decision_tree k rec s c st ps fr m"
proof (induction k rec s c st ps fr m rule: walk_decision_tree.induct)
  case (2 k rec s c st ps fr m)
  have c: "rec' c st ps fr m = rec c st ps fr m"
    using agreeD(1) [OF "2.prems"] .
  obtain oc st1 m1 where x: "rec c st ps fr m = (oc, st1, m1)" by (metis prod_cases3)
  show ?case
  proof (cases oc)
    case (Ok v)
    show ?thesis
    proof (cases "branch_from s (unit_id c) v")
      case (Inr d)
      show ?thesis
      proof (cases d)
        case (Some d')
        then have "d' \<in> set (children_of s)"
          using Inr by (auto simp: branch_from_def Let_def split: if_splits option.splits
              dest: child_by_id_in)
        then show ?thesis using "2.IH" [OF x [symmetric]] 2 x c Ok Inr Some by simp
      qed (use x c Ok Inr in simp)
    qed (use x c Ok in simp)
  qed (use x c in simp_all)
qed simp

lemma walks_no_fuel:
  "walks rec s ps fr c st m path r \<Longrightarrow> agree (set (children_of s)) rec rec' \<Longrightarrow>
     c \<in> set (children_of s) \<Longrightarrow> fst r \<noteq> OutOfFuel"
  by (induction rule: walks.induct) (auto dest: agreeD(2))

lemma agree_walk:
  assumes "agree (set (children_of s)) rec rec'" and "edges_ok s"
  shows "walk_subgraph_children rec' s st ps fr m = walk_subgraph_children rec s st ps fr m
    \<and> fst (walk_subgraph_children rec s st ps fr m) \<noteq> OutOfFuel"
proof (cases "has_conditional_edges s")
  case True
  then have g: "\<exists>e \<in> set (edges_of s). e_guard e \<noteq> guard_none"
    by (simp add: has_conditional_edges_def)
  from assms(2) obtain c path where c: "decision_root s = Inr c" "c \<in> set (children_of s)" and
    w: "walks rec s ps fr c st m path (walk_decision_tree (length (children_of s)) rec s c st ps fr m)"
    using accepted_walks [OF _ g] unfolding edges_ok_def by blast
  from walks_no_fuel [OF w assms(1) c(2)]
  show ?thesis
    using True c agree_walk_tree [OF assms(1) c(2)] by (simp add: walk_subgraph_children_def)
next
  case False
  then show ?thesis
    using agree_walk_list [OF assms(1) order_refl] by (simp add: walk_subgraph_children_def)
qed

section \<open>Actions\<close>

definition ready :: "exec_unit \<Rightarrow> 'w dispatcher \<Rightarrow> 'w dispatcher \<Rightarrow> string \<Rightarrow> bool" where
  "ready root rec rec' i \<longleftrightarrow>
     (\<forall>s. resolve_executable root i = Some s \<longrightarrow> edges_ok s \<and> agree (set (children_of s)) rec rec')"

lemma resolve_caller_ok:
  "resolve_caller root who i = Inr s \<Longrightarrow> resolve_executable root i = Some s"
  by (auto simp: resolve_caller_def split: option.splits if_splits)

lemma readyD:
  "ready root rec rec' i \<Longrightarrow> resolve_caller root who i = Inr s \<Longrightarrow>
     edges_ok s \<and> agree (set (children_of s)) rec rec'"
  by (auto simp: ready_def dest: resolve_caller_ok)

lemma agree_run_iterations:
  assumes a: "agree (set (children_of s)) rec rec'" "edges_ok s"
  shows "run_iterations rec' s items fr st ps rs m = run_iterations rec s items fr st ps rs m
    \<and> (\<forall>(r, oc) \<in> set (fst (run_iterations rec s items fr st ps rs m)). oc \<noteq> OutOfFuel)"
proof (induction rs arbitrary: m)
  case (Cons r rs)
  let ?w = "\<lambda>rec. walk_subgraph_children rec s (gr_stack r) (st # ps)
      (build_iteration_frame fr (items ! gr_index r)) m"
  obtain oc child m' where w: "?w rec = (oc, child, m')" by (metis prod_cases3)
  with agree_walk [OF a, of "gr_stack r" "st # ps" "build_iteration_frame fr (items ! gr_index r)" m]
  have "?w rec' = (oc, child, m')" "oc \<noteq> OutOfFuel" by simp_all
  with w Cons.IH [of m'] show ?case
    by (auto simp: Let_def split: outcome.splits prod.splits)
qed simp

lemma first_failure_no_fuel:
  "\<forall>(r, oc) \<in> set rs. oc \<noteq> OutOfFuel \<Longrightarrow> first_failure rs \<noteq> Aborted OutOfFuel"
  by (induction rs rule: first_failure.induct) (auto split: run_failure.splits)

lemma agree_combinator:
  "y = x \<and> fst x \<noteq> OutOfFuel \<Longrightarrow>
     combinator_result who y = combinator_result who x \<and> fst (combinator_result who x) \<noteq> OutOfFuel"
  by (cases x; cases "fst x") (auto simp: combinator_result_def)

lemma agree_choose:
  "ready root rec rec' i \<Longrightarrow> flow_choose root rec' i cs ps fr m = flow_choose root rec i cs ps fr m
     \<and> fst (flow_choose root rec i cs ps fr m) \<noteq> OutOfFuel"
proof (cases "resolve_caller root ''flow.Choose'' i")
  case (Inr s)
  assume "ready root rec rec' i"
  with readyD [OF this Inr] show ?thesis
    unfolding flow_choose_def Inr sum.case by (intro agree_combinator agree_walk) simp_all
qed (simp add: flow_choose_def)

lemma agree_subgraph:
  assumes r: "ready root rec rec' i"
  shows "flow_subgraph W root rec' i ss cs ps fr m = flow_subgraph W root rec i ss cs ps fr m
     \<and> fst (flow_subgraph W root rec i ss cs ps fr m) \<noteq> OutOfFuel"
proof (cases "resolve_caller root ''flow.Subgraph'' i")
  case (Inr s)
  show ?thesis
  proof (cases "parameter_names s")
    case (Some params)
    show ?thesis
    proof (cases "type_conflict W s")
      case None
      show ?thesis
        unfolding flow_subgraph_def Inr sum.case Some option.case None
        by (intro agree_combinator agree_walk) (use readyD [OF r Inr] in simp_all)
    qed (simp add: flow_subgraph_def Inr Some)
  qed (simp add: flow_subgraph_def Inr)
qed (simp add: flow_subgraph_def)

lemma agree_gather:
  assumes r: "ready root rec rec' i"
  shows "flow_gather root rec' i ss cs ps fr m = flow_gather root rec i ss cs ps fr m
     \<and> fst (flow_gather root rec i ss cs ps fr m) \<noteq> OutOfFuel"
proof (cases "resolve_caller root ''flow.Gather'' i")
  case (Inr s)
  define items where "items = (case slot_value ''items'' ss of VSlice (Some vs) \<Rightarrow> vs | _ \<Rightarrow> [])"
  obtain vs pending where c: "classify_gather_runs cs s 0 (length items) = (vs, pending)"
    by fastforce
  from agree_run_iterations [of s rec rec' items fr cs ps pending m] readyD [OF r Inr]
  have eq: "run_iterations rec' s items fr cs ps pending m = run_iterations rec s items fr cs ps pending m"
    and nf: "first_failure (fst (run_iterations rec s items fr cs ps pending m)) \<noteq> Aborted OutOfFuel"
    using first_failure_no_fuel by blast+
  obtain finished m' where x: "run_iterations rec s items fr cs ps pending m = (finished, m')" by fastforce
  show ?thesis
  proof (cases pending)
    case Nil
    show ?thesis
      unfolding flow_gather_def items_def [symmetric] Let_def Inr sum.case c prod.case Nil by simp
  next
    case (Cons p more)
    show ?thesis
      unfolding flow_gather_def items_def [symmetric] Let_def Inr sum.case c prod.case Cons list.case
        eq [unfolded Cons] x [unfolded Cons]
      using nf [unfolded x] by (auto split: prod.splits run_failure.splits)
  qed
qed (auto simp: flow_gather_def Let_def)

lemma agree_flow_method:
  assumes r: "ready root rec rec' i"
    and wait: "n \<noteq> ''flow.wait_until'' \<or> resolve_executable root i = None"
  shows "flow_method k' W root rec' n i ss cs ps fr m = flow_method k W root rec n i ss cs ps fr m
     \<and> fst (flow_method k W root rec n i ss cs ps fr m) \<noteq> OutOfFuel"
proof -
  have "flow_wait_until k' W root rec' i ss cs ps fr m = flow_wait_until k W root rec i ss cs ps fr m
     \<and> fst (flow_wait_until k W root rec i ss cs ps fr m) \<noteq> OutOfFuel"
    if "n = ''flow.wait_until''"
    using that wait by (simp add: flow_wait_until_def resolve_caller_def)
  then show ?thesis
    using agree_choose [OF r] agree_subgraph [OF r] agree_gather [OF r]
    unfolding flow_method_def
    by (auto simp: flow_complete_def flow_degraded_def flow_failed_def split: prod.splits option.splits)
qed

lemma agree_do_action:
  assumes r: "ready root rec rec' i"
    and wait: "act_name a \<noteq> ''flow.wait_until'' \<or> resolve_executable root i = None"
  shows "do_action k' W root rec' a i ss cs ps fr m = do_action k W root rec a i ss cs ps fr m
     \<and> fst (do_action k W root rec a i ss cs ps fr m) \<noteq> OutOfFuel"
  using agree_flow_method [OF r wait, of k' W _ cs ps fr _ k] unfolding do_action_def
  by (auto split: sum.splits prod.splits leaf_result.splits option.splits)

section \<open>Units and attempts\<close>

text \<open>A unit is set to run: its children are ready and it does not poll.\<close>

definition set_to_run :: "'w world_ops \<Rightarrow> exec_unit \<Rightarrow> 'w dispatcher \<Rightarrow> 'w dispatcher \<Rightarrow> exec_unit \<Rightarrow> bool" where
  "set_to_run W root rec rec' u \<longleftrightarrow>
     ready root rec rec' (unit_id u)
     \<and> (\<forall>a. bound_action W u = Inr (Some a) \<longrightarrow>
          act_name a \<noteq> ''flow.wait_until'' \<or> resolve_executable root (unit_id u) = None)"

lemma framework_no_fuel: "framework_failure root i e m \<noteq> (OutOfFuel, m')"
  by (auto simp: framework_failure_def split: prod.splits option.splits)

lemma exits_no_fuel [simp]:
  "fst (unbound_exit W root u kd re st m) \<noteq> OutOfFuel"
  "fst (canceled_exit W root u kd e st m) \<noteq> OutOfFuel"
  "fst (failed_exit W root u l ss cv e st m) \<noteq> OutOfFuel"
  "fst (success_exit W root u ss cv v st m) \<noteq> OutOfFuel"
  by (auto simp: unbound_exit_def canceled_exit_def failed_exit_def success_exit_def Let_def
      framework_no_fuel split: prod.splits option.splits)

lemma agree_node_dispatch:
  assumes "set_to_run W root rec rec' u"
  shows "node_dispatch k' W root rec' u st ps fr m = node_dispatch k W root rec u st ps fr m
    \<and> fst (node_dispatch k W root rec u st ps fr m) \<noteq> OutOfFuel"
proof (cases "bound_action W u")
  case (Inr oa)
  show ?thesis
  proof (cases oa)
    case (Some a)
    have d: "do_action k' W root rec' a (unit_id u) ss st ps fr m1
          = do_action k W root rec a (unit_id u) ss st ps fr m1"
      "fst (do_action k W root rec a (unit_id u) ss st ps fr m1) \<noteq> OutOfFuel" for ss m1
      using agree_do_action [of root rec rec' "unit_id u" a] assms Inr Some
      by (simp_all add: set_to_run_def)
    show ?thesis
      unfolding node_dispatch_def Inr Some sum.case option.case Let_def d(1)
      using d(2) [of "resolve_slots fr (st # ps) u" "emit_event EventPhaseChanged (unit_id u) None m"]
      by (auto split: prod.splits outcome.splits)
  qed (simp add: node_dispatch_def Inr)
qed (simp add: node_dispatch_def)

lemma agree_subgraph_dispatch:
  assumes "set_to_run W root rec rec' u"
  shows "subgraph_dispatch k' W root rec' u ch st ps fr m = subgraph_dispatch k W root rec u ch st ps fr m
    \<and> fst (subgraph_dispatch k W root rec u ch st ps fr m) \<noteq> OutOfFuel"
proof (cases "bound_action W u")
  case (Inr oa)
  show ?thesis
  proof (cases oa)
    case (Some a)
    have d: "do_action k' W root rec' a (unit_id u) ss ch (st # ps) fr m1
          = do_action k W root rec a (unit_id u) ss ch (st # ps) fr m1"
      "fst (do_action k W root rec a (unit_id u) ss ch (st # ps) fr m1) \<noteq> OutOfFuel" for ss m1
      using agree_do_action [of root rec rec' "unit_id u" a] assms Inr Some
      by (simp_all add: set_to_run_def)
    obtain e m1 where v: "verify_scope_claims W (children_of u) m = (e, m1)" by fastforce
    show ?thesis
      unfolding subgraph_dispatch_def Inr Some sum.case option.case Let_def v prod.case d(1)
      using d(2) [of "resolve_slots fr (st # ps) u" "child_engine m1"]
      by (auto split: option.splits prod.splits outcome.splits)
  qed (simp add: subgraph_dispatch_def Inr)
qed (simp add: subgraph_dispatch_def)

lemma agree_unit_execute:
  assumes "set_to_run W root rec rec' u"
  shows "unit_execute k' W root rec' u st ps fr m = unit_execute k W root rec u st ps fr m
    \<and> fst (unit_execute k W root rec u st ps fr m) \<noteq> OutOfFuel"
  using agree_node_dispatch [OF assms, of k' st ps fr _ k]
    agree_subgraph_dispatch [OF assms, of k' _ _ ps fr _ k]
  unfolding unit_execute_def node_execute_def subgraph_execute_def
  by (auto split: option.splits prod.splits adoption.splits)

lemma agree_handler:
  assumes "set_to_run W root rec rec' h"
  shows "dispatch_handler k' W root rec' h fr m = dispatch_handler k W root rec h fr m
    \<and> fst (dispatch_handler k W root rec h fr m) \<noteq> OutOfFuel"
  using agree_unit_execute [OF assms, of k' new_recovery_stack "[]" fr m k]
  unfolding dispatch_handler_def by (auto simp: Let_def split: prod.splits outcome.splits)

lemma unit_handlers_mem:
  "on_error u = Some h \<Longrightarrow> h \<in> set (unit_handlers u)"
  "on_retry u = Some h \<Longrightarrow> h \<in> set (unit_handlers u)"
  by (auto simp: unit_handlers_def map_filter_simps split: option.splits)

definition all_set_to_run ::
  "'w world_ops \<Rightarrow> exec_unit \<Rightarrow> 'w dispatcher \<Rightarrow> 'w dispatcher \<Rightarrow> exec_unit \<Rightarrow> bool" where
  "all_set_to_run W root rec rec' u \<longleftrightarrow>
     set_to_run W root rec rec' u \<and> (\<forall>h \<in> set (unit_handlers u). set_to_run W root rec rec' h)"

lemma agree_resolve_failure:
  assumes "all_set_to_run W root rec rec' u"
  shows "resolve_failure k' W root rec' u fr b c m = resolve_failure k W root rec u fr b c m
    \<and> fst (resolve_failure k W root rec u fr b c m) \<noteq> OutOfFuel"
proof (cases "on_error u")
  case (Some h)
  then have "set_to_run W root rec rec' h"
    using assms unit_handlers_mem(1) by (auto simp: all_set_to_run_def)
  from agree_handler [OF this, of k' fr m k] Some show ?thesis
    unfolding resolve_failure_def by (auto split: prod.splits outcome.splits)
qed (simp add: resolve_failure_def)

lemma agree_gate_retry:
  assumes "all_set_to_run W root rec rec' u"
  shows "gate_retry k' W root rec' u fr e m = gate_retry k W root rec u fr e m
    \<and> fst (gate_retry k W root rec u fr e m) \<noteq> Some OutOfFuel"
proof (cases "on_retry u")
  case (Some h)
  then have "set_to_run W root rec rec' h"
    using assms unit_handlers_mem(2) by (auto simp: all_set_to_run_def)
  from agree_handler [OF this, of k' fr m k] Some
    agree_resolve_failure [OF assms, of k' fr ReasonRetryVetoed "Some e" _ k]
  show ?thesis
    unfolding gate_retry_def by (auto split: prod.splits outcome.splits) (metis fst_conv)+
qed (simp add: gate_retry_def)

lemma delay_no_fuel: "wait_retry_delay W p a m \<noteq> (Some OutOfFuel, m')"
  by (auto simp: wait_retry_delay_def split: option.splits prod.splits if_splits)

lemma pending_no_fuel: "apply_pending_reaction v m \<noteq> OutOfFuel"
  by (auto simp: apply_pending_reaction_def split: reaction.splits)

lemma agree_attempt_loop:
  assumes "all_set_to_run W root rec rec' u"
  shows "attempt_loop k' W root rec' p u ps fr n a e st m = attempt_loop k W root rec p u ps fr n a e st m
    \<and> fst (attempt_loop k W root rec p u ps fr n a e st m) \<noteq> OutOfFuel"
proof (induction n arbitrary: a e st m)
  case 0
  from agree_resolve_failure [OF assms, of k' fr ReasonActionFailed e m k] show ?case
    by (auto split: prod.splits)
next
  case (Suc n)
  obtain d m1 where d: "wait_retry_delay W p (int a) m = (d, m1)" by fastforce
  show ?case
  proof (cases d)
    case None
    obtain oc st2 m2 where x: "unit_execute k W root rec u st ps fr m1 = (oc, st2, m2)"
      by (metis prod_cases3)
    have s: "set_to_run W root rec rec' u" using assms by (simp add: all_set_to_run_def)
    from agree_unit_execute [OF s, of k' st ps fr m1 k] x
    have x': "unit_execute k' W root rec' u st ps fr m1 = (oc, st2, m2)" and nf: "oc \<noteq> OutOfFuel"
      by simp_all
    show ?thesis
    proof (cases oc)
      case (Fail err)
      obtain g m3 where g: "gate_retry k W root rec u fr err m2 = (g, m3)" by fastforce
      from agree_gate_retry [OF assms, of k' fr err m2 k] g
      have g': "gate_retry k' W root rec' u fr err m2 = (g, m3)" "g \<noteq> Some OutOfFuel" by simp_all
      show ?thesis
        using Suc.IH d None x x' Fail g g'
        by (cases "0 < n") (auto simp del: attempt_loop.simps(1) split: option.split)
    qed (use d None x x' nf pending_no_fuel in simp_all)
  next
    case (Some oc)
    with d delay_no_fuel show ?thesis by force
  qed
qed

section \<open>Enough fuel\<close>

text \<open>
  A graph that dispatches to an end: told apart by ids, accepted by the edge validation, and
  without a unit that polls.
\<close>

definition runs_out :: "'w world_ops \<Rightarrow> exec_unit \<Rightarrow> bool" where
  "runs_out W root \<longleftrightarrow>
     self_resolving root \<and> check_edges root = []
     \<and> (\<forall>u \<in> set (all_units root). \<forall>a. bound_action W u = Inr (Some a) \<longrightarrow> act_name a \<noteq> ''flow.wait_until'')"

lemma descendant_subgraphs_complete:
  "u \<in> set (all_units s) \<Longrightarrow> is_subgraph u \<Longrightarrow> u = s \<or> u \<in> set (descendant_subgraphs s)"
proof (induction s rule: descendant_subgraphs.induct)
  case (2 m oe ort cs es)
  show ?case
  proof (cases "u = Subgraph m oe ort cs es")
    case False
    with 2 obtain c where c: "c \<in> set cs" "u \<in> set (all_units c)" by auto
    have "is_subgraph c" by (rule subgraph_above [OF c(2) "2.prems"(2)])
    with "2.IH" [OF c(1)] c "2.prems"(2) show ?thesis by (auto intro!: bexI [of _ c])
  qed simp
qed simp

lemma validate_edges_node: "\<not> is_subgraph u \<Longrightarrow> validate_edges u = []"
  by (cases u) (auto simp: validate_edges_def validate_edge_cycles_def validate_guarded_edges_def Let_def)

lemma distinct_concat_map: "distinct (concat (map f xs)) \<Longrightarrow> x \<in> set xs \<Longrightarrow> distinct (f x)"
  by (induction xs) auto

lemma distinct_children:
  "distinct (graph_ids s) \<Longrightarrow> u \<in> set (all_units s) \<Longrightarrow> distinct (child_ids u)"
proof (induction s rule: all_units.induct)
  case (2 m oe ort cs es)
  show ?case
  proof (cases "u = Subgraph m oe ort cs es")
    case True
    have "distinct (concat (map (\<lambda>c. map unit_id (all_units c)) cs))"
      using "2.prems"(1) by (simp add: graph_ids_def map_concat comp_def)
    then have "distinct (map unit_id cs)"
    proof (induction cs)
      case (Cons c cs)
      have "unit_id c \<noteq> unit_id d" if "d \<in> set cs" for d
      proof -
        have "unit_id c \<in> set (map unit_id (all_units c))" by simp
        moreover have "unit_id d \<in> set (concat (map (\<lambda>c. map unit_id (all_units c)) cs))"
          using that by (auto intro!: bexI [of _ d] imageI [of d])
        moreover have "set (map unit_id (all_units c))
            \<inter> set (concat (map (\<lambda>c. map unit_id (all_units c)) cs)) = {}"
          using Cons.prems by (simp only: list.map concat.simps distinct_append)
        ultimately show ?thesis by (metis IntI empty_iff)
      qed
      with Cons show ?case by auto
    qed simp
    with True show ?thesis by (simp add: child_ids_def)
  next
    case False
    with 2 obtain c where c: "c \<in> set cs" "u \<in> set (all_units c)" by auto
    have "distinct (concat (map (\<lambda>c. map unit_id (all_units c)) cs))"
      using "2.prems"(1) by (simp add: graph_ids_def map_concat comp_def)
    from distinct_concat_map [OF this c(1)] have "distinct (graph_ids c)"
      by (simp add: graph_ids_def)
    with "2.IH" [OF c(1)] c show ?thesis by blast
  qed
qed (simp add: child_ids_def)

lemma runs_out_edges_ok:
  assumes "runs_out W root" and "u \<in> set (all_units root)"
  shows "edges_ok u"
proof -
  have "distinct (child_ids u)"
    using distinct_children assms by (auto simp: runs_out_def self_resolving_def)
  moreover have "validate_edges u = []"
  proof (cases "is_subgraph u")
    case True
    with descendant_subgraphs_complete [OF assms(2)] assms(1) show ?thesis
      by (auto simp: runs_out_def check_edges_def)
  qed (rule validate_edges_node)
  ultimately show ?thesis by (simp add: edges_ok_def)
qed

lemma agree_dispatch:
  assumes r: "runs_out W root"
  shows "u \<in> set (all_units root) \<Longrightarrow> height u \<le> n \<Longrightarrow>
     agree {u} (dispatch n k W root) (dispatch (n + j) k' W root)"
proof (induction n arbitrary: u)
  case 0
  then show ?case using height_pos [of u] by simp
next
  case (Suc n)
  let ?rec = "dispatch n k W root" and ?rec' = "dispatch (n + j) k' W root"
  have own: "resolve_executable root (unit_id u) = Some u"
    using resolve_own Suc.prems(1) r by (simp add: runs_out_def self_resolving_def)
  have "agree (set (children_of u)) ?rec ?rec'"
    unfolding agree_def
  proof (intro ballI)
    fix c assume c: "c \<in> set (children_of u)"
    have "agree {c} ?rec ?rec'"
      using Suc.IH [of c] all_units_child [OF Suc.prems(1) c] height_child [OF c] Suc.prems(2) by simp
    then show "\<forall>st ps fr m. ?rec' c st ps fr m = ?rec c st ps fr m \<and> fst (?rec c st ps fr m) \<noteq> OutOfFuel"
      by (simp add: agree_def)
  qed
  then have "set_to_run W root ?rec ?rec' u"
    using own runs_out_edges_ok [OF r Suc.prems(1)] r Suc.prems(1)
    by (auto simp: set_to_run_def ready_def runs_out_def)
  moreover have "set_to_run W root ?rec ?rec' h" if "h \<in> set (unit_handlers u)" for h
    using resolve_handler [OF _ Suc.prems(1) that] r
    by (simp add: set_to_run_def ready_def runs_out_def)
  ultimately have "all_set_to_run W root ?rec ?rec' u" by (simp add: all_set_to_run_def)
  from agree_attempt_loop [OF this] show ?case
    by (simp add: agree_def dispatch_with_policy_def Let_def)
qed

text \<open>C13: on a graph whose units and handlers are told apart by their ids, whose edges the
  validation accepts and whose units do not poll, the dispatch of a unit always comes to an end:
  a depth that reaches the unit's height never runs out, and any greater depth, and any bound on
  polls, give the same outcome, stack and executor.\<close>

theorem dispatch_terminates:
  assumes "runs_out W root" and "u \<in> set (all_units root)" and "height u \<le> n"
  shows "fst (dispatch n k W root u st ps fr m) \<noteq> OutOfFuel
    \<and> dispatch (n + j) k' W root u st ps fr m = dispatch n k W root u st ps fr m"
  using agree_dispatch [OF assms] by (simp add: agree_def)

lemma dispatch_terminates_witness:
  "let r = demo_subgraph ''r'' [demo_node ''a'' ''demo.ok''];
       d = (\<lambda>n k. dispatch n k demo_world r r new_recovery_stack [] None demo_start)
   in fst (d 2 0) \<noteq> OutOfFuel \<and> d 9 4 = d 2 0"
proof -
  let ?r = "demo_subgraph ''r'' [demo_node ''a'' ''demo.ok'']"
  have "self_resolving ?r" "check_edges ?r = []" "height ?r = 2"
    by code_simp+
  moreover have "all_units ?r = [?r, demo_node ''a'' ''demo.ok'']"
    by (simp add: demo_subgraph_def demo_node_def)
  ultimately have "runs_out demo_world ?r"
    by (auto simp: runs_out_def bound_action_def demo_subgraph_def demo_node_def demo_meta_def)
  from dispatch_terminates [OF this all_units_self, of 2 0 new_recovery_stack "[]" None demo_start 7 4]
    \<open>height ?r = 2\<close>
  show ?thesis by (simp add: Let_def del: dispatch.simps)
qed

end
