(* ===== verification/Ledger.thy ===== *)
theory Ledger
  imports Fuel "HOL-Library.Multiset"
begin

text \<open>
  The books of a dispatch. An effect is what a provider did and handed back a compensator for;
  \<open>live w\<close> is the multiset of the effects standing in a world. On a graph without handlers, in
  an environment that answers for its effects, a dispatch records on the recovery stack every
  effect it leaves behind, through retries, resumed scopes and gathers, and nothing else.
\<close>

section \<open>What a stack owes\<close>

definition owed_of :: "receipt list \<Rightarrow> gvalue multiset" where
  "owed_of rs = mset (map r_payload rs)"

definition owed :: "rstack \<Rightarrow> gvalue multiset" where
  "owed s = owed_of (saga s)"

definition owed_entries :: "recovery_entry list \<Rightarrow> gvalue multiset" where
  "owed_entries es = owed_of (concat (map saga_entry es))"

definition cv_owed :: "comp_value \<Rightarrow> gvalue multiset" where
  "cv_owed cv = (case cv of CvNone \<Rightarrow> {#} | CvReceipt r \<Rightarrow> {#r_payload r#} | CvStack s \<Rightarrow> owed s)"

lemma owed_of_simps [simp]:
  "owed_of [] = {#}" "owed_of (rs @ qs) = owed_of rs + owed_of qs"
  by (simp_all add: owed_of_def)

lemma owed_entries_simps [simp]:
  "owed_entries [] = {#}" "owed_entries (e # es) = owed_of (saga_entry e) + owed_entries es"
  "owed_entries (es @ fs) = owed_entries es + owed_entries fs"
  by (simp_all add: owed_entries_def)

lemma owed_eq: "owed s = owed_entries (entries s)"
  by (cases s) (simp add: owed_def owed_entries_def)

lemma owed_new [simp]: "owed new_recovery_stack = {#}"
  by (simp add: owed_eq new_recovery_stack_def)

lemma owed_saga [simp]: "owed_of (saga s) = owed s"
  by (simp add: owed_def)

lemma owed_stamp [simp]: "owed (stamp u v e s) = owed s"
  by (simp add: owed_eq)

lemma owed_push_nested [simp]: "owed (push_nested c s) = owed s + owed c"
  by (simp add: owed_eq [of "push_nested c s"] owed_eq [of s])

lemma owed_push [simp]:
  "owed (push r s) = owed s + (if r_compensator r = NoCompensator then {#} else {#r_payload r#})"
  by (simp add: owed_eq owed_of_def)

lemma owed_set_entries [simp]: "owed (set_entries es s) = owed_entries es"
  by (simp add: owed_eq)

section \<open>Tidy stacks\<close>

text \<open>Over the node ids \<open>N\<close>: receipts are those of nodes or of no unit, the nested stacks of
  scopes are tidy again.\<close>

fun tidy :: "string set \<Rightarrow> rstack \<Rightarrow> bool" and tidy_entry :: "string set \<Rightarrow> recovery_entry \<Rightarrow> bool" where
  "tidy N (RStack es u v e) = (\<forall>x \<in> set es. tidy_entry N x)"
| "tidy_entry N (EReceipt r) = (r_unit_id r \<in> insert [] N)"
| "tidy_entry N (EStack s) = (stack_unit_id s \<in> N \<or> tidy N s)"

lemma tidy_eq: "tidy N s = (\<forall>x \<in> set (entries s). tidy_entry N x)"
  by (cases s) simp

lemma tidy_simps [simp]:
  "tidy N new_recovery_stack"
  "tidy N (stamp u v e s) = tidy N s"
  "tidy N (push_nested c s) = (tidy N s \<and> (stack_unit_id c \<in> N \<or> tidy N c))"
  "tidy N (push r s) = (tidy N s \<and> r_unit_id r \<in> insert [] N)"
  "tidy N (set_entries es s) = (\<forall>x \<in> set es. tidy_entry N x)"
  by (auto simp: tidy_eq new_recovery_stack_def)

lemma nested_tidy:
  assumes "tidy N s" and "nested_stack_by_unit_id u s = Some c" and "u \<notin> N"
  shows "tidy N c \<and> stack_unit_id c = u \<and> u \<noteq> []"
proof -
  from assms(2) obtain x where x: "x \<in> set (entries s)" "x = EStack c" "stack_unit_id c = u" "u \<noteq> []"
    by (auto simp: nested_stack_by_unit_id_def dest!: find_last_Some
        split: recovery_entry.splits if_splits)
  from assms(1) x(1) have "tidy_entry N x" by (simp add: tidy_eq)
  with x assms(3) show ?thesis by simp
qed

lemma find_remove_last:
  "find_last f xs = Some y \<Longrightarrow> (\<And>x. x \<in> set xs \<Longrightarrow> P x = (f x \<noteq> None))
   \<Longrightarrow> \<exists>x \<in> set xs. f x = Some y \<and> mset xs = add_mset x (mset (remove_last P xs))"
proof (induction xs)
  case (Cons x xs)
  show ?case
  proof (cases "find_last f xs")
    case None
    then have "\<not> (\<exists>z \<in> set xs. P z)" using Cons.prems(2) by (auto simp: find_last_None)
    moreover have "f x = Some y" using Cons.prems(1) None by simp
    ultimately show ?thesis using Cons.prems(2) [of x] by simp
  next
    case (Some z)
    then have "find_last f xs = Some y" using Cons.prems(1) by simp
    with Cons obtain w where w: "w \<in> set xs" "f w = Some y"
      "mset xs = add_mset w (mset (remove_last P xs))" by auto
    then have "\<exists>v \<in> set xs. P v" using Cons.prems(2) by auto
    with w show ?thesis by auto
  qed
qed simp

lemma owed_entries_mset: "owed_entries es = sum_mset (image_mset (\<lambda>e. owed_of (saga_entry e)) (mset es))"
  by (induction es) auto

lemma set_remove_last: "set (remove_last P xs) \<subseteq> set xs"
  by (induction xs) auto

lemma supersede_books:
  assumes "tidy N s" and "nested_stack_by_unit_id u s = Some c" and "u \<notin> N"
  shows "owed s = owed (supersede u s) + owed c \<and> tidy N (supersede u s)"
proof -
  have u: "u \<noteq> []" using nested_tidy [OF assms] by simp
  let ?f = "\<lambda>e. case e of EStack sub \<Rightarrow> if stack_unit_id sub \<noteq> [] \<and> stack_unit_id sub = u then Some sub else None
                | EReceipt r \<Rightarrow> None"
  have "(entry_unit_id x = u) = (?f x \<noteq> None)" if "x \<in> set (entries s)" for x
  proof -
    have "tidy_entry N x" using assms(1) that by (simp add: tidy_eq)
    with u assms(3) show ?thesis by (cases x) (auto simp: entry_unit_id_def)
  qed
  from find_remove_last [OF assms(2) [unfolded nested_stack_by_unit_id_def] this]
  obtain x where x: "?f x = Some c"
    "mset (entries s) = add_mset x (mset (remove_last (\<lambda>e. entry_unit_id e = u) (entries s)))"
    by blast
  then have "x = EStack c" by (auto split: recovery_entry.splits if_splits)
  with x(2) have "owed s = owed (supersede u s) + owed c"
    by (simp add: supersede_def owed_eq [of s] owed_entries_mset)
  moreover have "tidy N (supersede u s)"
    using assms(1) set_remove_last by (fastforce simp: supersede_def tidy_eq)
  ultimately show ?thesis by blast
qed

section \<open>An environment that answers for its effects\<close>

definition answers_for :: "('w \<Rightarrow> gvalue multiset) \<Rightarrow> 'w world_ops \<Rightarrow> bool" where
  "answers_for live W \<longleftrightarrow>
     (\<forall>a i ss fr w v cv e w'. do_leaf W a i ss fr w = (LeafReturn v cv e, w') \<longrightarrow>
        live w' = live w + cv_owed cv \<and> (\<forall>r. cv = CvReceipt r \<longrightarrow> \<not> r_committed r))
     \<and> (\<forall>r w w'. undo W r w = (w', None) \<longrightarrow> live w' = live w - {#r_payload r#})
     \<and> (\<forall>r w w' e. undo W r w = (w', Some e) \<longrightarrow> live w' = live w)
     \<and> (\<forall>w. live (snd (clients W w)) = live w)
     \<and> (\<forall>a ss w. \<exists>ss' w'. coerce_args W a ss w = (Inr ss', w') \<and> live w' = live w)
     \<and> (\<forall>d w. live (snd (sleep W d w)) = live w)
     \<and> (\<forall>w. \<exists>w'. mint W w = (None, w') \<and> live w' = live w)
     \<and> (\<forall>v w. \<exists>w'. probe_claim W v w = (None, w') \<and> live w' = live w)
     \<and> (\<forall>u. type_conflict W u = None)"

text \<open>
  The graph: told apart by ids, every action resolved, nodes bound to providers or to the flow
  terminals, subgraphs to the combinators that dispatch their children once, no handlers.
\<close>

definition node_ids :: "exec_unit \<Rightarrow> string set" where
  "node_ids root = unit_id ` {u \<in> set (all_units root). \<not> is_subgraph u}"

definition plain_unit :: "exec_unit \<Rightarrow> bool" where
  "plain_unit u \<longleftrightarrow>
     unit_id u \<noteq> [] \<and> unit_handlers u = []
     \<and> (case m_action (meta u) of
          None \<Rightarrow> False
        | Some a \<Rightarrow> if is_subgraph u then act_name a \<in> {''flow.subgraph'', ''flow.choose'', ''flow.gather''}
                    else act_name a \<notin> set compensable_flow)"

definition plain_graph :: "exec_unit \<Rightarrow> bool" where
  "plain_graph root \<longleftrightarrow>
     distinct (graph_ids root) \<and> (\<forall>u \<in> set (all_units root). plain_unit u)
     \<and> (\<forall>s \<in> set (all_units root). \<forall>i. gather_iteration_id s i \<notin> node_ids root)"

section \<open>Books\<close>

definition settled :: "outcome \<Rightarrow> bool" where
  "settled oc = (case oc of Ok v \<Rightarrow> True | Fail e \<Rightarrow> True | _ \<Rightarrow> False)"

lemma settled_simps [simp]:
  "settled (Ok v)" "settled (Fail e)" "\<not> settled (Panicked p)" "\<not> settled OutOfFuel"
  by (simp_all add: settled_def)

definition books ::
  "('w \<Rightarrow> gvalue multiset) \<Rightarrow> string set \<Rightarrow> rstack \<Rightarrow> 'w engine \<Rightarrow> rstack \<Rightarrow> 'w engine \<Rightarrow> bool" where
  "books live N st m st' m' \<longleftrightarrow>
     live (en_world m') + owed st = live (en_world m) + owed st' \<and> tidy N st'"

definition keeps_books ::
  "('w \<Rightarrow> gvalue multiset) \<Rightarrow> string set \<Rightarrow> exec_unit set \<Rightarrow> 'w dispatcher \<Rightarrow> bool" where
  "keeps_books live N C rec \<longleftrightarrow>
     (\<forall>c \<in> C. \<forall>st ps fr m oc st' m'. tidy N st \<longrightarrow> rec c st ps fr m = (oc, st', m') \<longrightarrow> settled oc
        \<longrightarrow> books live N st m st' m')"

lemma keeps_booksD:
  "keeps_books live N C rec \<Longrightarrow> c \<in> C \<Longrightarrow> rec c st ps fr m = (oc, st', m') \<Longrightarrow> tidy N st \<Longrightarrow>
     settled oc \<Longrightarrow> books live N st m st' m'"
  by (auto simp: keeps_books_def)

lemma books_refl: "tidy N st \<Longrightarrow> books live N st m st m"
  by (simp add: books_def)

lemma multiset_ledger:
  fixes a :: "'a multiset"
  assumes "b + s = a + s1" and "c + s1 = b + s2"
  shows "c + s = a + s2"
proof -
  have "(c + s) + s1 = (c + s1) + s" by (simp only: ac_simps)
  also have "\<dots> = (b + s) + s2" by (simp only: assms(2) ac_simps)
  also have "\<dots> = (a + s2) + s1" by (simp only: assms(1) ac_simps)
  finally show ?thesis by simp
qed

lemma books_trans: "books live N st m st1 m1 \<Longrightarrow> books live N st1 m1 st2 m2 \<Longrightarrow> books live N st m st2 m2"
  using multiset_ledger unfolding books_def by blast

lemma books_tidy: "books live N st m st' m' \<Longrightarrow> tidy N st'"
  by (simp add: books_def)

section \<open>The walks\<close>

lemma books_walk_list:
  "keeps_books live N C rec \<Longrightarrow> set cs \<subseteq> C \<Longrightarrow> tidy N st \<Longrightarrow>
     walk_list rec cs v st ps fr m = (oc, st', m') \<Longrightarrow> settled oc \<Longrightarrow> books live N st m st' m'"
proof (induction cs arbitrary: v st m)
  case (Cons c cs)
  obtain oc1 st1 m1 where x: "rec c st ps fr m = (oc1, st1, m1)" by (metis prod_cases3)
  show ?case
  proof (cases oc1)
    case (Ok v1)
    have b: "books live N st m st1 m1"
      using keeps_booksD [OF Cons.prems(1) _ x Cons.prems(3)] Cons.prems(2) Ok by simp
    show ?thesis
    proof (cases "m_action_name (meta c) = ''flow.complete''")
      case False
      with Cons.prems x Ok have "walk_list rec cs v1 st1 ps fr m1 = (oc, st', m')" by simp
      with Cons.IH [OF Cons.prems(1) _ books_tidy [OF b]] Cons.prems(2,5)
      have "books live N st1 m1 st' m'" by simp
      with b show ?thesis by (rule books_trans)
    qed (use Cons.prems x Ok b in simp)
  next
    case (Fail e)
    with keeps_booksD [OF Cons.prems(1) _ x Cons.prems(3)] Cons.prems x show ?thesis by auto
  qed (use Cons.prems x in auto)
qed (simp add: books_refl)

lemma branch_from_child: "branch_from s i v = Inr (Some d) \<Longrightarrow> d \<in> set (children_of s)"
  by (auto simp: branch_from_def Let_def split: if_splits option.splits dest: child_by_id_in)

lemma decision_root_child: "decision_root s = Inr d \<Longrightarrow> d \<in> set (children_of s)"
proof -
  assume "decision_root s = Inr d"
  then have "filter (\<lambda>c. unit_id c \<notin> set (map e_to (filter (\<lambda>e. e_guard e \<noteq> guard_none) (edges_of s))))
      (children_of s) = [d]"
    by (auto simp: decision_root_def Let_def split: list.splits)
  then have "d \<in> set (filter (\<lambda>c. unit_id c \<notin> set (map e_to
      (filter (\<lambda>e. e_guard e \<noteq> guard_none) (edges_of s)))) (children_of s))" by simp
  then show ?thesis by simp
qed

lemma books_walk_tree:
  "keeps_books live N (set (children_of s)) rec \<Longrightarrow> c \<in> set (children_of s) \<Longrightarrow> tidy N st \<Longrightarrow>
     walk_decision_tree k rec s c st ps fr m = (oc, st', m') \<Longrightarrow> settled oc \<Longrightarrow> books live N st m st' m'"
proof (induction k arbitrary: c st m)
  case (Suc k)
  obtain oc1 st1 m1 where x: "rec c st ps fr m = (oc1, st1, m1)" by (metis prod_cases3)
  show ?case
  proof (cases oc1)
    case (Ok v)
    have b: "books live N st m st1 m1"
      using keeps_booksD [OF Suc.prems(1,2) x Suc.prems(3)] Ok by simp
    show ?thesis
    proof (cases "\<exists>d. branch_from s (unit_id c) v = Inr (Some d)")
      case True
      then obtain d where d: "branch_from s (unit_id c) v = Inr (Some d)" by blast
      with Suc.prems x Ok have "walk_decision_tree k rec s d st1 ps fr m1 = (oc, st', m')" by simp
      with Suc.IH [OF Suc.prems(1) branch_from_child [OF d] books_tidy [OF b]] Suc.prems(5)
      have "books live N st1 m1 st' m'" by simp
      with b show ?thesis by (rule books_trans)
    next
      case False
      with Suc.prems x Ok b show ?thesis by (auto split: sum.splits option.splits)
    qed
  next
    case (Fail e)
    with keeps_booksD [OF Suc.prems(1,2) x Suc.prems(3)] Suc.prems x show ?thesis by auto
  qed (use Suc.prems x in auto)
qed simp

lemma books_walk:
  assumes "keeps_books live N (set (children_of s)) rec" and "tidy N st"
    and "walk_subgraph_children rec s st ps fr m = (oc, st', m')" and "settled oc"
  shows "books live N st m st' m'"
  using assms books_walk_list [OF assms(1) order_refl assms(2)]
    books_walk_tree [OF assms(1) decision_root_child assms(2)]
  by (auto simp: walk_subgraph_children_def books_refl split: if_splits sum.splits)

end
