(* ===== verification/Gather_Books.thy ===== *)
theory Gather_Books
  imports Ledger
begin

text \<open>
  The books of a gather: the iterations run on stacks of their own, taken from or added to the
  scope's stack; what the scope's stack owes changes by what the iterations' stacks do.
\<close>

lemma multiset_ledger2:
  fixes a :: "'a multiset"
  assumes "b + x = a + y" and "c + z = b + w"
  shows "c + (x + z) = a + (y + w)"
proof -
  have "c + (x + z) = (c + z) + x" by (simp only: ac_simps)
  also have "\<dots> = (b + x) + w" by (simp only: assms(2) ac_simps)
  finally show ?thesis by (simp only: assms(1) ac_simps)
qed

lemma multiset_ledger3:
  fixes a :: "'a multiset"
  assumes "t + x = s + y" and "c + x = a + y"
  shows "c + s = a + t"
proof -
  have "(c + s) + (x + y) = (c + x) + (s + y)" by (simp only: ac_simps)
  also have "\<dots> = (a + y) + (t + x)" by (simp only: assms)
  also have "\<dots> = (a + t) + (x + y)" by (simp only: ac_simps)
  finally show ?thesis by simp
qed

section \<open>Gather\<close>

lemma gather_iteration_id_inj [simp]: "gather_iteration_id s i = gather_iteration_id s j \<longleftrightarrow> i = j"
  by (simp add: gather_iteration_id_def show_nat_inj)

lemma gather_iteration_id_not_Nil [simp]: "gather_iteration_id s i \<noteq> []"
  by (simp add: gather_iteration_id_def)

definition owed_runs :: "gather_run list \<Rightarrow> gvalue multiset" where
  "owed_runs rs = sum_list (map (\<lambda>r. owed (gr_stack r)) rs)"

lemma owed_runs_simps [simp]: "owed_runs [] = {#}" "owed_runs (r # rs) = owed (gr_stack r) + owed_runs rs"
  by (simp_all add: owed_runs_def)

text \<open>A finished run is the run it was, on a tidy stack.\<close>

definition same_run :: "string set \<Rightarrow> gather_run \<Rightarrow> gather_run \<times> outcome \<Rightarrow> bool" where
  "same_run N r p \<longleftrightarrow> gr_index (fst p) = gr_index r \<and> gr_fresh (fst p) = gr_fresh r \<and> tidy N (gr_stack (fst p))"

lemma books_run_iterations:
  assumes k: "keeps_books live N (set (children_of s)) rec"
  shows "run_iterations rec s items fr st ps rs m = (finished, m') \<Longrightarrow>
     \<forall>r \<in> set rs. tidy N (gr_stack r) \<Longrightarrow> \<forall>(r, oc) \<in> set finished. settled oc \<Longrightarrow>
     list_all2 (same_run N) rs finished
     \<and> live (en_world m') + owed_runs rs = live (en_world m) + owed_runs (map fst finished)"
proof (induction rs arbitrary: m m' finished)
  case (Cons r rs)
  obtain oc child m1 where w: "walk_subgraph_children rec s (gr_stack r) (st # ps)
      (build_iteration_frame fr (items ! gr_index r)) m = (oc, child, m1)" by (metis prod_cases3)
  obtain fin2 m2 where x: "run_iterations rec s items fr st ps rs m1 = (fin2, m2)" by fastforce
  have oc: "settled oc" "finished = (r\<lparr>gr_stack := child\<rparr>, oc) # fin2" "m' = m2"
    using Cons.prems(1,3) w x by (auto simp: Let_def split: outcome.splits)
  have b: "books live N (gr_stack r) m child m1"
    using books_walk [OF k _ w oc(1)] Cons.prems(2) by simp
  have "\<forall>(r, oc) \<in> set fin2. settled oc" using Cons.prems(3) oc(2) by simp
  with Cons.IH [OF x] Cons.prems(2) have ih: "list_all2 (same_run N) rs fin2"
    "live (en_world m2) + owed_runs rs = live (en_world m1) + owed_runs (map fst fin2)" by simp_all
  have "live (en_world m2) + (owed (gr_stack r) + owed_runs rs)
      = live (en_world m) + (owed child + owed_runs (map fst fin2))"
    using b ih(2) by (intro multiset_ledger2) (simp_all add: books_def)
  with oc b ih(1) show ?case by (simp add: same_run_def [of N r] books_def)
qed simp

lemma replace_nested_books:
  "find_last (\<lambda>e. if nested_for u e then stack_or_nil e else None) es = Some prior \<Longrightarrow>
     owed_entries (replace_nested u c es) + owed prior = owed_entries es + owed c"
proof (induction es)
  case (Cons x xs)
  show ?case
  proof (cases "\<exists>y \<in> set xs. nested_for u y")
    case True
    then have "find_last (\<lambda>e. if nested_for u e then stack_or_nil e else None) xs \<noteq> None"
      by (auto simp: find_last_None nested_for_def stack_or_nil_def split: recovery_entry.splits)
    then have "find_last (\<lambda>e. if nested_for u e then stack_or_nil e else None) xs = Some prior"
      using Cons.prems by (auto split: option.splits)
    from Cons.IH [OF this] True show ?thesis by (simp add: ac_simps)
  next
    case False
    then have "find_last (\<lambda>e. if nested_for u e then stack_or_nil e else None) xs = None"
      by (auto simp: find_last_None)
    with Cons.prems False show ?thesis
      by (auto simp: nested_for_def stack_or_nil_def ac_simps split: recovery_entry.splits if_splits)
  qed
qed simp

lemma nested_stack_find:
  "u \<noteq> [] \<Longrightarrow> nested_stack_by_unit_id u s
     = find_last (\<lambda>e. if nested_for u e then stack_or_nil e else None) (entries s)"
  unfolding nested_stack_by_unit_id_def
  by (rule arg_cong [where f = "\<lambda>f. find_last f (entries s)"])
    (auto simp: nested_for_def stack_or_nil_def fun_eq_iff split: recovery_entry.splits)

lemma replace_nested_other:
  "stack_unit_id c = u \<Longrightarrow> u' \<noteq> u \<Longrightarrow>
     find_last (\<lambda>e. if nested_for u' e then stack_or_nil e else None) (replace_nested u c es)
     = find_last (\<lambda>e. if nested_for u' e then stack_or_nil e else None) es"
  by (induction es) (auto simp: nested_for_def split: recovery_entry.splits)

lemma replace_nested_set: "set (replace_nested u c es) \<subseteq> insert (EStack c) (set es)"
  by (induction es) auto


lemma owed_runs_same: "list_all2 (same_run N) rs finished \<Longrightarrow> length rs = length finished"
  by (rule list_all2_lengthD)

text \<open>The stack a pending run was taken from: the last of its iteration, or none yet.\<close>

definition run_of :: "exec_unit \<Rightarrow> rstack \<Rightarrow> gather_run \<Rightarrow> bool" where
  "run_of s st r \<longleftrightarrow>
     (if gr_fresh r then owed (gr_stack r) = {#}
      else nested_stack_by_unit_id (gather_iteration_id s (gr_index r)) st = Some (gr_stack r))"

lemma stamp_one_books:
  assumes t: "tidy N st" "tidy N child" and n: "gather_iteration_id s i \<notin> N"
    and c: "stack_unit_id child = gather_iteration_id s i" and r: "run_of s st r" "gr_index r = i"
    and st': "st' = (if gr_fresh r then push_nested child st
                else set_entries (replace_nested (gather_iteration_id s i) child (entries st)) st)"
  shows "owed st' + owed (gr_stack r) = owed st + owed child \<and> tidy N st'
    \<and> (\<forall>j. j \<noteq> i \<longrightarrow> nested_stack_by_unit_id (gather_iteration_id s j) st'
                     = nested_stack_by_unit_id (gather_iteration_id s j) st)"
proof (cases "gr_fresh r")
  case True
  then show ?thesis using r t c st' by (simp add: run_of_def)
next
  case False
  let ?u = "gather_iteration_id s i"
  have f: "find_last (\<lambda>e. if nested_for ?u e then stack_or_nil e else None) (entries st) = Some (gr_stack r)"
    using r False by (simp add: run_of_def nested_stack_find)
  have "tidy N st'"
    using t c replace_nested_set [of ?u child "entries st"] False st' by (fastforce simp: tidy_eq [of N st])
  moreover have "owed st' + owed (gr_stack r) = owed st + owed child"
    using replace_nested_books [OF f, of child] False st' by (simp add: owed_eq [of st])
  moreover have "nested_stack_by_unit_id (gather_iteration_id s j) st'
      = nested_stack_by_unit_id (gather_iteration_id s j) st" if "j \<noteq> i" for j
    using that replace_nested_other [OF c, of "gather_iteration_id s j" "entries st"] False st'
    by (simp add: nested_stack_find)
  ultimately show ?thesis by blast
qed

lemma books_stamp_iterations:
  assumes n: "\<And>i. gather_iteration_id s i \<notin> N"
  shows "stamp_iterations s finished st vs = (st', vs') \<Longrightarrow> list_all2 (same_run N) rs finished \<Longrightarrow>
     distinct (map gr_index rs) \<Longrightarrow> \<forall>r \<in> set rs. run_of s st r \<Longrightarrow> tidy N st \<Longrightarrow>
     owed st' + owed_runs rs = owed st + owed_runs (map fst finished) \<and> tidy N st'"
proof (induction finished arbitrary: rs st vs)
  case (Cons p finished)
  obtain r1 oc where p: "p = (r1, oc)" by fastforce
  from Cons.prems(2) obtain r rs1 where rs: "rs = r # rs1" "same_run N r (r1, oc)"
    "list_all2 (same_run N) rs1 finished" by (auto simp: list_all2_Cons2 p)
  have same: "gr_index r1 = gr_index r" "gr_fresh r1 = gr_fresh r"
    using rs(2) by (simp_all add: same_run_def)
  let ?i = "gr_index r" and ?v = "case oc of Ok v \<Rightarrow> v | _ \<Rightarrow> VNil"
  let ?child = "stamp (gather_iteration_id s (gr_index r1)) ?v (case oc of Fail e \<Rightarrow> Some e | _ \<Rightarrow> None) (gr_stack r1)"
  define st1 where "st1 = (if gr_fresh r then push_nested ?child st
      else set_entries (replace_nested (gather_iteration_id s ?i) ?child (entries st)) st)"
  have step: "owed st1 + owed (gr_stack r) = owed st + owed ?child \<and> tidy N st1
    \<and> (\<forall>j. j \<noteq> ?i \<longrightarrow> nested_stack_by_unit_id (gather_iteration_id s j) st1
                     = nested_stack_by_unit_id (gather_iteration_id s j) st)"
    using Cons.prems(4,5) rs n by (intro stamp_one_books [OF _ _ _ _ _ _ st1_def])
      (auto simp: same_run_def)
  have "stamp_iterations s finished st1 (vs[?i := ?v]) = (st', vs')"
    using Cons.prems(1) same by (cases "gr_fresh r") (simp_all add: p st1_def Let_def)
  moreover have "\<forall>q \<in> set rs1. run_of s st1 q"
  proof
    fix q assume q: "q \<in> set rs1"
    then have "gr_index q \<in> set (map gr_index rs1)" by simp
    then have "gr_index q \<noteq> ?i" using Cons.prems(3) rs(1) by auto
    with step q Cons.prems(4) rs(1) show "run_of s st1 q" by (auto simp: run_of_def)
  qed
  ultimately have "owed st' + owed_runs rs1 = owed st1 + owed_runs (map fst finished) \<and> tidy N st'"
    using Cons.IH [of st1 _ rs1] rs Cons.prems(3) step by auto
  with step rs(1) show ?case
    using multiset_ledger2 [of "owed st1" "owed (gr_stack r)" "owed st" "owed (gr_stack r1)"
        "owed st'" "owed_runs rs1"] by (simp add: p)
qed (simp add: list_all2_Nil2)

lemma run_of_fresh: "run_of s st \<lparr>gr_index = i, gr_stack = new_recovery_stack, gr_fresh = True\<rparr>"
  by (simp add: run_of_def)

lemma run_of_prior:
  "run_of s st \<lparr>gr_index = i, gr_stack = prior, gr_fresh = False\<rparr>
     = (nested_stack_by_unit_id (gather_iteration_id s i) st = Some prior)"
  by (simp add: run_of_def)

lemma classify_runs:
  "classify_gather_runs st s i n = (vs, rs) \<Longrightarrow>
     distinct (map gr_index rs) \<and> (\<forall>r \<in> set rs. i \<le> gr_index r \<and> gr_index r < i + n \<and> run_of s st r)
     \<and> (tidy N st \<longrightarrow> (\<forall>j. gather_iteration_id s j \<notin> N) \<longrightarrow> (\<forall>r \<in> set rs. tidy N (gr_stack r)))"
proof (induction n arbitrary: i vs rs)
  case (Suc n)
  obtain vs1 rs1 where c: "classify_gather_runs st s (Suc i) n = (vs1, rs1)" by fastforce
  from Suc.IH [OF c] have ih: "distinct (map gr_index rs1)"
    "\<forall>r \<in> set rs1. Suc i \<le> gr_index r \<and> gr_index r < Suc i + n \<and> run_of s st r"
    "tidy N st \<longrightarrow> (\<forall>j. gather_iteration_id s j \<notin> N) \<longrightarrow> (\<forall>r \<in> set rs1. tidy N (gr_stack r))"
    by simp_all
  have fresh: "i \<notin> gr_index ` set rs1" using ih(2) by auto
  have other: "i \<le> gr_index r \<and> gr_index r < i + Suc n \<and> run_of s st r" if "r \<in> set rs1" for r
    using ih(2) that by fastforce
  show ?case
  proof (cases "nested_stack_by_unit_id (gather_iteration_id s i) st")
    case None
    then have "rs = \<lparr>gr_index = i, gr_stack = new_recovery_stack, gr_fresh = True\<rparr> # rs1"
      using Suc.prems c by simp
    with ih fresh other show ?thesis by (simp add: run_of_fresh)
  next
    case (Some prior)
    show ?thesis
    proof (cases "stack_err prior = None")
      case True
      with Suc.prems c Some have "rs = rs1" by simp
      with ih other show ?thesis by simp
    next
      case False
      with Suc.prems c Some
      have "rs = \<lparr>gr_index = i, gr_stack = prior, gr_fresh = False\<rparr> # rs1" by simp
      with ih fresh other nested_tidy [OF _ Some, of N] show ?thesis by (simp add: run_of_prior Some)
    qed
  qed
qed simp

text \<open>What an action answers with on a scope's own stack.\<close>

definition scope_books ::
  "('w \<Rightarrow> gvalue multiset) \<Rightarrow> string set \<Rightarrow> rstack \<Rightarrow> 'w engine \<Rightarrow> comp_value \<Rightarrow> 'w engine \<Rightarrow> bool" where
  "scope_books live N cs m cv m' \<longleftrightarrow> (\<exists>st. cv = CvStack st \<and> books live N cs m st m')"

lemma first_failure_settled:
  "first_failure rs = NoFailure \<or> (\<exists>e. first_failure rs = FirstError e) \<Longrightarrow> \<forall>(r, oc) \<in> set rs. settled oc"
  by (induction rs rule: first_failure.induct) (auto split: run_failure.splits)

lemma first_failure_aborted: "first_failure rs = Aborted oc \<Longrightarrow> \<not> settled oc"
  by (induction rs rule: first_failure.induct) (auto split: run_failure.splits)

lemma books_gather:
  assumes k: "keeps_books live N (set (children_of s)) rec" and t: "tidy N cs"
    and n: "\<And>i. gather_iteration_id s i \<notin> N" and r: "resolve_caller root ''flow.Gather'' i = Inr s"
    and x: "flow_gather root rec i ss cs ps fr m = (oc, cv, m')" and oc: "settled oc"
  shows "scope_books live N cs m cv m'"
proof -
  define items where "items = (case slot_value ''items'' ss of VSlice (Some vs) \<Rightarrow> vs | _ \<Rightarrow> [])"
  obtain vs rs where c: "classify_gather_runs cs s 0 (length items) = (vs, rs)" by fastforce
  obtain fin m1 where ri: "run_iterations rec s items fr cs ps rs m = (fin, m1)" by fastforce
  obtain st vs1 where si: "stamp_iterations s fin cs vs = (st, vs1)" by fastforce
  note x' = x [unfolded flow_gather_def items_def [symmetric] Let_def r sum.case c prod.case]
  show ?thesis
  proof (cases "items = [] \<or> rs = []")
    case True
    then have "cv = CvStack cs \<and> m' = m" using x' by (auto split: if_splits)
    with books_refl [OF t] show ?thesis by (simp add: scope_books_def)
  next
    case False
    then obtain q qs where rs: "rs = q # qs" by (cases rs) auto
    have res: "cv = CvStack st \<and> m' = m1 \<and> (\<forall>(r, oc) \<in> set fin. settled oc)"
      using x' False oc first_failure_settled [of fin] first_failure_aborted [of fin oc]
      by (auto simp del: run_iterations.simps simp: rs ri [unfolded rs] si split: run_failure.splits)
    note cl = classify_runs [OF c, of N]
    from books_run_iterations [OF k ri] cl t n res
    have l: "list_all2 (same_run N) rs fin"
      "live (en_world m1) + owed_runs rs = live (en_world m) + owed_runs (map fst fin)" by auto
    from books_stamp_iterations [OF n si l(1)] cl t
    have st: "owed st + owed_runs rs = owed cs + owed_runs (map fst fin)" "tidy N st" by auto
    have "live (en_world m1) + owed cs = live (en_world m) + owed st"
      by (rule multiset_ledger3 [OF st(1) l(2)])
    with res st(2) show ?thesis by (simp add: scope_books_def books_def)
  qed
qed

end
