(* ===== verification/Books.thy ===== *)
theory Books
  imports Gather_Books
begin

text \<open>
  The books of a whole dispatch: actions, the exits of nodes and subgraphs, the resume guard of a
  subgraph and the attempt loop.
\<close>

section \<open>Actions\<close>

lemma books_combinator:
  "combinator_result who (oc1, st, m1) = (oc, cv, m') \<Longrightarrow>
     cv = CvStack st \<and> m' = m1 \<and> settled oc1 = settled oc"
  by (auto simp: combinator_result_def split: outcome.splits)

lemma books_walk_combinator:
  assumes k: "keeps_books live N (set (children_of s)) rec" and t: "tidy N cs"
    and x: "combinator_result who (walk_subgraph_children rec s cs ps fr m) = (oc, cv, m')"
    and oc: "settled oc"
  shows "scope_books live N cs m cv m'"
proof -
  obtain oc1 st m1 where w: "walk_subgraph_children rec s cs ps fr m = (oc1, st, m1)"
    by (metis prod_cases3)
  from books_combinator [OF x [unfolded w]] oc books_walk [OF k t w] show ?thesis
    by (simp add: scope_books_def)
qed

lemma all_some_map: "\<forall>x \<in> set xs. f x \<noteq> None \<Longrightarrow> all_some (map f xs) \<noteq> None"
  by (induction xs) auto

lemma parameter_names_resolved:
  "\<forall>v \<in> set (all_units u). m_action (meta v) \<noteq> None \<Longrightarrow> parameter_names u \<noteq> None"
proof (induction u rule: parameter_names.induct)
  case (2 m oe ort cs es)
  have "parameter_names c \<noteq> None" if c: "c \<in> set cs" for c
  proof (rule "2.IH" [OF c])
    show "\<forall>v \<in> set (all_units c). m_action (meta v) \<noteq> None"
      using "2.prems" c by simp
  qed
  then have "all_some (map parameter_names cs) \<noteq> None" by (intro all_some_map) blast
  then show ?case by auto
qed simp

lemma plain_action: "plain_graph root \<Longrightarrow> u \<in> set (all_units root) \<Longrightarrow> \<exists>a. m_action (meta u) = Some a"
  by (cases "m_action (meta u)") (auto simp: plain_graph_def plain_unit_def)

lemma plain_parameters:
  assumes "plain_graph root" and "s \<in> set (all_units root)"
  shows "parameter_names s \<noteq> None"
proof (rule parameter_names_resolved, rule ballI)
  fix v assume "v \<in> set (all_units s)"
  from plain_action [OF assms(1) all_units_trans [OF assms(2) this]]
  show "m_action (meta v) \<noteq> None" by blast
qed

lemma plain_caller:
  assumes "plain_graph root" and "s \<in> set (all_units root)" and "is_subgraph s"
  shows "resolve_caller root who (unit_id s) = Inr s"
  using resolve_own assms by (simp add: resolve_caller_def plain_graph_def)

lemma plain_iteration_ids:
  "plain_graph root \<Longrightarrow> s \<in> set (all_units root) \<Longrightarrow> gather_iteration_id s i \<notin> node_ids root"
  by (simp add: plain_graph_def)

lemma books_scope_action:
  assumes p: "plain_graph root" and u: "u \<in> set (all_units root)" "is_subgraph u"
    and a: "m_action (meta u) = Some a" and W: "answers_for live W"
    and k: "keeps_books live (node_ids root) (set (children_of u)) rec" and t: "tidy (node_ids root) cs"
    and x: "do_action k W root rec a (unit_id u) ss cs ps fr m = (oc, cv, m')" and oc: "settled oc"
  shows "scope_books live (node_ids root) cs m cv m'"
proof -
  have name: "act_name a \<in> {''flow.subgraph'', ''flow.choose'', ''flow.gather''}"
    using p u a by (force simp: plain_graph_def plain_unit_def)
  obtain ss' w where c: "coerce_args W a ss (en_world m) = (Inr ss', w)" "live w = live (en_world m)"
    using W unfolding answers_for_def by metis
  let ?m = "m\<lparr>en_world := w\<rparr>"
  have f: "flow_method k W root rec (act_name a) (unit_id u) ss' cs ps fr ?m = (oc, cv, m')"
    using x name c(1) by (auto simp: do_action_def infallible_flow_def compensable_flow_def)
  have "scope_books live (node_ids root) cs ?m cv m'"
  proof -
    consider "act_name a = ''flow.subgraph''" | "act_name a = ''flow.choose''" | "act_name a = ''flow.gather''"
      using name by blast
    then show ?thesis
    proof cases
      case 1
      obtain params where "parameter_names u = Some params" using plain_parameters [OF p u(1)] by blast
      moreover have "type_conflict W u = None" using W by (simp add: answers_for_def)
      ultimately show ?thesis
        using f 1 books_walk_combinator [OF k t _ oc]
        by (auto simp: flow_method_def flow_subgraph_def plain_caller [OF p u])
    next
      case 2
      then show ?thesis
        using f books_walk_combinator [OF k t _ oc]
        by (auto simp: flow_method_def flow_choose_def plain_caller [OF p u])
    next
      case 3
      then show ?thesis
        using f by (intro books_gather [OF k t plain_iteration_ids [OF p u(1)] plain_caller [OF p u] _ oc])
          (simp add: flow_method_def)
    qed
  qed
  then show ?thesis by (simp add: scope_books_def books_def c(2))
qed

lemma transition_world: "transition_to root i c r msg m = (e, m') \<Longrightarrow> en_world m' = en_world m"
  by (auto simp: transition_to_def Let_def split: if_splits)

lemma flow_degraded_world:
  "flow_degraded W root i ss m = (oc, cv, m') \<Longrightarrow> cv = CvNone \<and> en_world m' = en_world m"
  by (auto simp: flow_degraded_def split: prod.splits option.splits dest: transition_world)

lemma flow_failed_world:
  "flow_failed W root i ss m = (oc, cv, m') \<Longrightarrow> cv = CvNone \<and> en_world m' = en_world m"
  by (auto simp: flow_failed_def split: prod.splits option.splits dest: transition_world)

lemma books_node_action:
  assumes p: "plain_graph root" and u: "u \<in> set (all_units root)" "\<not> is_subgraph u"
    and a: "m_action (meta u) = Some a" and W: "answers_for live W"
    and x: "do_action k W root rec a (unit_id u) ss st ps fr m = (oc, cv, m')" and oc: "settled oc"
  shows "live (en_world m') = live (en_world m) + cv_owed cv \<and> (\<forall>r. cv = CvReceipt r \<longrightarrow> \<not> r_committed r)"
proof (cases "act_name a \<in> set infallible_flow")
  case True
  obtain ss' w where c: "coerce_args W a ss (en_world m) = (Inr ss', w)" "live w = live (en_world m)"
    using W unfolding answers_for_def by metis
  have "cv = CvNone \<and> en_world m' = w"
    using x True c(1)
    by (auto simp: do_action_def infallible_flow_def flow_method_def flow_complete_def
        dest!: flow_degraded_world flow_failed_world)
  with c show ?thesis by (simp add: cv_owed_def)
next
  case False
  moreover have "act_name a \<notin> set compensable_flow"
    using p u a by (force simp: plain_graph_def plain_unit_def)
  ultimately obtain v e w where
    "do_leaf W a (unit_id u) ss fr (en_world m) = (LeafReturn v cv e, w)" "en_world m' = w"
    using x oc by (auto simp: do_action_def split: prod.splits leaf_result.splits option.splits)
  with W show ?thesis unfolding answers_for_def by metis
qed

section \<open>Exits\<close>

lemma push_audit_books:
  assumes W: "answers_for live W" and t: "tidy N st" and i: "unit_id u \<noteq> []"
    and cv: "case cv of CvNone \<Rightarrow> True | CvReceipt r \<Rightarrow> \<not> r_committed r \<and> dispatched \<and> unit_id u \<in> N
               | CvStack c \<Rightarrow> unit_id u \<in> N \<or> tidy N c"
    and n: "dispatched \<Longrightarrow> cv = CvNone \<Longrightarrow> unit_id u \<in> N"
    and x: "push_audit_receipt W root u st ss v cv err dispatched m = (e, st', m')"
  shows "e = None \<and> live (en_world m') = live (en_world m) \<and> owed st' = owed st + cv_owed cv \<and> tidy N st'"
proof -
  obtain w where w: "mint W (en_world m) = (None, w)" "live w = live (en_world m)"
    using W unfolding answers_for_def by metis
  have sel: "r_committed (set_slots ss r) = r_committed r" "r_unit_id (set_slots ss r) = r_unit_id r"
    "r_compensator (set_slots ss r) = r_compensator r" "r_payload (set_slots ss r) = r_payload r" for r
    by (cases r; simp)+
  show ?thesis
    using x cv n w t i
    by (cases cv; cases dispatched)
      (auto simp: push_audit_receipt_def Let_def sel new_receipt_def commit_def cv_owed_def
        split: prod.splits)
qed

lemma join_audit_books:
  assumes "answers_for live W" and "tidy N st" and "unit_id u \<noteq> []"
    and "case cv of CvNone \<Rightarrow> True | CvReceipt r \<Rightarrow> \<not> r_committed r \<and> dispatched \<and> unit_id u \<in> N
               | CvStack c \<Rightarrow> unit_id u \<in> N \<or> tidy N c"
    and "dispatched \<Longrightarrow> cv = CvNone \<Longrightarrow> unit_id u \<in> N"
    and "join_audit_stamp W root u st ss cv err dispatched m = (e, st', m')"
  shows "live (en_world m') = live (en_world m) \<and> owed st' = owed st + cv_owed cv \<and> tidy N st'"
  using assms(6) push_audit_books [OF assms(1-5)]
  by (auto simp: join_audit_stamp_def split: prod.splits option.splits)

section \<open>Units and attempts\<close>

lemma emit_world [simp]: "en_world (emit_event k u err m) = en_world m"
  by (simp add: emit_event_def)

lemma child_world [simp]: "en_world (child_engine m) = en_world m" "en_world (back_to_parent m mc) = en_world mc"
  by (simp_all add: child_engine_def back_to_parent_def)

lemma control_point_live:
  "answers_for live W \<Longrightarrow> control_point W m = (e, m') \<Longrightarrow> live (en_world m') = live (en_world m)"
proof -
  assume W: "answers_for live W" and x: "control_point W m = (e, m')"
  have "en_world m' = snd (clients W (en_world m))"
    using x by (auto simp: control_point_def let_clients_act_def serve_request_def Let_def
        split: prod.splits option.splits control_command.splits)
  with W show ?thesis by (simp add: answers_for_def)
qed

lemma framework_world: "framework_failure root i e m = (oc, m') \<Longrightarrow> en_world m' = en_world m"
  by (auto simp: framework_failure_def split: prod.splits option.splits dest: transition_world)

lemma claims_live:
  assumes "answers_for live W"
  shows "verify_slots W u p bs m = (e, m') \<Longrightarrow> e = None \<and> live (en_world m') = live (en_world m)"
proof (induction bs arbitrary: m)
  case (Cons b bs)
  obtain n bd where b: "b = (n, bd)" by fastforce
  obtain e1 m1 where v: "verify_claim_binding W u p bd m = (e1, m1)" by fastforce
  have "e1 = None \<and> live (en_world m1) = live (en_world m)"
  proof (cases bd)
    case (Immediate v)
    obtain w where "probe_claim W v (en_world m) = (None, w)" "live w = live (en_world m)"
      using assms unfolding answers_for_def by metis
    with v Immediate show ?thesis by (auto simp: verify_claim_binding_def)
  qed (use v in \<open>auto simp: verify_claim_binding_def\<close>)
  with Cons v b show ?case by auto
qed simp

lemma scope_claims_live:
  assumes "answers_for live W"
  shows "verify_scope_claims W us m = (e, m') \<Longrightarrow> e = None \<and> live (en_world m') = live (en_world m)"
proof (induction us arbitrary: m)
  case (Cons u us)
  obtain e1 m1 where "verify_slots W u (unit_missing_policy u) (m_slots (meta u)) m = (e1, m1)" by fastforce
  with claims_live [OF assms this] Cons show ?case by auto
qed simp

lemma success_books:
  assumes "answers_for live W" and "tidy N st" and "unit_id u \<noteq> []"
    and "case cv of CvNone \<Rightarrow> True | CvReceipt r \<Rightarrow> \<not> r_committed r \<and> True \<and> unit_id u \<in> N
               | CvStack c \<Rightarrow> unit_id u \<in> N \<or> tidy N c"
    and "cv = CvNone \<Longrightarrow> unit_id u \<in> N"
    and "success_exit W root u ss cv v st m = (oc, st', m')"
  shows "live (en_world m') = live (en_world m) \<and> owed st' = owed st + cv_owed cv \<and> tidy N st'"
  using assms(6) push_audit_books [OF assms(1-4)] assms(5)
  by (auto simp: success_exit_def split: prod.splits option.splits dest!: framework_world)

lemma failed_books:
  assumes "answers_for live W" and "tidy N st" and "unit_id u \<noteq> []"
    and "case cv of CvNone \<Rightarrow> True | CvReceipt r \<Rightarrow> \<not> r_committed r \<and> True \<and> unit_id u \<in> N
               | CvStack c \<Rightarrow> unit_id u \<in> N \<or> tidy N c"
    and "cv = CvNone \<Longrightarrow> unit_id u \<in> N"
    and "failed_exit W root u l ss cv err st m = (oc, st', m')"
  shows "live (en_world m') = live (en_world m) \<and> owed st' = owed st + cv_owed cv \<and> tidy N st'"
  using assms(6) join_audit_books [OF assms(1-4)] assms(5)
  by (auto simp: failed_exit_def split: prod.splits)

lemma canceled_books:
  assumes "answers_for live W" and "tidy N st" and "unit_id u \<noteq> []"
    and "canceled_exit W root u kd err st m = (oc, st', m')"
  shows "books live N st m st' m'"
  using assms(4) join_audit_books [OF assms(1-3), where cv = CvNone and dispatched = False]
  by (auto simp: canceled_exit_def cv_owed_def books_def split: prod.splits)

lemma plain_id: "plain_graph root \<Longrightarrow> u \<in> set (all_units root) \<Longrightarrow> unit_id u \<noteq> []"
  by (simp add: plain_graph_def plain_unit_def)

lemma scope_id:
  assumes "plain_graph root" and "u \<in> set (all_units root)" and "is_subgraph u"
  shows "unit_id u \<notin> node_ids root"
proof
  assume "unit_id u \<in> node_ids root"
  then obtain v where "v \<in> set (all_units root)" "\<not> is_subgraph v" "unit_id v = unit_id u"
    by (auto simp: node_ids_def)
  moreover have "inj_on unit_id (set (all_units root))"
    using assms(1) by (simp add: plain_graph_def graph_ids_def distinct_map)
  ultimately have "v = u" using assms(2) by (auto dest: inj_onD)
  with assms(3) \<open>\<not> is_subgraph v\<close> show False by simp
qed

lemma node_id: "u \<in> set (all_units root) \<Longrightarrow> \<not> is_subgraph u \<Longrightarrow> unit_id u \<in> node_ids root"
  by (auto simp: node_ids_def)

lemma books_node_dispatch:
  assumes p: "plain_graph root" and u: "u \<in> set (all_units root)" "\<not> is_subgraph u"
    and W: "answers_for live W" and t: "tidy (node_ids root) st"
    and x: "node_dispatch k W root rec u st ps fr m = (oc, st', m')" and oc: "settled oc"
  shows "books live (node_ids root) st m st' m'"
proof -
  obtain a where a: "m_action (meta u) = Some a" using plain_action [OF p u(1)] by blast
  let ?ss = "resolve_slots fr (st # ps) u" and ?m = "emit_event EventPhaseChanged (unit_id u) None m"
  obtain oc1 cv m1 where d: "do_action k W root rec a (unit_id u) ?ss st ps fr ?m = (oc1, cv, m1)"
    by (metis prod_cases3)
  have x': "(case (oc1, cv, m1) of
                (Fail err, cv, m2) \<Rightarrow>
                  (case join_audit_stamp W root u st (Some ?ss) cv err True m2 of
                     (err', stack', m3) \<Rightarrow>
                       (Fail (wrapf (act_name a @ '': '') err'), stack',
                        emit_event EventError (unit_id u) (Some err') m3))
              | (Ok v, cv, m2) \<Rightarrow> success_exit W root u ?ss cv v st m2
              | (oc, cv, m2) \<Rightarrow> (oc, st, m2)) = (oc, st', m')"
    using x by (simp add: node_dispatch_def bound_action_def a Let_def d)
  then have s: "settled oc1" using oc by (cases oc1) auto
  note na = books_node_action [OF p u a W d s]
  note i = plain_id [OF p u(1)] and n = node_id [OF u]
  have cv: "case cv of CvNone \<Rightarrow> True
      | CvReceipt r \<Rightarrow> \<not> r_committed r \<and> True \<and> unit_id u \<in> node_ids root
      | CvStack c \<Rightarrow> unit_id u \<in> node_ids root \<or> tidy (node_ids root) c"
    using na n by (cases cv) auto
  have "live (en_world m') = live (en_world m1) \<and> owed st' = owed st + cv_owed cv \<and> tidy (node_ids root) st'"
  proof (cases oc1)
    case (Ok v)
    with x' success_books [OF W t i cv] n show ?thesis by auto
  next
    case (Fail e)
    with x' join_audit_books [OF W t i cv] n show ?thesis by (auto split: prod.splits)
  qed (use s in simp_all)
  with na show ?thesis by (simp add: books_def ac_simps)
qed

lemma books_subgraph_dispatch:
  assumes p: "plain_graph root" and u: "u \<in> set (all_units root)" "is_subgraph u"
    and W: "answers_for live W"
    and k: "keeps_books live (node_ids root) (set (children_of u)) rec"
    and t: "tidy (node_ids root) st" "tidy (node_ids root) ch"
    and x: "subgraph_dispatch k W root rec u ch st ps fr m = (oc, st', m')" and oc: "settled oc"
  shows "live (en_world m') + owed ch + owed st = live (en_world m) + owed st' \<and> tidy (node_ids root) st'"
proof -
  obtain a where a: "m_action (meta u) = Some a" using plain_action [OF p u(1)] by blast
  let ?ss = "resolve_slots fr (st # ps) u"
  obtain e m1 where v: "verify_scope_claims W (children_of u) m = (e, m1)" by fastforce
  note vl = scope_claims_live [OF W v]
  obtain oc1 cv mc where d:
    "do_action k W root rec a (unit_id u) ?ss ch (st # ps) fr (child_engine m1) = (oc1, cv, mc)"
    by (metis prod_cases3)
  obtain be m2 where b: "bubble_up root u oc1 (en_status mc) (back_to_parent m1 mc) = (be, m2)" by fastforce
  have bw: "en_world m2 = en_world mc"
    using b by (auto simp: bubble_up_def split: if_splits dest: transition_world)
  note x' = x [unfolded subgraph_dispatch_def bound_action_def a option.case sum.case Let_def v prod.case]
  have be: "be = None" and s: "settled oc1"
    using x' vl d b oc by (auto split: option.splits outcome.splits)
  obtain c where c: "cv = CvStack c" and bk: "books live (node_ids root) ch (child_engine m1) c mc"
    using books_scope_action [OF p u a W k t(2) d s] by (auto simp: scope_books_def)
  have cv: "case cv of CvNone \<Rightarrow> True
      | CvReceipt r \<Rightarrow> \<not> r_committed r \<and> True \<and> unit_id u \<in> node_ids root
      | CvStack c \<Rightarrow> unit_id u \<in> node_ids root \<or> tidy (node_ids root) c"
    using c bk by (simp add: books_def)
  note i = plain_id [OF p u(1)]
  have "live (en_world m') = live (en_world m2) \<and> owed st' = owed st + cv_owed cv \<and> tidy (node_ids root) st'"
  proof (cases oc1)
    case (Ok v)
    with x' vl d b be success_books [OF W t(1) i cv] c show ?thesis by auto
  next
    case (Fail e)
    with x' vl d b be failed_books [OF W t(1) i cv] c show ?thesis by auto
  qed (use s in simp_all)
  with bk vl bw c show ?thesis by (simp add: books_def cv_owed_def ac_simps)
qed

lemma control_books:
  "answers_for live W \<Longrightarrow> tidy N st \<Longrightarrow> control_point W m = (e, m') \<Longrightarrow> books live N st m st m'"
  using control_point_live by (fastforce simp: books_def)

lemma books_unit_execute:
  assumes p: "plain_graph root" and u: "u \<in> set (all_units root)" and W: "answers_for live W"
    and k: "keeps_books live (node_ids root) (set (children_of u)) rec"
    and t: "tidy (node_ids root) st"
    and x: "unit_execute k W root rec u st ps fr m = (oc, st', m')" and oc: "settled oc"
  shows "books live (node_ids root) st m st' m'"
proof (cases "ctx_err W (en_world m)")
  case (Some err)
  with x canceled_books [OF W t plain_id [OF p u]] show ?thesis
    by (auto simp: unit_execute_def node_execute_def subgraph_execute_def split: if_splits)
next
  case None
  obtain e m1 where c: "control_point W m = (e, m1)" by fastforce
  note cb = control_books [OF W t c]
  show ?thesis
  proof (cases e)
    case (Some err)
    with x None c cb show ?thesis
      by (auto simp: unit_execute_def node_execute_def subgraph_execute_def split: if_splits)
  next
    case e: None
    show ?thesis
    proof (cases "is_subgraph u")
      case False
      with x None c e have "(\<exists>v. (oc, st', m') = (Ok v, st, m1))
          \<or> node_dispatch k W root rec u st ps fr m1 = (oc, st', m')"
        by (auto simp: unit_execute_def node_execute_def split: option.splits if_splits)
      with cb books_trans [OF cb] books_node_dispatch [OF p u False W t _ oc] show ?thesis by blast
    next
      case True
      note sub = books_subgraph_dispatch [OF p u True W k _ _ _ oc]
      show ?thesis
      proof (cases "adopt_prior_stack u st")
        case NoPrior
        with x None c e True
        have "subgraph_dispatch k W root rec u new_recovery_stack st ps fr m1 = (oc, st', m')"
          by (simp add: unit_execute_def subgraph_execute_def)
        from sub [OF t _ this] cb show ?thesis by (simp add: books_def)
      next
        case (Pruned v)
        with x None c e True cb show ?thesis by (simp add: unit_execute_def subgraph_execute_def)
      next
        case (Adopted prior st1)
        then have a: "nested_stack_by_unit_id (unit_id u) st = Some prior" "st1 = supersede (unit_id u) st"
          by (auto simp: adopt_prior_stack_def split: option.splits if_splits)
        note sid = scope_id [OF p u True]
        from x None c e True Adopted
        have d: "subgraph_dispatch k W root rec u prior st1 ps fr m1 = (oc, st', m')"
          by (simp add: unit_execute_def subgraph_execute_def)
        from supersede_books [OF t a(1) sid] nested_tidy [OF t a(1) sid] sub [OF _ _ d] a(2) cb
        show ?thesis by (simp add: books_def ac_simps)
      qed
    qed
  qed
qed

lemma plain_no_handlers:
  "plain_graph root \<Longrightarrow> u \<in> set (all_units root) \<Longrightarrow> on_error u = None \<and> on_retry u = None"
  by (auto simp: plain_graph_def plain_unit_def unit_handlers_def map_filter_simps split: option.splits)

lemma delay_live:
  "answers_for live W \<Longrightarrow> wait_retry_delay W p a m = (e, m') \<Longrightarrow> live (en_world m') = live (en_world m)"
  by (auto simp: wait_retry_delay_def answers_for_def split: option.splits if_splits prod.splits)
    (metis snd_conv)+

lemma books_attempt_loop:
  assumes p: "plain_graph root" and u: "u \<in> set (all_units root)" and W: "answers_for live W"
    and k: "keeps_books live (node_ids root) (set (children_of u)) rec"
  shows "tidy (node_ids root) st \<Longrightarrow>
     attempt_loop k W root rec pol u ps fr n a e st m = (oc, st', m') \<Longrightarrow> settled oc \<Longrightarrow>
     books live (node_ids root) st m st' m'"
proof (induction n arbitrary: a e st m)
  case 0
  with plain_no_handlers [OF p u] show ?case by (simp add: resolve_failure_def books_refl)
next
  case (Suc n)
  obtain d m1 where d: "wait_retry_delay W pol (int a) m = (d, m1)" by fastforce
  have bd: "books live (node_ids root) st m st m1"
    using delay_live [OF W d] Suc.prems(1) by (simp add: books_def)
  show ?case
  proof (cases d)
    case (Some oc1)
    with Suc.prems d bd show ?thesis by simp
  next
    case None
    obtain oc1 st1 m2 where x: "unit_execute k W root rec u st ps fr m1 = (oc1, st1, m2)"
      by (metis prod_cases3)
    show ?thesis
    proof (cases "settled oc1")
      case False
      with Suc.prems d None x show ?thesis by (cases oc1) auto
    next
      case True
      note b = books_trans [OF bd books_unit_execute [OF p u W k Suc.prems(1) x True]]
      have "(\<exists>oc2. attempt_loop k W root rec pol u ps fr (Suc n) a e st m = (oc2, st1, m2))
          \<or> (\<exists>err. attempt_loop k W root rec pol u ps fr (Suc n) a e st m
                 = attempt_loop k W root rec pol u ps fr n (Suc a) (Some err) st1 m2)"
        using d None x True plain_no_handlers [OF p u]
        by (cases oc1) (auto simp: gate_retry_def simp del: attempt_loop.simps(1))
      with Suc.prems(2) consider "st' = st1" "m' = m2"
        | err where "attempt_loop k W root rec pol u ps fr n (Suc a) (Some err) st1 m2 = (oc, st', m')"
        by auto
      then show ?thesis
      proof cases
        case 1
        with b show ?thesis by simp
      next
        case 2
        from Suc.IH [OF books_tidy [OF b] 2 Suc.prems(3)] b show ?thesis by (blast intro: books_trans)
      qed
    qed
  qed
qed

lemma books_dispatch:
  assumes p: "plain_graph root" and W: "answers_for live W"
  shows "keeps_books live (node_ids root) (set (all_units root)) (dispatch n k W root)"
proof (induction n)
  case 0
  then show ?case by (simp add: keeps_books_def)
next
  case (Suc n)
  show ?case
    unfolding keeps_books_def
  proof (intro ballI allI impI)
    fix u st ps fr m oc st' m'
    assume u: "u \<in> set (all_units root)" and t: "tidy (node_ids root) st"
      and x: "dispatch (Suc n) k W root u st ps fr m = (oc, st', m')" and oc: "settled oc"
    have "keeps_books live (node_ids root) (set (children_of u)) (dispatch n k W root)"
      using Suc.IH all_units_child [OF u] unfolding keeps_books_def by blast
    from books_attempt_loop [OF p u W this t _ oc] x
    show "books live (node_ids root) st m st' m'"
      by (simp add: dispatch_with_policy_def Let_def)
  qed
qed

text \<open>C9: a dispatch that ends in a result or an error, a pause or a stop included, leaves on the recovery
  stack a record of every effect it leaves in the world and of no other: what stands after it, less what
  stood before, is what the stack owes after, less what it owed before, through retries, adopted scopes,
  gathers and failing actions. Assumed, as the definitions named here say: a graph of distinct ids whose
  units are bound, carry no handlers and do not poll (plain_graph); a stack whose receipts and nested
  stacks belong to the graph's nodes (tidy); and an environment that answers for its effects
  (answers_for): an action, also a failing one, leaves what its compensator owes, an undo takes that back
  or changes nothing, and argument coercion, minting, claim probes and type conflicts do not fail. Outside
  these the code can lose effects: a refused claim drops the adopted stack (subgraph.go:253), a handler's
  or a poll's effects are not recorded; both are findings.\<close>

theorem dispatch_keeps_the_books:
  assumes "answers_for live W" and "plain_graph root" and "u \<in> set (all_units root)"
    and "tidy (node_ids root) st"
    and "dispatch n k W root u st ps fr m = (oc, st', m')" and "settled oc"
  shows "live (en_world m') + owed st = live (en_world m) + owed st' \<and> tidy (node_ids root) st'"
  using keeps_booksD [OF books_dispatch [OF assms(2,1)] assms(3,5,4,6)] by (simp add: books_def)


lemma demo_answers: "answers_for (\<lambda>w. mset (snd w)) demo_world"
  by (auto simp: answers_for_def demo_world_def demo_leaf_def demo_undo_def Let_def cv_owed_def
      new_receipt_def split: if_splits)

definition demo_pair :: exec_unit where
  "demo_pair = demo_subgraph ''r'' [demo_node ''a'' ''demo.ok'', demo_node ''b'' ''demo.fail'']"

lemma demo_pair_plain: "plain_graph demo_pair"
proof -
  have "all_units demo_pair = [demo_pair, demo_node ''a'' ''demo.ok'', demo_node ''b'' ''demo.fail'']"
    by (simp add: demo_pair_def demo_subgraph_def demo_node_def)
  then show ?thesis
    by (auto simp: plain_graph_def graph_ids_def plain_unit_def node_ids_def unit_handlers_def
        map_filter_simps gather_iteration_id_def compensable_flow_def
        demo_pair_def demo_subgraph_def demo_node_def demo_meta_def unit_id_def)
qed

lemma dispatch_keeps_the_books_witness:
  "let (oc, st, m) = dispatch 2 0 demo_world demo_pair demo_pair new_recovery_stack [] None demo_start
   in snd (en_world m) = [VStr ''a''] \<and> owed st = {#VStr ''a''#}"
proof -
  obtain oc st m where x:
    "dispatch 2 0 demo_world demo_pair demo_pair new_recovery_stack [] None demo_start = (oc, st, m)"
    by (metis prod_cases3)
  have "(case dispatch 2 0 demo_world demo_pair demo_pair new_recovery_stack [] None demo_start of
      (oc, st, m) \<Rightarrow> settled oc \<and> snd (en_world m) = [VStr ''a''])"
    by code_simp
  then have "settled oc" "snd (en_world m) = [VStr ''a'']" by (simp_all only: x prod.case)
  moreover from this dispatch_keeps_the_books [OF demo_answers demo_pair_plain all_units_self _ x]
  have "mset (snd (en_world m)) = mset (snd (en_world demo_start)) + owed st" by simp
  moreover have "en_world demo_start = ([], [])" by code_simp
  ultimately show ?thesis by (simp add: x)
qed

end
