(* ===== verification/Runs.thy ===== *)
theory Runs
  imports Books
begin

text \<open>
  Whole runs: how a run ends, that it ends, and that what it leaves in the world is what its
  recovery stack records, a failed run nothing at all.
\<close>

section \<open>The end of a run\<close>


lemma status_emit [simp]: "en_status (emit_event k u err m) = en_status m"
  by (simp add: emit_event_def)

lemma status_set [simp]:
  "en_status (set_status ph c r msg m) = \<lparr>st_phase = ph, st_condition = c, st_reason = r, st_message = msg\<rparr>"
  "en_world (set_status ph c r msg m) = en_world m"
  "en_status (set_phase ph m) = (en_status m)\<lparr>st_phase := ph\<rparr>"
  "en_world (set_phase ph m) = en_world m"
  by (simp_all add: set_status_def set_phase_def)

definition preflight_failed :: "run_status \<Rightarrow> bool" where
  "preflight_failed st \<longleftrightarrow>
     st_phase st = Stopped \<and> st_condition st = ExecutionFailed \<and> st_reason st = ReasonPreflightFailed"





section \<open>The shape of a run\<close>

definition startable :: "'w executor \<Rightarrow> bool" where
  "startable e \<longleftrightarrow> st_phase (en_status (ex_engine e)) \<in> {Preparing, Paused}"

abbreviation ex_world :: "'w executor \<Rightarrow> 'w" where
  "ex_world e \<equiv> en_world (ex_engine e)"

abbreviation ex_status :: "'w executor \<Rightarrow> run_status" where
  "ex_status e \<equiv> en_status (ex_engine e)"

text \<open>What the preflight of a run makes of the executor's stack and world, step by step.\<close>

inductive reached :: "'w session_ops \<Rightarrow> 'w executor \<Rightarrow> rstack \<Rightarrow> 'w \<Rightarrow> bool" for S e where
  reached_start: "reached S e (ex_stack e) (ex_world e)"
| reached_build: "reached S e st w \<Longrightarrow> build_environment S w = (err, w') \<Longrightarrow> reached S e st w'"
| reached_rehydrate: "reached S e st w \<Longrightarrow> rehydrate_ledger S w = (err, w') \<Longrightarrow> reached S e st w'"
| reached_rearm: "\<lbrakk>reached S e st w; st_phase (ex_status e) = Paused; rearm_stack S st w = (err, st', w')\<rbrakk>
     \<Longrightarrow> reached S e st' w'"

lemma prepare_resume_reached:
  assumes "prepare_resume S st m = (pe, st', m')" and "reached S e st (en_world m)"
    and "st_phase (ex_status e) = Paused"
  shows "reached S e st' (en_world m') \<and> (pe \<noteq> None \<longrightarrow> preflight_failed (en_status m'))"
  using assms reached_rehydrate [OF assms(2)] reached_rearm [OF _ assms(3)]
  by (auto simp: prepare_resume_def preflight_failed_def split: prod.splits option.splits)

lemma bind_never_ok: "bind_variables W S root caller m \<noteq> Inl (Ok v)"
  by (auto simp: bind_variables_def split: option.splits sum.splits)

text \<open>Where a dispatch starts: a fresh executor's on a new stack, a paused one's on its own.\<close>

definition dispatched_from :: "'w session_ops \<Rightarrow> 'w executor \<Rightarrow> rstack \<Rightarrow> 'w engine \<Rightarrow> bool" where
  "dispatched_from S e st m \<longleftrightarrow>
     (if st_phase (ex_status e) = Paused then reached S e st (en_world m)
      else st = new_recovery_stack \<and> reached S e (ex_stack e) (en_world m))"

lemma run_shape:
  assumes e: "startable e" and r: "run n k W S root caller e = (oc, e')" and oc: "settled oc"
  shows "(\<exists>err. oc = Fail err) \<and> preflight_failed (ex_status e')
      \<and> reached S e (ex_stack e') (ex_world e')
    \<or> (\<exists>st fr m. dispatched_from S e st m
         \<and> start_dispatch n k W S root st fr m = (oc, ex_stack e', ex_engine e'))"
proof -
  let ?m = "ex_engine e"
  obtain be w where b: "build_environment S (en_world ?m) = (be, w)" by fastforce
  have built: "reached S e (ex_stack e) w" by (rule reached_build [OF reached_start b])
  have used: "\<not> (st_phase (en_status ?m) \<noteq> Preparing \<and> \<not> st_phase (en_status ?m) = Paused)"
    using e by (auto simp: startable_def)
  note r' = r [unfolded run_def Let_def if_not_P [OF used]]
  show ?thesis
  proof (cases "has_catalog S \<and> be = None")
    case False
    with r' b built reached_start [of S e] show ?thesis
      by (auto simp: preflight_failed_def split: if_splits)
  next
    case True
    let ?m1 = "?m\<lparr>en_world := w\<rparr>"
    show ?thesis
    proof (cases "st_phase (en_status ?m) = Paused")
      case paused: True
      obtain pe st m2 where p: "prepare_resume S (ex_stack e) ?m1 = (pe, st, m2)" by (metis prod_cases3)
      with prepare_resume_reached [OF p] built paused
      have pl: "reached S e st (en_world m2)" "pe \<noteq> None \<longrightarrow> preflight_failed (en_status m2)" by simp_all
      show ?thesis
      proof (cases pe)
        case None
        obtain oc1 st1 m3 where d: "start_dispatch n k W S root st (ex_variables e) m2 = (oc1, st1, m3)"
          by (metis prod_cases3)
        with r' True b paused p None have "oc1 = oc" "ex_engine e' = m3" "ex_stack e' = st1" by auto
        moreover have "dispatched_from S e st m2" using pl paused by (simp add: dispatched_from_def)
        ultimately show ?thesis using d by blast
      next
        case (Some err)
        with r' True b paused p have "oc = Fail err" "ex_engine e' = m2" "ex_stack e' = st" by auto
        with pl Some show ?thesis by simp
      qed
    next
      case fresh: False
      show ?thesis
      proof (cases "bind_variables W S root caller ?m1")
        case (Inl oc1)
        with r' True b fresh built oc bind_never_ok [of W S root caller ?m1] show ?thesis
          by (cases oc1) (auto simp: preflight_failed_def)
      next
        case (Inr fr)
        obtain oc1 st1 m3 where d: "start_dispatch n k W S root new_recovery_stack fr ?m1 = (oc1, st1, m3)"
          by (metis prod_cases3)
        with r' True b fresh Inr have "oc1 = oc" "ex_engine e' = m3" "ex_stack e' = st1" by auto
        moreover have "dispatched_from S e new_recovery_stack ?m1"
          using built fresh by (simp add: dispatched_from_def)
        ultimately show ?thesis using d by blast
      qed
    qed
  qed
qed

section \<open>How a run ends\<close>



text \<open>C12: a run comes to an end: on a graph told apart by ids, accepted by the edge validation and
  without a unit that polls, a depth that reaches the graph's height never runs out, whatever
  the providers, the clients and the handlers do.\<close>

theorem run_terminates:
  assumes "runs_out W root" and "height root \<le> n"
  shows "fst (run n k W S root caller e) \<noteq> OutOfFuel"
proof -
  have d: "fst (start_dispatch n k W S root st fr m) \<noteq> OutOfFuel" for st fr m
  proof -
    obtain oc st' m' where x: "dispatch n k W root root st [] fr
        (emit_event EventPhaseChanged [] None
           (set_phase Running (m\<lparr>en_world := bind_pending S (en_world m)\<rparr>))) = (oc, st', m')"
      by (metis prod_cases3)
    have "oc \<noteq> OutOfFuel"
      using agreeD(2) [OF agree_dispatch [OF assms(1) all_units_self assms(2)]] x by blast
    then show ?thesis
      by (cases oc) (auto simp: start_dispatch_def Let_def x finish_run_def split: prod.splits)
  qed
  show ?thesis
    unfolding run_def Let_def
    using d by (auto split: prod.splits option.splits sum.splits outcome.splits simp: bind_variables_def)
      (metis fst_conv)+
qed

section \<open>What a run leaves behind\<close>

definition session_answers ::
  "('w \<Rightarrow> gvalue multiset) \<Rightarrow> string set \<Rightarrow> 'w session_ops \<Rightarrow> bool" where
  "session_answers live N S \<longleftrightarrow>
     (\<forall>w e w'. build_environment S w = (e, w') \<longrightarrow> live w' = live w)
     \<and> (\<forall>w e w'. rehydrate_ledger S w = (e, w') \<longrightarrow> live w' = live w)
     \<and> (\<forall>s w e s' w'. rearm_stack S s w = (e, s', w') \<longrightarrow>
          live w' = live w \<and> owed s' = owed s \<and> (tidy N s \<longrightarrow> tidy N s'))
     \<and> (\<forall>w. live (bind_pending S w) = live w)"

lemma reached_books:
  assumes "session_answers live N S"
  shows "reached S e st w \<Longrightarrow>
     live w = live (ex_world e) \<and> owed st = owed (ex_stack e) \<and> (tidy N (ex_stack e) \<longrightarrow> tidy N st)
     \<and> (st_phase (ex_status e) \<noteq> Paused \<longrightarrow> st = ex_stack e)"
  by (induction rule: reached.induct) (use assms in \<open>auto simp: session_answers_def\<close>)

lemma undo_all_live:
  assumes "answers_for live W"
  shows "undo_all (undo W) rs w = (w', log) \<Longrightarrow> log_errors log = [] \<Longrightarrow> live w' = live w - owed_of rs"
proof (induction rs arbitrary: w log)
  case (Cons r rs)
  obtain w1 err where u: "undo W r w = (w1, err)" by fastforce
  obtain w2 log2 where l: "undo_all (undo W) rs w1 = (w2, log2)" by fastforce
  from Cons.prems u l have e: "err = None" "log_errors log2 = []" "w' = w2" by (cases err; auto)+
  have "live w1 = live w - {#r_payload r#}" using assms u e(1) by (simp add: answers_for_def)
  with Cons.IH [of w1 log2] l e show ?case by (simp add: owed_of_def)
qed (simp add: owed_of_def)

lemma unwind_live:
  assumes W: "answers_for live W" and u: "unwind (undo W) st w = (st', w', None)"
    and b: "live w = base + owed st"
  shows "live w' = base \<and> entries st' = []"
proof -
  obtain wr log where l: "undo_all (undo W) (rev (saga st)) w = (wr, log)" by fastforce
  from unwind_parts(1) [OF u] l have "w' = wr" "log_errors log = []" by (auto simp: unwound_def)
  with undo_all_live [OF W l] have "live w' = live w - owed_of (rev (saga st))" by simp
  moreover have "owed_of (rev (saga st)) = owed st" by (simp add: owed_def owed_of_def del: owed_saga)
  moreover have "entries st' = []"
    using u by (cases st) (auto simp: join_errors_def split: prod.splits if_splits)
  ultimately show ?thesis using b by simp
qed

lemma finish_books:
  assumes W: "answers_for live W" and x: "finish_run W (oc1, st1, m1) = (oc, st', m')"
    and oc: "settled oc" and b: "live (en_world m1) = base + owed st1"
    and c: "st_condition (en_status m') \<noteq> CompensationFailed"
  shows "live (en_world m') = base + owed st' \<and> (st_phase (en_status m') = Stopped \<longrightarrow> entries st' = [])"
proof (cases oc1)
  case (Fail err)
  show ?thesis
  proof (cases "err_is ErrPaused err")
    case False
    obtain st2 w2 ue where u: "unwind (undo W) st1 (en_world m1) = (st2, w2, ue)" by (metis prod_cases3)
    from x Fail False u c have "ue = None" "st' = st2" "en_world m' = w2"
      by (auto simp: finish_run_def stop_and_unwind_def fail_and_unwind_def Let_def
          split: option.splits if_splits)
    with unwind_live [OF W _ b, of st2 w2] u show ?thesis by (simp add: owed_eq)
  qed (use x Fail b in \<open>auto simp: finish_run_def\<close>)
qed (use x oc b in \<open>auto simp: finish_run_def Let_def\<close>)

text \<open>C8: an executor whose recovery stack records what a run has done so far, and whose run ends in a
  result, a pause or an error without a failed compensation, records it still: what stands in the world
  beyond what stood before the first run is what the stack owes. A run that stops after it dispatched
  owes nothing: the world is back to what it was, however far the run came, through any number of pauses
  and resumptions. Assumed, as for a dispatch (Books): a graph of distinct ids without handlers or polling
  (plain_graph); a tidy stack, empty in a new executor; an environment that answers for its effects
  (answers_for), in which argument coercion, minting, claim probes and type conflicts do not fail; and a
  session whose build, rehydration, re-arming and binding change no effect and no debt (session_answers).
  The conditions are needed: refused claims drop the adopted stack (subgraph.go:253), and a handler's or
  a poll's effects are not recorded.\<close>

theorem run_keeps_the_books:
  assumes "answers_for live W" and "session_answers live (node_ids root) S" and "plain_graph root"
    and "startable e" and "st_phase (ex_status e) = Preparing \<longrightarrow> entries (ex_stack e) = []"
    and "tidy (node_ids root) (ex_stack e)" and "live (ex_world e) = base + owed (ex_stack e)"
    and "run n k W S root caller e = (oc, e')" and "settled oc"
    and "st_condition (ex_status e') \<noteq> CompensationFailed"
  shows "live (ex_world e') = base + owed (ex_stack e')
    \<and> (st_phase (ex_status e') = Stopped \<and> \<not> preflight_failed (ex_status e')
         \<longrightarrow> entries (ex_stack e') = [] \<and> live (ex_world e') = base)"
proof -
  note rb = reached_books [OF assms(2)]
  from run_shape [OF assms(4,8,9)] consider
    "preflight_failed (ex_status e')" "reached S e (ex_stack e') (ex_world e')"
    | st fr m where "dispatched_from S e st m"
      "start_dispatch n k W S root st fr m = (oc, ex_stack e', ex_engine e')" by blast
  then show ?thesis
  proof cases
    case 1
    with rb [OF 1(2)] assms(7) show ?thesis by simp
  next
    case 2
    have st: "live (en_world m) = base + owed st \<and> tidy (node_ids root) st"
    proof (cases "st_phase (ex_status e) = Paused")
      case True
      with 2(1) have "reached S e st (en_world m)" by (simp add: dispatched_from_def)
      from rb [OF this] assms(6,7) show ?thesis by simp
    next
      case False
      with 2(1) have r: "reached S e (ex_stack e) (en_world m)" and n: "st = new_recovery_stack"
        by (simp_all add: dispatched_from_def)
      have "st_phase (ex_status e) = Preparing" using False assms(4) by (simp add: startable_def)
      then have "owed (ex_stack e) = {#}" using assms(5) by (simp add: owed_eq)
      with rb [OF r] assms(7) n show ?thesis by simp
    qed
    let ?m = "emit_event EventPhaseChanged [] None
        (set_phase Running (m\<lparr>en_world := bind_pending S (en_world m)\<rparr>))"
    have bp: "live (en_world ?m) = live (en_world m)"
      using assms(2) by (simp add: session_answers_def)
    obtain oc1 st1 m1 where d: "dispatch n k W root root st [] fr ?m = (oc1, st1, m1)"
      by (metis prod_cases3)
    with 2(2) have f: "finish_run W (oc1, st1, m1) = (oc, ex_stack e', ex_engine e')"
      by (simp add: start_dispatch_def Let_def)
    then have s: "settled oc1" using assms(9) by (cases oc1) (auto simp: finish_run_def)
    have "live (en_world m1) + owed st = live (en_world ?m) + owed st1"
      using keeps_booksD [OF books_dispatch [OF assms(3,1)] all_units_self d conjunct2 [OF st] s]
      by (simp only: books_def)
    then have "live (en_world m1) = base + owed st1" using st bp by (simp add: ac_simps)
    from finish_books [OF assms(1) f assms(9) this assms(10)] show ?thesis by (auto simp: owed_eq)
  qed
qed

lemma demo_session_answers: "session_answers (\<lambda>w. mset (snd w)) N demo_session"
  by (auto simp: session_answers_def demo_session_def)

lemma run_keeps_the_books_witness:
  "let e' = snd (run 2 0 demo_world demo_session demo_pair Map.empty demo_executor)
   in fst (ex_world e') = [''a'', ''b'', ''undo a''] \<and> snd (ex_world e') = []"
proof -
  obtain oc e' where x: "run 2 0 demo_world demo_session demo_pair Map.empty demo_executor = (oc, e')"
    by fastforce
  have "(case run 2 0 demo_world demo_session demo_pair Map.empty demo_executor of (oc, e') \<Rightarrow>
      settled oc \<and> fst (ex_world e') = [''a'', ''b'', ''undo a''] \<and> st_phase (ex_status e') = Stopped
      \<and> st_condition (ex_status e') = ExecutionFailed \<and> st_reason (ex_status e') = ReasonActionFailed)"
    by code_simp
  then have r: "settled oc" "fst (ex_world e') = [''a'', ''b'', ''undo a'']" "st_phase (ex_status e') = Stopped"
    "st_condition (ex_status e') = ExecutionFailed" "st_reason (ex_status e') = ReasonActionFailed"
    by (simp_all only: x prod.case)
  have "startable demo_executor" "entries (ex_stack demo_executor) = []" "ex_world demo_executor = ([], [])"
    "tidy (node_ids demo_pair) (ex_stack demo_executor)" "owed (ex_stack demo_executor) = {#}"
    by (simp_all add: demo_executor_def new_executor_def startable_def new_engine_def initial_status_def
        new_recovery_stack_def owed_eq)
  with run_keeps_the_books [OF demo_answers demo_session_answers demo_pair_plain _ _ _ _ x r(1), of "{#}"] r
  have "mset (snd (ex_world e')) = {#}" by (simp add: preflight_failed_def)
  with r(2) show ?thesis by (simp add: x)
qed



lemma run_terminates_witness:
  "fst (run 2 0 demo_world demo_session demo_pair Map.empty demo_executor) \<noteq> OutOfFuel"
proof (rule run_terminates)
  have "self_resolving demo_pair" "check_edges demo_pair = []" "height demo_pair = 2"
    by code_simp+
  moreover have "all_units demo_pair = [demo_pair, demo_node ''a'' ''demo.ok'', demo_node ''b'' ''demo.fail'']"
    by (simp add: demo_pair_def demo_subgraph_def demo_node_def)
  ultimately show "runs_out demo_world demo_pair" and "height demo_pair \<le> 2"
    by (auto simp: runs_out_def bound_action_def demo_pair_def demo_subgraph_def demo_node_def demo_meta_def)
qed

end
