(* ===== verification/Resume.thy ===== *)
theory Resume
  imports Runs
begin

text \<open>
  Traces and resumption (\<open>pkg/op/graph_executor.go\<close>, \<open>trace.go\<close>): the trace an executor
  projects, the executor rebuilt from it, the resumed unwind of a failed compensation, and what
  lets a resumed run go on where it was: a unit that completed is found on the recovery stack
  and not dispatched again.
\<close>

section \<open>Traces\<close>

text \<open>The ledger snapshot, the integrity hash and the signature are not modelled; the graph's
  checksum is an argument.\<close>

record trace =
  tc_graph_checksum :: string
  tc_run_status :: run_status
  tc_transitions :: "transition list"
  tc_stack :: rstack
  tc_variables :: frame

definition trace_of :: "(exec_unit \<Rightarrow> string) \<Rightarrow> exec_unit \<Rightarrow> 'w executor \<Rightarrow> trace" where
  "trace_of checksum root e =
     \<lparr>tc_graph_checksum = checksum root, tc_run_status = en_status (ex_engine e),
      tc_transitions = en_journal (ex_engine e), tc_stack = ex_stack e, tc_variables = ex_variables e\<rparr>"

definition resume_executor ::
  "(exec_unit \<Rightarrow> string) \<Rightarrow> exec_unit \<Rightarrow> trace \<Rightarrow> control_plane \<Rightarrow> 'w \<Rightarrow> (gerror, 'w executor) result"
where
  "resume_executor checksum root t p w =
     (if checksum root \<noteq> tc_graph_checksum t then
        Inl (ENew (''ResumeExecutor: graph checksum mismatch: trace='' @ quote (tc_graph_checksum t)
               @ '' graph='' @ quote (checksum root)))
      else Inr \<lparr>ex_engine = (new_engine p w)\<lparr>en_status := tc_run_status t, en_journal := tc_transitions t\<rparr>,
                ex_stack = tc_stack t, ex_variables = tc_variables t\<rparr>)"

section \<open>Commands of the executor\<close>

definition pause_executor :: "'w executor \<Rightarrow> gerror option \<times> 'w executor" where
  "pause_executor e =
     (if st_phase (ex_status e) \<noteq> Running
      then (Some (ENew (''Pause: executor is not running (status: '' @ run_status_string (ex_status e) @ '')'')), e)
      else (None, e\<lparr>ex_engine := (ex_engine e)\<lparr>en_control := request ControlPause (en_control (ex_engine e))\<rparr>\<rparr>))"

definition stop_executor :: "'w executor \<Rightarrow> gerror option \<times> 'w executor" where
  "stop_executor e =
     (if st_phase (ex_status e) \<noteq> Running
      then (Some (ENew (''Stop: executor is not running (status: '' @ run_status_string (ex_status e) @ '')'')), e)
      else (None, e\<lparr>ex_engine := (ex_engine e)\<lparr>en_control := request ControlStop (en_control (ex_engine e))\<rparr>\<rparr>))"

section \<open>The resumed unwind\<close>

definition unwound_message :: string where
  "unwound_message = ''resumed state-checked unwind cleared the compensation failure''"

definition resume_unwind ::
  "'w world_ops \<Rightarrow> 'w session_ops \<Rightarrow> 'w executor \<Rightarrow> gerror option \<times> 'w executor"
where
  "resume_unwind W S e =
     (let m = ex_engine e; st = en_status m
      in if st_phase st \<noteq> Stopped \<or> st_condition st \<noteq> CompensationFailed
         then (Some (ENew (''ResumeUnwind: executor is not at stopped '' @ [CHR 0xC3, CHR 0x97]
                 @ '' compensation_failed (status: ''
                 @ run_status_string st @ '')'')), e)
         else if \<not> has_catalog S
         then (Some (ENew (''ResumeUnwind: graph carries no resource catalog '' @ [CHR 0xE2, CHR 0x80, CHR 0x94]
                 @ '' mandatory even when empty'')), e)
         else
           (case build_environment S (en_world m) of
              (Some err, w) \<Rightarrow>
                (Some (wrapf ''ResumeUnwind: build runtime environment: '' err),
                 e\<lparr>ex_engine := m\<lparr>en_world := w\<rparr>\<rparr>)
            | (None, w) \<Rightarrow>
                (case rehydrate_ledger S w of
                   (Some err, w1) \<Rightarrow>
                     (Some (wrapf ''ResumeUnwind: rehydrate resource ledger: '' err),
                      e\<lparr>ex_engine := m\<lparr>en_world := w1\<rparr>\<rparr>)
                 | (None, w1) \<Rightarrow>
                     (case rearm_stack S (ex_stack e) w1 of
                        (Some err, stack, w2) \<Rightarrow>
                          (Some (wrapf ''ResumeUnwind: re-arm recovery stack: '' err),
                           e\<lparr>ex_engine := m\<lparr>en_world := w2\<rparr>, ex_stack := stack\<rparr>)
                      | (None, stack, w2) \<Rightarrow>
                          (case unwind (undo W) stack w2 of
                             (stack', w3, Some err) \<Rightarrow>
                               (Some (wrapf ''ResumeUnwind: '' err),
                                e\<lparr>ex_engine := set_status Stopped CompensationFailed ReasonCompensationFailed
                                                (error_text err) (m\<lparr>en_world := w3\<rparr>),
                                  ex_stack := stack'\<rparr>)
                           | (stack', w3, None) \<Rightarrow>
                               (None,
                                e\<lparr>ex_engine :=
                                    (set_status Stopped ExecutionFailed ReasonUnwound unwound_message
                                       (m\<lparr>en_world := w3\<rparr>))
                                    \<lparr>en_journal := en_journal m @
                                       [\<lparr>tr_phase = Stopped, tr_condition = ExecutionFailed, tr_unit_id = [],
                                         tr_reason = ReasonUnwound, tr_message = unwound_message\<rparr>]\<rparr>,
                                  ex_stack := stack'\<rparr>))))))"

text \<open>An executor rebuilt from a trace on the graph the trace was taken of carries the trace's
  status, journal, recovery stack and variables, and projects the same trace again; on any other
  graph checksum it is refused.\<close>

theorem resume_restores_the_trace:
  "case resume_executor checksum root t p w of
     Inr e \<Rightarrow> tc_graph_checksum t = checksum root \<and> trace_of checksum root e = t
       \<and> en_pending (ex_engine e) = ReactionContinue \<and> ex_world e = w
   | Inl err \<Rightarrow> tc_graph_checksum t \<noteq> checksum root"
  by (auto simp: resume_executor_def trace_of_def new_engine_def)

lemma session_no_variables:
  "\<lbrakk>startable e; run n k W S root caller e = (oc, e'); st_phase (ex_status e') \<in> {Paused, Completed};
    settled oc\<rbrakk> \<Longrightarrow> ex_variables e' = None"
  by (auto simp: run_def startable_def Let_def set_status_def split: if_splits prod.splits option.splits
      sum.splits outcome.splits)

text \<open>What a finished run leaves for its trace has no variables: the trace taken of a paused
  executor after its run carries none, so that in the run resumed from it every slot bound to a
  variable resolves to nil.\<close>

theorem paused_trace_forgets_the_variables:
  assumes "startable e" and "run n k W S root caller e = (oc, e')"
    and "st_phase (ex_status e') = Paused" and "settled oc"
    and "resume_executor checksum root (trace_of checksum root e') p w = Inr e2"
  shows "tc_variables (trace_of checksum root e') = None \<and> ex_variables e2 = None
    \<and> resolve_binding (ex_variables e2) stacks (VarBinding name field) = VNil"
proof -
  have "ex_variables e' = None" using session_no_variables [OF assms(1,2)] assms(3,4) by simp
  with assms(5) show ?thesis
    by (auto simp: trace_of_def resume_executor_def resolve_binding_def)
qed

text \<open>What the resumed unwind starts from, once the environment is built, the ledger rehydrated and the stack re-armed.\<close>

definition unwinds_from :: "'w session_ops \<Rightarrow> 'w executor \<Rightarrow> (rstack \<times> 'w) option" where
  "unwinds_from S e =
     (if \<not> has_catalog S then None
      else (case build_environment S (ex_world e) of
              (Some err, w) \<Rightarrow> None
            | (None, w) \<Rightarrow>
                (case rehydrate_ledger S w of
                   (Some err, w1) \<Rightarrow> None
                 | (None, w1) \<Rightarrow>
                     (case rearm_stack S (ex_stack e) w1 of
                        (Some err, stack, w2) \<Rightarrow> None
                      | (None, stack, w2) \<Rightarrow> Some (stack, w2)))))"

definition unwound_from :: "'w world_ops \<Rightarrow> rstack \<Rightarrow> 'w \<Rightarrow> gerror option \<Rightarrow> 'w executor \<Rightarrow> bool" where
  "unwound_from W stack w err e' \<longleftrightarrow>
     (case undo_all (undo W) (rev (saga stack)) w of
        (wr, log) \<Rightarrow>
          ex_world e' = wr \<and> (err = None \<longleftrightarrow> log_errors log = []) \<and>
          (err \<noteq> None \<longrightarrow> list_all2 keeps_entry (entries stack) (entries (ex_stack e'))) \<and>
          (\<forall>(r, x) \<in> set log. \<forall>y. x = Some y \<longrightarrow> set_compensation_error y r \<in> set (saga (ex_stack e'))))"

lemma resume_unwind_runs:
  assumes "st_phase (ex_status e) = Stopped" "st_condition (ex_status e) = CompensationFailed"
    and "unwinds_from S e = Some (stack, w)" "resume_unwind W S e = (err, e')"
  shows "\<exists>x. unwind (undo W) stack w = (ex_stack e', ex_world e', x) \<and> (err = None \<longleftrightarrow> x = None)"
  using assms
  by (auto simp: unwinds_from_def resume_unwind_def Let_def set_status_def split: if_splits prod.splits option.splits)

lemma resume_unwind_unwound:
  assumes "st_phase (ex_status e) = Stopped" "st_condition (ex_status e) = CompensationFailed"
    and "unwinds_from S e = Some (stack, w)" "resume_unwind W S e = (err, e')"
  shows "unwound_from W stack w err e'"
proof -
  obtain x where u: "unwind (undo W) stack w = (ex_stack e', ex_world e', x)" and x: "err = None \<longleftrightarrow> x = None"
    using resume_unwind_runs [OF assms] by blast
  obtain wr log where a: "undo_all (undo W) (rev (saga stack)) w = (wr, log)" by (metis surj_pair)
  have "unwound (undo W) (saga stack) w (saga (ex_stack e')) (ex_world e') (case x of None \<Rightarrow> [] | Some y \<Rightarrow> [y])"
    by (rule unwind_parts(1) [OF u])
  moreover have "err \<noteq> None \<Longrightarrow> list_all2 keeps_entry (entries stack) (entries (ex_stack e'))"
    using unwind_keeps_entries u x by (cases x) auto
  ultimately show ?thesis using x by (cases x) (auto simp: unwound_from_def unwound_def a)
qed

text \<open>C39: The resumed unwind is refused, and changes nothing, unless the run is stopped with a failed compensation. Once
  the environment is built, the ledger rehydrated and the stack re-armed, it undoes every compensable receipt of the
  stack from the last pushed to the first and fails exactly when one of them fails. Where it does not fail the run
  steps down to a failed execution, journaled, with an empty recovery stack; where it fails, or does not get that far,
  phase, condition and journal stand, and after a failed unwind every entry is still in its place and each receipt
  whose undo failed carries that error.\<close>

theorem resume_unwind_settles:
  "case resume_unwind W S e of (err, e') \<Rightarrow>
     (\<not> (st_phase (ex_status e) = Stopped \<and> st_condition (ex_status e) = CompensationFailed)
        \<longrightarrow> err \<noteq> None \<and> e' = e)
     \<and> (st_phase (ex_status e) = Stopped \<and> st_condition (ex_status e) = CompensationFailed
        \<longrightarrow> (case unwinds_from S e of
               None \<Rightarrow> err \<noteq> None
             | Some (stack, w) \<Rightarrow> unwound_from W stack w err e'))
     \<and> (err = None \<longrightarrow>
          entries (ex_stack e') = [] \<and> st_condition (ex_status e') = ExecutionFailed
          \<and> st_reason (ex_status e') = ReasonUnwound
          \<and> length (en_journal (ex_engine e')) = Suc (length (en_journal (ex_engine e))))
     \<and> (err \<noteq> None \<longrightarrow> st_phase (ex_status e') = st_phase (ex_status e)
          \<and> st_condition (ex_status e') = st_condition (ex_status e)
          \<and> en_journal (ex_engine e') = en_journal (ex_engine e))"
proof -
  obtain err e' where r: "resume_unwind W S e = (err, e')" by (metis surj_pair)
  have clean: "unwind (undo W) st w = (st', w', None) \<Longrightarrow> entries st' = []" for st st' w w'
    by (cases st) (auto simp: join_errors_def split: prod.splits if_splits)
  have "case unwinds_from S e of None \<Rightarrow> err \<noteq> None | Some (stack, w) \<Rightarrow> unwound_from W stack w err e'"
    if "st_phase (ex_status e) = Stopped" "st_condition (ex_status e) = CompensationFailed"
  proof (cases "unwinds_from S e")
    case None
    with r show ?thesis
      by (auto simp: unwinds_from_def resume_unwind_def Let_def split: if_splits prod.splits option.splits)
  next
    case (Some sw)
    then show ?thesis using resume_unwind_unwound [OF that _ r] by (cases sw) simp
  qed
  moreover have "case resume_unwind W S e of (err, e') \<Rightarrow>
     (\<not> (st_phase (ex_status e) = Stopped \<and> st_condition (ex_status e) = CompensationFailed)
        \<longrightarrow> err \<noteq> None \<and> e' = e)
     \<and> (err = None \<longrightarrow>
          entries (ex_stack e') = [] \<and> st_condition (ex_status e') = ExecutionFailed
          \<and> st_reason (ex_status e') = ReasonUnwound
          \<and> length (en_journal (ex_engine e')) = Suc (length (en_journal (ex_engine e))))
     \<and> (err \<noteq> None \<longrightarrow> st_phase (ex_status e') = st_phase (ex_status e)
          \<and> st_condition (ex_status e') = st_condition (ex_status e)
          \<and> en_journal (ex_engine e') = en_journal (ex_engine e))"
    unfolding resume_unwind_def Let_def
    by (auto simp: set_status_def split: prod.splits option.splits dest: clean)
  ultimately show ?thesis unfolding r prod.case by (intro conjI impI) (elim conjE; simp)+
qed

definition demo_stuck :: "demo_state executor" where
  "demo_stuck =
     \<lparr>ex_engine = set_status Stopped CompensationFailed ReasonCompensationFailed ''stuck''
        (new_engine new_control_plane ([], [VStr ''a''])),
      ex_stack = push (Receipt ''a'' [] [] True SelfCompensator None (Some (ENew ''stuck'')) VNil None (VStr ''a''))
        new_recovery_stack,
      ex_variables = None\<rparr>"

lemma resume_unwind_settles_witness:
  "case resume_unwind demo_world demo_session demo_stuck of (err, e') \<Rightarrow>
     err = None \<and> entries (ex_stack e') = [] \<and> ex_world e' = ([''undo a''], [])
     \<and> length (en_journal (ex_engine e')) = 1"
proof -
  obtain err e' where x: "resume_unwind demo_world demo_session demo_stuck = (err, e')" by fastforce
  have "case resume_unwind demo_world demo_session demo_stuck of (err, e') \<Rightarrow>
          err = None \<and> ex_world e' = ([''undo a''], [])" by code_simp
  then have err: "err = None" "ex_world e' = ([''undo a''], [])" by (simp_all only: x prod.case)
  moreover have "en_journal (ex_engine demo_stuck) = []"
    by (simp add: demo_stuck_def set_status_def new_engine_def)
  ultimately show ?thesis
    using resume_unwind_settles [where W = demo_world and S = demo_session and e = demo_stuck] x by simp
qed


definition demo_pausing :: "demo_state world_ops" where
  "demo_pausing = demo_world\<lparr>clients := (\<lambda>w. ([Request ControlPause], w))\<rparr>"

lemma paused_trace_forgets_the_variables_witness:
  "\<exists>e'. snd (run 2 0 demo_pausing demo_session demo_pair Map.empty demo_executor) = e'
     \<and> st_phase (ex_status e') = Paused \<and> tc_variables (trace_of (\<lambda>u. []) demo_pair e') = None"
proof -
  obtain oc e' where x: "run 2 0 demo_pausing demo_session demo_pair Map.empty demo_executor = (oc, e')"
    by fastforce
  have "(case run 2 0 demo_pausing demo_session demo_pair Map.empty demo_executor of (oc, e') \<Rightarrow>
      st_phase (ex_status e') = Paused \<and> settled oc)"
    by code_simp
  then have p: "st_phase (ex_status e') = Paused" "settled oc" by (simp_all only: x prod.case)
  have "startable demo_executor"
    by (simp add: demo_executor_def new_executor_def startable_def new_engine_def initial_status_def)
  moreover obtain e2 where "resume_executor (\<lambda>u. []) demo_pair (trace_of (\<lambda>u. []) demo_pair e')
      new_control_plane ([], []) = Inr e2"
    by (simp add: resume_executor_def trace_of_def)
  ultimately show ?thesis
    using paused_trace_forgets_the_variables [OF _ x p(1,2)] p(1) x by fastforce
qed

section \<open>What an exit records\<close>

lemma push_audit_entry:
  "push_audit_receipt W root u st ss v cv err d m = (e, st', m') \<Longrightarrow>
     \<exists>x. entries st' = entries st @ [x] \<and> stack_unit_id st' = stack_unit_id st"
  by (auto simp: push_audit_receipt_def Let_def push_def push_nested_def
      split: comp_value.splits if_splits prod.splits)

lemma join_audit_entry:
  "join_audit_stamp W root u st ss cv err d m = (e, st', m') \<Longrightarrow>
     \<exists>x. entries st' = entries st @ [x] \<and> stack_unit_id st' = stack_unit_id st"
  by (auto simp: join_audit_stamp_def split: prod.splits option.splits dest: push_audit_entry)

definition one_more :: "rstack \<Rightarrow> rstack \<Rightarrow> bool" where
  "one_more st st' \<longleftrightarrow> (\<exists>x. entries st' = entries st @ [x])"

lemma exits_one_more:
  "unbound_exit W root u kd re st m = (oc, st', m') \<Longrightarrow> one_more st st'"
  "canceled_exit W root u kd e st m = (oc, st', m') \<Longrightarrow> one_more st st'"
  "failed_exit W root u l ss cv e st m = (oc, st', m') \<Longrightarrow> one_more st st'"
  "success_exit W root u ss' cv v st m = (oc, st', m') \<Longrightarrow> one_more st st'"
  unfolding one_more_def unbound_exit_def canceled_exit_def failed_exit_def success_exit_def Let_def
  by (auto split: prod.splits option.splits dest!: join_audit_entry push_audit_entry)

lemma node_dispatch_one_more:
  "node_dispatch k W root rec u st ps fr m = (oc, st', m') \<Longrightarrow> settled oc \<Longrightarrow> one_more st st'"
  unfolding node_dispatch_def Let_def
  by (auto split: sum.splits option.splits prod.splits outcome.splits dest: exits_one_more
      dest!: join_audit_entry simp: one_more_def [of st])

lemma subgraph_dispatch_one_more:
  "subgraph_dispatch k W root rec u ch st ps fr m = (oc, st', m') \<Longrightarrow> settled oc \<Longrightarrow> one_more st st'"
  unfolding subgraph_dispatch_def Let_def
  by (auto split: sum.splits option.splits prod.splits outcome.splits dest: exits_one_more)

text \<open>An execution of a unit leaves the recovery stack as it was, when a control point stops it
  or the stack already records its completion, and otherwise adds exactly one entry to it, on
  every exit: unresolved, canceled, failed or done. Only the resumption of a subgraph takes an
  entry away, the one it goes on with.\<close>

theorem execution_records_one_entry:
  assumes "unit_execute k W root rec u st ps fr m = (oc, st', m')" and "settled oc"
  shows "st' = st
    \<or> (\<exists>x. entries st' = entries st @ [x])
    \<or> (\<exists>x prior. is_subgraph u \<and> adopt_prior_stack u st = Adopted prior (supersede (unit_id u) st)
          \<and> entries st' = entries (supersede (unit_id u) st) @ [x])"
proof -
  have a: "adopt_prior_stack u st = Adopted prior st1 \<Longrightarrow> st1 = supersede (unit_id u) st" for prior st1
    by (auto simp: adopt_prior_stack_def split: option.splits if_splits)
  show ?thesis
    using assms unfolding unit_execute_def node_execute_def subgraph_execute_def
    by (auto split: if_splits option.splits prod.splits adoption.splits
        dest: exits_one_more(2) node_dispatch_one_more subgraph_dispatch_one_more a
        simp: one_more_def [symmetric])
qed


lemma execution_records_one_entry_witness:
  "let a = demo_node ''a'' ''demo.ok'';
       st' = fst (snd (unit_execute 0 demo_world a (dispatch 0 0 demo_world a) a new_recovery_stack [] None demo_start))
   in \<exists>x. entries st' = [x]"
proof -
  let ?a = "demo_node ''a'' ''demo.ok''"
  let ?x = "unit_execute 0 demo_world ?a (dispatch 0 0 demo_world ?a) ?a new_recovery_stack [] None demo_start"
  obtain oc st' m' where x: "?x = (oc, st', m')" by (metis prod_cases3)
  have "settled (fst ?x) \<and> entries (fst (snd ?x)) \<noteq> []" by code_simp
  then have "settled oc \<and> entries st' \<noteq> []" unfolding x fst_conv snd_conv .
  then have s: "settled oc" "entries st' \<noteq> []" by blast+
  have "\<not> is_subgraph ?a" by (simp add: demo_node_def)
  with execution_records_one_entry [OF x s(1)] s(2) have "\<exists>x. entries st' = [x]"
    by (auto simp: new_recovery_stack_def)
  then show ?thesis unfolding Let_def x fst_conv snd_conv .
qed

section \<open>Resumption\<close>

text \<open>Providers that leave their receipts to the framework: what a node's action hands back is no
  stack and no receipt that is already committed.\<close>

definition plain_receipts :: "'w world_ops \<Rightarrow> bool" where
  "plain_receipts W \<longleftrightarrow>
     (\<forall>a i ss fr w v cv e w'. do_leaf W a i ss fr w = (LeafReturn v cv e, w') \<longrightarrow>
        (\<forall>s. cv \<noteq> CvStack s) \<and> (\<forall>r. cv = CvReceipt r \<longrightarrow> \<not> r_committed r))"

text \<open>Units whose completion the resume checks look for: nodes bound to anything but a combinator
  and subgraphs bound to one.\<close>

definition resumable :: "exec_unit \<Rightarrow> bool" where
  "resumable u \<longleftrightarrow>
     unit_id u \<noteq> []
     \<and> (case m_action (meta u) of
          None \<Rightarrow> False | Some a \<Rightarrow> is_subgraph u = (act_name a \<in> set compensable_flow))"

definition recorded :: "exec_unit \<Rightarrow> gvalue \<Rightarrow> rstack \<Rightarrow> bool" where
  "recorded u v st \<longleftrightarrow>
     (if is_subgraph u then adopt_prior_stack u st = Pruned v
      else (\<exists>r. receipt_by_unit_id (unit_id u) st = Some r \<and> r_err r = None \<and> r_result r = v))"

lemma recorded_replays:
  assumes "recorded u v st" and "ctx_err W (en_world m) = None" and "control_point W m = (None, m1)"
  shows "unit_execute k W root rec u st ps fr m = (Ok v, st, m1)"
  using assms by (auto simp: recorded_def unit_execute_def node_execute_def subgraph_execute_def
      split: if_splits)

lemma committed_receipt:
  assumes "push_audit_receipt W root u st (Some ss) v cv None True m = (None, st', m')"
    and "\<forall>s. cv \<noteq> CvStack s" and "\<forall>r. cv = CvReceipt r \<longrightarrow> \<not> r_committed r" and "unit_id u \<noteq> []"
  shows "\<exists>r. receipt_by_unit_id (unit_id u) st' = Some r \<and> r_err r = None \<and> r_result r = v"
proof -
  have sel: "r_committed (set_slots ss r) = r_committed r" for ss r by (cases r) simp
  show ?thesis
    using assms
    by (cases cv) (auto simp: push_audit_receipt_def Let_def sel new_receipt_def commit_def
        split: prod.splits if_splits)
qed

lemma flow_ok_stack:
  assumes "flow_method k W root rec n i ss cs ps fr m = (Ok v, cv, m')" and "n \<in> set compensable_flow"
  shows "\<exists>s. cv = CvStack s"
proof -
  have c: "combinator_result who r = (Ok v, cv, m') \<Longrightarrow> \<exists>s. cv = CvStack s" for who r
    by (cases r; cases "fst r") (auto simp: combinator_result_def)
  have w: "wait_loop k W rec s i t p l cs ps fr m = (Ok v, cv, m') \<Longrightarrow> \<exists>s. cv = CvStack s" for s t p l cs fr m k
    by (induction k arbitrary: p l cs m)
      (auto simp: Let_def poll_failure_def split: prod.splits wait_event.splits poll_result.splits outcome.splits)
  show ?thesis
    using assms
    by (auto simp: flow_method_def compensable_flow_def flow_choose_def flow_subgraph_def flow_gather_def
        flow_wait_until_def Let_def poll_failure_def simp del: run_iterations.simps
        split: if_splits sum.splits option.splits prod.splits list.splits run_failure.splits
          poll_result.splits outcome.splits dest: c w)
qed

lemma success_records:
  assumes "success_exit W root u ss cv v st m = (Ok v', st', m')"
    and "if is_subgraph u then \<exists>s. cv = CvStack s
         else (\<forall>s. cv \<noteq> CvStack s) \<and> (\<forall>r. cv = CvReceipt r \<longrightarrow> \<not> r_committed r)"
    and "unit_id u \<noteq> []"
  shows "recorded u v' st'"
proof -
  have ok: "push_audit_receipt W root u st (Some ss) v cv None True m = (None, st', m') \<and> v' = v"
    using assms(1) by (auto simp: success_exit_def framework_failure_def split: prod.splits option.splits)
  show ?thesis
  proof (cases "is_subgraph u")
    case True
    with assms(2) obtain s where "cv = CvStack s" by auto
    with ok True assms(3) show ?thesis
      by (auto simp: recorded_def push_audit_receipt_def adopt_prior_stack_def)
  next
    case False
    with ok assms(2) committed_receipt [OF _ _ _ assms(3)] show ?thesis
      by (auto simp: recorded_def)
  qed
qed

lemma node_ok_records:
  assumes r: "resumable u" "\<not> is_subgraph u" and W: "plain_receipts W"
    and x: "node_dispatch k W root rec u st ps fr m = (Ok v, st', m')"
  shows "recorded u v st'"
proof -
  obtain a where a: "m_action (meta u) = Some a" "act_name a \<notin> set compensable_flow" "unit_id u \<noteq> []"
    using r by (auto simp: resumable_def split: option.splits)
  let ?ss = "resolve_slots fr (st # ps) u" and ?m = "emit_event EventPhaseChanged (unit_id u) None m"
  obtain oc cv m1 where d: "do_action k W root rec a (unit_id u) ?ss st ps fr ?m = (oc, cv, m1)"
    by (metis prod_cases3)
  with x a(1) obtain v1 where v1: "oc = Ok v1" "success_exit W root u ?ss cv v1 st m1 = (Ok v, st', m')"
    by (auto simp: node_dispatch_def bound_action_def Let_def split: outcome.splits prod.splits)
  have "(\<forall>s. cv \<noteq> CvStack s) \<and> (\<forall>r. cv = CvReceipt r \<longrightarrow> \<not> r_committed r)"
  proof (cases "act_name a \<in> set infallible_flow")
    case True
    with d v1(1) show ?thesis
      by (auto simp: do_action_def infallible_flow_def flow_method_def flow_complete_def flow_degraded_def
          flow_failed_def split: prod.splits sum.splits option.splits)
  next
    case False
    with d v1(1) a(2) obtain w where
      "do_leaf W a (unit_id u) ?ss fr (en_world ?m) = (LeafReturn v1 cv None, w)"
      by (auto simp: do_action_def split: prod.splits leaf_result.splits option.splits)
    with W show ?thesis unfolding plain_receipts_def by blast
  qed
  with v1(2) a(3) r(2) show ?thesis by (intro success_records) auto
qed

lemma subgraph_ok_records:
  assumes r: "resumable u" "is_subgraph u"
    and x: "subgraph_dispatch k W root rec u ch st ps fr m = (Ok v, st', m')"
  shows "recorded u v st'"
proof -
  obtain a where a: "m_action (meta u) = Some a" "act_name a \<in> set compensable_flow" "unit_id u \<noteq> []"
    using r by (auto simp: resumable_def split: option.splits)
  let ?ss = "resolve_slots fr (st # ps) u"
  obtain e m1 where vs: "verify_scope_claims W (children_of u) m = (e, m1)" by fastforce
  obtain oc cv mc where d:
    "do_action k W root rec a (unit_id u) ?ss ch (st # ps) fr (child_engine m1) = (oc, cv, mc)"
    by (metis prod_cases3)
  with x a(1) vs obtain v1 m2 where v1: "oc = Ok v1" "success_exit W root u ?ss cv v1 st m2 = (Ok v, st', m')"
    by (auto simp: subgraph_dispatch_def bound_action_def Let_def failed_exit_def
        split: outcome.splits prod.splits option.splits)
  have "\<exists>s. cv = CvStack s"
    using d v1(1) a(2) flow_ok_stack
    by (auto simp: do_action_def split: prod.splits sum.splits if_splits) blast+
  with v1(2) a(3) r(2) show ?thesis by (intro success_records) auto
qed

text \<open>C14: a unit that completed is not dispatched again. Where providers leave their receipts to the
  framework, the recovery stack an execution leaves after a success records it, so that executing
  the unit once more, in a resumed run or in a retry of its scope, answers with the same result
  and touches neither the stack nor anything beyond the control point.\<close>

theorem completed_unit_is_replayed:
  assumes "plain_receipts W" and "resumable u"
    and "unit_execute k W root rec u st ps fr m = (Ok v, st', m')"
    and "ctx_err W (en_world m2) = None" and "control_point W m2 = (None, m3)"
  shows "unit_execute k' W root rec' u st' ps' fr' m2 = (Ok v, st', m3)"
proof (rule recorded_replays [OF _ assms(4,5)])
  show "recorded u v st'"
  proof (cases "is_subgraph u")
    case True
    with assms(3) consider "recorded u v st'"
      | ch st1 m1 where "subgraph_dispatch k W root rec u ch st1 ps fr m1 = (Ok v, st', m')"
      by (auto simp: unit_execute_def subgraph_execute_def canceled_exit_def recorded_def
          split: option.splits prod.splits adoption.splits)
    then show ?thesis using subgraph_ok_records [OF assms(2) True] by cases blast+
  next
    case False
    with assms(3) consider "recorded u v st'"
      | m1 where "node_dispatch k W root rec u st ps fr m1 = (Ok v, st', m')"
      by (auto simp: unit_execute_def node_execute_def canceled_exit_def recorded_def
          split: option.splits prod.splits if_splits)
    then show ?thesis using node_ok_records [OF assms(2) False assms(1)] by cases blast+
  qed
qed

lemma completed_unit_is_replayed_witness:
  "let a = demo_node ''a'' ''demo.ok'';
       x = (\<lambda>st m. unit_execute 0 demo_world a (dispatch 0 0 demo_world a) a st [] None m);
       (oc, st', m') = x new_recovery_stack demo_start
   in x st' m' = (Ok (VStr ''a''), st', m')"
proof -
  let ?a = "demo_node ''a'' ''demo.ok''"
  let ?f = "\<lambda>st m. unit_execute 0 demo_world ?a (dispatch 0 0 demo_world ?a) ?a st [] None m"
  obtain oc st' m' where x: "?f new_recovery_stack demo_start = (oc, st', m')" by (metis prod_cases3)
  have "fst (?f new_recovery_stack demo_start) = Ok (VStr ''a'')
      \<and> cp_requests (en_control (snd (snd (?f new_recovery_stack demo_start)))) = []"
    by code_simp
  then have r: "oc = Ok (VStr ''a'')" "cp_requests (en_control m') = []"
    by (simp_all only: x fst_conv snd_conv)
  have "plain_receipts demo_world"
    by (auto simp: plain_receipts_def demo_world_def demo_leaf_def Let_def new_receipt_def split: if_splits)
  moreover have "resumable ?a"
    by (auto simp: resumable_def demo_node_def demo_meta_def unit_id_def compensable_flow_def)
  moreover have "control_point demo_world m' = (None, m')" "ctx_err demo_world (en_world m') = None"
    using r(2) by (simp_all add: control_point_def let_clients_act_def demo_world_def poll_request_def)
  ultimately show ?thesis
    using completed_unit_is_replayed [OF _ _ x [unfolded r(1)]] x r(1) by (simp add: Let_def)
qed

end
