(* ===== verification/Attempts.thy ===== *)
theory Attempts
  imports Resume
begin

text \<open>
  The attempt loop and the claims of a scope: how often a failing action is tried, what a handler
  can absorb, and when a scope is refused.
\<close>

section \<open>Counting the calls of a provider\<close>

definition counts_calls :: "('w \<Rightarrow> nat) \<Rightarrow> 'w world_ops \<Rightarrow> bool" where
  "counts_calls calls W \<longleftrightarrow>
     (\<forall>a i ss fr w. calls (snd (do_leaf W a i ss fr w)) = Suc (calls w))
     \<and> (\<forall>w. calls (snd (clients W w)) = calls w)
     \<and> (\<forall>d w. calls (snd (sleep W d w)) = calls w)
     \<and> (\<forall>w. calls (snd (mint W w)) = calls w)"

text \<open>A node bound to a provider's action, without handlers.\<close>

definition provider_node :: "exec_unit \<Rightarrow> bool" where
  "provider_node u \<longleftrightarrow>
     \<not> is_subgraph u \<and> on_error u = None \<and> on_retry u = None
     \<and> (case m_action (meta u) of
          None \<Rightarrow> False | Some a \<Rightarrow> act_name a \<notin> set infallible_flow \<union> set compensable_flow)"

lemma control_point_world: "control_point W m = (e, m') \<Longrightarrow> en_world m' = snd (clients W (en_world m))"
  by (auto simp: control_point_def let_clients_act_def serve_request_def Let_def
      split: prod.splits option.splits control_command.splits)

lemma control_point_calls:
  "counts_calls calls W \<Longrightarrow> control_point W m = (e, m') \<Longrightarrow> calls (en_world m') = calls (en_world m)"
  using control_point_world by (fastforce simp: counts_calls_def)

lemma push_audit_calls:
  assumes "counts_calls calls W" and "push_audit_receipt W root u st ss v cv err d m = (e, st', m')"
  shows "calls (en_world m') = calls (en_world m)"
proof -
  have "calls w = calls (en_world m)" if "mint W (en_world m) = (e', w)" for e' w
    using assms(1) that unfolding counts_calls_def by (metis snd_conv)
  with assms(2) show ?thesis
    by (auto simp: push_audit_receipt_def Let_def split: comp_value.splits if_splits prod.splits)
qed

lemma join_audit_calls:
  "counts_calls calls W \<Longrightarrow> join_audit_stamp W root u st ss cv err d m = (e, st', m')
     \<Longrightarrow> calls (en_world m') = calls (en_world m)"
  by (auto simp: join_audit_stamp_def split: prod.splits option.splits dest: push_audit_calls)

lemma success_calls:
  "counts_calls calls W \<Longrightarrow> success_exit W root u ss cv v st m = (oc, st', m')
     \<Longrightarrow> calls (en_world m') = calls (en_world m)"
  by (auto simp: success_exit_def split: prod.splits option.splits dest!: framework_world dest: push_audit_calls)

lemma provider_dispatch_calls:
  assumes c: "counts_calls calls W" and p: "provider_node u"
    and x: "node_dispatch k W root rec u st ps fr m = (oc, st', m')"
  shows "calls (en_world m') = Suc (calls (en_world m))"
proof -
  obtain a where a: "m_action (meta u) = Some a" "act_name a \<notin> set infallible_flow \<union> set compensable_flow"
    using p by (auto simp: provider_node_def split: option.splits)
  let ?ss = "resolve_slots fr (st # ps) u" and ?m = "emit_event EventPhaseChanged (unit_id u) None m"
  obtain oc1 cv m1 where d: "do_action k W root rec a (unit_id u) ?ss st ps fr ?m = (oc1, cv, m1)"
    by (metis prod_cases3)
  have "en_world m1 = snd (do_leaf W a (unit_id u) ?ss fr (en_world m))"
    using d a(2) by (auto simp: do_action_def split: prod.splits leaf_result.splits option.splits)
  then have n: "calls (en_world m1) = Suc (calls (en_world m))" using c by (simp add: counts_calls_def)
  show ?thesis
    using x n unfolding node_dispatch_def bound_action_def a(1) option.case sum.case Let_def d prod.case
    by (auto split: outcome.splits prod.splits dest!: success_calls [OF c] join_audit_calls [OF c])
qed

lemma provider_execute_calls:
  assumes c: "counts_calls calls W" and p: "provider_node u"
    and x: "unit_execute k W root rec u st ps fr m = (oc, st', m')"
  shows "calls (en_world m') \<le> Suc (calls (en_world m))"
proof -
  have can: "canceled_exit W root u kd err st m = (oc, st', m') \<Longrightarrow> calls (en_world m') = calls (en_world m)" for kd err
    by (auto simp: canceled_exit_def split: prod.splits dest: join_audit_calls [OF c])
  show ?thesis
    using x p unfolding unit_execute_def node_execute_def provider_node_def
    by (auto split: option.splits prod.splits if_splits
        dest!: can control_point_calls [OF c] provider_dispatch_calls [OF c p])
qed

lemma delay_calls:
  assumes "counts_calls calls W" and "wait_retry_delay W p a m = (e, m')"
  shows "calls (en_world m') = calls (en_world m)"
proof -
  have "calls w = calls (en_world m)" if "sleep W d (en_world m) = (e', w)" for d e' w
    using assms(1) that unfolding counts_calls_def by (metis snd_conv)
  with assms(2) show ?thesis
    by (auto simp: wait_retry_delay_def split: option.splits if_splits prod.splits)
qed

lemma attempt_loop_calls:
  assumes c: "counts_calls calls W" and p: "provider_node u"
  shows "attempt_loop k W root rec pol u ps fr n a e st m = (oc, st', m') \<Longrightarrow>
     calls (en_world m') \<le> calls (en_world m) + n"
proof (induction n arbitrary: a e st m)
  case 0
  with p show ?case by (auto simp: resolve_failure_def provider_node_def)
next
  case (Suc n)
  obtain d m1 where d: "wait_retry_delay W pol (int a) m = (d, m1)" by fastforce
  note dc = delay_calls [OF c d]
  show ?case
  proof (cases d)
    case (Some oc1)
    with Suc.prems d dc show ?thesis by simp
  next
    case None
    obtain oc1 st1 m2 where x: "unit_execute k W root rec u st ps fr m1 = (oc1, st1, m2)"
      by (metis prod_cases3)
    note xc = provider_execute_calls [OF c p x]
    have "(\<exists>oc2. attempt_loop k W root rec pol u ps fr (Suc n) a e st m = (oc2, st1, m2))
        \<or> (\<exists>err. attempt_loop k W root rec pol u ps fr (Suc n) a e st m
               = attempt_loop k W root rec pol u ps fr n (Suc a) (Some err) st1 m2)"
      using d None x p
      by (cases oc1) (auto simp: gate_retry_def provider_node_def simp del: attempt_loop.simps(1))
    with Suc.prems consider "m' = m2"
      | err where "attempt_loop k W root rec pol u ps fr n (Suc a) (Some err) st1 m2 = (oc, st', m')"
      by auto
    then show ?thesis
    proof cases
      case 1
      with dc xc show ?thesis by simp
    next
      case 2
      from Suc.IH [OF 2] dc xc show ?thesis by simp
    qed
  qed
qed

text \<open>C38: a dispatch calls the provider behind a node at most once more than its retry policy
  allows retries, and once without a policy; a negative number of retries calls it never.\<close>

theorem attempts_bounded:
  assumes "counts_calls calls W" and "provider_node u"
    and "dispatch (Suc n) k W root u st ps fr m = (oc, st', m')"
  shows "calls (en_world m') \<le> calls (en_world m)
    + (case retry_policy_for root u of None \<Rightarrow> 1 | Some p \<Rightarrow> nat (max_attempts p + 1))"
  using attempt_loop_calls [OF assms(1,2)] assms(3)
  by (fastforce simp: dispatch_with_policy_def Let_def attempts_for_def)

section \<open>A provider that always fails\<close>

text \<open>Nothing but the provider interferes: no cancellation, no commands, no failing timer or mint.\<close>

definition undisturbed :: "'w world_ops \<Rightarrow> bool" where
  "undisturbed W \<longleftrightarrow>
     (\<forall>w. ctx_err W w = None) \<and> (\<forall>w. fst (clients W w) = [])
     \<and> (\<forall>d w. fst (sleep W d w) = None) \<and> (\<forall>w. fst (mint W w) = None)"

definition always_fails :: "'w world_ops \<Rightarrow> exec_unit \<Rightarrow> gerror \<Rightarrow> bool" where
  "always_fails W u err \<longleftrightarrow>
     (\<forall>a ss fr w. m_action (meta u) = Some a \<longrightarrow>
        fst (do_leaf W a (unit_id u) ss fr w) = LeafReturn VNil CvNone (Some err))"

definition quiet :: "'w engine \<Rightarrow> bool" where
  "quiet m \<longleftrightarrow> cp_requests (en_control m) = []"

lemma quiet_emit [simp]: "quiet (emit_event k u err m) = quiet m"
  by (simp add: quiet_def emit_event_def emit_def stamp_event_def fan_out_def Let_def)

lemma quiet_world [simp]: "quiet (m\<lparr>en_world := w\<rparr>) = quiet m"
  by (simp add: quiet_def)

lemma quiet_control:
  assumes "undisturbed W" and "quiet m"
  shows "\<exists>w. control_point W m = (None, m\<lparr>en_world := w\<rparr>)"
proof -
  obtain acts w where c: "clients W (en_world m) = (acts, w)" by fastforce
  with assms(1) have "acts = []" unfolding undisturbed_def by (metis fst_conv)
  with c assms(2) show ?thesis
    by (auto simp: control_point_def let_clients_act_def quiet_def poll_request_def intro!: exI [of _ w])
qed

definition incomplete :: "exec_unit \<Rightarrow> rstack \<Rightarrow> bool" where
  "incomplete u st \<longleftrightarrow>
     (case receipt_by_unit_id (unit_id u) st of None \<Rightarrow> True | Some r \<Rightarrow> r_err r \<noteq> None)"

lemma failing_dispatch:
  assumes W: "undisturbed W" "always_fails W u err" and a: "m_action (meta u) = Some a"
    and p: "provider_node u" and q: "quiet m"
  shows "\<exists>st' m'. node_dispatch k W root rec u st ps fr m = (Fail (wrapf (act_name a @ '': '') err), st', m')
    \<and> quiet m' \<and> stack_len st' = Suc (stack_len st) \<and> (unit_id u \<noteq> [] \<longrightarrow> incomplete u st')"
proof -
  let ?ss = "resolve_slots fr (st # ps) u" and ?m = "emit_event EventPhaseChanged (unit_id u) None m"
  obtain w where l: "do_leaf W a (unit_id u) ?ss fr (en_world ?m) = (LeafReturn VNil CvNone (Some err), w)"
    using W(2) a unfolding always_fails_def by (metis prod.collapse)
  have name: "act_name a \<notin> set infallible_flow \<union> set compensable_flow"
    using p a by (auto simp: provider_node_def)
  have d: "do_action k W root rec a (unit_id u) ?ss st ps fr ?m = (Fail err, CvNone, ?m\<lparr>en_world := w\<rparr>)"
    using name l by (simp add: do_action_def)
  obtain w2 where mint: "mint W w = (None, w2)"
    using W(1) unfolding undisturbed_def by (metis prod.collapse)
  show ?thesis
    using q mint
    by (auto simp: node_dispatch_def bound_action_def a Let_def d join_audit_stamp_def push_audit_receipt_def
        new_receipt_def commit_def stack_len_def incomplete_def)
qed


lemma failing_execute:
  assumes W: "undisturbed W" "always_fails W u err" and a: "m_action (meta u) = Some a"
    and p: "provider_node u" and q: "quiet m" and i: "incomplete u st"
  shows "\<exists>st' m'. unit_execute k W root rec u st ps fr m = (Fail (wrapf (act_name a @ '': '') err), st', m')
    \<and> quiet m' \<and> stack_len st' = Suc (stack_len st) \<and> (unit_id u \<noteq> [] \<longrightarrow> incomplete u st')"
proof -
  obtain w where c: "control_point W m = (None, m\<lparr>en_world := w\<rparr>)" using quiet_control [OF W(1) q] by blast
  have "ctx_err W (en_world m) = None" using W(1) by (simp add: undisturbed_def)
  moreover have "\<not> is_subgraph u" using p by (simp add: provider_node_def)
  ultimately have "unit_execute k W root rec u st ps fr m = node_dispatch k W root rec u st ps fr (m\<lparr>en_world := w\<rparr>)"
    using c i by (auto simp: unit_execute_def node_execute_def incomplete_def split: option.splits)
  then show ?thesis
    using failing_dispatch [OF W a p, of "m\<lparr>en_world := w\<rparr>"] q by simp
qed

lemma undisturbed_delay:
  assumes "undisturbed W" and "quiet m" and "\<forall>p. pol = Some p \<longrightarrow> \<not> jitter p"
  shows "\<exists>m'. wait_retry_delay W pol a m = (None, m') \<and> quiet m'"
proof -
  have s: "\<exists>w'. sleep W d w = (None, w')" for d w
    using assms(1) unfolding undisturbed_def by (metis prod.collapse)
  show ?thesis
  proof (cases "pol = None \<or> a = 0")
    case False
    then obtain p where p: "pol = Some p" by (cases pol) auto
    then have "\<not> jitter p" using assms(3) by simp
    then have "compute_delay (parse_duration W) (draw_jitter W) p (a - 1) \<noteq> None"
      by (simp add: compute_delay_def Let_def)
    then obtain d where d: "compute_delay (parse_duration W) (draw_jitter W) p (a - 1) = Some d" by blast
    obtain w where "sleep W d (en_world m) = (None, w)" using s by blast
    with False p d assms(2) show ?thesis by (auto simp: wait_retry_delay_def)
  qed (use assms(2) in \<open>auto simp: wait_retry_delay_def split: option.split\<close>)
qed

lemma failing_attempts:
  assumes W: "undisturbed W" "always_fails W u err" and a: "m_action (meta u) = Some a"
    and p: "provider_node u" and i: "unit_id u \<noteq> []"
    and soft: "dispatch_failure err = None" "\<not> err_is ErrPaused err"
    and jit: "\<forall>p. pol = Some p \<longrightarrow> \<not> jitter p"
  shows "\<lbrakk>quiet m; incomplete u st; 0 < n \<or> e = Some (wrapf (act_name a @ '': '') err)\<rbrakk> \<Longrightarrow>
    \<exists>st' m'. attempt_loop k W root rec pol u ps fr n att e st m
       = (Fail (EFail ReasonActionFailed False (wrapf (act_name a @ '': '') err)), st', m')
     \<and> stack_len st' = stack_len st + n"
proof (induction n arbitrary: att e st m)
  case 0
  with p soft(1) show ?case
    by (auto simp: resolve_failure_def provider_node_def standing_failure_opt_def standing_failure_def)
next
  case (Suc n)
  obtain m1 where d: "wait_retry_delay W pol (int att) m = (None, m1)" "quiet m1"
    using undisturbed_delay [OF W(1) Suc.prems(1) jit] by blast
  obtain st2 m2 where x: "unit_execute k W root rec u st ps fr m1
      = (Fail (wrapf (act_name a @ '': '') err), st2, m2)" "quiet m2" "stack_len st2 = Suc (stack_len st)"
    "incomplete u st2"
    using failing_execute [OF W a p d(2) Suc.prems(2)] i by blast
  have "ctx_err W (en_world m2) = None" using W(1) by (simp add: undisturbed_def)
  then have step: "attempt_loop k W root rec pol u ps fr (Suc n) att e st m
      = attempt_loop k W root rec pol u ps fr n (Suc att) (Some (wrapf (act_name a @ '': '') err)) st2 m2"
    using d(1) x(1) soft p
    by (simp add: is_hard_failure_def gate_retry_def provider_node_def del: attempt_loop.simps(1))
  show ?case
    unfolding step
    using Suc.IH [OF x(2,4), of "Some (wrapf (act_name a @ '': '') err)" "Suc att"] x(3) by auto
qed

text \<open>A provider that fails softly every time exhausts the policy: the dispatch tries it once
  and once more for each retry allowed, leaves one receipt of a failure for each try on the
  recovery stack, and ends in a failure of the action that wraps the provider's last error.\<close>

theorem retries_are_exhausted:
  assumes "undisturbed W" and "always_fails W u err" and "m_action (meta u) = Some a"
    and "provider_node u" and "unit_id u \<noteq> []"
    and "dispatch_failure err = None" and "\<not> err_is ErrPaused err"
    and "\<forall>p. retry_policy_for root u = Some p \<longrightarrow> \<not> jitter p \<and> 0 \<le> max_attempts p"
    and "cp_requests (en_control m) = []" and "receipt_by_unit_id (unit_id u) st = None"
  shows "\<exists>st' m'. dispatch (Suc n) k W root u st ps fr m
      = (Fail (EFail ReasonActionFailed False (wrapf (act_name a @ '': '') err)), st', m')
    \<and> stack_len st' = stack_len st
        + (case retry_policy_for root u of None \<Rightarrow> 1 | Some p \<Rightarrow> nat (max_attempts p) + 1)"
proof -
  have n: "attempts_for (retry_policy_for root u)
      = (case retry_policy_for root u of None \<Rightarrow> 1 | Some p \<Rightarrow> nat (max_attempts p) + 1)"
    using assms(8) by (auto simp: attempts_for_def nat_add_distrib split: option.splits)
  have pos: "0 < attempts_for (retry_policy_for root u)"
    unfolding n by (simp split: option.splits)
  have jit: "\<forall>p. retry_policy_for root u = Some p \<longrightarrow> \<not> jitter p" using assms(8) by blast
  from failing_attempts [OF assms(1-7) jit, of m st "attempts_for (retry_policy_for root u)" None]
    assms(9,10) pos
  show ?thesis
    by (simp add: dispatch_with_policy_def Let_def n quiet_def incomplete_def)
qed

definition demo_retried :: exec_unit where
  "demo_retried = Node (demo_meta ''a'' ''demo.fail'' (Some (demo_retry 2))) None None"

lemma demo_retried_simps:
  "provider_node demo_retried" "unit_id demo_retried = ''a''"
  "m_action (meta demo_retried) = Some \<lparr>act_name = ''demo.fail'', act_full_name = ''demo.fail''\<rparr>"
  "retry_policy_for root demo_retried = Some (demo_retry 2)" "\<not> jitter (demo_retry 2)"
  "max_attempts (demo_retry 2) = 2"
  by (auto simp: demo_retried_def provider_node_def demo_meta_def unit_id_def retry_policy_for_def
      infallible_flow_def compensable_flow_def demo_retry_def)

lemma attempts_bounded_witness:
  "let m' = snd (snd (dispatch 1 0 demo_world demo_retried demo_retried new_recovery_stack [] None demo_start))
   in length (fst (en_world m')) \<le> 3"
proof -
  obtain oc st' m' where x: "dispatch (Suc 0) 0 demo_world demo_retried demo_retried new_recovery_stack []
      None demo_start = (oc, st', m')" by (metis prod_cases3)
  have "counts_calls (\<lambda>w. length (fst w)) demo_world"
    by (simp add: counts_calls_def demo_world_def demo_leaf_def Let_def)
  from attempts_bounded [OF this demo_retried_simps(1) x]
  have "length (fst (en_world m')) \<le> length (fst (en_world demo_start)) + 3"
    by (simp add: demo_retried_simps)
  moreover have "en_world demo_start = ([], [])" by code_simp
  ultimately have "length (fst (en_world m')) \<le> 3" by simp
  then show ?thesis unfolding Let_def One_nat_def x snd_conv .
qed

lemma retries_are_exhausted_witness:
  "\<exists>st' m'. dispatch 1 0 demo_world demo_retried demo_retried new_recovery_stack [] None demo_start
     = (Fail (EFail ReasonActionFailed False (wrapf ''demo.fail: '' (ENew ''demo failure''))), st', m')
   \<and> stack_len st' = 3"
proof -
  have "undisturbed demo_world" by (simp add: undisturbed_def demo_world_def)
  moreover have "always_fails demo_world demo_retried (ENew ''demo failure'')"
    by (simp add: always_fails_def demo_retried_simps demo_world_def demo_leaf_def Let_def)
  moreover have "cp_requests (en_control demo_start) = []" by code_simp
  moreover have "receipt_by_unit_id (unit_id demo_retried) new_recovery_stack = None"
    by (simp add: receipt_by_unit_id_def new_recovery_stack_def)
  ultimately show ?thesis
    using retries_are_exhausted [where W = demo_world and err = "ENew ''demo failure''" and n = 0
        and st = new_recovery_stack and root = demo_retried and k = 0 and ps = "[]" and fr = None
        and m = demo_start, OF _ _ demo_retried_simps(3,1)]
    by (simp add: demo_retried_simps stack_len_def new_recovery_stack_def del: dispatch.simps)
qed

section \<open>Handlers\<close>

text \<open>An error or retry handler that is a subgraph bound to \<open>flow.subgraph\<close>, as every handler
  a plan declares is, and whose id is no unit's of the graph's tree, never runs its children:
  the combinator looks its caller up in the tree and fails, so an error handler never absorbs a
  failure but turns it into a failure of the handler, and a retry handler ends the retries.\<close>

theorem subgraph_handlers_never_run:
  assumes "is_subgraph h" and "m_action (meta h) = Some a" and "act_name a = ''flow.subgraph''"
    and "resolve_executable root (unit_id h) = None"
  shows "fst (dispatch_handler k W root rec h fr m) \<noteq> Ok v
    \<and> (on_error u = Some h \<longrightarrow> fst (resolve_failure k W root rec u fr base cause m) \<noteq> Ok v)
    \<and> (on_retry u = Some h \<longrightarrow> fst (gate_retry k W root rec u fr prev m) \<noteq> None)"
proof -
  have d: "\<exists>e cv. do_action k W root rec a (unit_id h) ss cs ps fr m = (Fail e, cv, m')"
    if "do_action k W root rec a (unit_id h) ss cs ps fr m = (oc, cv, m')" for ss cs ps m oc cv m'
    using that assms(3,4)
    by (auto simp: do_action_def infallible_flow_def compensable_flow_def flow_method_def
        flow_subgraph_def resolve_caller_def split: prod.splits sum.splits)
  have s: "fst (subgraph_dispatch k W root rec h ch st ps fr m) \<noteq> Ok v" for ch st ps m v
    using d unfolding subgraph_dispatch_def bound_action_def assms(2) option.case sum.case Let_def
    by (fastforce simp: failed_exit_def split: prod.splits option.splits outcome.splits)
  have u: "fst (unit_execute k W root rec h new_recovery_stack [] fr m) \<noteq> Ok v" for m v
    using s assms(1)
    by (auto simp: unit_execute_def subgraph_execute_def canceled_exit_def adopt_prior_stack_def
        nested_stack_by_unit_id_def new_recovery_stack_def split: option.splits prod.splits)
  have h: "fst (dispatch_handler k W root rec h fr m) \<noteq> Ok v" for v
    using u unfolding dispatch_handler_def
    by (auto simp: Let_def split: prod.splits outcome.splits) (metis fst_conv)+
  moreover have "fst (resolve_failure k W root rec u fr base cause m) \<noteq> Ok v" if "on_error u = Some h"
    using h that unfolding resolve_failure_def
    by (auto split: prod.splits outcome.splits) (metis fst_conv)+
  moreover have "fst (gate_retry k W root rec u fr prev m) \<noteq> None" if "on_retry u = Some h"
    using h that unfolding gate_retry_def
    by (auto split: prod.splits outcome.splits) (metis fst_conv)+
  ultimately show ?thesis by blast
qed

lemma subgraph_handlers_never_run_witness:
  "fst (dispatch_handler 0 demo_world demo_pair (dispatch 1 0 demo_world demo_pair)
          (demo_subgraph ''h'' [demo_node ''x'' ''demo.ok'']) None demo_start) \<noteq> Ok (VBool True)"
proof -
  let ?h = "demo_subgraph ''h'' [demo_node ''x'' ''demo.ok'']"
  let ?a = "\<lparr>act_name = ''flow.subgraph'', act_full_name = ''flow.subgraph''\<rparr>"
  have h: "is_subgraph ?h" "m_action (meta ?h) = Some ?a" "act_name ?a = ''flow.subgraph''"
    by (simp_all add: demo_subgraph_def demo_meta_def)
  have "resolve_executable demo_pair ''h'' = None" by code_simp
  then have "resolve_executable demo_pair (unit_id ?h) = None"
    by (simp add: demo_subgraph_def demo_meta_def unit_id_def)
  from subgraph_handlers_never_run [OF h this] show ?thesis by (rule conjunct1)
qed

section \<open>The claims of a scope\<close>

text \<open>A claim is upheld when the probe finds nothing, or finds a missing resource that the unit's
  policy lets go; a claim of the wrong kind is never let go.\<close>

definition claim_upheld :: "(gvalue \<Rightarrow> gerror option) \<Rightarrow> exec_unit \<Rightarrow> binding \<Rightarrow> bool" where
  "claim_upheld verdict u b =
     (case b of
        Immediate v \<Rightarrow>
          (case verdict v of
             None \<Rightarrow> True
           | Some err \<Rightarrow> unit_missing_policy u \<noteq> missing_policy_code MissingStop
                          \<and> \<not> err_is ErrClaimKindMismatch err)
      | _ \<Rightarrow> True)"

lemma verify_binding_pure:
  assumes "\<forall>v w. probe_claim W v w = (verdict v, w)"
  shows "snd (verify_claim_binding W u (unit_missing_policy u) b m) = m
    \<and> (fst (verify_claim_binding W u (unit_missing_policy u) b m) = None \<longleftrightarrow> claim_upheld verdict u b)"
  using assms by (auto simp: verify_claim_binding_def claim_upheld_def split: binding.splits option.splits)

lemma verify_slots_pure:
  assumes "\<forall>v w. probe_claim W v w = (verdict v, w)"
  shows "snd (verify_slots W u (unit_missing_policy u) bs m) = m
    \<and> (fst (verify_slots W u (unit_missing_policy u) bs m) = None
         \<longleftrightarrow> (\<forall>b \<in> set bs. claim_upheld verdict u (snd b)))"
proof (induction bs)
  case (Cons nb bs)
  obtain n b where nb: "nb = (n, b)" by fastforce
  obtain e m' where x: "verify_claim_binding W u (unit_missing_policy u) b m = (e, m')" by fastforce
  with verify_binding_pure [OF assms, of u b m] Cons show ?case
    by (cases e) (auto simp: nb)
qed simp

text \<open>Before a scope dispatches, the claims of its units are judged all together: where the
  probe of the catalog is stable, the scope is let in if and only if every resource its units'
  slots name is found, or is missing under a policy other than stop; a claim that meets a
  resource of another kind refuses the scope whatever the policy; and the judgement itself
  changes nothing.\<close>

theorem scope_claims_judged:
  assumes "\<forall>v w. probe_claim W v w = (verdict v, w)"
  shows "snd (verify_scope_claims W us m) = m
    \<and> (fst (verify_scope_claims W us m) = None
         \<longleftrightarrow> (\<forall>u \<in> set us. \<forall>(n, b) \<in> set (m_slots (meta u)). \<forall>v err.
                b = Immediate v \<and> verdict v = Some err \<longrightarrow>
                  unit_missing_policy u \<noteq> missing_policy_code MissingStop
                  \<and> \<not> err_is ErrClaimKindMismatch err))"
proof -
  have "snd (verify_scope_claims W us m) = m
    \<and> (fst (verify_scope_claims W us m) = None
         \<longleftrightarrow> (\<forall>u \<in> set us. \<forall>b \<in> set (m_slots (meta u)). claim_upheld verdict u (snd b)))"
  proof (induction us)
    case (Cons u us)
    obtain e m' where x: "verify_slots W u (unit_missing_policy u) (m_slots (meta u)) m = (e, m')" by fastforce
    with verify_slots_pure [OF assms, of u "m_slots (meta u)" m] Cons show ?case
      by (cases e) auto
  qed simp
  then show ?thesis
    by (auto simp: claim_upheld_def split: binding.splits option.splits) blast+
qed

definition demo_strict :: "demo_state world_ops" where
  "demo_strict = demo_world\<lparr>probe_claim := (\<lambda>v w. (Some ErrClaimKindMismatch, w))\<rparr>"

lemma scope_claims_judged_witness:
  "fst (verify_scope_claims demo_strict
          [Node ((demo_meta ''a'' ''demo.ok'' None)\<lparr>m_slots := [(''path'', Immediate (VStr ''p''))]\<rparr>) None None]
          demo_start) \<noteq> None"
proof -
  have "\<forall>v w. probe_claim demo_strict v w = (Some ErrClaimKindMismatch, w)"
    by (simp add: demo_strict_def)
  from scope_claims_judged [OF this] show ?thesis by (simp del: verify_scope_claims.simps)
qed

end
