(* ===== verification/Defects.thy ===== *)
theory Defects
  imports Resume
begin

text \<open>
  Behaviours of the executor that its documentation does not promise, each proved of the model:
  an operator's stop that a nested scope's retry policy swallows, a completed node that is
  dispatched again because its action handed back a stack, effects that fall out of the recovery
  tree, and a degradation that panics.
\<close>

section \<open>A stop that is retried away\<close>

text \<open>A client that asks for a stop once, after the first node ran.\<close>

definition stopping_clients :: "demo_state \<Rightarrow> client_action list \<times> demo_state" where
  "stopping_clients w =
     (if fst w = [''a''] then ([Request ControlStop], (fst w @ [''stop''], snd w)) else ([], w))"

definition demo_stopping :: "demo_state world_ops" where
  "demo_stopping = demo_world\<lparr>clients := stopping_clients\<rparr>"

definition demo_nested :: exec_unit where
  "demo_nested = demo_subgraph ''root''
     [demo_subgraph ''sub'' [demo_node ''a'' ''demo.ok'', demo_node ''b'' ''demo.ok'']]"

text \<open>A stop that an operator requests while a nested subgraph runs does not stop the run: the
  plane answers it and the scope returns with it, but the scope's default retry policy tries the
  scope again, which goes on after the completed node, and the run completes.\<close>

theorem nested_stop_is_retried_away:
  "case run 3 0 demo_stopping demo_session demo_nested Map.empty demo_executor of (oc, e') \<Rightarrow>
     oc = Ok (VStr ''b'') \<and> st_phase (ex_status e') = Completed
     \<and> fst (ex_world e') = [''a'', ''stop'', ''b'']
     \<and> cp_responses (en_control (ex_engine e')) \<noteq> []"
  by code_simp

section \<open>A completed node that runs again\<close>

text \<open>A provider that hands back a stack of receipts, as the batch methods of the file provider do.\<close>

definition demo_batch :: "demo_state world_ops" where
  "demo_batch = demo_world\<lparr>do_leaf := (\<lambda>a i ss fr w.
     (LeafReturn VNil (CvStack new_recovery_stack) None, (fst w @ [i], snd w)))\<rparr>"

text \<open>A node that completed with a stack of receipts as its compensator is dispatched again when
  it is executed once more on the recovery stack that records it: the provider is called twice.\<close>

theorem stack_node_is_dispatched_again:
  "let a = demo_node ''a'' ''demo.batch'';
       x = (\<lambda>st m. unit_execute 0 demo_batch a (dispatch 0 0 demo_batch a) a st [] None m);
       (oc1, st1, m1) = x new_recovery_stack demo_start;
       (oc2, st2, m2) = x st1 m1
   in oc1 = Ok VNil \<and> fst (en_world m1) = [''a''] \<and> fst (en_world m2) = [''a'', ''a'']"
  by code_simp

section \<open>Effects that fall out of the recovery tree\<close>

text \<open>A resumed subgraph whose claims are refused has already taken its prior stack out of its
  parent's, and puts a bare receipt in its place: what the prior stack would undo is lost.\<close>

lemma refused_claims_drop_the_prior_stack:
  assumes "ctx_err W (en_world m) = None" and "control_point W m = (None, m1)" and "is_subgraph u"
    and "adopt_prior_stack u st = Adopted prior st1" and "m_action (meta u) = Some a"
    and "verify_scope_claims W (children_of u) m1 = (Some err, m2)"
    and "unit_execute k W root rec u st ps fr m = (oc, st', m')"
  shows "saga st' = saga st1"
proof -
  have s: "saga (push r s) = saga s @ (if r_compensator r = NoCompensator then [] else [r])" for r s
    by (cases s) (simp add: push_def)
  have sel: "r_compensator (set_slots ss r) = r_compensator r" for ss r by (cases r) simp
  show ?thesis
    using assms
    by (auto simp: unit_execute_def subgraph_execute_def subgraph_dispatch_def bound_action_def Let_def
        failed_exit_def join_audit_stamp_def push_audit_receipt_def new_receipt_def commit_def s sel
        split: prod.splits option.splits if_splits)
qed

text \<open>A poll of \<open>flow.wait_until\<close> that fails, pauses or answers falsy drops the stack its body ran on.\<close>

lemma failed_poll_drops_its_stack:
  "wait_poll rec s i cs ps fr m = (PollFailed oc, cs', m') \<Longrightarrow> cs' = cs"
  "wait_poll rec s i cs ps fr m = (PollNotReady v, cs', m') \<Longrightarrow> cs' = cs"
  by (auto simp: wait_poll_def split: prod.splits outcome.splits if_splits)

section \<open>A degradation that panics\<close>

lemma degrade_after_failure_panics:
  assumes "Degraded < st_condition (en_status m)"
  shows "\<exists>msg. fst (flow_degraded W root i ss m) = Panicked msg"
  using assms by (auto simp: flow_degraded_def transition_to_def Let_def)

end
