(* ===== verification/Identity.thy ===== *)
theory Identity
  imports Errors "HOL-Library.Word"
begin

text \<open>
  Resource identity (\<open>pkg/op/resource.go\<close>, \<open>digest.go\<close>, \<open>addressing.go\<close>,
  \<open>resource_state.go\<close>): tag URIs and their parts, the namespace key of a resource, content
  digests in their \<open>algo:hex\<close> form, and the names of the lifecycle states.
\<close>

section \<open>Addressing and lifecycle states\<close>

datatype addressing_mode = AddressingUnknown | AddressingLocation | AddressingContent

fun addressing_string :: "addressing_mode \<Rightarrow> string" where
  "addressing_string AddressingUnknown = ''unknown''"
| "addressing_string AddressingLocation = ''location''"
| "addressing_string AddressingContent = ''content''"

datatype resource_state = Pending | Active | Gone

fun resource_state_string :: "resource_state \<Rightarrow> string" where
  "resource_state_string Pending = ''pending''"
| "resource_state_string Active = ''active''"
| "resource_state_string Gone = ''gone''"

definition parse_resource_state :: "string \<Rightarrow> (gerror, resource_state) result" where
  "parse_resource_state name =
     (if name = ''pending'' then Inr Pending
      else if name = ''active'' then Inr Active
      else if name = ''gone'' then Inr Gone
      else Inl (ENew (''op.ResourceState: unknown state '' @ quote name)))"

lemma parse_resource_state_string:
  "parse_resource_state n = Inr s \<longleftrightarrow> n = resource_state_string s"
  by (cases s) (auto simp: parse_resource_state_def)

section \<open>Decimal integers\<close>

text \<open>\<open>strconv.Atoi\<close>: an optional sign, decimal digits, and the range of a 64-bit integer.\<close>

definition atoi :: "string \<Rightarrow> int option" where
  "atoi s =
     (let (negative, ds) = (case s of
            [] \<Rightarrow> (False, [])
          | c # cs \<Rightarrow> if c = CHR ''-'' then (True, cs) else if c = CHR ''+'' then (False, cs) else (False, s))
      in if ds = [] then None
         else (case digits_value 0 ds of
                 None \<Rightarrow> None
               | Some n \<Rightarrow>
                   (let v = (if negative then - int n else int n)
                    in if - (2 ^ 63) \<le> v \<and> v < 2 ^ 63 then Some v else None)))"

section \<open>Tag URIs\<close>

definition tag_uri_prefix :: string where
  "tag_uri_prefix = ''tag:devlore.noblefactor.com,2026-01-01:''"

abbreviation hash_char :: char where
  "hash_char \<equiv> CHR 0x23"

text \<open>\<open>ResourceBase\<close>, without its runtime environment; the catalog stamps the first two fields.\<close>

record resource_base =
  rb_id :: string
  rb_producer :: string
  rb_specific :: string
  rb_type_id :: string
  rb_uri :: string

text \<open>\<open>type_id\<close> is \<open>typeIDOf(goType)\<close>.\<close>

definition new_resource_base :: "string \<Rightarrow> string \<Rightarrow> (gerror, resource_base) result" where
  "new_resource_base specific type_id =
     (if hash_char \<in> set specific then
        Inl (ENew (''op.NewResourceBase: specific '' @ quote specific @ '' contains ''
               @ [CHR 0x27, hash_char, CHR 0x27] @ '', which is reserved as the fragment delimiter''))
      else if type_id = ''.'' then
        Inl (ENew ''op.NewResourceBase: goType has empty PkgPath and Name'')
      else
        let uri = (if has_prefix specific tag_uri_prefix then specific else tag_uri_prefix @ specific)
        in Inr \<lparr>rb_id = [], rb_producer = [], rb_specific = specific, rb_type_id = type_id,
                rb_uri = uri @ [hash_char] @ type_id\<rparr>)"

definition extract_tag_specific :: "string \<Rightarrow> (gerror, string \<times> string) result" where
  "extract_tag_specific value =
     (if \<not> has_prefix value tag_uri_prefix then
        Inl (ENew (''op.ExtractTagSpecific: '' @ quote value @ '' lacks prefix '' @ quote tag_uri_prefix))
      else
        case cut (drop (length tag_uri_prefix) value) hash_char of
          (specific, type_id, found) \<Rightarrow>
            if \<not> found then
              Inl (ENew (''op.ExtractTagSpecific: '' @ quote value @ '' has no ''
                     @ [CHR 0x27, hash_char, CHR 0x27] @ '' fragment delimiter''))
            else if type_id = [] then
              Inl (ENew (''op.ExtractTagSpecific: '' @ quote value @ '' has empty fragment''))
            else Inr (specific, type_id))"

definition strip_fragment :: "string \<Rightarrow> string" where
  "strip_fragment uri = takeWhile (\<lambda>c. c \<noteq> hash_char) uri"

lemma strip_fragment_idem [simp]: "strip_fragment (strip_fragment u) = strip_fragment u"
  by (simp add: strip_fragment_def takeWhile_idem)

lemma strip_fragment_append [simp]:
  "hash_char \<notin> set u \<Longrightarrow> strip_fragment (u @ hash_char # f) = u"
  by (simp add: strip_fragment_def takeWhile_append)

lemma extract_tag_specific_ok:
  "extract_tag_specific v = Inr (specific, type_id) \<longleftrightarrow>
     v = tag_uri_prefix @ specific @ hash_char # type_id \<and> hash_char \<notin> set specific \<and> type_id \<noteq> []"
proof
  assume r: "extract_tag_specific v = Inr (specific, type_id)"
  then obtain t where t: "v = tag_uri_prefix @ t"
    by (auto simp: extract_tag_specific_def has_prefix_iff split: if_splits)
  with r have "cut t hash_char = (specific, type_id, True)" "type_id \<noteq> []"
    by (auto simp: extract_tag_specific_def split: if_splits prod.splits)
  with t show "v = tag_uri_prefix @ specific @ hash_char # type_id \<and> hash_char \<notin> set specific \<and> type_id \<noteq> []"
    using cut_found by auto
qed (auto simp: extract_tag_specific_def has_prefix_iff cut_append)

text \<open>The URI a resource is built with determines it: splitting the URI gives back the type
  and the specific the resource was made from (less the tag prefix where the specific came with it),
  the fragment-stripped URI is the tag prefix and that specific, and building again from the parts
  gives the same URI unless what is left of the specific starts with a tag prefix again.\<close>

theorem resource_uri_roundtrip:
  assumes "new_resource_base specific type_id = Inr b" and "type_id \<noteq> []"
    and "s = trim_prefix specific tag_uri_prefix"
  shows "extract_tag_specific (rb_uri b) = Inr (s, type_id)
    \<and> strip_fragment (rb_uri b) = tag_uri_prefix @ s
    \<and> (\<not> has_prefix s tag_uri_prefix \<longrightarrow>
         (\<exists>b'. new_resource_base s type_id = Inr b' \<and> rb_uri b' = rb_uri b))"
proof -
  from assms(1,3) have no_hash: "hash_char \<notin> set s" and uri: "rb_uri b = tag_uri_prefix @ s @ hash_char # type_id"
    by (auto simp: new_resource_base_def Let_def has_prefix_iff trim_prefix_def split: if_splits)
  have "hash_char \<notin> set (tag_uri_prefix @ s)" using no_hash by (simp add: tag_uri_prefix_def)
  then have "strip_fragment (rb_uri b) = tag_uri_prefix @ s"
    unfolding uri using strip_fragment_append [of "tag_uri_prefix @ s" type_id] by simp
  moreover have "type_id \<noteq> ''.''" using assms(1) by (auto simp: new_resource_base_def split: if_splits)
  ultimately show ?thesis
    using assms(2) no_hash uri by (auto simp: extract_tag_specific_ok new_resource_base_def)
qed

lemma resource_uri_roundtrip_witness:
  "\<exists>b. new_resource_base ''file:etc/hosts'' ''op/file.Regular'' = Inr b
     \<and> extract_tag_specific (rb_uri b) = Inr (''file:etc/hosts'', ''op/file.Regular'')"
proof -
  obtain b where b: "new_resource_base ''file:etc/hosts'' ''op/file.Regular'' = Inr b"
    by (simp add: new_resource_base_def)
  have "trim_prefix ''file:etc/hosts'' tag_uri_prefix = ''file:etc/hosts''"
    by (simp add: trim_prefix_def tag_uri_prefix_def)
  with resource_uri_roundtrip [OF b _ refl] b show ?thesis by simp
qed

section \<open>Digests\<close>

record digest =
  dg_algorithm :: string
  dg_bytes :: "8 word list"

definition hex_digit :: "8 word \<Rightarrow> char" where
  "hex_digit n = (if n < 10 then char_of (48 + unat n) else char_of (87 + unat n))"

definition hex_encode :: "8 word list \<Rightarrow> string" where
  "hex_encode bs = concat (map (\<lambda>b. [hex_digit (b div 16), hex_digit (b mod 16)]) bs)"

definition hex_value :: "char \<Rightarrow> 8 word option" where
  "hex_value c =
     (let n = (of_char c :: nat)
      in if 48 \<le> n \<and> n \<le> 57 then Some (of_nat (n - 48))
         else if 97 \<le> n \<and> n \<le> 102 then Some (of_nat (n - 87))
         else if 65 \<le> n \<and> n \<le> 70 then Some (of_nat (n - 55))
         else None)"

text \<open>\<open>hex.DecodeString\<close>.\<close>

fun hex_decode :: "string \<Rightarrow> (gerror, 8 word list) result" where
  "hex_decode [] = Inr []"
| "hex_decode [c] =
     (case hex_value c of
        None \<Rightarrow> Inl (ENew ''encoding/hex: invalid byte'')
      | Some v \<Rightarrow> Inl (ENew ''encoding/hex: odd length hex string''))"
| "hex_decode (c # d # cs) =
     (case (hex_value c, hex_value d) of
        (Some a, Some b) \<Rightarrow>
          (case hex_decode cs of Inl e \<Rightarrow> Inl e | Inr bs \<Rightarrow> Inr ((16 * a + b) # bs))
      | _ \<Rightarrow> Inl (ENew ''encoding/hex: invalid byte''))"

definition lower_letter :: "char \<Rightarrow> bool" where
  "lower_letter c \<longleftrightarrow> 97 \<le> (of_char c :: nat) \<and> (of_char c :: nat) \<le> 122"

definition digit :: "char \<Rightarrow> bool" where
  "digit c \<longleftrightarrow> 48 \<le> (of_char c :: nat) \<and> (of_char c :: nat) \<le> 57"

definition lower_hex :: "char \<Rightarrow> bool" where
  "lower_hex c \<longleftrightarrow> digit c \<or> 97 \<le> (of_char c :: nat) \<and> (of_char c :: nat) \<le> 102"

text \<open>The two groups of \<open>^([a-z][a-z0-9]*):([0-9a-f]+)$\<close>: neither class holds the colon.\<close>

definition digest_match :: "string \<Rightarrow> (string \<times> string) option" where
  "digest_match s =
     (case cut s CHR '':'' of
        (algo, encoded, found) \<Rightarrow>
          if found \<and> algo \<noteq> [] \<and> lower_letter (hd algo)
             \<and> list_all (\<lambda>c. lower_letter c \<or> digit c) (tl algo)
             \<and> encoded \<noteq> [] \<and> list_all lower_hex encoded
          then Some (algo, encoded) else None)"

definition parse_digest :: "string \<Rightarrow> (gerror, digest) result" where
  "parse_digest s =
     (case digest_match s of
        None \<Rightarrow> Inl (ENew (''op.ParseDigest: malformed digest '' @ quote s
                      @ '' (want '' @ quote ''<algo>:<hex>'' @ '')''))
      | Some (algo, encoded) \<Rightarrow>
          (case hex_decode encoded of
             Inl e \<Rightarrow> Inl (wrapf (''op.ParseDigest: hex decode '' @ quote encoded @ '': '') e)
           | Inr bytes \<Rightarrow>
               if algo = ''sha256'' then
                 (if length bytes \<noteq> 32 then
                    Inl (ENew (''op.ParseDigest: sha256 requires 32 bytes, got '' @ show_nat (length bytes)))
                  else Inr \<lparr>dg_algorithm = algo, dg_bytes = bytes\<rparr>)
               else Inl (ENew (''op.ParseDigest: unsupported algorithm '' @ quote algo))))"

definition digest_string :: "digest \<Rightarrow> string" where
  "digest_string d = dg_algorithm d @ '':'' @ hex_encode (dg_bytes d)"

definition digest_equal :: "digest \<Rightarrow> digest \<Rightarrow> bool" where
  "digest_equal d e \<longleftrightarrow>
     dg_algorithm d = dg_algorithm e \<and> length (dg_bytes d) = length (dg_bytes e)
     \<and> list_all (\<lambda>i. dg_bytes d ! i = dg_bytes e ! i) [0..<length (dg_bytes d)]"

subsection \<open>The codec is exact\<close>

lemma nibble_split:
  assumes "a < (16 :: 8 word)" "b < 16"
  shows "(16 * a + b) div 16 = a \<and> (16 * a + b) mod 16 = b"
proof -
  from assms have "unat a < 16" "unat b < 16" by (simp_all add: word_less_nat_alt)
  then have "unat (16 * a + b) = 16 * unat a + unat b"
    by (simp add: unat_word_ariths)
  then show ?thesis
    using \<open>unat a < 16\<close> \<open>unat b < 16\<close> by (auto simp: word_unat_eq_iff unat_div unat_mod)
qed

lemma nibble_join: "16 * (b div 16) + b mod 16 = (b :: 8 word)"
  by (metis mult.commute word_mod_div_equality add.commute mult_div_mod_eq)

lemma hex_digit_value:
  assumes "n < (16 :: 8 word)"
  shows "hex_value (hex_digit n) = Some n \<and> lower_hex (hex_digit n)"
proof -
  from assms have "unat n < 16" by (simp add: word_less_nat_alt)
  moreover have "n = of_nat (unat n)" by simp
  ultimately show ?thesis
    by (auto simp: hex_digit_def hex_value_def lower_hex_def digit_def word_less_nat_alt Let_def)
qed

lemma hex_value_lower:
  assumes "hex_value c = Some a" "lower_hex c"
  shows "a < 16 \<and> hex_digit a = c"
proof -
  let ?n = "of_char c :: nat"
  have "48 \<le> ?n \<and> ?n \<le> 57 \<and> a = of_nat (?n - 48) \<or> 97 \<le> ?n \<and> ?n \<le> 102 \<and> a = of_nat (?n - 87)"
    using assms by (auto simp: hex_value_def lower_hex_def digit_def Let_def simp del: of_nat_diff split: if_splits)
  then obtain m where m: "a = of_nat m" "m < 16" "?n = (if m < 10 then 48 + m else 87 + m)"
  proof (elim disjE conjE)
    assume "48 \<le> ?n" "?n \<le> 57" "a = of_nat (?n - 48)"
    then show thesis by (intro that [of "?n - 48"]) (simp_all del: of_nat_diff)
  next
    assume "97 \<le> ?n" "?n \<le> 102" "a = of_nat (?n - 87)"
    then show thesis by (intro that [of "?n - 87"]) (simp_all del: of_nat_diff)
  qed
  then have "unat a = m" by (simp add: unat_of_nat take_bit_nat_eq_self)
  moreover have "char_of ?n = c" by simp
  ultimately show ?thesis using m by (auto simp: hex_digit_def word_less_nat_alt)
qed

lemma nibble_bounds: "b div 16 < (16 :: 8 word)" "b mod 16 < (16 :: 8 word)"
proof -
  have "unat b < 256" using unsigned_less [of b, where ?'a = nat] by simp
  then show "b div 16 < (16 :: 8 word)" "b mod 16 < (16 :: 8 word)"
    by (simp_all add: word_less_nat_alt unat_div unat_mod)
qed

lemma hex_decode_encode: "hex_decode (hex_encode bs) = Inr bs"
  by (induction bs) (simp_all add: hex_encode_def hex_digit_value nibble_bounds nibble_join)

lemma hex_encode_lower: "list_all lower_hex (hex_encode bs)"
  by (induction bs) (simp_all add: hex_encode_def hex_digit_value nibble_bounds)

lemma hex_encode_decode:
  "hex_decode s = Inr bs \<Longrightarrow> list_all lower_hex s \<Longrightarrow> hex_encode bs = s"
proof (induction s arbitrary: bs rule: hex_decode.induct)
  case (3 c d cs)
  then obtain a b bs' where v: "hex_value c = Some a" "hex_value d = Some b" "hex_decode cs = Inr bs'"
    "bs = (16 * a + b) # bs'"
    by (auto split: option.splits sum.splits)
  with 3 have "hex_encode bs' = cs" "a < 16" "b < 16" "hex_digit a = c" "hex_digit b = d"
    using hex_value_lower by auto
  then show ?case using v by (simp add: hex_encode_def nibble_split)
qed (auto simp: hex_encode_def split: option.splits)

text \<open>The parser of digests accepts exactly the printed forms of 32-byte SHA-256 digests, and
  parsing is the inverse of printing.\<close>

theorem digest_codec_exact:
  "parse_digest s = Inr d \<longleftrightarrow>
     s = digest_string d \<and> dg_algorithm d = ''sha256'' \<and> length (dg_bytes d) = 32"
proof
  assume r: "parse_digest s = Inr d"
  then obtain encoded where m: "digest_match s = Some (''sha256'', encoded)"
    and h: "hex_decode encoded = Inr (dg_bytes d)" and d: "length (dg_bytes d) = 32" "dg_algorithm d = ''sha256''"
    by (auto simp: parse_digest_def split: option.splits sum.splits if_splits)
  from m have "cut s CHR '':'' = (''sha256'', encoded, True)" "list_all lower_hex encoded"
    by (auto simp: digest_match_def split: prod.splits if_splits)
  with h d show "s = digest_string d \<and> dg_algorithm d = ''sha256'' \<and> length (dg_bytes d) = 32"
    by (auto simp: digest_string_def hex_encode_decode dest: cut_found)
next
  assume "s = digest_string d \<and> dg_algorithm d = ''sha256'' \<and> length (dg_bytes d) = 32"
  then have d: "s = ''sha256'' @ CHR '':'' # hex_encode (dg_bytes d)" "dg_algorithm d = ''sha256''"
    "length (dg_bytes d) = 32"
    by (auto simp: digest_string_def)
  then have "hex_encode (dg_bytes d) \<noteq> []" by (cases "dg_bytes d") (auto simp: hex_encode_def)
  moreover have "cut s CHR '':'' = (''sha256'', hex_encode (dg_bytes d), True)"
    unfolding d(1) by (rule cut_append) simp
  ultimately have "digest_match s = Some (''sha256'', hex_encode (dg_bytes d))"
    by (simp add: digest_match_def hex_encode_lower lower_letter_def digit_def)
  with d show "parse_digest s = Inr d"
    by (simp add: parse_digest_def hex_decode_encode)
qed

lemma digest_equal_iff: "digest_equal d e \<longleftrightarrow> d = e"
  by (cases d; cases e) (auto simp: digest_equal_def list_all_iff intro: nth_equalityI)

end
