(* ===== verification/Resource_Catalog.thy ===== *)
theory Resource_Catalog
  imports Identity "HOL-Library.List_Lexorder" "HOL-Library.Char_ord"
begin

text \<open>
  The resource catalog (\<open>pkg/op/resource_catalog.go\<close>): the append-only list of resource
  generations, the index by catalog id, the namespace that names the current generation of a URI,
  the lifecycle states, and every operation on them. Resources are shared pointers: a store holds
  the objects, the catalog holds references, and stamping an id writes through the reference. What
  a concrete resource type answers (\<open>Etag\<close>, \<open>Digest\<close>, \<open>Exists\<close>, \<open>ResolveKind\<close>, \<open>MismatchesKind\<close>,
  \<open>IsTree\<close>) is an argument; the mutex is not modelled, each operation being one step. The containers of a
  catalog live in a memory, where \<open>Clone\<close> could share them.
\<close>

section \<open>Objects and the catalog\<close>

record res_object =
  ro_base :: resource_base
  ro_addressing :: addressing_mode

type_synonym res = nat
type_synonym res_heap = "res_object list"

record resource_methods =
  etag_of :: "res_object \<Rightarrow> (gerror, string) result"
  digest_of :: "res_object \<Rightarrow> (gerror, digest) result"
  is_tree :: "res_object \<Rightarrow> bool"
  exists_on :: "res_object \<Rightarrow> bool"
  resolve_kind_of :: "res_object \<Rightarrow> (gerror, res_object option) result option"
  mismatches_kind :: "res_object \<Rightarrow> bool"

record catalog =
  ca_entries :: "res list"
  ca_by_id :: "string \<Rightarrow> nat option"
  ca_ns :: "(string \<times> string) list"
  ca_states :: "string \<Rightarrow> resource_state option"
  ca_next_id :: int
  ca_destroyers :: "string \<Rightarrow> string option"

type_synonym ledger = "res_heap \<times> catalog"

definition new_resource_catalog :: catalog where
  "new_resource_catalog =
     \<lparr>ca_entries = [], ca_by_id = Map.empty, ca_ns = [], ca_states = Map.empty, ca_next_id = 0,
      ca_destroyers = Map.empty\<rparr>"

abbreviation res_id :: "res_heap \<Rightarrow> res \<Rightarrow> string" where
  "res_id h r \<equiv> rb_id (ro_base (h ! r))"

abbreviation res_producer :: "res_heap \<Rightarrow> res \<Rightarrow> string" where
  "res_producer h r \<equiv> rb_producer (ro_base (h ! r))"

abbreviation res_uri :: "res_heap \<Rightarrow> res \<Rightarrow> string" where
  "res_uri h r \<equiv> rb_uri (ro_base (h ! r))"

abbreviation res_addressing :: "res_heap \<Rightarrow> res \<Rightarrow> addressing_mode" where
  "res_addressing h r \<equiv> ro_addressing (h ! r)"

definition stamp_base :: "string \<Rightarrow> string \<Rightarrow> res_object \<Rightarrow> res_object" where
  "stamp_base i producer ob = ob\<lparr>ro_base := (ro_base ob)\<lparr>rb_id := i, rb_producer := producer\<rparr>\<rparr>"

definition object_key :: "res_object \<Rightarrow> string" where
  "object_key ob =
     (if ro_addressing ob = AddressingLocation then strip_fragment (rb_uri (ro_base ob))
      else rb_uri (ro_base ob))"

definition namespace_key :: "res_heap \<Rightarrow> res \<Rightarrow> string" where
  "namespace_key h r = object_key (h ! r)"

definition ledger_id :: "int \<Rightarrow> string" where
  "ledger_id n = ''res-'' @ show_int n"

text \<open>What a call may do: return, return an error, or fail an assertion.\<close>

datatype 'a call = Returns 'a | Fails gerror | Asserts string

section \<open>Catalogs in memory\<close>

text \<open>
  A catalog is a Go struct behind a pointer: its slice and its maps are references to containers, which two structs
  may share, and its methods write through them. A memory holds the structs and the containers; \<open>catalog_at\<close> reads
  the value behind a pointer and \<open>write_catalog\<close> writes a new one in place. The methods of the rest of the theory are
  given on the value they read and write.
\<close>

record catalog_struct =
  cs_entries :: nat
  cs_by_id :: nat
  cs_ns :: nat
  cs_states :: nat
  cs_next_id :: int
  cs_destroyers :: nat

record catalog_memory =
  cm_structs :: "catalog_struct list"
  cm_entries :: "res list list"
  cm_by_id :: "(string \<Rightarrow> nat option) list"
  cm_ns :: "(string \<times> string) list list"
  cm_states :: "(string \<Rightarrow> resource_state option) list"
  cm_destroyers :: "(string \<Rightarrow> string option) list"

definition catalog_at :: "catalog_memory \<Rightarrow> nat \<Rightarrow> catalog" where
  "catalog_at m p =
     (let s = cm_structs m ! p in
      \<lparr>ca_entries = cm_entries m ! cs_entries s, ca_by_id = cm_by_id m ! cs_by_id s, ca_ns = cm_ns m ! cs_ns s,
       ca_states = cm_states m ! cs_states s, ca_next_id = cs_next_id s,
       ca_destroyers = cm_destroyers m ! cs_destroyers s\<rparr>)"

definition write_catalog :: "nat \<Rightarrow> catalog \<Rightarrow> catalog_memory \<Rightarrow> catalog_memory" where
  "write_catalog p c m =
     (let s = cm_structs m ! p in
      \<lparr>cm_structs = (cm_structs m)[p := s\<lparr>cs_next_id := ca_next_id c\<rparr>],
       cm_entries = (cm_entries m)[cs_entries s := ca_entries c],
       cm_by_id = (cm_by_id m)[cs_by_id s := ca_by_id c],
       cm_ns = (cm_ns m)[cs_ns s := ca_ns c],
       cm_states = (cm_states m)[cs_states s := ca_states c],
       cm_destroyers = (cm_destroyers m)[cs_destroyers s := ca_destroyers c]\<rparr>)"

text \<open>\<open>Clone\<close> makes a struct with containers of its own, each a copy of the receiver's; the resources in them are the
  same pointers.\<close>

definition clone :: "nat option \<Rightarrow> catalog_memory \<Rightarrow> nat option \<times> catalog_memory" where
  "clone ptr m =
     (case ptr of
        None \<Rightarrow> (None, m)
      | Some p \<Rightarrow>
          (let s = cm_structs m ! p;
               copied = \<lparr>cs_entries = length (cm_entries m), cs_by_id = length (cm_by_id m), cs_ns = length (cm_ns m),
                         cs_states = length (cm_states m), cs_next_id = cs_next_id s,
                         cs_destroyers = length (cm_destroyers m)\<rparr>
           in (Some (length (cm_structs m)),
               \<lparr>cm_structs = cm_structs m @ [copied],
                cm_entries = cm_entries m @ [cm_entries m ! cs_entries s],
                cm_by_id = cm_by_id m @ [cm_by_id m ! cs_by_id s],
                cm_ns = cm_ns m @ [cm_ns m ! cs_ns s],
                cm_states = cm_states m @ [cm_states m ! cs_states s],
                cm_destroyers = cm_destroyers m @ [cm_destroyers m ! cs_destroyers s]\<rparr>)))"

section \<open>Queries\<close>

definition current :: "catalog \<Rightarrow> string \<Rightarrow> string" where
  "current c uri =
     (case alookup (ca_ns c) uri of
        Some i \<Rightarrow> i
      | None \<Rightarrow> (case alookup (ca_ns c) (strip_fragment uri) of Some i \<Rightarrow> i | None \<Rightarrow> []))"

definition lookup_res :: "catalog \<Rightarrow> string \<Rightarrow> res option" where
  "lookup_res c i = (case ca_by_id c i of None \<Rightarrow> None | Some k \<Rightarrow> Some (ca_entries c ! k))"

definition state_of :: "catalog \<Rightarrow> string \<Rightarrow> resource_state" where
  "state_of c i = (case ca_states c i of None \<Rightarrow> Pending | Some s \<Rightarrow> s)"

definition destroyer_of :: "catalog \<Rightarrow> string \<Rightarrow> string" where
  "destroyer_of c i = (case ca_destroyers c i of None \<Rightarrow> [] | Some u \<Rightarrow> u)"

definition catalog_len :: "catalog \<Rightarrow> nat" where
  "catalog_len c = length (ca_entries c)"

definition pending_entries :: "ledger \<Rightarrow> res list" where
  "pending_entries l =
     (case l of (h, c) \<Rightarrow> filter (\<lambda>r. state_of c (res_id h r) = Pending) (ca_entries c))"

record intent_entry =
  in_id :: string
  in_uri :: string

definition intent_entries :: "ledger \<Rightarrow> intent_entry list" where
  "intent_entries l =
     (case l of (h, c) \<Rightarrow>
        map (\<lambda>r. \<lparr>in_id = res_id h r, in_uri = res_uri h r\<rparr>)
          (filter (\<lambda>r. (case alookup (ca_ns c) (namespace_key h r) of None \<Rightarrow> [] | Some i \<Rightarrow> i) = res_id h r)
             (ca_entries c)))"

text \<open>\<open>ContentResources\<close> ranges over the namespace map, in any order, and sorts by URI.\<close>

definition content_resources :: "ledger \<Rightarrow> res list" where
  "content_resources l =
     (case l of (h, c) \<Rightarrow>
        sort_key (res_uri h)
          (concat (map (\<lambda>(k, i). case ca_by_id c i of
                                   None \<Rightarrow> []
                                 | Some n \<Rightarrow>
                                     (let r = ca_entries c ! n
                                      in if res_addressing h r = AddressingContent then [r] else []))
                     (ca_ns c))))"

section \<open>Recording a generation\<close>

definition catalog_locked :: "res \<Rightarrow> string \<Rightarrow> ledger \<Rightarrow> string \<times> ledger" where
  "catalog_locked r producer l =
     (case l of (h, c) \<Rightarrow>
        let n = ca_next_id c + 1;
            i = ledger_id n;
            h' = h[r := stamp_base i producer (h ! r)]
        in (i, h', c\<lparr>ca_next_id := n,
                     ca_by_id := (ca_by_id c)(i \<mapsto> length (ca_entries c)),
                     ca_entries := ca_entries c @ [r],
                     ca_ns := aput (namespace_key h' r) i (ca_ns c)\<rparr>))"

definition lookup_or_catalog :: "res \<Rightarrow> ledger \<Rightarrow> (res \<times> string \<times> bool) \<times> ledger" where
  "lookup_or_catalog r l =
     (case l of (h, c) \<Rightarrow>
        let miss = (case catalog_locked r [] l of (i, l') \<Rightarrow> ((r, i, False), l'))
        in case alookup (ca_ns c) (namespace_key h r) of
             None \<Rightarrow> miss
           | Some i \<Rightarrow> (case ca_by_id c i of
                          None \<Rightarrow> miss
                        | Some n \<Rightarrow> ((ca_entries c ! n, i, True), l)))"

text \<open>The freshness cascade of \<open>Resolve\<close> reads the two resources and changes nothing; the canonical
  entry is returned whatever it finds.\<close>

definition resolve_res :: "res \<Rightarrow> ledger \<Rightarrow> (res \<times> string) \<times> ledger" where
  "resolve_res r l = (case lookup_or_catalog r l of ((canonical, i, hit), l') \<Rightarrow> ((canonical, i), l'))"

definition link :: "res \<Rightarrow> ledger \<Rightarrow> res \<times> ledger" where
  "link r l = (case resolve_res r l of ((canonical, i), l') \<Rightarrow> (canonical, l'))"

definition shadow :: "res \<Rightarrow> string \<Rightarrow> ledger \<Rightarrow> string \<times> ledger" where
  "shadow r producer l =
     (case l of (h, c) \<Rightarrow>
        let adopted =
              (case alookup (ca_ns c) (namespace_key h r) of
                 None \<Rightarrow> None
               | Some i \<Rightarrow>
                   (case ca_by_id c i of
                      None \<Rightarrow> None
                    | Some n \<Rightarrow>
                        if res_producer h (ca_entries c ! n) \<noteq> [] \<and> producer = [] \<and> state_of c i \<noteq> Gone
                        then Some i else None))
        in case adopted of Some i \<Rightarrow> (i, l) | None \<Rightarrow> catalog_locked r producer l)"

section \<open>Lifecycle\<close>

definition set_state :: "string \<Rightarrow> resource_state \<Rightarrow> catalog \<Rightarrow> catalog" where
  "set_state i s c = c\<lparr>ca_states := (ca_states c)(i \<mapsto> s)\<rparr>"

definition mark_active :: "res \<Rightarrow> ledger \<Rightarrow> ledger" where
  "mark_active r l = (case l of (h, c) \<Rightarrow> (h, set_state (res_id h r) Active c))"

definition mark_gone :: "res \<Rightarrow> ledger \<Rightarrow> ledger" where
  "mark_gone r l = (case l of (h, c) \<Rightarrow> (h, set_state (res_id h r) Gone c))"

text \<open>\<open>MarkGone\<close>; a nil resource is no reference.\<close>

definition destroy :: "res \<Rightarrow> string \<Rightarrow> ledger \<Rightarrow> ledger call" where
  "destroy r destroyer l =
     (case l of (h, c) \<Rightarrow>
        if res_id h r = [] then Asserts ''resource is cataloged''
        else
          let c1 = set_state (res_id h r) Gone c
          in Returns (h, if destroyer \<noteq> []
                         then c1\<lparr>ca_destroyers := (ca_destroyers c1)(res_id h r \<mapsto> destroyer)\<rparr>
                         else c1))"

definition rebind_entry :: "res \<Rightarrow> res \<Rightarrow> ledger \<Rightarrow> ledger" where
  "rebind_entry old bound l =
     (case l of (h, c) \<Rightarrow>
        (case ca_by_id c (res_id h old) of
           None \<Rightarrow> l
         | Some n \<Rightarrow> (h, c\<lparr>ca_entries := (ca_entries c)[n := bound]\<rparr>)))"

definition supersede_entry :: "res \<Rightarrow> res \<Rightarrow> ledger \<Rightarrow> res \<times> ledger" where
  "supersede_entry standing stricter l =
     (case l of (h, c) \<Rightarrow>
        let h' = h[stricter := stamp_base (res_id h standing) (res_producer h standing) (h ! stricter)]
        in (stricter, rebind_entry standing stricter (h', c)))"

definition resolve_kind :: "resource_methods \<Rightarrow> res \<Rightarrow> ledger \<Rightarrow> res \<times> ledger" where
  "resolve_kind M r l =
     (case l of (h, c) \<Rightarrow>
        (case resolve_kind_of M (h ! r) of
           Some (Inr (Some ob)) \<Rightarrow> supersede_entry r (length h) (h @ [ob], c)
         | _ \<Rightarrow> (r, l)))"

definition verify_existence :: "resource_methods \<Rightarrow> res \<Rightarrow> ledger \<Rightarrow> gerror option \<times> ledger" where
  "verify_existence M r l =
     (case l of (h, c) \<Rightarrow>
        if state_of c (res_id h r) = Active then (None, l)
        else if exists_on M (h ! r) then
          (case resolve_kind M r l of (r', l') \<Rightarrow> (None, mark_active r' l'))
        else
          let l' = mark_gone r l;
              claim = ''verify existence: resource '' @ quote (res_uri h r)
          in if mismatches_kind M (h ! r) then (Some (wrapf (claim @ '': '') ErrClaimKindMismatch), l')
             else (Some (ENew (claim @ '' does not exist'')), l'))"

section \<open>Introducing and producing resources\<close>

text \<open>A factory may touch the store: it returns the candidate it constructed, or its error.\<close>

type_synonym factory = "res_heap \<Rightarrow> (gerror, res) result \<times> res_heap"

definition introduce :: "factory \<Rightarrow> ledger \<Rightarrow> res call \<times> ledger" where
  "introduce build l =
     (case l of (h, c) \<Rightarrow>
        (case build h of
           (Inl e, h') \<Rightarrow> (Fails e, (h', c))
         | (Inr r, h') \<Rightarrow> (case link r (h', c) of (r', l') \<Rightarrow> (Returns r', l'))))"

definition discover :: "string \<Rightarrow> factory \<Rightarrow> ledger \<Rightarrow> res call \<times> ledger" where
  "discover uri build l =
     (case l of (h, c) \<Rightarrow>
        if uri = [] then (Asserts ''uri not empty'', l)
        else if current c uri = [] then introduce build l
        else
          (case lookup_res c (current c uri) of
             None \<Rightarrow> introduce build l
           | Some r \<Rightarrow>
               (case state_of c (current c uri) of
                  Active \<Rightarrow> (Returns r, l)
                | Gone \<Rightarrow> (Fails (ENew (''discover '' @ quote uri @ '': resource is known-gone'')), l)
                | Pending \<Rightarrow> (Returns r, l))))"

definition produce :: "string \<Rightarrow> string \<Rightarrow> factory \<Rightarrow> ledger \<Rightarrow> res call \<times> ledger" where
  "produce producer uri build l =
     (case l of (h, c) \<Rightarrow>
        (case build h of
           (Inl e, h') \<Rightarrow> (Fails e, (h', c))
         | (Inr r, h') \<Rightarrow>
             (case shadow r producer (h', c) of
                (i, l') \<Rightarrow>
                  (case lookup_res (snd l') i of
                     None \<Rightarrow> (Fails (ENew (''get-or-create '' @ quote uri
                               @ '': shadow returned unknown catalog id '' @ quote i)), l')
                   | Some canonical \<Rightarrow> (Returns canonical, mark_active canonical l')))))"

definition get_or_create :: "string \<Rightarrow> string \<Rightarrow> factory \<Rightarrow> ledger \<Rightarrow> res call \<times> ledger" where
  "get_or_create producer uri build l =
     (case l of (h, c) \<Rightarrow>
        if uri = [] then (Asserts ''uri not empty'', l)
        else if current c uri = [] then produce producer uri build l
        else
          (case lookup_res c (current c uri) of
             None \<Rightarrow> produce producer uri build l
           | Some r \<Rightarrow>
               if res_addressing h r = AddressingContent \<and> state_of c (current c uri) \<noteq> Gone
               then (Returns r, l)
               else produce producer uri build l))"

section \<open>Restoring\<close>

definition restore_entry :: "string \<Rightarrow> res \<Rightarrow> string \<Rightarrow> resource_state \<Rightarrow> ledger \<Rightarrow> ledger" where
  "restore_entry i r producer s l =
     (case l of (h, c) \<Rightarrow>
        let h' = h[r := stamp_base i producer (h ! r)]
        in (h', c\<lparr>ca_by_id := (ca_by_id c)(i \<mapsto> length (ca_entries c)),
                  ca_entries := ca_entries c @ [r],
                  ca_ns := aput (namespace_key h' r) i (ca_ns c),
                  ca_states := (ca_states c)(i \<mapsto> s)\<rparr>))"

section \<open>The binding of a run\<close>

text \<open>\<open>bindPendingResources\<close> (\<open>graph_executor.go\<close>): every pending entry is replaced, in the run's
  catalog only, by a shallow copy bound to the run's root.\<close>

definition bind_one :: "(res_object \<Rightarrow> res_object) \<Rightarrow> res \<Rightarrow> ledger \<Rightarrow> ledger" where
  "bind_one bind_root r l =
     (case l of (h, c) \<Rightarrow> rebind_entry r (length h) (h @ [bind_root (h ! r)], c))"

definition bind_pending_resources :: "(res_object \<Rightarrow> res_object) \<Rightarrow> ledger \<Rightarrow> ledger" where
  "bind_pending_resources bind_root l = fold (bind_one bind_root) (pending_entries l) l"

end
