(* ===== verification/Catalog_Laws.thy ===== *)
theory Catalog_Laws
  imports Resource_Catalog
begin

text \<open>
  The laws of the resource catalog: what every operation keeps (the index and the namespace describe
  the list of entries, ids are unique, objects already entered are never written), that the history
  of generations only grows, and what each operation returns.
\<close>

section \<open>The invariant\<close>

definition generations :: "ledger \<Rightarrow> (string \<times> string) list" where
  "generations l = (case l of (h, c) \<Rightarrow> map (\<lambda>r. (namespace_key h r, res_id h r)) (ca_entries c))"

definition entry_ids :: "ledger \<Rightarrow> string set" where
  "entry_ids l = (case l of (h, c) \<Rightarrow> res_id h ` set (ca_entries c))"

text \<open>References are valid and entered once, the index is the inverse of the entries' ids, the
  namespace names the last generation of each key, no id of the counter's future is in use, and only
  entered ids have a state or a destroyer.\<close>

definition sound_catalog :: "ledger \<Rightarrow> bool" where
  "sound_catalog l =
     (case l of (h, c) \<Rightarrow>
        (\<forall>r \<in> set (ca_entries c). r < length h) \<and> distinct (ca_entries c)
        \<and> distinct (map (res_id h) (ca_entries c)) \<and> [] \<notin> entry_ids l
        \<and> (\<forall>i n. ca_by_id c i = Some n \<longleftrightarrow> n < length (ca_entries c) \<and> res_id h (ca_entries c ! n) = i)
        \<and> alookup (ca_ns c) = map_of (rev (generations l)) \<and> distinct (map fst (ca_ns c))
        \<and> (\<forall>n > ca_next_id c. ledger_id n \<notin> entry_ids l)
        \<and> dom (ca_states c) \<subseteq> entry_ids l \<and> dom (ca_destroyers c) \<subseteq> entry_ids l)"

definition uninterned :: "res \<Rightarrow> ledger \<Rightarrow> bool" where
  "uninterned r l \<longleftrightarrow> r < length (fst l) \<and> r \<notin> set (ca_entries (snd l))"

text \<open>The second store holds every object of the first that the catalog has entered, unchanged.\<close>

definition keeps_objects :: "ledger \<Rightarrow> ledger \<Rightarrow> bool" where
  "keeps_objects l l' \<longleftrightarrow>
     length (fst l) \<le> length (fst l') \<and> (\<forall>r \<in> set (ca_entries (snd l)). fst l' ! r = fst l ! r)"

lemma show_int_inj: "0 \<le> m \<Longrightarrow> 0 \<le> n \<Longrightarrow> show_int m = show_int n \<Longrightarrow> m = n"
  by (simp add: show_int_def show_nat_inj)

lemma minus_not_digit: "CHR ''-'' \<notin> set (show_nat n)"
proof
  assume "CHR ''-'' \<in> set (show_nat n)"
  then obtain d where "char_digit CHR ''-'' = Some d" using show_nat_digits by blast
  then show False by (simp add: char_digit_def)
qed

lemma ledger_id_inj: "ledger_id m = ledger_id n \<longleftrightarrow> m = n"
proof
  assume "ledger_id m = ledger_id n"
  then have "show_int m = show_int n" by (simp add: ledger_id_def)
  then show "m = n"
    using minus_not_digit [of "nat m"] minus_not_digit [of "nat n"]
    by (auto simp: show_int_def show_nat_inj eq_nat_nat_iff split: if_splits)
      (metis list.set_intros(1) minus_not_digit)+
qed simp

lemma ledger_id_nonempty [simp]: "ledger_id n \<noteq> []"
  by (simp add: ledger_id_def)

lemma sound_new [simp]: "sound_catalog (h, new_resource_catalog)"
  by (simp add: sound_catalog_def new_resource_catalog_def entry_ids_def generations_def)

lemma object_key_stamp [simp]: "object_key (stamp_base i p ob) = object_key ob"
  by (simp add: object_key_def stamp_base_def)

lemma stamp_base_simps [simp]:
  "rb_id (ro_base (stamp_base i p ob)) = i"
  "rb_producer (ro_base (stamp_base i p ob)) = p"
  "rb_uri (ro_base (stamp_base i p ob)) = rb_uri (ro_base ob)"
  "ro_addressing (stamp_base i p ob) = ro_addressing ob"
  by (simp_all add: stamp_base_def)

section \<open>One lemma per write\<close>

text \<open>What the invariant says depends on the entered objects only.\<close>

lemma observations_cong:
  assumes "keeps_objects (h, c) (h', c)" "sound_catalog (h, c)"
  shows "generations (h', c) = generations (h, c) \<and> entry_ids (h', c) = entry_ids (h, c)
    \<and> sound_catalog (h', c)"
proof -
  have o: "\<And>r. r \<in> set (ca_entries c) \<Longrightarrow> h' ! r = h ! r" "length h \<le> length h'"
    using assms(1) by (auto simp: keeps_objects_def)
  have g: "generations (h', c) = generations (h, c)" "entry_ids (h', c) = entry_ids (h, c)"
    "map (res_id h') (ca_entries c) = map (res_id h) (ca_entries c)"
    by (auto simp: generations_def entry_ids_def namespace_key_def o)
  have n: "n < length (ca_entries c) \<and> res_id h' (ca_entries c ! n) = i
      \<longleftrightarrow> n < length (ca_entries c) \<and> res_id h (ca_entries c ! n) = i" for n i
    using o(1) by (metis nth_mem)
  have "sound_catalog (h', c)"
    using assms(2) o(2) unfolding sound_catalog_def prod.case g n by auto
  with g show ?thesis by simp
qed

lemma sound_append:
  assumes "sound_catalog (h, c)" "uninterned r (h, c)" "i \<notin> entry_ids (h, c)" "i \<noteq> []"
    and "ca_next_id c \<le> m" "\<forall>n > m. i \<noteq> ledger_id n"
    and "h' = h[r := stamp_base i p (h ! r)]"
    and "c' = c\<lparr>ca_next_id := m, ca_by_id := (ca_by_id c)(i \<mapsto> length (ca_entries c)),
               ca_entries := ca_entries c @ [r], ca_ns := aput (namespace_key h' r) i (ca_ns c)\<rparr>"
  shows "sound_catalog (h', c') \<and> keeps_objects (h, c) (h', c')
    \<and> generations (h', c') = generations (h, c) @ [(namespace_key h r, i)]
    \<and> res_id h' r = i \<and> res_producer h' r = p"
proof -
  have r: "r < length h" "r \<notin> set (ca_entries c)" using assms(2) by (auto simp: uninterned_def)
  have o: "\<And>x. x \<in> set (ca_entries c) \<Longrightarrow> h' ! x = h ! x" and l: "length h' = length h"
    using r assms(7) by (auto simp: nth_list_update_neq) (metis nth_list_update_neq)
  have hr: "h' ! r = stamp_base i p (h ! r)" using r assms(7) by simp
  have "keeps_objects (h, c) (h', c)" using o l by (simp add: keeps_objects_def)
  then have s: "sound_catalog (h', c)" "generations (h', c) = generations (h, c)"
    "entry_ids (h', c) = entry_ids (h, c)"
    using observations_cong assms(1) by blast+
  have key: "namespace_key h' r = namespace_key h r" by (simp add: namespace_key_def hr)
  have g: "generations (h', c') = generations (h, c) @ [(namespace_key h r, i)]"
    using s(2) key by (simp add: generations_def assms(8) hr)
  have ids: "entry_ids (h', c') = insert i (entry_ids (h, c))"
    using s(3) by (simp add: entry_ids_def assms(8) hr)
  have by_id: "ca_by_id c' j = Some n \<longleftrightarrow> n < length (ca_entries c') \<and> res_id h' (ca_entries c' ! n) = j" for j n
  proof (cases "n < length (ca_entries c)")
    case True
    then have "res_id h' (ca_entries c ! n) \<noteq> i" using assms(3) s(3) by (force simp: entry_ids_def)
    with True s(1) show ?thesis by (auto simp: assms(8) sound_catalog_def nth_append)
  next
    case False
    with s(1) have "ca_by_id c j \<noteq> Some n" by (simp add: sound_catalog_def)
    then have "ca_by_id c' j = Some n \<longleftrightarrow> j = i \<and> n = length (ca_entries c)"
      by (auto simp: assms(8))
    moreover have "n < length (ca_entries c') \<longleftrightarrow> n = length (ca_entries c)"
      using False by (auto simp: assms(8))
    ultimately show ?thesis by (auto simp: assms(8) hr)
  qed
  have i_new: "i \<notin> res_id h' ` set (ca_entries c)" using assms(3) s(3) by (simp add: entry_ids_def)
  have ns: "alookup (ca_ns c') = map_of (rev (generations (h', c')))"
    unfolding g using s(1,2) key by (simp add: assms(8) sound_catalog_def)
  have "sound_catalog (h', c')"
    unfolding sound_catalog_def prod.case ids
  proof (intro conjI)
    show "\<forall>x \<in> set (ca_entries c'). x < length h'" "distinct (ca_entries c')"
      using s(1) r l by (simp_all add: sound_catalog_def assms(8))
    show "distinct (map (res_id h') (ca_entries c'))"
      using s(1) i_new by (simp add: sound_catalog_def assms(8) hr)
    show "[] \<notin> insert i (entry_ids (h, c))"
      using assms(1,4) by (simp add: sound_catalog_def)
    show "distinct (map fst (ca_ns c'))"
      using s(1) by (simp add: sound_catalog_def assms(8) distinct_aput)
    show "\<forall>n > ca_next_id c'. ledger_id n \<notin> insert i (entry_ids (h, c))"
      using assms(1,5,6) by (force simp: sound_catalog_def assms(8))
    show "dom (ca_states c') \<subseteq> insert i (entry_ids (h, c))" "dom (ca_destroyers c') \<subseteq> insert i (entry_ids (h, c))"
      using assms(1) by (auto simp: sound_catalog_def assms(8))
  qed (use by_id ns in blast)+
  moreover have "keeps_objects (h, c) (h', c')" using o l by (simp add: keeps_objects_def)
  ultimately show ?thesis using g hr by simp
qed

lemma lookup_res_sound:
  assumes "sound_catalog (h, c)"
  shows "lookup_res c i = Some e \<longleftrightarrow> e \<in> set (ca_entries c) \<and> res_id h e = i"
proof -
  have b: "ca_by_id c i = Some n \<longleftrightarrow> n < length (ca_entries c) \<and> res_id h (ca_entries c ! n) = i" for i n
    using assms unfolding sound_catalog_def prod.case by blast
  show ?thesis
  proof
    assume "lookup_res c i = Some e"
    then obtain n where "ca_by_id c i = Some n" "e = ca_entries c ! n"
      by (auto simp: lookup_res_def split: option.splits)
    then show "e \<in> set (ca_entries c) \<and> res_id h e = i" using b by auto
  next
    assume "e \<in> set (ca_entries c) \<and> res_id h e = i"
    then obtain n where "n < length (ca_entries c)" "ca_entries c ! n = e" "res_id h e = i"
      by (auto simp: in_set_conv_nth)
    then show "lookup_res c i = Some e" using b [of i n] by (simp add: lookup_res_def)
  qed
qed

lemma lookup_res_entry_ids:
  "sound_catalog (h, c) \<Longrightarrow> i \<in> entry_ids (h, c) \<longleftrightarrow> (\<exists>e. lookup_res c i = Some e)"
  by (auto simp: lookup_res_sound entry_ids_def)

lemma entered_id_nonempty:
  assumes "sound_catalog (h, c)" "r \<in> set (ca_entries c)"
  shows "res_id h r \<noteq> []"
proof -
  have "[] \<notin> entry_ids (h, c)" using assms(1) by (simp add: sound_catalog_def)
  then show ?thesis using assms(2) by (force simp: entry_ids_def)
qed

lemma by_id_None:
  "sound_catalog (h, c) \<Longrightarrow> ca_by_id c i = None \<longleftrightarrow> i \<notin> entry_ids (h, c)"
  by (auto simp: lookup_res_entry_ids lookup_res_def split: option.splits)

lemma sound_set_state:
  assumes "sound_catalog (h, c)" "i \<in> entry_ids (h, c)"
  shows "sound_catalog (h, set_state i s c)"
proof -
  have "generations (h, set_state i s c) = generations (h, c)" "entry_ids (h, set_state i s c) = entry_ids (h, c)"
    by (simp_all add: generations_def entry_ids_def set_state_def)
  with assms show ?thesis unfolding sound_catalog_def prod.case by (simp add: set_state_def)
qed

lemma set_state_simps [simp]:
  "generations (h, set_state i s c) = generations (h, c)"
  "entry_ids (h, set_state i s c) = entry_ids (h, c)"
  "ca_entries (set_state i s c) = ca_entries c"
  "ca_ns (set_state i s c) = ca_ns c"
  "ca_by_id (set_state i s c) = ca_by_id c"
  "lookup_res (set_state i s c) = lookup_res c"
  "current (set_state i s c) = current c"
  "state_of (set_state i s c) = (state_of c)(i := s)"
  by (auto simp: generations_def entry_ids_def set_state_def lookup_res_def current_def state_of_def fun_eq_iff
      split: option.splits)

lemma nth_in_map_update:
  "n < length xs \<Longrightarrow> f y = f (xs ! n) \<Longrightarrow> map f (xs[n := y]) = map f xs"
  by (rule nth_equalityI) (auto simp: nth_list_update)

lemma sound_rebind:
  assumes s: "sound_catalog (h, c)" and "uninterned bound (h, c)"
    and e: "lookup_res c (res_id h old) = Some e"
    and b: "res_id h bound = res_id h old" "namespace_key h bound = namespace_key h e"
  shows "sound_catalog (rebind_entry old bound (h, c))
    \<and> generations (rebind_entry old bound (h, c)) = generations (h, c)
    \<and> keeps_objects (h, c) (rebind_entry old bound (h, c))"
proof -
  obtain n where n: "ca_by_id c (res_id h old) = Some n" "e = ca_entries c ! n"
    using e by (auto simp: lookup_res_def split: option.splits)
  have i: "res_id h e = res_id h old" "n < length (ca_entries c)"
    using e s n by (auto simp: lookup_res_sound) (auto simp: sound_catalog_def)
  let ?es = "(ca_entries c)[n := bound]"
  have ids: "map (res_id h) ?es = map (res_id h) (ca_entries c)"
    using nth_in_map_update [OF i(2), of "res_id h" bound] n(2) i(1) b(1) by simp
  have g: "map (\<lambda>r. (namespace_key h r, res_id h r)) ?es
      = map (\<lambda>r. (namespace_key h r, res_id h r)) (ca_entries c)"
    using nth_in_map_update [OF i(2), of "\<lambda>r. (namespace_key h r, res_id h r)" bound] n(2) i(1) b by simp
  have idn: "k < length (ca_entries c) \<Longrightarrow> res_id h (?es ! k) = res_id h (ca_entries c ! k)" for k
    using ids by (metis length_list_update nth_map)
  have img: "res_id h ` set ?es = res_id h ` set (ca_entries c)"
    using ids by (metis list.set_map)
  have x: "rebind_entry old bound (h, c) = (h, c\<lparr>ca_entries := ?es\<rparr>)"
    using n(1) by (simp add: rebind_entry_def)
  have "sound_catalog (h, c\<lparr>ca_entries := ?es\<rparr>)"
    unfolding sound_catalog_def prod.case
  proof (intro conjI)
    show "\<forall>r \<in> set (ca_entries (c\<lparr>ca_entries := ?es\<rparr>)). r < length h"
      using s assms(2) set_update_subset_insert [of "ca_entries c" n bound]
      by (auto simp: sound_catalog_def uninterned_def)
    show "distinct (ca_entries (c\<lparr>ca_entries := ?es\<rparr>))"
      using s assms(2) by (simp add: sound_catalog_def uninterned_def distinct_list_update)
    show "\<forall>i k. ca_by_id (c\<lparr>ca_entries := ?es\<rparr>) i = Some k \<longleftrightarrow>
        k < length (ca_entries (c\<lparr>ca_entries := ?es\<rparr>)) \<and> res_id h (ca_entries (c\<lparr>ca_entries := ?es\<rparr>) ! k) = i"
      using s idn by (auto simp: sound_catalog_def)
  qed (use s ids g img in \<open>simp_all add: sound_catalog_def entry_ids_def generations_def\<close>)
  with x g show ?thesis by (simp add: generations_def keeps_objects_def)
qed

lemma sound_supersede:
  assumes s: "sound_catalog (h, c)" and u: "uninterned stricter (h, c)"
    and e: "lookup_res c (res_id h standing) = Some e" and "standing \<noteq> stricter"
    and k: "namespace_key h stricter = namespace_key h e"
    and x: "supersede_entry standing stricter (h, c) = (r', l')"
  shows "sound_catalog l' \<and> generations l' = generations (h, c) \<and> keeps_objects (h, c) l'
    \<and> r' = stricter \<and> res_id (fst l') r' = res_id h standing
    \<and> ca_states (snd l') = ca_states c \<and> ca_destroyers (snd l') = ca_destroyers c
    \<and> length (fst l') = length h \<and> (\<forall>r. r \<noteq> stricter \<longrightarrow> fst l' ! r = h ! r)"
proof -
  let ?h = "h[stricter := stamp_base (res_id h standing) (res_producer h standing) (h ! stricter)]"
  have st: "stricter < length h" "stricter \<notin> set (ca_entries c)" using u by (auto simp: uninterned_def)
  have o: "r \<noteq> stricter \<Longrightarrow> ?h ! r = h ! r" for r by (metis nth_list_update_neq)
  then have k0: "keeps_objects (h, c) (?h, c)"
    using st by (auto simp: keeps_objects_def) (metis nth_list_update_neq)
  then have s': "sound_catalog (?h, c)" "generations (?h, c) = generations (h, c)"
    using observations_cong s by blast+
  have "e \<noteq> stricter" using e s st by (auto simp: lookup_res_sound)
  have l': "l' = rebind_entry standing stricter (?h, c)" "r' = stricter"
    using x by (auto simp: supersede_entry_def Let_def)
  have "res_id ?h stricter = res_id h standing" "res_id ?h standing = res_id h standing"
    using st o [of standing] assms(4) by simp_all
  moreover have "namespace_key ?h stricter = namespace_key ?h e"
    using k st o [OF \<open>e \<noteq> stricter\<close>] by (simp add: namespace_key_def)
  moreover have "uninterned stricter (?h, c)" using u by (simp add: uninterned_def)
  ultimately have "sound_catalog l' \<and> generations l' = generations (?h, c) \<and> keeps_objects (?h, c) l'"
    unfolding l' using sound_rebind [OF s'(1), of stricter standing e] e by simp
  moreover have "fst l' = ?h" "ca_states (snd l') = ca_states c" "ca_destroyers (snd l') = ca_destroyers c"
    by (simp_all add: l' rebind_entry_def split: option.splits)
  moreover have "res_id ?h stricter = res_id h standing" using st by simp
  ultimately show ?thesis using s'(2) k0 l' o by (auto simp: keeps_objects_def)
qed

lemma catalog_locked_sound:
  assumes "sound_catalog (h, c)" "uninterned r (h, c)" "catalog_locked r p (h, c) = (i, (h', c'))"
  shows "sound_catalog (h', c') \<and> keeps_objects (h, c) (h', c')
    \<and> generations (h', c') = generations (h, c) @ [(namespace_key h r, i)]
    \<and> res_id h' r = i \<and> res_producer h' r = p \<and> i = ledger_id (ca_next_id c + 1)
    \<and> ca_states c' = ca_states c \<and> ca_destroyers c' = ca_destroyers c
    \<and> h' = h[r := stamp_base i p (h ! r)] \<and> ca_entries c' = ca_entries c @ [r]"
proof -
  let ?i = "ledger_id (ca_next_id c + 1)"
  have "?i \<notin> entry_ids (h, c)" using assms(1) by (simp add: sound_catalog_def)
  moreover have "\<forall>n > ca_next_id c + 1. ?i \<noteq> ledger_id n" by (simp add: ledger_id_inj)
  moreover have "i = ?i" "h' = h[r := stamp_base ?i p (h ! r)]"
    "c' = c\<lparr>ca_next_id := ca_next_id c + 1, ca_by_id := (ca_by_id c)(?i \<mapsto> length (ca_entries c)),
       ca_entries := ca_entries c @ [r], ca_ns := aput (namespace_key h' r) ?i (ca_ns c)\<rparr>"
    using assms(3) by (auto simp: catalog_locked_def Let_def)
  ultimately show ?thesis
    using sound_append [OF assms(1,2), of ?i "ca_next_id c + 1" h' p c'] by simp
qed

text \<open>What linking a resource gives: the current generation of its key, introduced when there is none.\<close>

lemma last_generation:
  assumes "sound_catalog (h, c)"
  shows "alookup (ca_ns c) k = Some i \<longleftrightarrow> map_of (rev (generations (h, c))) k = Some i"
    and "alookup (ca_ns c) k = Some i \<Longrightarrow> i \<in> entry_ids (h, c)"
proof -
  have a: "alookup (ca_ns c) = map_of (rev (generations (h, c)))"
    using assms unfolding sound_catalog_def prod.case by blast
  then show "alookup (ca_ns c) k = Some i \<longleftrightarrow> map_of (rev (generations (h, c))) k = Some i" by simp
  assume "alookup (ca_ns c) k = Some i"
  with a have "(k, i) \<in> set (generations (h, c))" by (metis map_of_SomeD set_rev)
  then show "i \<in> entry_ids (h, c)" by (auto simp: generations_def entry_ids_def)
qed

lemma link_sound:
  assumes s: "sound_catalog (h, c)" and u: "uninterned r (h, c)" and x: "link r (h, c) = (r', (h', c'))"
  shows "case alookup (ca_ns c) (namespace_key h r) of
           Some i \<Rightarrow> lookup_res c i = Some r' \<and> (h', c') = (h, c)
         | None \<Rightarrow> r' = r \<and> catalog_locked r [] (h, c) = (ledger_id (ca_next_id c + 1), (h', c'))"
proof (cases "alookup (ca_ns c) (namespace_key h r)")
  case None
  with x show ?thesis
    by (auto simp: link_def resolve_res_def lookup_or_catalog_def Let_def catalog_locked_def)
next
  case (Some i)
  then obtain n where "ca_by_id c i = Some n"
    using last_generation(2) [OF s] by_id_None [OF s] by (metis not_Some_eq)
  with Some x show ?thesis
    by (auto simp: link_def resolve_res_def lookup_or_catalog_def Let_def lookup_res_def)
qed

section \<open>Runs of catalog operations\<close>

text \<open>What one step leaves: a sound catalog whose history extends the old one, in a store where the
  protected objects (those of another catalog that shares the store) are as they were.\<close>

definition keeps_refs :: "res set \<Rightarrow> res_heap \<Rightarrow> res_heap \<Rightarrow> bool" where
  "keeps_refs A h h' \<longleftrightarrow> length h \<le> length h' \<and> (\<forall>r \<in> A. r < length h \<longrightarrow> h' ! r = h ! r)"

definition extends_ledger :: "res set \<Rightarrow> ledger \<Rightarrow> ledger \<Rightarrow> bool" where
  "extends_ledger A l l' \<longleftrightarrow>
     sound_catalog l' \<and> prefix (generations l) (generations l') \<and> keeps_refs A (fst l) (fst l')"

definition candidate :: "res set \<Rightarrow> res \<Rightarrow> ledger \<Rightarrow> bool" where
  "candidate A r l \<longleftrightarrow> uninterned r l \<and> r \<notin> A"

text \<open>A factory constructs: it writes no entered or protected object, and its candidate is new.\<close>

definition constructs :: "res set \<Rightarrow> factory \<Rightarrow> ledger \<Rightarrow> bool" where
  "constructs A build l \<longleftrightarrow>
     (case l of (h, c) \<Rightarrow> case build h of (x, h') \<Rightarrow>
        keeps_refs (A \<union> set (ca_entries c)) h h' \<and> (\<forall>r. x = Inr r \<longrightarrow> candidate A r (h', c)))"

text \<open>A reference stands for an entry when an entry has its id and its key.\<close>

definition stands :: "res \<Rightarrow> ledger \<Rightarrow> bool" where
  "stands r l \<longleftrightarrow> (case l of (h, c) \<Rightarrow>
     r < length h \<and> (\<exists>e. lookup_res c (res_id h r) = Some e \<and> namespace_key h e = namespace_key h r))"

definition same_identity :: "res_object \<Rightarrow> res_object \<Rightarrow> bool" where
  "same_identity ob ob' \<longleftrightarrow> rb_id (ro_base ob') = rb_id (ro_base ob) \<and> object_key ob' = object_key ob"

inductive catalog_step ::
  "resource_methods \<Rightarrow> (res_object \<Rightarrow> res_object) \<Rightarrow> res set \<Rightarrow> ledger \<Rightarrow> ledger \<Rightarrow> bool"
  for M B A
where
  step_link: "candidate A r l \<Longrightarrow> link r l = (x, l') \<Longrightarrow> catalog_step M B A l l'"
| step_shadow: "candidate A r l \<Longrightarrow> shadow r p l = (i, l') \<Longrightarrow> catalog_step M B A l l'"
| step_discover: "constructs A build l \<Longrightarrow> discover uri build l = (x, l') \<Longrightarrow> catalog_step M B A l l'"
| step_produce: "constructs A build l \<Longrightarrow> get_or_create p uri build l = (x, l') \<Longrightarrow> catalog_step M B A l l'"
| step_verify: "stands r l \<Longrightarrow>
    (\<And>ob. resolve_kind_of M (fst l ! r) = Some (Inr (Some ob)) \<Longrightarrow> object_key ob = object_key (fst l ! r)) \<Longrightarrow>
    verify_existence M r l = (x, l') \<Longrightarrow> catalog_step M B A l l'"
| step_destroy: "stands r l \<Longrightarrow> destroy r u l = Returns l' \<Longrightarrow> catalog_step M B A l l'"
| step_supersede: "stands standing l \<Longrightarrow> candidate A stricter l \<Longrightarrow> standing \<noteq> stricter \<Longrightarrow>
    namespace_key (fst l) stricter = namespace_key (fst l) standing \<Longrightarrow>
    supersede_entry standing stricter l = (x, l') \<Longrightarrow> catalog_step M B A l l'"
| step_bind: "(\<And>ob. same_identity ob (B ob)) \<Longrightarrow> l' = bind_pending_resources B l \<Longrightarrow> catalog_step M B A l l'"

lemma extends_ledger_refl: "sound_catalog l \<Longrightarrow> extends_ledger A l l"
  by (simp add: extends_ledger_def keeps_refs_def)

lemma extends_ledger_trans:
  "extends_ledger A l l' \<Longrightarrow> extends_ledger A l' l'' \<Longrightarrow> extends_ledger A l l''"
  by (auto simp: extends_ledger_def keeps_refs_def intro: prefix_order.trans)

lemma extends_set_state:
  "extends_ledger A l (h, c) \<Longrightarrow> i \<in> entry_ids (h, c) \<Longrightarrow> extends_ledger A l (h, set_state i s c)"
  by (simp add: extends_ledger_def sound_set_state)

lemma keeps_refs_grow: "keeps_refs A h (h @ obs)"
  by (simp add: keeps_refs_def nth_append)

lemma sound_grow:
  assumes "sound_catalog (h, c)" "keeps_refs (set (ca_entries c)) h h'"
  shows "sound_catalog (h', c) \<and> generations (h', c) = generations (h, c) \<and> entry_ids (h', c) = entry_ids (h, c)"
proof -
  have "keeps_objects (h, c) (h', c)"
    using assms by (auto simp: keeps_refs_def keeps_objects_def sound_catalog_def)
  with observations_cong assms(1) show ?thesis by blast
qed

lemma extends_catalog_locked:
  assumes "sound_catalog l" "candidate A r l" "catalog_locked r p l = (i, l')"
  shows "extends_ledger A l l'"
proof -
  obtain h c h' c' where l: "l = (h, c)" "l' = (h', c')" by (metis surj_pair)
  from assms l have "sound_catalog (h, c)" "uninterned r (h, c)" "catalog_locked r p (h, c) = (i, (h', c'))"
    by (simp_all add: candidate_def)
  from catalog_locked_sound [OF this]
  have x: "sound_catalog l'" "generations l' = generations l @ [(namespace_key h r, i)]"
    "h' = h[r := stamp_base i p (h ! r)]"
    unfolding l by blast+
  moreover have "keeps_refs A h h'"
    using assms(2) by (auto simp: x(3) keeps_refs_def candidate_def) (metis nth_list_update_neq)
  ultimately show ?thesis by (simp add: extends_ledger_def l)
qed

lemma extends_link:
  assumes "sound_catalog l" "candidate A r l" "link r l = (x, l')"
  shows "extends_ledger A l l'"
proof -
  obtain h c h' c' where l: "l = (h, c)" "l' = (h', c')" by (metis surj_pair)
  show ?thesis
    using link_sound [of h c r x h' c'] assms extends_catalog_locked [of l A r] extends_ledger_refl
    by (auto simp: l candidate_def split: option.splits)
qed

lemma extends_shadow:
  assumes "sound_catalog l" "candidate A r l" "shadow r p l = (i, l')"
  shows "extends_ledger A l l' \<and> (\<exists>e. lookup_res (snd l') i = Some e)"
proof -
  obtain h c where l: "l = (h, c)" by (metis surj_pair)
  show ?thesis
  proof (cases "l' = l \<and> alookup (ca_ns c) (namespace_key h r) = Some i")
    case True
    then show ?thesis
      using assms(1) last_generation(2) lookup_res_entry_ids l by (auto simp: extends_ledger_refl)
  next
    case False
    then have x: "catalog_locked r p l = (i, l')"
      using assms(3) unfolding l shadow_def prod.case Let_def by (auto split: option.splits if_splits)
    obtain h' c' where l': "l' = (h', c')" by (metis surj_pair)
    from assms(1,2) x have "sound_catalog (h, c)" "uninterned r (h, c)" "catalog_locked r p (h, c) = (i, (h', c'))"
      by (simp_all add: candidate_def l l')
    from catalog_locked_sound [OF this]
    have "r \<in> set (ca_entries c')" "res_id h' r = i" "sound_catalog (h', c')" by auto
    then have "lookup_res c' i = Some r" by (simp add: lookup_res_sound)
    with extends_catalog_locked [OF assms(1,2) x] l' show ?thesis by simp
  qed
qed

lemma extends_supersede:
  assumes "sound_catalog l" "stands standing l" "candidate A stricter l" "standing \<noteq> stricter"
    and "namespace_key (fst l) stricter = namespace_key (fst l) standing"
    and "supersede_entry standing stricter l = (x, l')"
  shows "extends_ledger A l l' \<and> res_id (fst l') x = res_id (fst l) standing
    \<and> res_id (fst l) standing \<in> entry_ids l'
    \<and> ca_states (snd l') = ca_states (snd l) \<and> ca_destroyers (snd l') = ca_destroyers (snd l)"
proof -
  obtain h c where l: "l = (h, c)" by (metis surj_pair)
  from assms(2) l obtain e where e: "lookup_res c (res_id h standing) = Some e"
    "namespace_key h e = namespace_key h standing"
    by (auto simp: stands_def)
  have u: "uninterned stricter (h, c)" "stricter \<notin> A" using assms(3) l by (auto simp: candidate_def)
  have k: "namespace_key h stricter = namespace_key h e" using assms(5) e l by simp
  note f = sound_supersede [OF assms(1) [unfolded l] u(1) e(1) assms(4) k assms(6) [unfolded l]]
  have "keeps_refs A h (fst l')" using f u(2) unfolding keeps_refs_def by (metis order_refl)
  moreover have "res_id h standing \<in> entry_ids (h, c)"
    using e(1) assms(1) l lookup_res_entry_ids by auto
  moreover have "entry_ids l = snd ` set (generations l)" for l :: ledger
    by (cases l) (force simp: entry_ids_def generations_def)
  ultimately show ?thesis using f by (auto simp: extends_ledger_def l)
qed

lemma stands_id: "sound_catalog l \<Longrightarrow> stands r l \<Longrightarrow> res_id (fst l) r \<in> entry_ids l"
  by (cases l) (auto simp: stands_def lookup_res_entry_ids)

lemma stands_grow:
  assumes "sound_catalog (h, c)" "stands r (h, c)"
  shows "stands r (h @ [ob], c)"
proof -
  obtain e where e: "r < length h" "lookup_res c (res_id h r) = Some e" "namespace_key h e = namespace_key h r"
    using assms(2) by (auto simp: stands_def)
  then have "e \<in> set (ca_entries c)" using assms(1) by (simp add: lookup_res_sound)
  then have "e < length h" using assms(1) by (simp add: sound_catalog_def)
  with e show ?thesis by (auto simp: stands_def nth_append namespace_key_def)
qed

lemma extends_grow:
  assumes "sound_catalog (h, c)"
  shows "extends_ledger A (h, c) (h @ [ob], c)"
  using sound_grow [OF assms keeps_refs_grow, of "[ob]"] keeps_refs_grow [of A h "[ob]"]
  by (simp add: extends_ledger_def)

lemma extends_resolve_kind:
  assumes s: "sound_catalog l" and st: "stands r l" and A: "\<forall>x \<in> A. x < length (fst l)"
    and k: "\<And>ob. resolve_kind_of M (fst l ! r) = Some (Inr (Some ob)) \<Longrightarrow> object_key ob = object_key (fst l ! r)"
    and x: "resolve_kind M r l = (r', l')"
  shows "extends_ledger A l l' \<and> res_id (fst l') r' = res_id (fst l) r \<and> res_id (fst l) r \<in> entry_ids l'
    \<and> ca_states (snd l') = ca_states (snd l) \<and> ca_destroyers (snd l') = ca_destroyers (snd l)"
proof -
  obtain h c where l: "l = (h, c)" by (metis surj_pair)
  show ?thesis
  proof (cases "\<exists>ob. resolve_kind_of M (h ! r) = Some (Inr (Some ob))")
    case False
    then have "r' = r \<and> l' = l"
      using x by (auto simp: resolve_kind_def l split: option.splits sum.splits)
    then show ?thesis using s st by (simp add: extends_ledger_refl stands_id)
  next
    case True
    then obtain ob where ob: "resolve_kind_of M (h ! r) = Some (Inr (Some ob))" by blast
    let ?l = "(h @ [ob], c)"
    have e1: "extends_ledger A l ?l" unfolding l using s l by (intro extends_grow) simp
    then have "sound_catalog ?l" by (simp add: extends_ledger_def)
    moreover have "candidate A (length h) ?l"
      using s A by (auto simp: candidate_def uninterned_def l sound_catalog_def)
    moreover have r: "r < length h" using st by (simp add: stands_def l)
    moreover have "stands r ?l" using stands_grow s st unfolding l by blast
    moreover have "namespace_key (fst ?l) (length h) = namespace_key (fst ?l) r"
      using k ob r by (simp add: l namespace_key_def nth_append)
    moreover have "supersede_entry r (length h) ?l = (r', l')"
      using x ob by (simp add: resolve_kind_def l)
    ultimately show ?thesis
      using extends_supersede [of ?l r A "length h" r' l'] extends_ledger_trans [OF e1]
      by (simp add: l nth_append)
  qed
qed

lemma extends_verify:
  assumes s: "sound_catalog l" and st: "stands r l" and A: "\<forall>x \<in> A. x < length (fst l)"
    and k: "\<And>ob. resolve_kind_of M (fst l ! r) = Some (Inr (Some ob)) \<Longrightarrow> object_key ob = object_key (fst l ! r)"
    and x: "verify_existence M r l = (err, l')"
  shows "extends_ledger A l l'"
proof -
  obtain h c where l: "l = (h, c)" by (metis surj_pair)
  consider "l' = l" | "l' = mark_gone r l" | r2 l2 where "resolve_kind M r l = (r2, l2)" "l' = mark_active r2 l2"
    using x unfolding verify_existence_def l Let_def by (auto split: if_splits prod.splits)
  then show ?thesis
  proof cases
    case 1
    with s show ?thesis by (simp add: extends_ledger_refl)
  next
    case 2
    then show ?thesis
      using extends_set_state [OF extends_ledger_refl] s stands_id [OF s st] by (simp add: mark_gone_def l)
  next
    case 3
    with extends_resolve_kind [OF s st A k 3(1)] show ?thesis
      by (cases l2) (simp add: mark_active_def extends_set_state)
  qed
qed

lemma extends_destroy:
  assumes "sound_catalog l" "stands r l" "destroy r u l = Returns l'"
  shows "extends_ledger A l l'"
proof -
  obtain h c where l: "l = (h, c)" by (metis surj_pair)
  have i: "res_id h r \<in> entry_ids (h, c)" using stands_id assms(1,2) l by fastforce
  have d: "sound_catalog (h, c') \<Longrightarrow> entry_ids (h, c') = entry_ids (h, c)
      \<Longrightarrow> generations (h, c') = generations (h, c) \<Longrightarrow> ca_entries c' = ca_entries c
      \<Longrightarrow> extends_ledger A (h, c) (h, c'\<lparr>ca_destroyers := (ca_destroyers c')(res_id h r \<mapsto> u)\<rparr>)" for c'
    using i by (simp add: extends_ledger_def keeps_refs_def sound_catalog_def generations_def entry_ids_def)
  show ?thesis
    using assms d [of "set_state (res_id h r) Gone c"] i sound_set_state [of h c "res_id h r" Gone]
      extends_set_state [OF extends_ledger_refl, of h c "res_id h r" A]
    by (auto simp: destroy_def l Let_def extends_ledger_def keeps_refs_def split: if_splits)
qed

lemma extends_bind_one:
  assumes s: "sound_catalog (h, c)" and r: "r \<in> set (ca_entries c)" and B: "\<And>ob. same_identity ob (B ob)"
    and A: "\<forall>x \<in> A. x < length h"
  shows "case bind_one B r (h, c) of (h', c') \<Rightarrow> extends_ledger A (h, c) (h', c')
    \<and> set (ca_entries c) - {r} \<subseteq> set (ca_entries c') \<and> length h \<le> length h'"
proof -
  let ?h = "h @ [B (h ! r)]"
  have s': "sound_catalog (?h, c)" "generations (?h, c) = generations (h, c)"
    using sound_grow [OF s keeps_refs_grow] by blast+
  have rl: "r < length h" "\<forall>x \<in> set (ca_entries c). x < length h" using s r by (auto simp: sound_catalog_def)
  have "uninterned (length h) (?h, c)" using rl by (auto simp: uninterned_def)
  moreover have e: "lookup_res c (res_id ?h r) = Some r" using s' r by (simp add: lookup_res_sound)
  moreover have "res_id ?h (length h) = res_id ?h r" "namespace_key ?h (length h) = namespace_key ?h r"
    using B [of "h ! r"] rl(1) by (simp_all add: same_identity_def namespace_key_def nth_append)
  ultimately have b: "sound_catalog (rebind_entry r (length h) (?h, c))"
    "generations (rebind_entry r (length h) (?h, c)) = generations (?h, c)"
    using sound_rebind [OF s'(1)] by blast+
  obtain n where n: "ca_by_id c (res_id ?h r) = Some n" "r = ca_entries c ! n" "n < length (ca_entries c)"
    using e s'(1) by (auto simp: lookup_res_def split: option.splits) (auto simp: sound_catalog_def)
  then have x: "rebind_entry r (length h) (?h, c) = (?h, c\<lparr>ca_entries := (ca_entries c)[n := length h]\<rparr>)"
    by (simp add: rebind_entry_def)
  have "set (ca_entries c) - {r} \<subseteq> set ((ca_entries c)[n := length h])"
  proof
    fix y assume "y \<in> set (ca_entries c) - {r}"
    then obtain k where "k < length (ca_entries c)" "ca_entries c ! k = y" "k \<noteq> n"
      using n by (auto simp: in_set_conv_nth)
    then show "y \<in> set ((ca_entries c)[n := length h])"
      by (metis length_list_update nth_list_update_neq nth_mem)
  qed
  with b s'(2) x A show ?thesis
    by (simp add: bind_one_def extends_ledger_def keeps_refs_grow)
qed

lemma extends_bind_fold:
  assumes "\<And>ob. same_identity ob (B ob)"
  shows "sound_catalog l \<Longrightarrow> distinct rs \<Longrightarrow> set rs \<subseteq> set (ca_entries (snd l)) \<Longrightarrow>
    \<forall>x \<in> A. x < length (fst l) \<Longrightarrow> extends_ledger A l (fold (bind_one B) rs l)"
proof (induction rs arbitrary: l)
  case Nil
  then show ?case by (simp add: extends_ledger_refl)
next
  case (Cons r rs)
  obtain h c where l: "l = (h, c)" by (metis surj_pair)
  obtain h' c' where b: "bind_one B r (h, c) = (h', c')" by (metis surj_pair)
  have e: "extends_ledger A (h, c) (h', c')" "set (ca_entries c) - {r} \<subseteq> set (ca_entries c')" "length h \<le> length h'"
    using extends_bind_one [of h c r B A] assms Cons.prems l b by auto
  then have "set rs \<subseteq> set (ca_entries c')" "\<forall>x \<in> A. x < length h'"
    using Cons.prems l by auto
  then have "extends_ledger A (h', c') (fold (bind_one B) rs (h', c'))"
    using Cons.IH [of "(h', c')"] e(1) Cons.prems by (simp add: extends_ledger_def)
  with e(1) show ?case by (auto simp: l b intro: extends_ledger_trans)
qed

lemma extends_bind:
  assumes "sound_catalog l" "\<And>ob. same_identity ob (B ob)" "\<forall>x \<in> A. x < length (fst l)"
  shows "extends_ledger A l (bind_pending_resources B l)"
proof -
  have "distinct (pending_entries l)" "set (pending_entries l) \<subseteq> set (ca_entries (snd l))"
    using assms(1) by (cases l; auto simp: pending_entries_def sound_catalog_def)+
  with assms extends_bind_fold show ?thesis unfolding bind_pending_resources_def by blast
qed

lemma extends_construct:
  assumes "sound_catalog (h, c)" "constructs A build (h, c)" "build h = (x, h')"
  shows "extends_ledger A (h, c) (h', c) \<and> (\<forall>r. x = Inr r \<longrightarrow> candidate A r (h', c))"
proof -
  from assms(2,3) have k: "keeps_refs (A \<union> set (ca_entries c)) h h'" "\<forall>r. x = Inr r \<longrightarrow> candidate A r (h', c)"
    by (auto simp: constructs_def)
  then have "keeps_refs (set (ca_entries c)) h h'" "keeps_refs A h h'" by (auto simp: keeps_refs_def)
  with sound_grow [OF assms(1)] k(2) show ?thesis by (simp add: extends_ledger_def)
qed

lemma extends_introduce:
  assumes "sound_catalog l" "constructs A build l" "introduce build l = (x, l')"
  shows "extends_ledger A l l'"
proof -
  obtain h c where l: "l = (h, c)" by (metis surj_pair)
  obtain y h' where y: "build h = (y, h')" by (metis surj_pair)
  from extends_construct [of h c A build y h'] assms l y
  have e: "extends_ledger A (h, c) (h', c)" "\<forall>r. y = Inr r \<longrightarrow> candidate A r (h', c)" by auto
  then have "sound_catalog (h', c)" by (simp add: extends_ledger_def)
  with assms(3) e show ?thesis
    using extends_link [of "(h', c)" A] extends_ledger_trans [OF e(1)]
    by (auto simp: introduce_def l y split: sum.splits prod.splits)
qed

lemma extends_discover:
  assumes "sound_catalog l" "constructs A build l" "discover uri build l = (x, l')"
  shows "extends_ledger A l l'"
proof -
  have "l' = l \<or> introduce build l = (x, l')"
    using assms(3) by (cases l) (auto simp: discover_def split: if_splits option.splits resource_state.splits)
  then show ?thesis using extends_introduce [OF assms(1,2)] extends_ledger_refl [OF assms(1)] by blast
qed

lemma extends_produce:
  assumes "sound_catalog l" "constructs A build l" "produce p uri build l = (x, l')"
  shows "extends_ledger A l l'"
proof -
  obtain h c where l: "l = (h, c)" by (metis surj_pair)
  obtain y h' where y: "build h = (y, h')" by (metis surj_pair)
  from extends_construct [of h c A build y h'] assms l y
  have e: "extends_ledger A (h, c) (h', c)" "\<forall>r. y = Inr r \<longrightarrow> candidate A r (h', c)" by auto
  then have s': "sound_catalog (h', c)" by (simp add: extends_ledger_def)
  show ?thesis
  proof (cases y)
    case (Inl err)
    with assms(3) e(1) show ?thesis by (simp add: produce_def l y)
  next
    case (Inr r)
    obtain i h2 c2 where sh: "shadow r p (h', c) = (i, (h2, c2))" by (metis prod_cases3)
    from extends_shadow [OF s' _ sh] e(2) Inr
    obtain e2 where e2: "extends_ledger A (h', c) (h2, c2)" "lookup_res c2 i = Some e2" by auto
    then have "sound_catalog (h2, c2)" by (simp add: extends_ledger_def)
    then have "res_id h2 e2 \<in> entry_ids (h2, c2)" using e2(2) lookup_res_sound entry_ids_def by auto
    moreover have "l' = (h2, set_state (res_id h2 e2) Active c2)"
      using assms(3) Inr sh e2(2) by (simp add: produce_def l y mark_active_def)
    ultimately show ?thesis
      using extends_set_state [OF extends_ledger_trans [OF e(1) e2(1)]] l by simp
  qed
qed

lemma extends_get_or_create:
  assumes "sound_catalog l" "constructs A build l" "get_or_create p uri build l = (x, l')"
  shows "extends_ledger A l l'"
proof -
  have "l' = l \<or> produce p uri build l = (x, l')"
    using assms(3) by (cases l) (auto simp: get_or_create_def split: if_splits option.splits)
  then show ?thesis using extends_produce [OF assms(1,2)] extends_ledger_refl [OF assms(1)] by blast
qed

lemma catalog_step_extends:
  assumes "catalog_step M B A l l'" "sound_catalog l" "\<forall>x \<in> A. x < length (fst l)"
  shows "extends_ledger A l l'"
  using assms
proof (cases rule: catalog_step.cases)
  case (step_verify r x)
  then show ?thesis using extends_verify assms by blast
next
  case step_bind
  then show ?thesis using extends_bind assms by blast
qed (use assms in \<open>blast intro: extends_link extends_discover extends_get_or_create extends_destroy
      dest: extends_shadow extends_supersede\<close>)+

section \<open>The contract of a versioned namespace\<close>

text \<open>A state with a log of generations, whose namespace names the last generation of each key, and
  steps that keep an invariant and only append to the log.\<close>

locale generation_log =
  fixes good :: "'s \<Rightarrow> bool"
    and log :: "'s \<Rightarrow> ('k \<times> 'i) list"
    and named :: "'s \<Rightarrow> 'k \<Rightarrow> 'i option"
    and step :: "'s \<Rightarrow> 's \<Rightarrow> bool"
  assumes names_last: "good s \<Longrightarrow> named s k = map_of (rev (log s)) k"
    and step_good: "step s t \<Longrightarrow> good s \<Longrightarrow> good t"
    and step_log: "step s t \<Longrightarrow> good s \<Longrightarrow> prefix (log s) (log t)"
begin

lemma run_good: "step\<^sup>*\<^sup>* s t \<Longrightarrow> good s \<Longrightarrow> good t \<and> prefix (log s) (log t)"
  by (induction rule: rtranclp_induct) (auto dest: step_good step_log intro: prefix_order.trans)

lemma run_names_newest:
  assumes "step\<^sup>*\<^sup>* s t" "good s"
  shows "named t k = (case map_of (rev (drop (length (log s)) (log t))) k of
                        Some i \<Rightarrow> Some i | None \<Rightarrow> named s k)"
proof -
  from run_good [OF assms] obtain new where new: "log t = log s @ new" by (auto simp: prefix_def)
  with run_good [OF assms] assms(2) show ?thesis
    by (simp add: names_last map_add_def split: option.splits)
qed

lemma run_keeps_names: "step\<^sup>*\<^sup>* s t \<Longrightarrow> good s \<Longrightarrow> named s k \<noteq> None \<Longrightarrow> named t k \<noteq> None"
  by (simp add: run_names_newest split: option.splits)

end

interpretation catalog: generation_log
  "\<lambda>l. sound_catalog l \<and> (\<forall>x \<in> A. x < length (fst l))" generations "\<lambda>l. alookup (ca_ns (snd l))"
  "catalog_step M B A" for M B A
proof
  fix l l' :: ledger and k
  show "sound_catalog l \<and> (\<forall>x \<in> A. x < length (fst l)) \<Longrightarrow> alookup (ca_ns (snd l)) k = map_of (rev (generations l)) k"
    by (cases l) (simp add: sound_catalog_def)
  assume "catalog_step M B A l l'" "sound_catalog l \<and> (\<forall>x \<in> A. x < length (fst l))"
  then have "extends_ledger A l l'" using catalog_step_extends by blast
  then show "sound_catalog l' \<and> (\<forall>x \<in> A. x < length (fst l'))" "prefix (generations l) (generations l')"
    using \<open>sound_catalog l \<and> (\<forall>x \<in> A. x < length (fst l))\<close>
    by (auto simp: extends_ledger_def keeps_refs_def intro: less_le_trans)
qed

text \<open>C17: from a sound catalog, any sequence of the catalog's operations (linking, shadowing,
  discovering, producing, verifying, destroying, superseding, binding) whose candidates are new
  objects leaves a sound catalog: ids stay unique, the index and the namespace describe the entries,
  the generations recorded before are still the beginning of the history, and a URI names its newest
  generation, the one it named before when none was added.\<close>

theorem catalog_runs_stay_sound:
  assumes "(catalog_step M B {})\<^sup>*\<^sup>* (h, c) (h', c')" and "sound_catalog (h, c)"
  shows "sound_catalog (h', c') \<and> prefix (generations (h, c)) (generations (h', c'))
    \<and> alookup (ca_ns c') k =
        (case map_of (rev (drop (catalog_len c) (generations (h', c')))) k of
           Some i \<Rightarrow> Some i | None \<Rightarrow> alookup (ca_ns c) k)"
proof -
  have "length (generations (h, c)) = catalog_len c" by (simp add: generations_def catalog_len_def)
  with catalog.run_good [OF assms(1)] catalog.run_names_newest [OF assms(1)] assms(2) show ?thesis
    by (simp split: option.split)
qed

lemma run_keeps_refs:
  assumes "(catalog_step M B A)\<^sup>*\<^sup>* l l'" "sound_catalog l" "\<forall>x \<in> A. x < length (fst l)"
  shows "extends_ledger A l l'"
  using assms
proof (induction rule: rtranclp_induct)
  case base
  then show ?case by (simp add: extends_ledger_refl)
next
  case (step t u)
  then have e: "extends_ledger A l t" by blast
  then have "sound_catalog t" "\<forall>x \<in> A. x < length (fst t)"
    using step.prems by (auto simp: extends_ledger_def keeps_refs_def intro: less_le_trans)
  with step.hyps(2) have "extends_ledger A t u" using catalog_step_extends by blast
  with e show ?case by (rule extends_ledger_trans)
qed

section \<open>Clones\<close>

definition in_memory :: "catalog_memory \<Rightarrow> nat \<Rightarrow> bool" where
  "in_memory m p \<longleftrightarrow>
     p < length (cm_structs m) \<and>
     (let s = cm_structs m ! p in
      cs_entries s < length (cm_entries m) \<and> cs_by_id s < length (cm_by_id m) \<and> cs_ns s < length (cm_ns m) \<and>
      cs_states s < length (cm_states m) \<and> cs_destroyers s < length (cm_destroyers m))"

definition no_sharing :: "catalog_memory \<Rightarrow> nat \<Rightarrow> nat \<Rightarrow> bool" where
  "no_sharing m p q \<longleftrightarrow>
     p \<noteq> q \<and>
     (let s = cm_structs m ! p; t = cm_structs m ! q in
      cs_entries s \<noteq> cs_entries t \<and> cs_by_id s \<noteq> cs_by_id t \<and> cs_ns s \<noteq> cs_ns t \<and>
      cs_states s \<noteq> cs_states t \<and> cs_destroyers s \<noteq> cs_destroyers t)"

text \<open>A call of a method on the catalog behind a pointer.\<close>

inductive method_step ::
  "resource_methods \<Rightarrow> (res_object \<Rightarrow> res_object) \<Rightarrow> res set \<Rightarrow> nat \<Rightarrow> res_heap \<times> catalog_memory \<Rightarrow>
     res_heap \<times> catalog_memory \<Rightarrow> bool"
  for M B A p where
  "catalog_step M B A (h, catalog_at m p) (h', c') \<Longrightarrow> method_step M B A p (h, m) (h', write_catalog p c' m)"

lemma catalog_at_written: "in_memory m p \<Longrightarrow> catalog_at (write_catalog p c m) p = c"
  by (simp add: in_memory_def catalog_at_def write_catalog_def Let_def)

lemma catalog_at_elsewhere: "no_sharing m p q \<Longrightarrow> catalog_at (write_catalog p c m) q = catalog_at m q"
  by (simp add: no_sharing_def catalog_at_def write_catalog_def Let_def)

lemma in_memory_written: "in_memory m q \<Longrightarrow> in_memory (write_catalog p c m) q"
  by (cases "p = q") (auto simp: in_memory_def write_catalog_def Let_def)

lemma no_sharing_written: "in_memory m p \<Longrightarrow> no_sharing m p q \<Longrightarrow> no_sharing (write_catalog p c m) p q"
  by (simp add: no_sharing_def in_memory_def write_catalog_def Let_def)

lemma method_run:
  assumes "(method_step M B A p)\<^sup>*\<^sup>* (h, m) (h', m')" "in_memory m p" "no_sharing m p q"
  shows "(catalog_step M B A)\<^sup>*\<^sup>* (h, catalog_at m p) (h', catalog_at m' p)
    \<and> catalog_at m' q = catalog_at m q \<and> in_memory m' p \<and> no_sharing m' p q"
  using assms
proof (induction "(h', m')" arbitrary: h' m' rule: rtranclp_induct)
  case (step hm)
  obtain h1 m1 where hm: "hm = (h1, m1)" by (cases hm)
  note IH = step.hyps(3) [OF hm step.prems]
  from step.hyps(2) obtain c' where c': "catalog_step M B A (h1, catalog_at m1 p) (h', c')" "m' = write_catalog p c' m1"
    by (auto simp: hm elim: method_step.cases)
  with IH show ?case
    by (auto simp: catalog_at_written catalog_at_elsewhere in_memory_written no_sharing_written
        intro: rtranclp.rtrancl_into_rtrancl)
qed auto

lemma cloned:
  assumes "clone (Some p) m = (Some q, m1)" "in_memory m p"
  shows "in_memory m1 p" "in_memory m1 q" "no_sharing m1 p q" "no_sharing m1 q p"
    "catalog_at m1 p = catalog_at m p" "catalog_at m1 q = catalog_at m p"
proof -
  note c = assms [unfolded clone_def in_memory_def Let_def option.case prod.inject option.inject, simplified]
  show "in_memory m1 p" "in_memory m1 q" "no_sharing m1 p q" "no_sharing m1 q p"
    "catalog_at m1 p = catalog_at m p" "catalog_at m1 q = catalog_at m p"
    using c by (auto simp: in_memory_def no_sharing_def catalog_at_def Let_def nth_append)
qed

text \<open>C19: A clone starts as the planning catalog is and shares no container with it, only the resource objects. Whatever
  methods a run then calls on the clone, with candidates that the planning catalog has not entered, the planning
  catalog reads exactly as before, every object it entered is as it was, and both catalogs are sound; and methods
  called on the planning catalog do not change the clone.\<close>

theorem clone_is_isolated:
  assumes cl: "clone (Some p) m = (Some q, m1)" and m: "in_memory m p" and s: "sound_catalog (h, catalog_at m p)"
    and run: "(method_step M B (set (ca_entries (catalog_at m p))) q)\<^sup>*\<^sup>* (h, m1) (h', m')"
  shows "catalog_at m1 q = catalog_at m p \<and> catalog_at m' p = catalog_at m p
    \<and> (\<forall>r \<in> set (ca_entries (catalog_at m p)). h' ! r = h ! r)
    \<and> sound_catalog (h', catalog_at m' p) \<and> sound_catalog (h', catalog_at m' q)
    \<and> ((method_step M B A p)\<^sup>*\<^sup>* (h, m1) (h2, m2) \<longrightarrow> catalog_at m2 q = catalog_at m1 q)"
proof -
  note c = cloned [OF cl m]
  let ?A = "set (ca_entries (catalog_at m p))"
  have len: "\<forall>x \<in> ?A. x < length h" using s by (simp add: sound_catalog_def)
  note steps = method_run [OF run c(2,4)]
  have "extends_ledger ?A (h, catalog_at m p) (h', catalog_at m' q)"
    using run_keeps_refs [of M B ?A "(h, catalog_at m p)"] steps s len by (simp add: c)
  then have k: "keeps_refs ?A h h'" and s': "sound_catalog (h', catalog_at m' q)" by (auto simp: extends_ledger_def)
  have "\<forall>r \<in> ?A. h' ! r = h ! r" using k len by (simp add: keeps_refs_def)
  moreover have "catalog_at m' p = catalog_at m p" using steps by (simp add: c)
  moreover have "sound_catalog (h', catalog_at m p)" using sound_grow [OF s k] by simp
  ultimately show ?thesis using s' c(6) method_run [OF _ c(1,3)] by auto
qed

end
