(* ===== verification/Catalog_Behaviour.thy ===== *)
theory Catalog_Behaviour
  imports Catalog_Laws
begin

text \<open>
  What the catalog's production, discovery and verification return on every branch, and a small
  catalog to run them in.
\<close>

section \<open>A small catalog\<close>

definition allocate :: "res_object \<Rightarrow> factory" where
  "allocate ob h = (Inr (length h), h @ [ob])"

definition demo_object :: "addressing_mode \<Rightarrow> string \<Rightarrow> string \<Rightarrow> res_object" where
  "demo_object a specific type_id =
     \<lparr>ro_base = \<lparr>rb_id = [], rb_producer = [], rb_specific = specific, rb_type_id = type_id,
                rb_uri = tag_uri_prefix @ specific @ [hash_char] @ type_id\<rparr>,
      ro_addressing = a\<rparr>"

definition demo_file :: res_object where
  "demo_file = demo_object AddressingLocation ''file:a'' ''op/file.Regular''"

definition demo_blob :: res_object where
  "demo_blob = demo_object AddressingContent ''sha256:00'' ''op/mem.Resource''"

definition demo_methods :: resource_methods where
  "demo_methods =
     \<lparr>etag_of = (\<lambda>ob. Inr (rb_uri (ro_base ob))),
      digest_of = (\<lambda>ob. Inr \<lparr>dg_algorithm = ''sha256'', dg_bytes = replicate 32 0\<rparr>),
      is_tree = (\<lambda>ob. False), exists_on = (\<lambda>ob. True), resolve_kind_of = (\<lambda>ob. None),
      mismatches_kind = (\<lambda>ob. False)\<rparr>"

abbreviation file_uri :: string where
  "file_uri \<equiv> rb_uri (ro_base demo_file)"

lemma allocate_constructs:
  "sound_catalog (h, c) \<Longrightarrow> \<forall>x \<in> A. x < length h \<Longrightarrow> constructs A (allocate ob) (h, c)"
  by (auto simp: constructs_def allocate_def keeps_refs_def candidate_def uninterned_def nth_append sound_catalog_def)

lemma catalog_runs_stay_sound_witness:
  "\<exists>h c. (catalog_step demo_methods id {})\<^sup>*\<^sup>* ([], new_resource_catalog) (h, c) \<and> sound_catalog (h, c)
     \<and> current c file_uri = ''res-2'' \<and> catalog_len c = 2"
proof -
  let ?l = "([], new_resource_catalog)"
  obtain x h1 c1 where a: "discover file_uri (allocate demo_file) ?l = (x, (h1, c1))" by (metis prod_cases3)
  have A: "catalog_step demo_methods id {} ?l (h1, c1)"
    using step_discover [OF _ a] allocate_constructs [of "[]" new_resource_catalog "{}"] by simp
  have s1: "sound_catalog (h1, c1)" using catalog_step_extends [OF A] by (simp add: extends_ledger_def)
  obtain y h2 c2 where b: "get_or_create ''copy'' file_uri (allocate demo_file) (h1, c1) = (y, (h2, c2))"
    by (metis prod_cases3)
  have B: "catalog_step demo_methods id {} (h1, c1) (h2, c2)"
    using step_produce [OF _ b] allocate_constructs [OF s1] by simp
  have run: "(catalog_step demo_methods id {})\<^sup>*\<^sup>* ?l (h2, c2)" using A B by (meson r_into_rtranclp rtranclp_trans)
  have "(case get_or_create ''copy'' file_uri (allocate demo_file)
            (snd (discover file_uri (allocate demo_file) ?l)) of
          (y, (h2, c2)) \<Rightarrow> current c2 file_uri = ''res-2'' \<and> catalog_len c2 = 2)"
    by code_simp
  then have "current c2 file_uri = ''res-2'' \<and> catalog_len c2 = 2" by (simp add: a b)
  with catalog_runs_stay_sound [OF run sound_new] run show ?thesis by blast
qed

text \<open>A memory with one catalog, and its clone.\<close>

definition memory_of :: "catalog \<Rightarrow> catalog_memory" where
  "memory_of c =
     \<lparr>cm_structs = [\<lparr>cs_entries = 0, cs_by_id = 0, cs_ns = 0, cs_states = 0, cs_next_id = ca_next_id c, cs_destroyers = 0\<rparr>],
      cm_entries = [ca_entries c], cm_by_id = [ca_by_id c], cm_ns = [ca_ns c], cm_states = [ca_states c],
      cm_destroyers = [ca_destroyers c]\<rparr>"

lemma catalog_at_memory_of [simp]: "catalog_at (memory_of c) 0 = c" "in_memory (memory_of c) 0"
  by (simp_all add: memory_of_def catalog_at_def in_memory_def)

lemma clone_is_isolated_witness:
  "\<exists>h1 c1 h2 c2 m1 m2. snd (discover file_uri (allocate demo_file) ([], new_resource_catalog)) = (h1, c1)
     \<and> snd (get_or_create ''copy'' file_uri (allocate demo_file) (h1, c1)) = (h2, c2)
     \<and> clone (Some 0) (memory_of c1) = (Some 1, m1) \<and> m2 = write_catalog 1 c2 m1
     \<and> catalog_at m2 0 = c1 \<and> sound_catalog (h2, catalog_at m2 0) \<and> sound_catalog (h2, catalog_at m2 1)"
proof -
  let ?l = "([], new_resource_catalog)"
  obtain x h1 c1 where a: "discover file_uri (allocate demo_file) ?l = (x, (h1, c1))" by (metis prod_cases3)
  have s1: "sound_catalog (h1, c1)"
    using extends_discover [OF sound_new allocate_constructs [OF sound_new] a, of "{}"]
    by (simp add: extends_ledger_def)
  then have len: "\<forall>x \<in> set (ca_entries c1). x < length h1" by (simp add: sound_catalog_def)
  obtain y h2 c2 where b: "get_or_create ''copy'' file_uri (allocate demo_file) (h1, c1) = (y, (h2, c2))"
    by (metis prod_cases3)
  obtain m1 where m1: "clone (Some 0) (memory_of c1) = (Some 1, m1)" by (simp add: clone_def memory_of_def Let_def)
  have "catalog_step demo_methods id (set (ca_entries c1)) (h1, catalog_at m1 1) (h2, c2)"
    using step_produce [OF allocate_constructs [OF s1 len] b] cloned(6) [OF m1] by simp
  then have "method_step demo_methods id (set (ca_entries (catalog_at (memory_of c1) 0))) 1 (h1, m1)
      (h2, write_catalog 1 c2 m1)"
    by (simp add: method_step.intros)
  then have run: "(method_step demo_methods id (set (ca_entries (catalog_at (memory_of c1) 0))) 1)\<^sup>*\<^sup>* (h1, m1)
      (h2, write_catalog 1 c2 m1)" by blast
  from clone_is_isolated [OF m1 _ _ run, of "{}" h1 m1] s1 a b m1 show ?thesis by auto
qed

section \<open>Production\<close>

text \<open>A content-addressed entry that is not gone stands for its URI as it is.\<close>

definition singleton_hit :: "ledger \<Rightarrow> string \<Rightarrow> res option" where
  "singleton_hit l uri =
     (case l of (h, c) \<Rightarrow>
        (case lookup_res c (current c uri) of
           None \<Rightarrow> None
         | Some e \<Rightarrow> if res_addressing h e = AddressingContent \<and> state_of c (current c uri) \<noteq> Gone
                     then Some e else None))"

text \<open>A caller without a producer defers to a produced entry of the candidate's key that is not gone.\<close>

definition deferred_to :: "ledger \<Rightarrow> string \<Rightarrow> res \<Rightarrow> res option" where
  "deferred_to l p r =
     (case l of (h, c) \<Rightarrow>
        (case alookup (ca_ns c) (namespace_key h r) of
           None \<Rightarrow> None
         | Some i \<Rightarrow>
             (case lookup_res c i of
                None \<Rightarrow> None
              | Some e \<Rightarrow> if res_producer h e \<noteq> [] \<and> p = [] \<and> state_of c i \<noteq> Gone then Some e else None)))"

definition new_generation :: "ledger \<Rightarrow> string \<Rightarrow> res \<Rightarrow> ledger \<Rightarrow> bool" where
  "new_generation l p r l' \<longleftrightarrow>
     (let i = ledger_id (ca_next_id (snd l) + 1)
      in generations l' = generations l @ [(namespace_key (fst l) r, i)]
         \<and> lookup_res (snd l') i = Some r \<and> res_producer (fst l') r = p
         \<and> alookup (ca_ns (snd l')) (namespace_key (fst l) r) = Some i
         \<and> state_of (snd l') = (state_of (snd l))(i := Active)
         \<and> ca_destroyers (snd l') = ca_destroyers (snd l))"

lemma shadow_cases:
  assumes s: "sound_catalog (h, c)" and u: "uninterned r (h, c)" and x: "shadow r p (h, c) = (i, (h', c'))"
  shows "case deferred_to (h, c) p r of
           Some e \<Rightarrow> lookup_res c i = Some e \<and> (h', c') = (h, c)
         | None \<Rightarrow> catalog_locked r p (h, c) = (i, (h', c'))"
proof (cases "alookup (ca_ns c) (namespace_key h r)")
  case None
  with x show ?thesis by (simp add: shadow_def deferred_to_def Let_def)
next
  case (Some j)
  then obtain e where e: "lookup_res c j = Some e"
    using last_generation(2) [OF s] lookup_res_entry_ids [OF s] by blast
  then obtain n where n: "ca_by_id c j = Some n" "e = ca_entries c ! n"
    by (auto simp: lookup_res_def split: option.splits)
  with x Some show ?thesis
    by (auto simp: shadow_def deferred_to_def Let_def lookup_res_def split: if_splits)
qed

lemma produce_result:
  assumes s: "sound_catalog (h, c)" and k: "constructs {} build (h, c)" and b: "build h = (Inr r, h1)"
    and x: "produce p uri build (h, c) = (out, (h', c'))"
  shows "case deferred_to (h1, c) p r of
           Some e \<Rightarrow> out = Returns e \<and> h' = h1 \<and> c' = set_state (res_id h1 e) Active c
         | None \<Rightarrow> out = Returns r \<and> new_generation (h1, c) p r (h', c')"
proof -
  from extends_construct [OF s k b] have s1: "sound_catalog (h1, c)" and u: "uninterned r (h1, c)"
    by (auto simp: extends_ledger_def candidate_def)
  obtain i h2 c2 where sh: "shadow r p (h1, c) = (i, (h2, c2))" by (metis prod_cases3)
  note cs = shadow_cases [OF s1 u sh]
  have run: "produce p uri build (h, c) =
      (case lookup_res c2 i of None \<Rightarrow> (Fails (ENew (''get-or-create '' @ quote uri
                               @ '': shadow returned unknown catalog id '' @ quote i)), (h2, c2))
       | Some e \<Rightarrow> (Returns e, (h2, set_state (res_id h2 e) Active c2)))"
    using b sh by (auto simp: produce_def mark_active_def split: option.splits)
  show ?thesis
  proof (cases "deferred_to (h1, c) p r")
    case (Some e)
    with cs have "lookup_res c i = Some e" "h2 = h1" "c2 = c" by auto
    with Some x run show ?thesis by auto
  next
    case None
    with cs have cl: "catalog_locked r p (h1, c) = (i, (h2, c2))" by simp
    note f = catalog_locked_sound [OF s1 u cl]
    then have s2: "sound_catalog (h2, c2)" and lr: "lookup_res c2 i = Some r" and id: "res_id h2 r = i"
      by (auto simp: lookup_res_sound)
    from x run lr id have out: "out = Returns r" "h' = h2" "c' = set_state i Active c2" by auto
    have "alookup (ca_ns c2) (namespace_key h1 r) = Some i"
    proof -
      have g: "generations (h2, c2) = generations (h1, c) @ [(namespace_key h1 r, i)]" using f by blast
      show ?thesis unfolding last_generation(1) [OF s2] g by simp
    qed
    moreover have "state_of c2 = state_of c" using f by (simp add: state_of_def [abs_def])
    ultimately have "new_generation (h1, c) p r (h', c')"
    proof -
      have d: "ca_destroyers (set_state i Active c2) = ca_destroyers c2" by (simp add: set_state_def)
      have g: "generations (h', c') = generations (h1, c) @ [(namespace_key h1 r, i)]" "res_producer h' r = p"
        "ledger_id (ca_next_id c + 1) = i" "ca_destroyers c' = ca_destroyers c"
        unfolding out set_state_simps d using f by (blast | simp)+
      show ?thesis
        unfolding new_generation_def Let_def fst_conv snd_conv g
        using lr \<open>alookup (ca_ns c2) (namespace_key h1 r) = Some i\<close> \<open>state_of c2 = state_of c\<close>
        by (simp add: out)
    qed
    with None out show ?thesis by simp
  qed
qed

text \<open>The production matrix of the catalog: a content-addressed entry that is not gone is returned
  as it is, pending or active; a failing factory changes nothing in the catalog; a caller
  without a producer takes over a produced entry that is not gone, which becomes active; in every other
  case the candidate becomes a new active generation of its key, stamped with its producer, after all
  the others, which stay as they were.\<close>

theorem production_matrix:
  assumes "sound_catalog (h, c)" and "constructs {} build (h, c)" and "uri \<noteq> []"
    and "get_or_create p uri build (h, c) = (out, (h', c'))"
  shows "case singleton_hit (h, c) uri of
           Some e \<Rightarrow> out = Returns e \<and> h' = h \<and> c' = c
         | None \<Rightarrow>
             (case build h of
                (Inl err, h1) \<Rightarrow> out = Fails err \<and> c' = c
              | (Inr r, h1) \<Rightarrow>
                  (case deferred_to (h1, c) p r of
                     Some e \<Rightarrow> out = Returns e \<and> h' = h1 \<and> c' = set_state (res_id h1 e) Active c
                   | None \<Rightarrow> out = Returns r \<and> new_generation (h1, c) p r (h', c')))"
proof -
  have "lookup_res c [] = None"
    using assms(1) lookup_res_entry_ids [OF assms(1), of "[]"] by (auto simp: sound_catalog_def)
  then have "get_or_create p uri build (h, c) =
      (case singleton_hit (h, c) uri of Some e \<Rightarrow> (Returns e, (h, c)) | None \<Rightarrow> produce p uri build (h, c))"
    using assms(3) by (auto simp: get_or_create_def singleton_hit_def split: option.splits)
  moreover obtain x h1 where "build h = (x, h1)" by (metis surj_pair)
  ultimately show ?thesis
    using assms(4) produce_result [OF assms(1,2)]
    by (cases x) (auto simp: produce_def split: option.splits)
qed

lemma production_matrix_witness:
  "fst (get_or_create ''copy'' file_uri (allocate demo_file) ([], new_resource_catalog)) = Returns 0
     \<and> new_generation ([demo_file], new_resource_catalog) ''copy'' 0
         (snd (get_or_create ''copy'' file_uri (allocate demo_file) ([], new_resource_catalog)))"
proof -
  obtain out h' c' where x:
    "get_or_create ''copy'' file_uri (allocate demo_file) ([], new_resource_catalog) = (out, (h', c'))"
    by (metis prod_cases3)
  have "singleton_hit ([], new_resource_catalog) file_uri = None"
    "deferred_to ([demo_file], new_resource_catalog) ''copy'' 0 = None"
    by (simp_all add: singleton_hit_def deferred_to_def new_resource_catalog_def lookup_res_def)
  moreover have "file_uri \<noteq> []" by (simp add: demo_file_def demo_object_def)
  ultimately show ?thesis
    using production_matrix [OF sound_new allocate_constructs [OF sound_new] _ x] x
    by (simp add: allocate_def)
qed

section \<open>Verification and destruction\<close>

lemma err_is_sentinel: "err_is ErrClaimKindMismatch (wrapf p ErrClaimKindMismatch)"
  by (simp add: wrapf_def)

text \<open>Verification leaves an active entry alone and otherwise makes it active or gone by whether
  the resource exists, whatever it was before: an entry that is gone, a state the catalog documents as
  terminal, is active again when the resource exists, and still carries its destroyer. Verification
  fails exactly where it marks an entry gone, and the error is a kind mismatch exactly where the resource
  reports one.\<close>

theorem verification_verdict:
  assumes "sound_catalog (h, c)" and "stands r (h, c)"
    and "\<And>ob. resolve_kind_of M (h ! r) = Some (Inr (Some ob)) \<Longrightarrow> object_key ob = object_key (h ! r)"
    and "verify_existence M r (h, c) = (err, (h', c'))" and "i = res_id h r"
  shows "state_of c' = (if state_of c i = Active then state_of c
                        else (state_of c)(i := if exists_on M (h ! r) then Active else Gone))
    \<and> ca_destroyers c' = ca_destroyers c
    \<and> (case err of
         None \<Rightarrow> state_of c i = Active \<or> exists_on M (h ! r)
       | Some e \<Rightarrow> state_of c i \<noteq> Active \<and> \<not> exists_on M (h ! r)
            \<and> err_is ErrClaimKindMismatch e = mismatches_kind M (h ! r))"
proof (cases "state_of c i \<noteq> Active \<and> exists_on M (h ! r)")
  case True
  obtain r2 h2 c2 where k: "resolve_kind M r (h, c) = (r2, (h2, c2))" by (metis prod_cases3)
  have f: "res_id h2 r2 = i" "ca_states c2 = ca_states c" "ca_destroyers c2 = ca_destroyers c"
    using extends_resolve_kind [OF assms(1,2) _ _ k, of "{}"] assms(3,5) by auto
  then have "state_of c2 = state_of c" by (simp add: state_of_def [abs_def])
  moreover have "err = None" "h' = h2" "c' = set_state i Active c2"
    using assms(4,5) True k f(1) by (auto simp: verify_existence_def mark_active_def)
  moreover have "ca_destroyers (set_state i Active c2) = ca_destroyers c2" by (simp add: set_state_def)
  ultimately show ?thesis using True f(3) by simp
next
  case False
  then show ?thesis
    using assms(4,5) err_is_sentinel
    by (auto simp: verify_existence_def Let_def mark_gone_def split: if_splits) (simp_all add: set_state_def)
qed

lemma demo_destroyed:
  obtains h c where
    "destroy 0 ''remove'' (snd (get_or_create ''copy'' file_uri (allocate demo_file) ([], new_resource_catalog)))
       = Returns (h, c)"
    "sound_catalog (h, c)" "stands 0 (h, c)" "res_id h 0 = ''res-1''" "state_of c ''res-1'' = Gone"
    "destroyer_of c ''res-1'' = ''remove''"
proof -
  obtain out h1 c1 where a:
    "get_or_create ''copy'' file_uri (allocate demo_file) ([], new_resource_catalog) = (out, (h1, c1))"
    by (metis prod_cases3)
  have s1: "sound_catalog (h1, c1)"
    using extends_get_or_create [OF sound_new allocate_constructs [OF sound_new] a, of "{}"]
    by (simp add: extends_ledger_def)
  have ev: "case get_or_create ''copy'' file_uri (allocate demo_file) ([], new_resource_catalog) of (out, (h1, c1)) \<Rightarrow>
      (case destroy 0 ''remove'' (h1, c1) of
         Returns (h, c) \<Rightarrow> state_of c ''res-1'' = Gone \<and> res_id h 0 = ''res-1'' \<and> length h = 1 \<and> h1 = h
           \<and> lookup_res c1 ''res-1'' = Some 0 \<and> lookup_res c ''res-1'' = Some 0
           \<and> destroyer_of c ''res-1'' = ''remove''
       | _ \<Rightarrow> False)"
    by code_simp
  then obtain h c where d: "destroy 0 ''remove'' (h1, c1) = Returns (h, c)" "state_of c ''res-1'' = Gone"
    "res_id h 0 = ''res-1''" "length h = 1" "h1 = h" "lookup_res c1 ''res-1'' = Some 0"
    "lookup_res c ''res-1'' = Some 0" "destroyer_of c ''res-1'' = ''remove''"
    unfolding a prod.case by (auto split: call.splits prod.splits)
  have st: "stands 0 (h1, c1)" "stands 0 (h, c)" using d by (auto simp: stands_def)
  then have "sound_catalog (h, c)"
    using extends_destroy [OF s1 _ d(1), of "{}"] by (simp add: extends_ledger_def)
  with d st that a show thesis by simp
qed

lemma verification_verdict_witness:
  "\<exists>h c h' c'. sound_catalog (h, c) \<and> state_of c ''res-1'' = Gone
     \<and> verify_existence demo_methods 0 (h, c) = (None, (h', c'))
     \<and> state_of c' ''res-1'' = Active \<and> destroyer_of c' ''res-1'' = ''remove''"
proof -
  obtain h c where d: "sound_catalog (h, c)" "stands 0 (h, c)" "res_id h 0 = ''res-1''"
    "state_of c ''res-1'' = Gone" "destroyer_of c ''res-1'' = ''remove''"
    using demo_destroyed by metis
  obtain err h' c' where v: "verify_existence demo_methods 0 (h, c) = (err, (h', c'))" by (metis prod_cases3)
  note f = verification_verdict [OF d(1,2) _ v refl]
  have "exists_on demo_methods ob" "resolve_kind_of demo_methods ob = None" for ob
    by (simp_all add: demo_methods_def)
  with f d have "state_of c' ''res-1'' = Active" "ca_destroyers c' = ca_destroyers c" "err = None"
    by (auto split: option.splits)
  moreover from this d have "destroyer_of c' ''res-1'' = ''remove''" by (simp add: destroyer_of_def)
  ultimately show ?thesis using v d by blast
qed

section \<open>Gone entries\<close>

lemma gone_id: "sound_catalog (h, c) \<Longrightarrow> state_of c i = Gone \<Longrightarrow> i \<in> entry_ids (h, c)"
  by (auto simp: state_of_def sound_catalog_def split: option.splits)

lemma link_states:
  assumes "sound_catalog l" "candidate A r l" "link r l = (x, l')"
  shows "state_of (snd l') = state_of (snd l)"
proof -
  obtain h c h' c' where l: "l = (h, c)" "l' = (h', c')" by (metis surj_pair)
  then have "sound_catalog (h, c)" "uninterned r (h, c)" "link r (h, c) = (x, (h', c'))"
    using assms by (auto simp: candidate_def)
  from link_sound [OF this] catalog_locked_sound [OF this(1,2)] show ?thesis
    by (auto simp: l state_of_def [abs_def] split: option.splits)
qed

lemma shadow_states:
  assumes "sound_catalog l" "candidate A r l" "shadow r p l = (x, l')"
  shows "state_of (snd l') = state_of (snd l)"
proof -
  obtain h c h' c' where l: "l = (h, c)" "l' = (h', c')" by (metis surj_pair)
  then have "sound_catalog (h, c)" "uninterned r (h, c)" "shadow r p (h, c) = (x, (h', c'))"
    using assms by (auto simp: candidate_def)
  from shadow_cases [OF this] catalog_locked_sound [OF this(1,2)] show ?thesis
    by (auto simp: l state_of_def [abs_def] split: option.splits)
qed

lemma discover_states:
  assumes "sound_catalog l" "constructs A build l" "discover uri build l = (x, l')"
  shows "state_of (snd l') = state_of (snd l)"
proof -
  obtain h c where l: "l = (h, c)" by (metis surj_pair)
  have "introduce build (h, c) = (y, l'') \<Longrightarrow> state_of (snd l'') = state_of c" for y l''
  proof -
    assume i: "introduce build (h, c) = (y, l'')"
    obtain z h1 where z: "build h = (z, h1)" by (metis surj_pair)
    note e = extends_construct [OF assms(1,2) [unfolded l] z]
    then have "sound_catalog (h1, c)" by (simp add: extends_ledger_def)
    with i e z link_states [of "(h1, c)" A] show ?thesis
      by (auto simp: introduce_def split: sum.splits prod.splits)
  qed
  then show ?thesis
    using assms(3) by (auto simp: discover_def l split: if_splits option.splits resource_state.splits)
qed

lemma produce_gone:
  assumes s: "sound_catalog l" and k: "constructs A build l" and x: "get_or_create p uri build l = (out, l')"
    and g: "state_of (snd l) i = Gone"
  shows "state_of (snd l') i = Gone"
proof -
  obtain h c h' c' where l: "l = (h, c)" "l' = (h', c')" by (metis surj_pair)
  obtain y h1 where y: "build h = (y, h1)" by (metis surj_pair)
  have k0: "constructs {} build (h, c)" using k by (auto simp: l constructs_def keeps_refs_def candidate_def split: prod.splits)
  have s0: "sound_catalog (h, c)" "state_of c i = Gone" using s g by (simp_all add: l)
  then have i: "i \<in> entry_ids (h, c)" by (rule gone_id)
  then have "i \<noteq> ledger_id (ca_next_id c + 1)" using s0(1) by (auto simp: sound_catalog_def)
  have p: "state_of c' i = Gone" if "produce p uri build (h, c) = (out, (h', c'))"
  proof (cases y)
    case (Inl e)
    with that y s0 show ?thesis by (simp add: produce_def)
  next
    case (Inr r)
    from extends_construct [OF s0(1) k0 y] have s1: "sound_catalog (h1, c)" by (simp add: extends_ledger_def)
    show ?thesis
    proof (cases "deferred_to (h1, c) p r")
      case None
      with produce_result [OF s0(1) k0 y [unfolded Inr] that] s0(2) \<open>i \<noteq> ledger_id _\<close> show ?thesis
        by (simp add: new_generation_def Let_def)
    next
      case (Some e)
      then obtain j where "lookup_res c j = Some e" "state_of c j \<noteq> Gone"
        by (auto simp: deferred_to_def split: option.splits if_splits)
      then have "res_id h1 e \<noteq> i" using s0(2) s1 by (auto simp: lookup_res_sound)
      with produce_result [OF s0(1) k0 y [unfolded Inr] that] Some s0(2) show ?thesis by simp
    qed
  qed
  show ?thesis
    using x p s0 by (auto simp: l get_or_create_def split: if_splits option.splits)
qed

text \<open>An entry that is gone stays gone under every operation of the catalog, except a verification
  that finds the resource of its id existing again: producing its URI records another generation.\<close>

theorem gone_stays_gone:
  assumes "catalog_step M B {} (h, c) (h', c')" and "sound_catalog (h, c)" and "state_of c i = Gone"
    and "\<forall>r. res_id h r = i \<longrightarrow> \<not> exists_on M (h ! r)"
  shows "state_of c' i = Gone"
  using assms(1)
proof (cases rule: catalog_step.cases)
  case (step_link r x)
  with link_states [of "(h, c)" "{}"] assms(2,3) show ?thesis by auto
next
  case (step_shadow r p x)
  with shadow_states [of "(h, c)" "{}"] assms(2,3) show ?thesis by auto
next
  case (step_discover build uri x)
  with discover_states [of "(h, c)" "{}"] assms(2,3) show ?thesis by auto
next
  case (step_produce build p uri x)
  with produce_gone [of "(h, c)" "{}"] assms(2,3) show ?thesis by auto
next
  case (step_verify r x)
  have "state_of c' = (if state_of c (res_id h r) = Active then state_of c
      else (state_of c)(res_id h r := if exists_on M (h ! r) then Active else Gone))"
    using verification_verdict [OF assms(2) step_verify(1) _ step_verify(3) refl] step_verify(2) by auto
  with assms(3,4) show ?thesis by auto
next
  case (step_destroy r u)
  with assms(3) show ?thesis
    by (auto simp: destroy_def Let_def state_of_def set_state_def split: if_splits)
next
  case (step_supersede standing stricter x)
  with extends_supersede [of "(h, c)" standing "{}" stricter x "(h', c')"] assms(2,3) show ?thesis
    by (simp add: state_of_def)
next
  case step_bind
  have one: "ca_states (snd (bind_one B r l)) = ca_states (snd l)" for r l
    by (cases l) (auto simp: bind_one_def rebind_entry_def split: option.splits)
  then have "ca_states (snd (fold (bind_one B) rs l)) = ca_states (snd l)" for rs l
    by (induction rs arbitrary: l) simp_all
  with step_bind assms(3) show ?thesis
    by (metis bind_pending_resources_def snd_conv state_of_def)
qed

lemma gone_stays_gone_witness:
  "\<exists>h c h' c' out. get_or_create ''again'' file_uri (allocate demo_file) (h, c) = (out, (h', c'))
     \<and> state_of c ''res-1'' = Gone \<and> state_of c' ''res-1'' = Gone"
proof -
  let ?M = "demo_methods\<lparr>exists_on := \<lambda>ob. False\<rparr>"
  obtain h c where d: "sound_catalog (h, c)" "state_of c ''res-1'' = Gone" using demo_destroyed by metis
  obtain out h' c' where x: "get_or_create ''again'' file_uri (allocate demo_file) (h, c) = (out, (h', c'))"
    by (metis prod_cases3)
  have "catalog_step ?M id {} (h, c) (h', c')"
    using step_produce [OF allocate_constructs [OF d(1)] x] by simp
  with gone_stays_gone [OF _ d(1,2)] have "state_of c' ''res-1'' = Gone" by simp
  with d x show ?thesis by blast
qed

end
