(* ===== verification/Ledger_Snapshot.thy ===== *)
theory Ledger_Snapshot
  imports Catalog_Behaviour
begin

text \<open>
  The serial forms of the resource catalog: the ledger snapshot a trace carries and the catalog
  rebuilt from it (\<open>pkg/op/resource_catalog.go\<close>), and the intent rows of a graph document with the
  catalog unpacked from them (\<open>pkg/op/graph.go\<close>). The registered constructors and unpackers are
  arguments.
\<close>

section \<open>Snapshots\<close>

record ledger_entry =
  le_id :: string
  le_uri :: string
  le_producer :: string
  le_state :: resource_state
  le_etag :: string
  le_digest :: string
  le_destroyed_by :: string

record ledger_snapshot =
  sn_root :: string
  sn_entries :: "ledger_entry list"
  sn_next_id :: int

definition blank_entry :: ledger_entry where
  "blank_entry = \<lparr>le_id = [], le_uri = [], le_producer = [], le_state = Pending, le_etag = [], le_digest = [],
                  le_destroyed_by = []\<rparr>"

definition ledger_digest ::
  "resource_methods \<Rightarrow> res_object \<Rightarrow> ledger_entry \<Rightarrow> ledger_entry \<Rightarrow> string"
where
  "ledger_digest M ob entry prior =
     (if is_tree M ob \<and> le_producer entry = [] then []
      else if le_id prior = le_id entry \<and> le_etag prior \<noteq> [] \<and> le_etag prior = le_etag entry \<and> le_digest prior \<noteq> []
      then le_digest prior
      else (case digest_of M ob of Inl e \<Rightarrow> [] | Inr d \<Rightarrow> digest_string d))"

definition capture :: "ledger \<Rightarrow> res \<Rightarrow> ledger_entry" where
  "capture l r =
     (case l of (h, c) \<Rightarrow>
        \<lparr>le_id = res_id h r, le_uri = res_uri h r, le_producer = res_producer h r,
         le_state = state_of c (res_id h r), le_etag = [], le_digest = [],
         le_destroyed_by = destroyer_of c (res_id h r)\<rparr>)"

text \<open>\<open>known\<close> is the map of the prior's entries by id, the last one of an id.\<close>

definition known_entries :: "ledger_snapshot option \<Rightarrow> string \<Rightarrow> ledger_entry" where
  "known_entries prior i =
     (case prior of
        None \<Rightarrow> blank_entry
      | Some s \<Rightarrow> (case map_of (rev (map (\<lambda>e. (le_id e, e)) (sn_entries s))) i of
                     None \<Rightarrow> blank_entry | Some e \<Rightarrow> e))"

definition identify ::
  "resource_methods \<Rightarrow> (string \<Rightarrow> ledger_entry) \<Rightarrow> res_object \<Rightarrow> ledger_entry \<Rightarrow> ledger_entry"
where
  "identify M known ob entry =
     (if le_state entry = Active then
        let entry1 = (case etag_of M ob of Inl e \<Rightarrow> entry | Inr t \<Rightarrow> entry\<lparr>le_etag := t\<rparr>)
        in entry1\<lparr>le_digest := ledger_digest M ob entry1 (known (le_id entry1))\<rparr>
      else entry)"

definition snapshot :: "resource_methods \<Rightarrow> ledger_snapshot option \<Rightarrow> ledger \<Rightarrow> ledger_snapshot" where
  "snapshot M prior l =
     (case l of (h, c) \<Rightarrow>
        \<lparr>sn_root = [],
         sn_entries = map (\<lambda>r. identify M (known_entries prior) (h ! r) (capture l r)) (ca_entries c),
         sn_next_id = ca_next_id c\<rparr>)"

section \<open>Rehydration\<close>

text \<open>The registry: the constructor of a type id, if any, from the specific of a URI.\<close>

type_synonym constructors = "string \<Rightarrow> (string \<Rightarrow> (gerror, res_object) result) option"

definition rehydrate_entry :: "constructors \<Rightarrow> ledger_entry \<Rightarrow> ledger \<Rightarrow> (gerror, ledger) result" where
  "rehydrate_entry registered e l =
     (case l of (h, c) \<Rightarrow>
        let at = ''op.ResourceLedgerSnapshot.Rehydrate: entry '' @ quote (le_id e)
        in (case extract_tag_specific (le_uri e) of
              Inl err \<Rightarrow> Inl (wrapf (at @ '': '') err)
            | Inr (specific, type_id) \<Rightarrow>
                (case registered type_id of
                   None \<Rightarrow> Inl (ENew (at @ '': no resource type registered for '' @ quote type_id))
                 | Some construct \<Rightarrow>
                     (case construct specific of
                        Inl err \<Rightarrow> Inl (wrapf (at @ '': reconstruct '' @ quote (le_uri e) @ '': '') err)
                      | Inr ob \<Rightarrow>
                          Inr (restore_entry (le_id e) (length h) (le_producer e) (le_state e) (h @ [ob], c))))))"

fun rehydrate_entries :: "constructors \<Rightarrow> ledger_entry list \<Rightarrow> ledger \<Rightarrow> (gerror, ledger) result" where
  "rehydrate_entries registered [] l = Inr l"
| "rehydrate_entries registered (e # es) l =
     (case rehydrate_entry registered e l of
        Inl err \<Rightarrow> Inl err
      | Inr l' \<Rightarrow> rehydrate_entries registered es l')"

definition rehydrate :: "constructors \<Rightarrow> ledger_snapshot \<Rightarrow> res_heap \<Rightarrow> (gerror, ledger) result" where
  "rehydrate registered s h =
     (case rehydrate_entries registered (sn_entries s) (h, new_resource_catalog) of
        Inl err \<Rightarrow> Inl err
      | Inr (h', c) \<Rightarrow> Inr (h', c\<lparr>ca_next_id := sn_next_id s\<rparr>))"

section \<open>A second snapshot computes no digest it has\<close>

lemma identify_fields [simp]:
  "le_id (identify M k ob e) = le_id e" "le_uri (identify M k ob e) = le_uri e"
  "le_producer (identify M k ob e) = le_producer e" "le_state (identify M k ob e) = le_state e"
  by (auto simp: identify_def Let_def split: sum.splits)

lemma capture_fields [simp]:
  "le_id (capture (h, c) r) = res_id h r" "le_uri (capture (h, c) r) = res_uri h r"
  "le_producer (capture (h, c) r) = res_producer h r" "le_state (capture (h, c) r) = state_of c (res_id h r)"
  by (simp_all add: capture_def)

lemma map_of_rev_distinct:
  "distinct (map fst xs) \<Longrightarrow> map_of (rev xs) = map_of xs"
  by (intro map_of_inject_set [THEN iffD2]) (simp_all add: rev_map [symmetric])

lemma known_of_snapshot:
  assumes "sound_catalog (h, c)" "r \<in> set (ca_entries c)"
  shows "known_entries (Some (snapshot M p (h, c))) (res_id h r)
    = identify M (known_entries p) (h ! r) (capture (h, c) r)"
proof -
  let ?f = "\<lambda>r. identify M (known_entries p) (h ! r) (capture (h, c) r)"
  let ?xs = "map (\<lambda>r. (res_id h r, ?f r)) (ca_entries c)"
  have "map fst ?xs = map (res_id h) (ca_entries c)" by simp
  then have "distinct (map fst ?xs)" using assms(1) unfolding sound_catalog_def prod.case by argo
  moreover have "(res_id h r, ?f r) \<in> set ?xs" using assms(2) by simp
  ultimately have "map_of (rev ?xs) (res_id h r) = Some (?f r)"
    by (simp add: map_of_rev_distinct)
  then show ?thesis by (simp add: known_entries_def snapshot_def comp_def)
qed

text \<open>Nothing moved between two snapshots: the cheap tokens and the tree flags are the same, and the
  first snapshot has the token and, but for a boundary tree, the digest of each active entry.\<close>

definition unmoved :: "resource_methods \<Rightarrow> resource_methods \<Rightarrow> res_object \<Rightarrow> ledger_entry \<Rightarrow> bool" where
  "unmoved M M' ob e \<longleftrightarrow>
     (le_state e = Active \<longrightarrow>
        (\<exists>t. etag_of M ob = Inr t \<and> etag_of M' ob = Inr t \<and> t \<noteq> []) \<and> is_tree M' ob = is_tree M ob
        \<and> (le_digest e \<noteq> [] \<or> is_tree M ob \<and> le_producer e = []))"

lemma identify_again:
  assumes "unmoved M M' ob (identify M k ob e)" "k' (le_id e) = identify M k ob e"
  shows "identify M' k' ob e = identify M k ob e"
proof (cases "le_state e = Active")
  case False
  then show ?thesis by (simp add: identify_def)
next
  case True
  with assms(1) obtain t where t: "etag_of M ob = Inr t" "etag_of M' ob = Inr t" "t \<noteq> []"
    and u: "is_tree M' ob = is_tree M ob" "le_digest (identify M k ob e) \<noteq> [] \<or> is_tree M ob \<and> le_producer e = []"
    by (auto simp: unmoved_def)
  let ?e = "e\<lparr>le_etag := t\<rparr>"
  have i: "identify M k ob e = ?e\<lparr>le_digest := ledger_digest M ob ?e (k (le_id e))\<rparr>"
    using True t by (simp add: identify_def Let_def)
  have "ledger_digest M' ob ?e (identify M k ob e) = ledger_digest M ob ?e (k (le_id e))"
  proof (cases "is_tree M ob \<and> le_producer e = []")
    case True
    then show ?thesis using u(1) by (simp add: ledger_digest_def)
  next
    case False
    with u i have "le_digest (identify M k ob e) \<noteq> []" by simp
    then show ?thesis
      unfolding ledger_digest_def [of M' ob ?e] using False u(1) t(3) by (auto simp: i)
  qed
  then show ?thesis using True t assms(2) i by (simp add: identify_def Let_def)
qed

text \<open>A second snapshot of a catalog in which nothing moved is the first one again, whatever digests
  the resources would compute now: every digest is carried forward and none is computed.\<close>

theorem second_snapshot_hashes_nothing:
  assumes "sound_catalog (h, c)"
    and "\<forall>r \<in> set (ca_entries c). unmoved M M' (h ! r) (identify M (known_entries p) (h ! r) (capture (h, c) r))"
  shows "snapshot M' (Some (snapshot M p (h, c))) (h, c) = snapshot M p (h, c)"
proof -
  have "identify M' (known_entries (Some (snapshot M p (h, c)))) (h ! r) (capture (h, c) r)
      = identify M (known_entries p) (h ! r) (capture (h, c) r)" if "r \<in> set (ca_entries c)" for r
    using identify_again [of M M' "h ! r" "known_entries p"] assms(2) known_of_snapshot [OF assms(1) that] that
    by simp
  then show ?thesis by (simp add: snapshot_def)
qed

lemma second_snapshot_hashes_nothing_witness:
  "\<exists>h c. snd (get_or_create ''copy'' file_uri (allocate demo_file) ([], new_resource_catalog)) = (h, c)
     \<and> snapshot (demo_methods\<lparr>digest_of := \<lambda>ob. Inl ErrCanceled\<rparr>) (Some (snapshot demo_methods None (h, c))) (h, c)
       = snapshot demo_methods None (h, c)"
proof -
  let ?M = "demo_methods\<lparr>digest_of := \<lambda>ob. Inl ErrCanceled\<rparr>"
  obtain out h c where a:
    "get_or_create ''copy'' file_uri (allocate demo_file) ([], new_resource_catalog) = (out, (h, c))"
    by (metis prod_cases3)
  have s: "sound_catalog (h, c)"
    using extends_get_or_create [OF sound_new allocate_constructs [OF sound_new] a, of "{}"]
    by (simp add: extends_ledger_def)
  have "digest_string \<lparr>dg_algorithm = ''sha256'', dg_bytes = replicate 32 0\<rparr> \<noteq> []" by (simp add: digest_string_def)
  moreover have "case get_or_create ''copy'' file_uri (allocate demo_file) ([], new_resource_catalog) of (out, (h, c)) \<Rightarrow>
      list_all (\<lambda>r. res_uri h r \<noteq> []) (ca_entries c)"
    by code_simp
  then have "\<forall>r \<in> set (ca_entries c). res_uri h r \<noteq> []" by (simp add: a list_all_iff)
  ultimately have "\<forall>r \<in> set (ca_entries c). unmoved demo_methods ?M (h ! r)
      (identify demo_methods (known_entries None) (h ! r) (capture (h, c) r))"
    by (simp add: unmoved_def identify_def demo_methods_def ledger_digest_def known_entries_def blank_entry_def)
  then have "snapshot ?M (Some (snapshot demo_methods None (h, c))) (h, c) = snapshot demo_methods None (h, c)"
    by (rule second_snapshot_hashes_nothing [OF s])
  with a show ?thesis by simp
qed

section \<open>Rehydrating a snapshot\<close>

text \<open>What a catalog says of an entry: id, URI, addressing, producer and state.\<close>

definition entry_view :: "ledger \<Rightarrow> res \<Rightarrow> string \<times> string \<times> addressing_mode \<times> string \<times> resource_state" where
  "entry_view l r =
     (case l of (h, c) \<Rightarrow>
        (res_id h r, res_uri h r, res_addressing h r, res_producer h r, state_of c (res_id h r)))"

definition ledger_view :: "ledger \<Rightarrow> (string \<times> string \<times> addressing_mode \<times> string \<times> resource_state) list" where
  "ledger_view l = map (entry_view l) (ca_entries (snd l))"

lemma generations_of_view:
  "generations l = map (\<lambda>(i, u, a, p, s). (if a = AddressingLocation then strip_fragment u else u, i)) (ledger_view l)"
  by (cases l) (simp add: generations_def ledger_view_def entry_view_def namespace_key_def object_key_def)

text \<open>The registry rebuilds an object when its URI names a registered type whose constructor makes an
  object of the same URI and addressing from the specific.\<close>

definition rebuilds :: "constructors \<Rightarrow> res_object \<Rightarrow> bool" where
  "rebuilds registered ob \<longleftrightarrow>
     (\<exists>specific type_id construct ob'. extract_tag_specific (rb_uri (ro_base ob)) = Inr (specific, type_id)
        \<and> registered type_id = Some construct \<and> construct specific = Inr ob'
        \<and> rb_uri (ro_base ob') = rb_uri (ro_base ob) \<and> ro_addressing ob' = ro_addressing ob)"

lemma restore_sound:
  assumes s: "sound_catalog (h, c\<lparr>ca_next_id := N\<rparr>)" and "uninterned r (h, c)" and "i \<notin> entry_ids (h, c)"
    and "i \<noteq> []" and "\<forall>n > N. i \<noteq> ledger_id n" and x: "restore_entry i r p st (h, c) = (h', c')"
  shows "sound_catalog (h', c'\<lparr>ca_next_id := N\<rparr>)
    \<and> ledger_view (h', c') = ledger_view (h, c) @ [(i, res_uri h r, res_addressing h r, p, st)]
    \<and> entry_ids (h', c') = insert i (entry_ids (h, c))
    \<and> ca_destroyers c' = ca_destroyers c \<and> length h' = length h"
proof -
  let ?c = "c\<lparr>ca_next_id := N\<rparr>"
  let ?h = "h[r := stamp_base i p (h ! r)]"
  let ?d = "?c\<lparr>ca_next_id := N, ca_by_id := (ca_by_id ?c)(i \<mapsto> length (ca_entries ?c)),
               ca_entries := ca_entries ?c @ [r], ca_ns := aput (namespace_key ?h r) i (ca_ns ?c)\<rparr>"
  have "uninterned r (h, ?c)" "i \<notin> entry_ids (h, ?c)" "ca_next_id ?c \<le> N"
    using assms(2,3) by (simp_all add: uninterned_def entry_ids_def)
  note f = sound_append [OF s this(1,2) assms(4) this(3) assms(5) refl refl, of p]
  have c': "c'\<lparr>ca_next_id := N\<rparr> = set_state i st ?d" "h' = ?h"
    using x by (auto simp: restore_entry_def set_state_def Let_def)
  have e: "ca_entries c' = ca_entries c @ [r]" "state_of c' = (state_of c)(i := st)" "ca_destroyers c' = ca_destroyers c"
    using x by (auto simp: restore_entry_def Let_def state_of_def)
  have r: "r < length h" "r \<notin> set (ca_entries c)" using assms(2) by (auto simp: uninterned_def)
  have ids: "entry_ids (h', c') = insert i (entry_ids (h, c))"
    using r by (auto simp: entry_ids_def c'(2) e(1) image_iff nth_list_update)
  then have "i \<in> entry_ids (h', ?d)" by (simp add: entry_ids_def e(1))
  with f have "sound_catalog (h', set_state i st ?d)" by (auto simp: c'(2) intro: sound_set_state)
  moreover have "ledger_view (h', c') = ledger_view (h, c) @ [(i, res_uri h r, res_addressing h r, p, st)]"
    using r assms(3) by (auto simp: ledger_view_def entry_view_def e c'(2) entry_ids_def nth_list_update)
  ultimately show ?thesis using ids e c' by simp
qed

lemma rehydrate_entry_rebuilds:
  assumes "rebuilds registered (h ! r)" "le_uri e = res_uri h r"
  shows "\<exists>ob. rehydrate_entry registered e (h1, c1)
       = Inr (restore_entry (le_id e) (length h1) (le_producer e) (le_state e) (h1 @ [ob], c1))
     \<and> rb_uri (ro_base ob) = res_uri h r \<and> ro_addressing ob = res_addressing h r"
  using assms by (auto simp: rebuilds_def rehydrate_entry_def Let_def)

lemma ledger_view_grow:
  assumes "sound_catalog (h, c)"
  shows "ledger_view (h @ obs, c) = ledger_view (h, c)"
  using assms by (auto simp: ledger_view_def entry_view_def sound_catalog_def nth_append)

lemma next_id_irrelevant [simp]:
  "entry_ids (h, c\<lparr>ca_next_id := N\<rparr>) = entry_ids (h, c)"
  "ledger_view (h, c\<lparr>ca_next_id := N\<rparr>) = ledger_view (h, c)"
  "state_of (c\<lparr>ca_next_id := N\<rparr>) = state_of c"
  by (auto simp: entry_ids_def ledger_view_def entry_view_def state_of_def)

text \<open>A row names an entry when it has its id, URI, producer and state.\<close>

definition row_names :: "ledger \<Rightarrow> res \<Rightarrow> ledger_entry \<Rightarrow> bool" where
  "row_names l r e \<longleftrightarrow>
     (case l of (h, c) \<Rightarrow> le_id e = res_id h r \<and> le_uri e = res_uri h r \<and> le_producer e = res_producer h r
        \<and> le_state e = state_of c (res_id h r))"

lemma rehydrate_row:
  assumes s: "sound_catalog (h1, c1\<lparr>ca_next_id := N\<rparr>)" and e: "row_names (h, c) r e"
    and reg: "rebuilds registered (h ! r)" and new: "res_id h r \<notin> entry_ids (h1, c1)" "res_id h r \<noteq> []"
    and N: "\<forall>n > N. res_id h r \<noteq> ledger_id n"
  shows "\<exists>h2 c2. rehydrate_entry registered e (h1, c1) = Inr (h2, c2)
     \<and> sound_catalog (h2, c2\<lparr>ca_next_id := N\<rparr>) \<and> ledger_view (h2, c2) = ledger_view (h1, c1) @ [entry_view (h, c) r]
     \<and> entry_ids (h2, c2) = insert (res_id h r) (entry_ids (h1, c1)) \<and> ca_destroyers c2 = ca_destroyers c1"
proof -
  have ev: "le_id e = res_id h r" "le_producer e = res_producer h r" "le_state e = state_of c (res_id h r)"
    "le_uri e = res_uri h r"
    using e by (auto simp: row_names_def)
  obtain ob where ob: "rehydrate_entry registered e (h1, c1)
       = Inr (restore_entry (res_id h r) (length h1) (res_producer h r) (state_of c (res_id h r)) (h1 @ [ob], c1))"
    "rb_uri (ro_base ob) = res_uri h r" "ro_addressing ob = res_addressing h r"
    using rehydrate_entry_rebuilds [OF reg ev(4), of h1 c1] ev by auto
  obtain h2 c2 where x: "restore_entry (res_id h r) (length h1) (res_producer h r) (state_of c (res_id h r))
      (h1 @ [ob], c1) = (h2, c2)"
    by (metis surj_pair)
  note grow = sound_grow [OF s keeps_refs_grow, of "[ob]"]
  have "\<forall>y \<in> set (ca_entries c1). y < length h1" using s by (simp add: sound_catalog_def)
  then have "uninterned (length h1) (h1 @ [ob], c1)" by (auto simp: uninterned_def)
  moreover have ids: "entry_ids (h1 @ [ob], c1) = entry_ids (h1, c1)" using grow by simp
  moreover have "ledger_view (h1 @ [ob], c1) = ledger_view (h1, c1)"
    using ledger_view_grow [OF s, of "[ob]"] by simp
  ultimately show ?thesis
    using restore_sound [OF _ _ _ new(2) N x] grow new(1) ob x by (auto simp: entry_view_def)
qed

lemma rehydrate_rows:
  assumes "\<forall>r \<in> set rs. row_names (h, c) r (f r) \<and> rebuilds registered (h ! r) \<and> res_id h r \<noteq> []
      \<and> (\<forall>n > N. res_id h r \<noteq> ledger_id n)"
  shows "sound_catalog (h1, c1\<lparr>ca_next_id := N\<rparr>) \<Longrightarrow> distinct (map (res_id h) rs) \<Longrightarrow>
    res_id h ` set rs \<inter> entry_ids (h1, c1) = {} \<Longrightarrow>
    \<exists>h2 c2. rehydrate_entries registered (map f rs) (h1, c1) = Inr (h2, c2)
      \<and> sound_catalog (h2, c2\<lparr>ca_next_id := N\<rparr>)
      \<and> ledger_view (h2, c2) = ledger_view (h1, c1) @ map (entry_view (h, c)) rs
      \<and> ca_destroyers c2 = ca_destroyers c1"
  using assms
proof (induction rs arbitrary: h1 c1)
  case Nil
  then show ?case by simp
next
  case (Cons r rs)
  from Cons.prems rehydrate_row [where ?h1.0 = h1 and ?c1.0 = c1 and N = N and h = h and c = c and r = r and e = "f r" and registered = registered]
  obtain h2 c2 where x: "rehydrate_entry registered (f r) (h1, c1) = Inr (h2, c2)"
    "sound_catalog (h2, c2\<lparr>ca_next_id := N\<rparr>)" "ledger_view (h2, c2) = ledger_view (h1, c1) @ [entry_view (h, c) r]"
    "entry_ids (h2, c2) = insert (res_id h r) (entry_ids (h1, c1))" "ca_destroyers c2 = ca_destroyers c1"
    by auto
  have "\<exists>h3 c3. rehydrate_entries registered (map f rs) (h2, c2) = Inr (h3, c3)
      \<and> sound_catalog (h3, c3\<lparr>ca_next_id := N\<rparr>)
      \<and> ledger_view (h3, c3) = ledger_view (h2, c2) @ map (entry_view (h, c)) rs
      \<and> ca_destroyers c3 = ca_destroyers c2"
    using Cons.prems x(2,4) by (intro Cons.IH) auto
  with x show ?case by auto
qed

lemma sound_same_view:
  assumes "sound_catalog l" "sound_catalog l'" "ledger_view l' = ledger_view l"
  shows "alookup (ca_ns (snd l')) = alookup (ca_ns (snd l)) \<and> state_of (snd l') = state_of (snd l)"
proof -
  obtain h c h' c' where l: "l = (h, c)" "l' = (h', c')" by (metis surj_pair)
  have "generations l' = generations l" by (simp add: generations_of_view assms(3))
  moreover have "alookup (ca_ns c) = map_of (rev (generations l))" "alookup (ca_ns c') = map_of (rev (generations l'))"
    using assms(1,2) unfolding l sound_catalog_def prod.case by blast+
  moreover have st: "state_of c i = (case map_of (map (\<lambda>(i, u, a, p, s). (i, s)) (ledger_view (h, c))) i of
      None \<Rightarrow> Pending | Some s \<Rightarrow> s)" if "sound_catalog (h, c)" for h c i
  proof -
    have v: "map (\<lambda>(i, u, a, p, s). (i, s)) (ledger_view (h, c)) = map (\<lambda>r. (res_id h r, state_of c (res_id h r))) (ca_entries c)"
      by (simp add: ledger_view_def entry_view_def)
    have "i \<notin> entry_ids (h, c) \<Longrightarrow> state_of c i = Pending"
      using that by (auto simp: sound_catalog_def state_of_def split: option.splits)
    moreover have "map_of (map (\<lambda>r. (res_id h r, state_of c (res_id h r))) xs) i
        = (if i \<in> res_id h ` set xs then Some (state_of c i) else None)" for xs
      by (induction xs) auto
    ultimately show ?thesis unfolding v by (auto simp: entry_ids_def)
  qed
  ultimately show ?thesis
    using st [of h c] st [of h' c'] assms by (auto simp: l fun_eq_iff)
qed

text \<open>C20: a catalog rebuilt from its snapshot, on a registry that rebuilds every entry, has the same
  generations in the same order, each with its id, URI, producer and state, the same current names and
  the same id counter, and is sound again; only the destroyers are forgotten.\<close>

theorem rehydrate_restores_the_catalog:
  assumes "sound_catalog (h, c)" and "\<forall>r \<in> set (ca_entries c). rebuilds registered (h ! r)"
  shows "\<exists>h' c'. rehydrate registered (snapshot M prior (h, c)) h0 = Inr (h', c') \<and> sound_catalog (h', c')
    \<and> ledger_view (h', c') = ledger_view (h, c) \<and> alookup (ca_ns c') = alookup (ca_ns c)
    \<and> state_of c' = state_of c \<and> ca_next_id c' = ca_next_id c \<and> ca_destroyers c' = Map.empty"
proof -
  let ?f = "\<lambda>r. identify M (known_entries prior) (h ! r) (capture (h, c) r)"
  have ids: "distinct (map (res_id h) (ca_entries c))"
    "\<forall>r \<in> set (ca_entries c). res_id h r \<noteq> [] \<and> (\<forall>n > ca_next_id c. res_id h r \<noteq> ledger_id n)"
  proof -
    have "[] \<notin> entry_ids (h, c)" "\<forall>n > ca_next_id c. ledger_id n \<notin> entry_ids (h, c)"
      using assms(1) by (auto simp: sound_catalog_def)
    then show "\<forall>r \<in> set (ca_entries c). res_id h r \<noteq> [] \<and> (\<forall>n > ca_next_id c. res_id h r \<noteq> ledger_id n)"
      unfolding entry_ids_def by (metis image_eqI old.prod.case)
  qed (use assms(1) in \<open>simp add: sound_catalog_def\<close>)
  have new: "sound_catalog (h0, new_resource_catalog\<lparr>ca_next_id := ca_next_id c\<rparr>)"
    "entry_ids (h0, new_resource_catalog) = {}" "ledger_view (h0, new_resource_catalog) = []"
    by (simp_all add: sound_catalog_def new_resource_catalog_def entry_ids_def generations_def ledger_view_def)
  have "\<forall>r \<in> set (ca_entries c). row_names (h, c) r (?f r) \<and> rebuilds registered (h ! r) \<and> res_id h r \<noteq> []
      \<and> (\<forall>n > ca_next_id c. res_id h r \<noteq> ledger_id n)"
    using assms(2) ids(2) by (simp add: row_names_def)
  from rehydrate_rows [OF this new(1) ids(1)] new(2,3)
  obtain h2 c2 where x: "rehydrate_entries registered (map ?f (ca_entries c)) (h0, new_resource_catalog) = Inr (h2, c2)"
    "sound_catalog (h2, c2\<lparr>ca_next_id := ca_next_id c\<rparr>)" "ledger_view (h2, c2) = ledger_view (h, c)"
    "ca_destroyers c2 = ca_destroyers new_resource_catalog"
    by (auto simp: ledger_view_def)
  then have "rehydrate registered (snapshot M prior (h, c)) h0 = Inr (h2, c2\<lparr>ca_next_id := ca_next_id c\<rparr>)"
    by (simp add: rehydrate_def snapshot_def)
  moreover have "ca_destroyers c2 = Map.empty" using x(4) by (simp add: new_resource_catalog_def)
  ultimately show ?thesis
    using x(2,3) sound_same_view [OF assms(1) x(2)] by auto
qed

definition demo_registry :: constructors where
  "demo_registry t =
     (if t = ''op/file.Regular'' then Some (\<lambda>s. Inr (demo_object AddressingLocation s t)) else None)"

lemma demo_registry_rebuilds:
  assumes "rb_uri (ro_base ob) = file_uri" "ro_addressing ob = AddressingLocation"
  shows "rebuilds demo_registry ob"
proof -
  have "extract_tag_specific (rb_uri (ro_base ob)) = Inr (''file:a'', ''op/file.Regular'')"
    unfolding assms(1) by (simp add: extract_tag_specific_ok demo_file_def demo_object_def)
  then show ?thesis
    unfolding rebuilds_def using assms by (force simp: demo_registry_def demo_file_def demo_object_def)
qed

lemma demo_produced:
  obtains h c where
    "snd (get_or_create ''copy'' file_uri (allocate demo_file) ([], new_resource_catalog)) = (h, c)"
    "sound_catalog (h, c)" "\<forall>r \<in> set (ca_entries c). rebuilds demo_registry (h ! r)"
    "entry_ids (h, c) = {''res-1''}"
proof -
  obtain out h c where a:
    "get_or_create ''copy'' file_uri (allocate demo_file) ([], new_resource_catalog) = (out, (h, c))"
    by (metis prod_cases3)
  have s: "sound_catalog (h, c)"
    using extends_get_or_create [OF sound_new allocate_constructs [OF sound_new] a, of "{}"]
    by (simp add: extends_ledger_def)
  have "case get_or_create ''copy'' file_uri (allocate demo_file) ([], new_resource_catalog) of (out, (h, c)) \<Rightarrow>
      ca_entries c = [0] \<and> res_id h 0 = ''res-1'' \<and> res_uri h 0 = file_uri \<and> res_addressing h 0 = AddressingLocation"
    by code_simp
  then have e: "ca_entries c = [0]" "res_id h 0 = ''res-1''" "res_uri h 0 = file_uri" "res_addressing h 0 = AddressingLocation"
    by (simp_all only: a prod.case)
  then have "\<forall>r \<in> set (ca_entries c). rebuilds demo_registry (h ! r)" "entry_ids (h, c) = {''res-1''}"
    using demo_registry_rebuilds [of "h ! 0"] by (auto simp: entry_ids_def)
  with a s that show thesis by simp
qed

lemma rehydrate_restores_the_catalog_witness:
  "\<exists>h c h' c'. snd (get_or_create ''copy'' file_uri (allocate demo_file) ([], new_resource_catalog)) = (h, c)
     \<and> rehydrate demo_registry (snapshot demo_methods None (h, c)) [] = Inr (h', c')
     \<and> ledger_view (h', c') = ledger_view (h, c)"
proof -
  obtain h c where p: "snd (get_or_create ''copy'' file_uri (allocate demo_file) ([], new_resource_catalog)) = (h, c)"
    "sound_catalog (h, c)" "\<forall>r \<in> set (ca_entries c). rebuilds demo_registry (h ! r)"
    by (rule demo_produced)
  from rehydrate_restores_the_catalog [OF p(2,3), of demo_methods None "[]"] p(1) show ?thesis by fastforce
qed

end
