(* ===== verification/Graph_Resources.thy ===== *)
theory Graph_Resources
  imports Ledger_Snapshot
begin

text \<open>
  The resource section of a graph document (\<open>unpackCatalog\<close>, \<open>reconstructIntentRow\<close> and
  \<open>parseLedgerID\<close> of \<open>pkg/op/graph.go\<close>): a catalog is rebuilt from the rows of intent, through the
  type's unpacker where the document carries the content of a row and through the registered
  constructor otherwise. The id counter is an unbounded integer.
\<close>

section \<open>Reading an id\<close>

definition parse_ledger_id :: "string \<Rightarrow> int option" where
  "parse_ledger_id i = (if has_prefix i ''res-'' then atoi (drop 4 i) else None)"

section \<open>Unpacking\<close>

type_synonym 'b unpackers = "string \<Rightarrow> (string \<Rightarrow> 'b \<Rightarrow> (gerror, res_object) result) option"

definition content_blobs :: "(string \<times> 'b) list \<Rightarrow> (string \<times> 'b) list" where
  "content_blobs content = fold (\<lambda>(uri, blob) m. aput uri blob m) content []"

definition reconstruct_intent_row ::
  "constructors \<Rightarrow> 'b unpackers \<Rightarrow> intent_entry \<Rightarrow> (string \<times> 'b) list
   \<Rightarrow> (gerror, res_object \<times> (string \<times> 'b) list) result"
where
  "reconstruct_intent_row registered unpackers row blobs =
     (let uri = in_uri row in
      case extract_tag_specific uri of
        Inl e \<Rightarrow> Inl (wrapf (''op.LoadGraph: resource entry '' @ uri @ '': '') e)
      | Inr (specific, type_id) \<Rightarrow>
          (case alookup blobs uri of
             Some blob \<Rightarrow>
               (case unpackers type_id of
                  None \<Rightarrow> Inl (ENew (''op.LoadGraph: content entry '' @ uri
                                 @ '': no announced op.Unpacker for type id '' @ quote type_id))
                | Some unpack \<Rightarrow>
                    (case unpack uri blob of
                       Inl e \<Rightarrow> Inl (wrapf (''op.LoadGraph: content entry '' @ uri @ '': '') e)
                     | Inr ob \<Rightarrow> Inr (ob, filter (\<lambda>(u, b). u \<noteq> uri) blobs)))
           | None \<Rightarrow>
               (case registered type_id of
                  None \<Rightarrow> Inl (ENew (''op.LoadGraph: resource entry '' @ uri
                                 @ '': no resource type registered for '' @ quote type_id))
                | Some construct \<Rightarrow>
                    (case construct specific of
                       Inl e \<Rightarrow> Inl (wrapf (''op.LoadGraph: resource entry '' @ uri @ '': reconstruct: '') e)
                     | Inr ob \<Rightarrow> Inr (ob, blobs)))))"

definition bump_next_id :: "string \<Rightarrow> int \<Rightarrow> int" where
  "bump_next_id i next =
     (case parse_ledger_id i of None \<Rightarrow> next | Some n \<Rightarrow> if next \<le> n then n + 1 else next)"

fun unpack_rows ::
  "constructors \<Rightarrow> 'b unpackers \<Rightarrow> intent_entry list \<Rightarrow> int \<Rightarrow> (string \<times> 'b) list \<Rightarrow> ledger
   \<Rightarrow> (gerror, int \<times> (string \<times> 'b) list \<times> ledger) result"
where
  "unpack_rows registered unpackers [] next blobs l = Inr (next, blobs, l)"
| "unpack_rows registered unpackers (row # rows) next blobs (h, c) =
     (case reconstruct_intent_row registered unpackers row blobs of
        Inl e \<Rightarrow> Inl e
      | Inr (ob, blobs') \<Rightarrow>
          unpack_rows registered unpackers rows (bump_next_id (in_id row) next) blobs'
            (restore_entry (in_id row) (length h) [] Pending (h @ [ob], c)))"

definition unpack_catalog ::
  "constructors \<Rightarrow> 'b unpackers \<Rightarrow> intent_entry list \<Rightarrow> (string \<times> 'b) list \<Rightarrow> res_heap
   \<Rightarrow> (gerror, ledger) result"
where
  "unpack_catalog registered unpackers rows content h =
     (case unpack_rows registered unpackers rows 0 (content_blobs content) (h, new_resource_catalog) of
        Inl e \<Rightarrow> Inl e
      | Inr (next, blobs, (h', c)) \<Rightarrow>
          if blobs \<noteq> [] then
            Inl (ENew (''op.LoadGraph: content entries with no resource row (the intent section is the catalog): ''
                   @ join_with '', '' (sort (map fst blobs))))
          else Inr (h', c\<lparr>ca_next_id := next\<rparr>))"

section \<open>What a document restores\<close>

lemma digits_value_next: "digits_value 0 (show_nat n) = Some n"
  by (rule digits_value_show)

lemma parse_ledger_id_ledger_id:
  assumes "0 \<le> n" "n < 2 ^ 63"
  shows "parse_ledger_id (ledger_id n) = Some n"
proof -
  obtain c cs where cs: "show_nat (nat n) = c # cs" using show_nat_nonempty by (metis list.exhaust)
  then have "char_digit c \<noteq> None" using show_nat_digits [of c "nat n"] by auto
  then have "c \<noteq> CHR ''-''" "c \<noteq> CHR ''+''" by (auto simp: char_digit_def)
  moreover have "digits_value 0 (c # cs) = Some (nat n)" using cs digits_value_show by metis
  ultimately have "atoi (show_nat (nat n)) = Some n"
    using assms unfolding cs by (simp add: atoi_def del: digits_value.simps)
  with assms show ?thesis
    by (simp add: parse_ledger_id_def ledger_id_def show_int_def has_prefix_iff)
qed

text \<open>The counter of the unpacked catalog is beyond the number of every row's id.\<close>

definition bumped :: "intent_entry list \<Rightarrow> int \<Rightarrow> int" where
  "bumped rows next = fold (\<lambda>row. bump_next_id (in_id row)) rows next"

lemma bump_next_id_mono: "next \<le> bump_next_id i next"
  by (simp add: bump_next_id_def split: option.splits)

lemma bumped_mono: "next \<le> bumped rows next"
  by (induction rows arbitrary: "next")
    (auto simp: bumped_def intro: order_trans bump_next_id_mono)

lemma bumped_beyond:
  "row \<in> set rows \<Longrightarrow> in_id row = ledger_id n \<Longrightarrow> 0 \<le> n \<Longrightarrow> n < 2 ^ 63 \<Longrightarrow> n < bumped rows next"
proof (induction rows arbitrary: "next")
  case (Cons r rows)
  show ?case
  proof (cases "r = row")
    case True
    with Cons.prems have "n < bump_next_id (in_id r) next"
      by (simp add: bump_next_id_def parse_ledger_id_ledger_id)
    with bumped_mono [of "bump_next_id (in_id r) next" rows] show ?thesis by (simp add: bumped_def)
  next
    case False
    with Cons show ?thesis by (simp add: bumped_def)
  qed
qed simp

lemma rows_below_bumped:
  assumes "\<forall>row \<in> set rows. in_id row \<noteq> [] \<and> (\<forall>n \<ge> 2 ^ 63. in_id row \<noteq> ledger_id n)"
  shows "\<forall>row \<in> set rows. in_id row \<noteq> [] \<and> (\<forall>n > bumped rows 0. in_id row \<noteq> ledger_id n)"
proof (intro ballI conjI allI impI)
  fix row n assume row: "row \<in> set rows" and n: "bumped rows 0 < n"
  have "0 \<le> bumped rows 0" by (rule bumped_mono)
  with row n assms bumped_beyond [of row rows n 0] show "in_id row \<noteq> ledger_id n"
    by (meson leI less_asym less_imp_le order_le_less_trans)
qed (use assms in simp)

lemma empty_catalog_sound:
  "sound_catalog (h, new_resource_catalog\<lparr>ca_next_id := N\<rparr>)"
  "entry_ids (h, new_resource_catalog) = {}" "ledger_view (h, new_resource_catalog) = []"
  by (simp_all add: sound_catalog_def new_resource_catalog_def entry_ids_def generations_def ledger_view_def)

definition pending_claim :: "string \<times> string \<times> addressing_mode \<times> string \<times> resource_state \<Rightarrow> bool" where
  "pending_claim v = (case v of (i, u, a, p, s) \<Rightarrow> p = [] \<and> s = Pending)"

lemma pending_claim_row [simp]: "pending_claim (i, u, a, [], Pending)"
  by (simp add: pending_claim_def)

lemma unpack_rows_sound:
  assumes "unpack_rows registered unpackers rows next blobs (h, c) = Inr (next', blobs', (h', c'))"
    and "sound_catalog (h, c\<lparr>ca_next_id := N\<rparr>)" and "distinct (map in_id rows)"
    and "set (map in_id rows) \<inter> entry_ids (h, c) = {}"
    and "\<forall>row \<in> set rows. in_id row \<noteq> [] \<and> (\<forall>n > N. in_id row \<noteq> ledger_id n)"
  shows "sound_catalog (h', c'\<lparr>ca_next_id := N\<rparr>) \<and> next' = bumped rows next
    \<and> (\<exists>new. ledger_view (h', c') = ledger_view (h, c) @ new \<and> map fst new = map in_id rows
         \<and> list_all pending_claim new)"
  using assms
proof (induction rows arbitrary: "next" blobs h c)
  case Nil
  then show ?case by (simp add: bumped_def)
next
  case (Cons row rows)
  obtain ob bl where rec: "reconstruct_intent_row registered unpackers row blobs = Inr (ob, bl)"
    using Cons.prems(1) by (auto split: sum.splits)
  obtain h1 c1 where x: "restore_entry (in_id row) (length h) [] Pending (h @ [ob], c) = (h1, c1)"
    by (metis surj_pair)
  have run: "unpack_rows registered unpackers rows (bump_next_id (in_id row) next) bl (h1, c1) = Inr (next', blobs', (h', c'))"
    using Cons.prems(1) rec x by simp
  have "\<forall>y \<in> set (ca_entries c). y < length h" using Cons.prems(2) by (simp add: sound_catalog_def)
  then have "uninterned (length h) (h @ [ob], c)" by (auto simp: uninterned_def)
  moreover have grow: "sound_catalog (h @ [ob], c\<lparr>ca_next_id := N\<rparr>)" "entry_ids (h @ [ob], c) = entry_ids (h, c)"
    using sound_grow [OF Cons.prems(2) keeps_refs_grow, of "[ob]"] by simp_all
  moreover have "in_id row \<notin> entry_ids (h, c)" "in_id row \<noteq> []" "\<forall>n > N. in_id row \<noteq> ledger_id n"
    using Cons.prems(4,5) by auto
  ultimately have one: "sound_catalog (h1, c1\<lparr>ca_next_id := N\<rparr>)"
    "ledger_view (h1, c1) = ledger_view (h @ [ob], c) @ [(in_id row, rb_uri (ro_base ob), ro_addressing ob, [], Pending)]"
    "entry_ids (h1, c1) = insert (in_id row) (entry_ids (h, c))"
    using restore_sound [OF _ _ _ _ _ x, of N] by simp_all
  have v: "ledger_view (h @ [ob], c) = ledger_view (h, c)"
    using ledger_view_grow [OF Cons.prems(2), of "[ob]"] by simp
  have "sound_catalog (h', c'\<lparr>ca_next_id := N\<rparr>) \<and> next' = bumped rows (bump_next_id (in_id row) next)
    \<and> (\<exists>new. ledger_view (h', c') = ledger_view (h1, c1) @ new \<and> map fst new = map in_id rows
         \<and> list_all pending_claim new)"
    using Cons.IH [OF run one(1)] Cons.prems(3-5) one(3) by auto
  then obtain new where "sound_catalog (h', c'\<lparr>ca_next_id := N\<rparr>)"
    "next' = bumped rows (bump_next_id (in_id row) next)" "ledger_view (h', c') = ledger_view (h1, c1) @ new"
    "map fst new = map in_id rows" "list_all pending_claim new"
    by blast
  then show ?case
    unfolding one(2) v
    by (intro conjI exI [of _ "(in_id row, rb_uri (ro_base ob), ro_addressing ob, [], Pending) # new"])
      (simp_all add: bumped_def)
qed

text \<open>Whatever resource section a graph document has, if its rows have distinct ids and it unpacks,
  the catalog is sound: it has one generation per row with the row's id, in order, each pending and
  without a producer, and the next id it gives is in no row.\<close>

theorem unpacked_catalog_is_sound:
  assumes "unpack_catalog registered unpackers rows content h = Inr (h', c')"
    and "distinct (map in_id rows)" and "\<forall>row \<in> set rows. in_id row \<noteq> [] \<and> (\<forall>n \<ge> 2 ^ 63. in_id row \<noteq> ledger_id n)"
  shows "sound_catalog (h', c') \<and> map fst (ledger_view (h', c')) = map in_id rows
    \<and> list_all pending_claim (ledger_view (h', c'))
    \<and> (\<forall>n > ca_next_id c'. ledger_id n \<notin> set (map in_id rows))"
proof -
  obtain next' h2 c2 where run: "unpack_rows registered unpackers rows 0 (content_blobs content) (h, new_resource_catalog)
        = Inr (next', [], (h2, c2))" "h' = h2" "c' = c2\<lparr>ca_next_id := next'\<rparr>"
    using assms(1) by (auto simp: unpack_catalog_def split: sum.splits if_splits)
  let ?N = "bumped rows 0"
  note N = rows_below_bumped [OF assms(3)]
  from unpack_rows_sound [OF run(1) empty_catalog_sound(1) assms(2) _ N] empty_catalog_sound(2,3)
  have r: "sound_catalog (h2, c2\<lparr>ca_next_id := ?N\<rparr>)" "next' = ?N" "map fst (ledger_view (h2, c2)) = map in_id rows"
    "list_all pending_claim (ledger_view (h2, c2))"
    by auto
  moreover have "\<forall>n > ?N. ledger_id n \<notin> set (map in_id rows)" using N by (metis imageE list.set_map)
  ultimately show ?thesis using run(2,3) by simp
qed

lemma unpacked_catalog_is_sound_witness:
  "\<exists>h c. unpack_catalog demo_registry (\<lambda>t. Some (\<lambda>uri b. Inr demo_blob))
        [\<lparr>in_id = ''res-3'', in_uri = file_uri\<rparr>, \<lparr>in_id = ''res-1'', in_uri = rb_uri (ro_base demo_blob)\<rparr>]
        [(rb_uri (ro_base demo_blob), ())] [] = Inr (h, c)
     \<and> sound_catalog (h, c) \<and> map fst (ledger_view (h, c)) = [''res-3'', ''res-1''] \<and> ca_next_id c = 4"
proof -
  let ?rows = "[\<lparr>in_id = ''res-3'', in_uri = file_uri\<rparr>, \<lparr>in_id = ''res-1'', in_uri = rb_uri (ro_base demo_blob)\<rparr>]"
  let ?u = "unpack_catalog demo_registry (\<lambda>t. Some (\<lambda>uri b. Inr demo_blob)) ?rows [(rb_uri (ro_base demo_blob), ())] []"
  have "case ?u of Inl e \<Rightarrow> False | Inr (h, c) \<Rightarrow> ca_next_id c = 4" by code_simp
  then obtain h c where u: "?u = Inr (h, c)" "ca_next_id c = 4"
    by (auto split: sum.splits prod.splits)
  have ids: "''res-3'' = ledger_id 3" "''res-1'' = ledger_id 1" by code_simp+
  have "\<forall>row \<in> set ?rows. in_id row \<noteq> [] \<and> (\<forall>n \<ge> 2 ^ 63. in_id row \<noteq> ledger_id n)"
    unfolding ids by (simp add: ledger_id_inj)
  from unpacked_catalog_is_sound [OF u(1) _ this] u show ?thesis by auto
qed

section \<open>The round trip of intent\<close>

text \<open>An entry is current when the namespace names it.\<close>

definition is_current :: "ledger \<Rightarrow> res \<Rightarrow> bool" where
  "is_current l r \<longleftrightarrow> (case l of (h, c) \<Rightarrow> alookup (ca_ns c) (namespace_key h r) = Some (res_id h r))"

definition intent_row :: "res_heap \<Rightarrow> res \<Rightarrow> intent_entry" where
  "intent_row h r = \<lparr>in_id = res_id h r, in_uri = res_uri h r\<rparr>"

lemma intent_row_simps [simp]: "in_id (intent_row h r) = res_id h r" "in_uri (intent_row h r) = res_uri h r"
  by (simp_all add: intent_row_def)

lemma intent_entries_current:
  assumes "sound_catalog (h, c)"
  shows "intent_entries (h, c) = map (intent_row h) (filter (is_current (h, c)) (ca_entries c))"
proof -
  have "(case alookup (ca_ns c) (namespace_key h r) of None \<Rightarrow> [] | Some i \<Rightarrow> i) = res_id h r \<longleftrightarrow> is_current (h, c) r"
    if "r \<in> set (ca_entries c)" for r
  proof -
    have "res_id h r \<noteq> []" using assms that by (rule entered_id_nonempty)
    then show ?thesis by (auto simp: is_current_def split: option.splits)
  qed
  then have "filter (\<lambda>r. (case alookup (ca_ns c) (namespace_key h r) of None \<Rightarrow> [] | Some i \<Rightarrow> i) = res_id h r) (ca_entries c)
      = filter (is_current (h, c)) (ca_entries c)"
    by (rule filter_cong [OF refl])
  then show ?thesis by (simp add: intent_entries_def intent_row_def)
qed

lemma map_of_last_values:
  "map_of (rev (filter (\<lambda>(k, i). map_of (rev gs) k = Some i) gs)) = map_of (rev gs)"
proof
  fix k
  let ?fs = "filter (\<lambda>(k, i). map_of (rev gs) k = Some i) gs"
  have in_fs: "(k, i) \<in> set ?fs \<longleftrightarrow> map_of (rev gs) k = Some i" for i
    using map_of_SomeD [of "rev gs" k i] by auto
  show "map_of (rev ?fs) k = map_of (rev gs) k"
  proof (cases "map_of (rev ?fs) k")
    case None
    then have "k \<notin> fst ` set ?fs" by (simp add: map_of_eq_None_iff del: set_filter)
    then have "map_of (rev gs) k \<noteq> Some i" for i using in_fs by force
    then have "map_of (rev gs) k = None" by (cases "map_of (rev gs) k") blast+
    then show ?thesis using None by simp
  next
    case (Some i)
    then have "(k, i) \<in> set ?fs" by (metis map_of_SomeD set_rev)
    then show ?thesis using Some in_fs by simp
  qed
qed

lemma reconstruct_rebuilds:
  assumes "rebuilds registered (h ! r)"
  shows "\<exists>ob. reconstruct_intent_row registered unpackers (intent_row h r) [] = Inr (ob, [])
    \<and> rb_uri (ro_base ob) = res_uri h r \<and> ro_addressing ob = res_addressing h r"
  using assms by (auto simp: rebuilds_def reconstruct_intent_row_def intent_row_def)

lemma unpack_rows_rebuild:
  assumes "\<forall>r \<in> set rs. rebuilds registered (h ! r) \<and> res_id h r \<noteq> [] \<and> (\<forall>n > N. res_id h r \<noteq> ledger_id n)"
  shows "sound_catalog (h1, c1\<lparr>ca_next_id := N\<rparr>) \<Longrightarrow> distinct (map (res_id h) rs) \<Longrightarrow>
    res_id h ` set rs \<inter> entry_ids (h1, c1) = {} \<Longrightarrow>
    \<exists>next' h2 c2. unpack_rows registered unpackers (map (intent_row h) rs) next [] (h1, c1) = Inr (next', [], (h2, c2))
      \<and> ledger_view (h2, c2) = ledger_view (h1, c1) @ map (\<lambda>r. (res_id h r, res_uri h r, res_addressing h r, [], Pending)) rs"
  using assms
proof (induction rs arbitrary: "next" h1 c1)
  case Nil
  then show ?case by simp
next
  case (Cons r rs)
  obtain ob where rec: "reconstruct_intent_row registered unpackers (intent_row h r) [] = Inr (ob, [])"
    "rb_uri (ro_base ob) = res_uri h r" "ro_addressing ob = res_addressing h r"
    using reconstruct_rebuilds [of registered h r unpackers] Cons.prems(4) by auto
  obtain h2 c2 where x: "restore_entry (res_id h r) (length h1) [] Pending (h1 @ [ob], c1) = (h2, c2)"
    by (metis surj_pair)
  have "\<forall>y \<in> set (ca_entries c1). y < length h1" using Cons.prems(1) by (simp add: sound_catalog_def)
  then have u: "uninterned (length h1) (h1 @ [ob], c1)" by (auto simp: uninterned_def)
  have g: "sound_catalog (h1 @ [ob], c1\<lparr>ca_next_id := N\<rparr>)" "entry_ids (h1 @ [ob], c1) = entry_ids (h1, c1)"
    using sound_grow [OF Cons.prems(1) keeps_refs_grow, of "[ob]"] by simp_all
  have v: "ledger_view (h1 @ [ob], c1) = ledger_view (h1, c1)"
    using ledger_view_grow [OF Cons.prems(1), of "[ob]"] by simp
  have "res_id h r \<notin> entry_ids (h1 @ [ob], c1)" using Cons.prems(3) g(2) by auto
  note one = restore_sound [OF g(1) u this _ _ x]
  have one: "sound_catalog (h2, c2\<lparr>ca_next_id := N\<rparr>)" "entry_ids (h2, c2) = insert (res_id h r) (entry_ids (h1, c1))"
    "ledger_view (h2, c2) = ledger_view (h1, c1) @ [(res_id h r, res_uri h r, res_addressing h r, [], Pending)]"
    using one Cons.prems(4) g(2) rec v by simp_all
  have "\<exists>next' h3 c3. unpack_rows registered unpackers (map (intent_row h) rs) (bump_next_id (res_id h r) next) [] (h2, c2)
        = Inr (next', [], (h3, c3))
      \<and> ledger_view (h3, c3) = ledger_view (h2, c2)
          @ map (\<lambda>r. (res_id h r, res_uri h r, res_addressing h r, [], Pending)) rs"
    using Cons.prems one(1,2) by (intro Cons.IH) auto
  then show ?case using rec(1) x one(3) by auto
qed

lemma generations_current:
  "map (\<lambda>r. (namespace_key h r, res_id h r)) (filter (is_current (h, c)) (ca_entries c))
    = filter (\<lambda>(k, i). alookup (ca_ns c) k = Some i) (generations (h, c))"
  by (simp add: generations_def filter_map comp_def is_current_def [abs_def])

text \<open>A graph document's intent survives the round trip: the catalog unpacked from the rows a sound
  catalog writes, on a registry that rebuilds its resources, names the same current id for every URI;
  every entry is pending and the superseded generations are gone.\<close>

theorem intent_roundtrip:
  assumes s: "sound_catalog (h, c)" and reb: "\<forall>r \<in> set (ca_entries c). rebuilds registered (h ! r)"
    and big: "\<forall>i \<in> entry_ids (h, c). \<forall>n \<ge> 2 ^ 63. i \<noteq> ledger_id n"
  shows "\<exists>h' c'. unpack_catalog registered unpackers (intent_entries (h, c)) [] h0 = Inr (h', c')
    \<and> alookup (ca_ns c') = alookup (ca_ns c) \<and> list_all pending_claim (ledger_view (h', c'))
    \<and> intent_entries (h', c') = intent_entries (h, c)"
proof -
  let ?rs = "filter (is_current (h, c)) (ca_entries c)"
  let ?rows = "map (intent_row h) ?rs"
  let ?view = "\<lambda>r. (res_id h r, res_uri h r, res_addressing h r, [], Pending)"
  have rows: "intent_entries (h, c) = ?rows" by (rule intent_entries_current [OF s])
  have d: "distinct (map (res_id h) ?rs)" using s by (simp add: sound_catalog_def distinct_map_filter)
  have ne: "\<forall>r \<in> set (ca_entries c). res_id h r \<noteq> []" using entered_id_nonempty [OF s] by simp
  then have ids: "\<forall>row \<in> set ?rows. in_id row \<noteq> [] \<and> (\<forall>n \<ge> 2 ^ 63. in_id row \<noteq> ledger_id n)"
    using big by (auto simp: entry_ids_def)
  note N = rows_below_bumped [OF ids]
  then have "\<forall>r \<in> set ?rs. rebuilds registered (h ! r) \<and> res_id h r \<noteq> []
      \<and> (\<forall>n > bumped ?rows 0. res_id h r \<noteq> ledger_id n)"
    using reb by simp
  from unpack_rows_rebuild [OF this empty_catalog_sound(1) d, of h0 unpackers 0] empty_catalog_sound(2,3)
  obtain next' h2 c2 where run: "unpack_rows registered unpackers ?rows 0 [] (h0, new_resource_catalog) = Inr (next', [], (h2, c2))"
    "ledger_view (h2, c2) = map ?view ?rs"
    by auto
  let ?c = "c2\<lparr>ca_next_id := next'\<rparr>"
  have u: "unpack_catalog registered unpackers (intent_entries (h, c)) [] h0 = Inr (h2, ?c)"
    unfolding rows by (simp add: unpack_catalog_def content_blobs_def run(1))
  have di: "distinct (map in_id ?rows)" using d by (simp add: comp_def)
  have s2: "sound_catalog (h2, ?c)" "list_all pending_claim (ledger_view (h2, ?c))"
    using unpacked_catalog_is_sound [OF u [unfolded rows] di ids] by blast+
  have g: "generations (h2, ?c) = filter (\<lambda>(k, i). alookup (ca_ns c) k = Some i) (generations (h, c))"
    unfolding generations_of_view [of "(h2, _)"] next_id_irrelevant run(2) generations_current [symmetric]
    by (simp add: comp_def namespace_key_def object_key_def)
  have "alookup (ca_ns ?c) = map_of (rev (generations (h2, ?c)))" "alookup (ca_ns c) = map_of (rev (generations (h, c)))"
    using s s2(1) unfolding sound_catalog_def prod.case by blast+
  then have ns: "alookup (ca_ns ?c) = alookup (ca_ns c)" using map_of_last_values by (metis g)
  have "\<forall>(k, i) \<in> set (generations (h2, ?c)). alookup (ca_ns ?c) k = Some i" unfolding ns g by auto
  then have "filter (is_current (h2, ?c)) (ca_entries ?c) = ca_entries ?c"
    by (auto simp: generations_def is_current_def filter_id_conv)
  then have "intent_entries (h2, ?c) = map (\<lambda>(i, u, a, p, s). \<lparr>in_id = i, in_uri = u\<rparr>) (ledger_view (h2, ?c))"
    by (simp only: intent_entries_current [OF s2(1)]) (simp add: ledger_view_def entry_view_def intent_row_def)
  then have "intent_entries (h2, ?c) = intent_entries (h, c)"
    unfolding rows next_id_irrelevant run(2) by (simp add: comp_def intent_row_def)
  with u ns s2(2) show ?thesis by blast
qed

lemma intent_roundtrip_witness:
  "\<exists>h c h' c'. snd (get_or_create ''copy'' file_uri (allocate demo_file) ([], new_resource_catalog)) = (h, c)
     \<and> unpack_catalog demo_registry (\<lambda>t. None :: (string \<Rightarrow> unit \<Rightarrow> (gerror, res_object) result) option)
         (intent_entries (h, c)) [] [] = Inr (h', c')
     \<and> intent_entries (h', c') = intent_entries (h, c)"
proof -
  obtain h c where p: "snd (get_or_create ''copy'' file_uri (allocate demo_file) ([], new_resource_catalog)) = (h, c)"
    "sound_catalog (h, c)" "\<forall>r \<in> set (ca_entries c). rebuilds demo_registry (h ! r)" "entry_ids (h, c) = {''res-1''}"
    by (rule demo_produced)
  have "''res-1'' = ledger_id 1" by code_simp
  then have "\<forall>i \<in> entry_ids (h, c). \<forall>n \<ge> 2 ^ 63. i \<noteq> ledger_id n" using p(4) by (simp add: ledger_id_inj)
  from intent_roundtrip [OF p(2,3) this] p(1) show ?thesis by metis
qed

end
