(* ===== verification/Graph_Document.thy ===== *)
theory Graph_Document
  imports Topology
begin

text \<open>
  Graph documents (\<open>pkg/op/graph.go\<close>, \<open>subgraph.go\<close>, \<open>node.go\<close>): the flat form a graph is
  saved in, and the load path that assembles the units, links each subgraph to its children, validates
  the edges and compares the checksum. Units are pointers that the unit table shares, so linking a
  subgraph is seen through every parent: here a unit is named by its id and the table holds its
  state. The registry, the checksum of the canonical content and the decoding of the text are arguments;
  annotations, origin, signature and the typed coding of slot values are not modelled, and the resource
  section has its own theory.
\<close>

section \<open>The document\<close>










section \<open>Loading\<close>




















section \<open>What a load keeps\<close>

text \<open>A unit as a load restores it, with the containment linked to a depth: handlers and the slots of
  subgraphs are not in the document.\<close>

fun reload :: "nat \<Rightarrow> exec_unit \<Rightarrow> exec_unit" where
  "reload n (Node m oe ort) = Node m None None"
| "reload 0 (Subgraph m oe ort cs es) = Subgraph (m\<lparr>m_slots := []\<rparr>) None None [] es"
| "reload (Suc n) (Subgraph m oe ort cs es) = Subgraph (m\<lparr>m_slots := []\<rparr>) None None (map (reload n) cs) es"







lemma meta_id [simp]: "m_id (meta u) = unit_id u"
  by (simp add: unit_id_def)











section \<open>Linking reaches two levels\<close>



















section \<open>Which documents load\<close>



lemma reload_id [simp]: "unit_id (reload n u) = unit_id u"
  by (induction n u rule: reload.induct) (simp_all add: unit_id_def del: meta_id)

lemma reload_kind [simp]: "is_subgraph (reload n u) = is_subgraph u"
  by (induction n u rule: reload.induct) simp_all



















end
