(* ===== verification/Scoped_Path.thy ===== *)
theory Scoped_Path
  imports Errors
begin

text \<open>
  Lexical paths (\<open>pkg/fsroot/fsroot.go\<close>): the cleaning, joining and relating of slash-separated paths
  the code takes from \<open>path/filepath\<close>, and the \<open>Path\<close> of a session root, which holds the
  root-relative form that names an entry and the absolute form derived from it. The operating system is
  Unix; nothing here touches the disk.
\<close>

section \<open>Elements\<close>

type_synonym path = "string list"

abbreviation slash :: char where
  "slash \<equiv> CHR ''/''"

definition is_abs :: "string \<Rightarrow> bool" where
  "is_abs s = has_prefix s [slash]"

text \<open>The elements of a path that name something: empty ones and dots are dropped.\<close>

definition elements :: "string \<Rightarrow> path" where
  "elements s = filter (\<lambda>e. e \<noteq> [] \<and> e \<noteq> ''.'') (split_on slash s)"

definition clean_step :: "bool \<Rightarrow> path \<Rightarrow> string \<Rightarrow> path" where
  "clean_step rooted acc e =
     (if e \<noteq> ''..'' then acc @ [e]
      else if acc = [] then (if rooted then [] else [''..''])
      else if last acc = ''..'' then acc @ [''..''] else butlast acc)"

definition clean_elements :: "bool \<Rightarrow> path \<Rightarrow> path" where
  "clean_elements rooted es = foldl (clean_step rooted) [] es"

definition show_path :: "bool \<Rightarrow> path \<Rightarrow> string" where
  "show_path rooted es =
     (if rooted then slash # join_with [slash] es
      else if es = [] then ''.'' else join_with [slash] es)"

text \<open>\<open>filepath.Clean\<close>, \<open>filepath.Join\<close> and \<open>filepath.Rel\<close>, which fails when only one of the paths is
  absolute or the base climbs where the target does not.\<close>

definition clean_path :: "string \<Rightarrow> string" where
  "clean_path s = show_path (is_abs s) (clean_elements (is_abs s) (elements s))"

definition join_path :: "string list \<Rightarrow> string" where
  "join_path names =
     (let ns = filter (\<lambda>n. n \<noteq> []) names in if ns = [] then [] else clean_path (join_with [slash] ns))"

fun strip_common :: "path \<Rightarrow> path \<Rightarrow> path \<times> path" where
  "strip_common (b # bs) (t # ts) = (if b = t then strip_common bs ts else (b # bs, t # ts))"
| "strip_common bs ts = (bs, ts)"

definition rel_elements :: "path \<Rightarrow> path \<Rightarrow> path option" where
  "rel_elements base target =
     (case strip_common base target of
        (bs, ts) \<Rightarrow> if bs \<noteq> [] \<and> hd bs = ''..'' then None else Some (replicate (length bs) ''..'' @ ts))"

definition rel_path :: "string \<Rightarrow> string \<Rightarrow> string option" where
  "rel_path base target =
     (if is_abs base \<noteq> is_abs target then None
      else map_option (show_path False)
        (rel_elements (clean_elements (is_abs base) (elements base))
           (clean_elements (is_abs target) (elements target))))"

section \<open>The paths of a root\<close>

record scoped_path =
  sp_root :: string
  sp_rel :: string
  sp_abs :: string

text \<open>\<open>canonicalRel\<close> is \<open>path.Clean\<close> on a slash path. An absolute path that cannot be related to the
  root fails an assertion (\<open>None\<close>).\<close>

definition make_path :: "string \<Rightarrow> string list \<Rightarrow> scoped_path option" where
  "make_path root names =
     (let p = join_path names in
      if is_abs p then
        (case rel_path root p of
           None \<Rightarrow> None
         | Some rel \<Rightarrow> Some \<lparr>sp_root = root, sp_rel = clean_path rel, sp_abs = clean_path p\<rparr>)
      else Some \<lparr>sp_root = root, sp_rel = clean_path p, sp_abs = join_path [root, p]\<rparr>)"

definition rel_within :: "string \<Rightarrow> string \<Rightarrow> string option" where
  "rel_within root p =
     (case rel_path root (clean_path p) of
        None \<Rightarrow> None
      | Some rel \<Rightarrow>
          (let c = clean_path rel in
           if c = ''.'' \<or> c = ''..'' \<or> has_prefix c ''../'' then None else Some c))"

text \<open>\<open>recoveryParentDir\<close> (\<open>pkg/op/recovery_site.go\<close>): what precedes the last slash.\<close>

definition recovery_parent_dir :: "string \<Rightarrow> string" where
  "recovery_parent_dir s =
     (case dropWhile (\<lambda>c. c \<noteq> slash) (rev s) of [] \<Rightarrow> ''.'' | _ # before \<Rightarrow> rev before)"

end
