(* ===== verification/File_System.thy ===== *)
theory File_System
  imports Scoped_Path Resource_Catalog "HOL-Library.Sublist"
begin

text \<open>
  The file system below a session root and the calls the code makes on it through \<open>fsroot.Dir\<close>
  (\<open>pkg/fsroot/fsroot.go\<close>), a thin layer over \<open>os.Root\<close> of the standard library. An entry is a plain
  file with its content, mode and owner, a symbolic link with its stored text, a folder, or a special
  file; the tree lists the entries by path. Links are followed as \<open>os.Root\<close> follows them, within the
  root, and a path that leaves the root is refused. Every call may fail for a reason outside the model:
  the world carries the failures to come, one slot per call. The texts of library errors are not
  modelled beyond the sentinels the code compares with.
\<close>

unbundle bit_operations_syntax

section \<open>Entries\<close>

type_synonym file_mode = "32 word"
type_synonym ownership = "int \<times> int"

text \<open>An octal mode, digit by digit.\<close>

definition perms :: "nat \<Rightarrow> nat \<Rightarrow> nat \<Rightarrow> file_mode" where
  "perms u g others = of_nat (64 * u + 8 * g + others)"

datatype entry =
    Plain string file_mode ownership
  | Symlink string
  | Folder file_mode ownership
  | Special

type_synonym tree = "(path \<times> entry) list"

definition look :: "tree \<Rightarrow> path \<Rightarrow> entry option" where
  "look t p = map_of t p"

fun is_folder :: "entry \<Rightarrow> bool" where
  "is_folder (Folder m w) = True"
| "is_folder _ = False"

fun is_symlink :: "entry \<Rightarrow> bool" where
  "is_symlink (Symlink s) = True"
| "is_symlink _ = False"

fun is_plain :: "entry \<Rightarrow> bool" where
  "is_plain (Plain s m w) = True"
| "is_plain _ = False"

definition set_entry :: "path \<Rightarrow> entry \<Rightarrow> tree \<Rightarrow> tree" where
  "set_entry p x t = (p, x) # t"

definition drop_entry :: "path \<Rightarrow> tree \<Rightarrow> tree" where
  "drop_entry p t = filter (\<lambda>(k, x). k \<noteq> p) t"

definition has_children :: "tree \<Rightarrow> path \<Rightarrow> bool" where
  "has_children t p \<longleftrightarrow> list_ex (\<lambda>(k, x). k \<noteq> [] \<and> butlast k = p) t"

text \<open>A rename relocates the directory entry, and with it whatever lies below.\<close>

definition relocate :: "path \<Rightarrow> path \<Rightarrow> path \<Rightarrow> path" where
  "relocate p q k = (if prefix p k then q @ drop (length p) k else k)"

definition move_tree :: "path \<Rightarrow> path \<Rightarrow> tree \<Rightarrow> tree" where
  "move_tree p q t = map (\<lambda>(k, x). (relocate p q k, x)) (drop_entry q t)"

section \<open>Failures to come\<close>

text \<open>A failure carries its error and how far the call gets before it fails: the directories made or
  the bytes written. The calls that only look (\<open>lstat\<close>, \<open>stat\<close>, \<open>readlink\<close>) have slots of their own,
  and what they fail with has nothing to carry. The world also has the number of recovery keys minted and the run's catalog with
  the store of its resources; there is no catalog in an environment built without one.\<close>

type_synonym fault = "gerror \<times> nat"

record world =
  w_tree :: tree
  w_probe_faults :: "gerror option list"
  w_faults :: "fault option list"
  w_minted :: nat
  w_heap :: res_heap
  w_catalog :: "catalog option"

datatype conflict_policy = ConflictStop | ConflictSkip | ConflictReplace

text \<open>What does not change in a session: the root's name, the number of links \<open>os.Root\<close> follows in one
  path, the umask and the identity of the process, the \<open>conflict\<close> flag of the application, and what is
  not under the repository: the UUIDs, SHA-256 and the user database.\<close>

record session =
  se_root :: string
  se_max_links :: nat
  se_umask :: file_mode
  se_owner :: ownership
  se_conflict_flag :: "conflict_policy option"
  se_uuid :: "nat \<Rightarrow> string"
  se_sha256 :: "string \<Rightarrow> 8 word list"
  se_lookup_user :: "string \<Rightarrow> (gerror, int) result"
  se_lookup_group :: "string \<Rightarrow> (gerror, int) result"

definition next_fault :: "world \<Rightarrow> fault option \<times> world" where
  "next_fault w =
     (case w_faults w of [] \<Rightarrow> (None, w) | f # fs \<Rightarrow> (f, w\<lparr>w_faults := fs\<rparr>))"

definition next_probe :: "world \<Rightarrow> gerror option \<times> world" where
  "next_probe w =
     (case w_probe_faults w of [] \<Rightarrow> (None, w) | f # fs \<Rightarrow> (f, w\<lparr>w_probe_faults := fs\<rparr>))"

definition escapes :: gerror where
  "escapes = ENew ''path escapes from parent''"

section \<open>Resolving a path\<close>

text \<open>The path an entry is reached at: every element but the last must be a folder, links are
  replaced by their stored text, the last one only when it is to be followed. The last element need
  not exist.\<close>

function (sequential) resolve_at ::
  "nat \<Rightarrow> tree \<Rightarrow> bool \<Rightarrow> path \<Rightarrow> path \<Rightarrow> (gerror, path) result"
where
  "resolve_at n t follow cwd [] = Inr cwd"
| "resolve_at n t follow cwd (c # cs) =
     (if c = ''..'' then
        (if cwd = [] then Inl escapes else resolve_at n t follow (butlast cwd) cs)
      else
        (case look t (cwd @ [c]) of
           None \<Rightarrow> if cs = [] then Inr (cwd @ [c]) else Inl ErrNotExist
         | Some (Folder m w) \<Rightarrow> resolve_at n t follow (cwd @ [c]) cs
         | Some (Symlink s) \<Rightarrow>
             if cs = [] \<and> \<not> follow then Inr (cwd @ [c])
             else if is_abs s then Inl escapes
             else (case n of
                     0 \<Rightarrow> Inl (ENew ''too many levels of symbolic links'')
                   | Suc k \<Rightarrow> resolve_at k t follow cwd (elements s @ cs))
         | Some _ \<Rightarrow> if cs = [] then Inr (cwd @ [c]) else Inl (ENew ''not a directory'')))"
  by pat_completeness auto

termination
  by (relation "inv_image (less_than <*lex*> less_than) (\<lambda>(n, t, follow, cwd, cs). (n, length cs))") auto

definition entry_at :: "session \<Rightarrow> tree \<Rightarrow> bool \<Rightarrow> path \<Rightarrow> (gerror, path \<times> entry) result" where
  "entry_at S t follow p =
     (case resolve_at (se_max_links S) t follow [] p of
        Inl e \<Rightarrow> Inl e
      | Inr q \<Rightarrow> (case look t q of None \<Rightarrow> Inl ErrNotExist | Some x \<Rightarrow> Inr (q, x)))"

section \<open>Reading calls\<close>

definition lstat :: "session \<Rightarrow> path \<Rightarrow> world \<Rightarrow> (gerror, entry) result \<times> world" where
  "lstat S p w =
     (case next_probe w of
        (Some e, w') \<Rightarrow> (Inl e, w')
      | (None, w') \<Rightarrow> (map_sum id snd (entry_at S (w_tree w') False p), w'))"

definition stat :: "session \<Rightarrow> path \<Rightarrow> world \<Rightarrow> (gerror, entry) result \<times> world" where
  "stat S p w =
     (case next_probe w of
        (Some e, w') \<Rightarrow> (Inl e, w')
      | (None, w') \<Rightarrow> (map_sum id snd (entry_at S (w_tree w') True p), w'))"

definition read_link :: "session \<Rightarrow> path \<Rightarrow> world \<Rightarrow> (gerror, string) result \<times> world" where
  "read_link S p w =
     (case next_probe w of
        (Some e, w') \<Rightarrow> (Inl e, w')
      | (None, w') \<Rightarrow>
          (case entry_at S (w_tree w') False p of
             Inl e \<Rightarrow> (Inl e, w')
           | Inr (q, Symlink s) \<Rightarrow> (Inr s, w')
           | Inr _ \<Rightarrow> (Inl (ENew ''invalid argument''), w')))"

definition read_file :: "session \<Rightarrow> path \<Rightarrow> world \<Rightarrow> (gerror, string) result \<times> world" where
  "read_file S p w =
     (case next_fault w of
        (Some (e, k), w') \<Rightarrow> (Inl e, w')
      | (None, w') \<Rightarrow>
          (case entry_at S (w_tree w') True p of
             Inl e \<Rightarrow> (Inl e, w')
           | Inr (q, Plain s m o') \<Rightarrow> (Inr s, w')
           | Inr (q, Folder m o') \<Rightarrow> (Inl (ENew ''is a directory''), w')
           | Inr _ \<Rightarrow> (Inl (ENew ''no such device or address''), w')))"

text \<open>An open handle stands for the entry it was opened at.\<close>

definition open_read :: "session \<Rightarrow> path \<Rightarrow> world \<Rightarrow> (gerror, path \<times> entry) result \<times> world" where
  "open_read S p w =
     (case next_fault w of
        (Some (e, k), w') \<Rightarrow> (Inl e, w')
      | (None, w') \<Rightarrow> (entry_at S (w_tree w') True p, w'))"

section \<open>Writing calls\<close>

definition remove_entry :: "session \<Rightarrow> path \<Rightarrow> world \<Rightarrow> gerror option \<times> world" where
  "remove_entry S p w =
     (case next_fault w of
        (Some (e, k), w') \<Rightarrow> (Some e, w')
      | (None, w') \<Rightarrow>
          (case entry_at S (w_tree w') False p of
             Inl e \<Rightarrow> (Some e, w')
           | Inr (q, x) \<Rightarrow>
               if q = [] then (Some (ENew ''invalid argument''), w')
               else if is_folder x \<and> has_children (w_tree w') q then (Some ErrNotEmpty, w')
               else (None, w'\<lparr>w_tree := drop_entry q (w_tree w')\<rparr>)))"

text \<open>What \<open>rename\<close> refuses: the root, a folder moved below itself, a folder over a file or a file
  over a folder, and a folder that is not empty as the destination.\<close>

definition rename_refusal :: "tree \<Rightarrow> path \<Rightarrow> entry \<Rightarrow> path \<Rightarrow> gerror option" where
  "rename_refusal t p x q =
     (if p = [] \<or> q = [] then Some (ENew ''device or resource busy'')
      else if strict_prefix p q then Some (ENew ''invalid argument'')
      else (case look t q of
              None \<Rightarrow> None
            | Some y \<Rightarrow>
                if is_folder x \<and> \<not> is_folder y then Some (ENew ''not a directory'')
                else if \<not> is_folder x \<and> is_folder y then Some (ENew ''is a directory'')
                else if is_folder y \<and> has_children t q then Some ErrNotEmpty
                else None))"

definition rename :: "session \<Rightarrow> path \<Rightarrow> path \<Rightarrow> world \<Rightarrow> gerror option \<times> world" where
  "rename S p q w =
     (case next_fault w of
        (Some (e, k), w') \<Rightarrow> (Some e, w')
      | (None, w') \<Rightarrow>
          (case entry_at S (w_tree w') False p of
             Inl e \<Rightarrow> (Some e, w')
           | Inr (p', x) \<Rightarrow>
               (case resolve_at (se_max_links S) (w_tree w') False [] q of
                  Inl e \<Rightarrow> (Some e, w')
                | Inr q' \<Rightarrow>
                    if p' = q' then (None, w')
                    else (case rename_refusal (w_tree w') p' x q' of
                            Some e \<Rightarrow> (Some e, w')
                          | None \<Rightarrow> (None, w'\<lparr>w_tree := move_tree p' q' (w_tree w')\<rparr>)))))"

text \<open>The directories of a path that are missing are made from the root down, until the failure to
  come when there is one. A link on the way is followed; at the end of the path it must lead to a
  folder.\<close>

function (sequential) make_dirs ::
  "session \<Rightarrow> file_mode \<Rightarrow> nat \<Rightarrow> fault option \<Rightarrow> tree \<Rightarrow> path \<Rightarrow> path \<Rightarrow> gerror option \<times> tree"
where
  "make_dirs S perm n f t cwd [] = (None, t)"
| "make_dirs S perm n f t cwd (c # cs) =
     (if c = ''..'' then
        (if cwd = [] then (Some escapes, t) else make_dirs S perm n f t (butlast cwd) cs)
      else
        (case look t (cwd @ [c]) of
           None \<Rightarrow>
             (case f of
                Some (e, 0) \<Rightarrow> (Some e, t)
              | _ \<Rightarrow> make_dirs S perm n (map_option (map_prod id (\<lambda>k. k - 1)) f)
                       (set_entry (cwd @ [c]) (Folder (perm AND NOT (se_umask S)) (se_owner S)) t)
                       (cwd @ [c]) cs)
         | Some (Folder m w) \<Rightarrow> make_dirs S perm n f t (cwd @ [c]) cs
         | Some (Symlink s) \<Rightarrow>
             if cs = [] then
               (case resolve_at n t True cwd [c] of
                  Inr q \<Rightarrow> (case look t q of Some (Folder m w) \<Rightarrow> (None, t) | _ \<Rightarrow> (Some (ENew ''file exists''), t))
                | Inl e \<Rightarrow> (Some (ENew ''file exists''), t))
             else if is_abs s then (Some escapes, t)
             else (case n of
                     0 \<Rightarrow> (Some (ENew ''too many levels of symbolic links''), t)
                   | Suc k \<Rightarrow> make_dirs S perm k f t cwd (elements s @ cs))
         | Some _ \<Rightarrow> (Some (ENew (if cs = [] then ''file exists'' else ''not a directory'')), t)))"
  by pat_completeness auto

termination
  by (relation "inv_image (less_than <*lex*> less_than) (\<lambda>(S, perm, n, f, t, cwd, cs). (n, length cs))") auto

definition mkdir_all :: "session \<Rightarrow> path \<Rightarrow> file_mode \<Rightarrow> world \<Rightarrow> gerror option \<times> world" where
  "mkdir_all S p perm w =
     (case next_fault w of (f, w') \<Rightarrow>
        (case make_dirs S perm (se_max_links S) f (w_tree w') [] p of
           (err, t) \<Rightarrow> (err, w'\<lparr>w_tree := t\<rparr>)))"

definition symlink_at :: "session \<Rightarrow> string \<Rightarrow> path \<Rightarrow> world \<Rightarrow> gerror option \<times> world" where
  "symlink_at S target p w =
     (case next_fault w of
        (Some (e, k), w') \<Rightarrow> (Some e, w')
      | (None, w') \<Rightarrow>
          (case resolve_at (se_max_links S) (w_tree w') False [] p of
             Inl e \<Rightarrow> (Some e, w')
           | Inr q \<Rightarrow>
               (case look (w_tree w') q of
                  Some _ \<Rightarrow> (Some (ENew ''file exists''), w')
                | None \<Rightarrow> (None, w'\<lparr>w_tree := set_entry q (Symlink target) (w_tree w')\<rparr>))))"

text \<open>\<open>OpenFile\<close> with \<open>O_WRONLY|O_CREATE|O_TRUNC\<close>: the handle is the path of the file opened.\<close>

definition open_create :: "session \<Rightarrow> path \<Rightarrow> file_mode \<Rightarrow> world \<Rightarrow> (gerror, path) result \<times> world" where
  "open_create S p perm w =
     (case next_fault w of
        (Some (e, k), w') \<Rightarrow> (Inl e, w')
      | (None, w') \<Rightarrow>
          (case resolve_at (se_max_links S) (w_tree w') True [] p of
             Inl e \<Rightarrow> (Inl e, w')
           | Inr q \<Rightarrow>
               (case look (w_tree w') q of
                  None \<Rightarrow>
                    (Inr q, w'\<lparr>w_tree := set_entry q (Plain [] (perm AND NOT (se_umask S)) (se_owner S)) (w_tree w')\<rparr>)
                | Some (Plain s m o') \<Rightarrow> (Inr q, w'\<lparr>w_tree := set_entry q (Plain [] m o') (w_tree w')\<rparr>)
                | Some (Folder m o') \<Rightarrow> (Inl (ENew ''is a directory''), w')
                | Some _ \<Rightarrow> (Inl (ENew ''no such device or address''), w'))))"

text \<open>\<open>io.Copy\<close> into a handle, and \<open>Sync\<close>.\<close>

definition append_to :: "path \<Rightarrow> string \<Rightarrow> tree \<Rightarrow> tree" where
  "append_to q s t = (case look t q of Some (Plain c m o') \<Rightarrow> set_entry q (Plain (c @ s) m o') t | _ \<Rightarrow> t)"

definition copy_into :: "path \<Rightarrow> string \<Rightarrow> world \<Rightarrow> gerror option \<times> world" where
  "copy_into q s w =
     (case next_fault w of
        (Some (e, k), w') \<Rightarrow> (Some e, w'\<lparr>w_tree := append_to q (take k s) (w_tree w')\<rparr>)
      | (None, w') \<Rightarrow> (None, w'\<lparr>w_tree := append_to q s (w_tree w')\<rparr>))"

definition sync_handle :: "world \<Rightarrow> gerror option \<times> world" where
  "sync_handle w = (case next_fault w of (f, w') \<Rightarrow> (map_option fst f, w'))"

text \<open>\<open>Chown\<close> follows links; a negative id leaves that side unchanged.\<close>

definition merge_owner :: "int \<Rightarrow> int \<Rightarrow> ownership \<Rightarrow> ownership" where
  "merge_owner uid gid w = (if uid = -1 then fst w else uid, if gid = -1 then snd w else gid)"

fun set_owner :: "int \<Rightarrow> int \<Rightarrow> entry \<Rightarrow> entry" where
  "set_owner uid gid (Plain s m w) = Plain s m (merge_owner uid gid w)"
| "set_owner uid gid (Folder m w) = Folder m (merge_owner uid gid w)"
| "set_owner uid gid x = x"

definition chown :: "session \<Rightarrow> path \<Rightarrow> int \<Rightarrow> int \<Rightarrow> world \<Rightarrow> gerror option \<times> world" where
  "chown S p uid gid w =
     (case next_fault w of
        (Some (e, k), w') \<Rightarrow> (Some e, w')
      | (None, w') \<Rightarrow>
          (case entry_at S (w_tree w') True p of
             Inl e \<Rightarrow> (Some e, w')
           | Inr (q, x) \<Rightarrow> (None, w'\<lparr>w_tree := set_entry q (set_owner uid gid x) (w_tree w')\<rparr>)))"

end
