(* ===== verification/Recovery_Site.thy ===== *)
theory Recovery_Site
  imports File_System
begin

text \<open>
  The recovery site (\<open>pkg/op/recovery_site.go\<close>): what a mutation displaces is renamed into
  \<open>.devlore/recovery\<close> below the session root under a fresh key, and renamed back when the mutation is
  compensated.
\<close>

definition recovery_dir :: path where
  "recovery_dir = [''.devlore'', ''recovery'']"

definition recovery_path :: "string \<Rightarrow> path" where
  "recovery_path i = recovery_dir @ [i]"

definition mint :: "session \<Rightarrow> world \<Rightarrow> string \<times> world" where
  "mint S w = (se_uuid S (w_minted w), w\<lparr>w_minted := Suc (w_minted w)\<rparr>)"

definition ready_site :: "session \<Rightarrow> world \<Rightarrow> gerror option \<times> world" where
  "ready_site S w =
     (case mkdir_all S recovery_dir (perms 7 0 0) w of
        (Some e, w1) \<Rightarrow> (Some (wrapf ''create recovery directory: '' e), w1)
      | (None, w1) \<Rightarrow> (None, w1))"

definition archive_data :: "session \<Rightarrow> string \<Rightarrow> world \<Rightarrow> (gerror, string) result \<times> world" where
  "archive_data S data w =
     (case ready_site S w of
        (Some e, w1) \<Rightarrow> (Inl e, w1)
      | (None, w1) \<Rightarrow>
          (case mint S w1 of (i, w2) \<Rightarrow>
             (case open_create S (recovery_path i) (perms 6 0 0) w2 of
                (Inl e, w3) \<Rightarrow> (Inl e, w3)
              | (Inr q, w3) \<Rightarrow>
                  (case copy_into q data w3 of
                     (Some e, w4) \<Rightarrow> (Inl e, w4)
                   | (None, w4) \<Rightarrow> (Inr i, w4)))))"

definition archive_file :: "session \<Rightarrow> path \<Rightarrow> world \<Rightarrow> (gerror, string) result \<times> world" where
  "archive_file S p w =
     (case ready_site S w of
        (Some e, w1) \<Rightarrow> (Inl e, w1)
      | (None, w1) \<Rightarrow>
          (case mint S w1 of (i, w2) \<Rightarrow>
             (case rename S p (recovery_path i) w2 of
                (Some e, w3) \<Rightarrow> (Inl e, w3)
              | (None, w3) \<Rightarrow> (Inr i, w3))))"

definition archive_stream :: "session \<Rightarrow> string \<Rightarrow> world \<Rightarrow> (gerror, string) result \<times> world" where
  "archive_stream S data w =
     (case ready_site S w of
        (Some e, w1) \<Rightarrow> (Inl e, w1)
      | (None, w1) \<Rightarrow>
          (case mint S w1 of (i, w2) \<Rightarrow>
             (case open_create S (recovery_path i) (perms 6 0 0) w2 of
                (Inl e, w3) \<Rightarrow> (Inl (wrapf ''create recovery file: '' e), w3)
              | (Inr q, w3) \<Rightarrow>
                  (case copy_into q data w3 of
                     (Some e, w4) \<Rightarrow> (Inl (wrapf ''stream to recovery: '' e), w4)
                   | (None, w4) \<Rightarrow> (Inr i, w4)))))"

definition restore_data :: "session \<Rightarrow> string \<Rightarrow> world \<Rightarrow> (gerror, string) result \<times> world" where
  "restore_data S i w =
     (case read_file S (recovery_path i) w of
        (Inl e, w1) \<Rightarrow> (Inl (wrapf ''read recovery data: '' e), w1)
      | (Inr s, w1) \<Rightarrow> (Inr s, w1))"

text \<open>The parent of the path, as \<open>recovery_parent_dir\<close> cuts it from the text, is made again when it was
  pruned. A failure of the first call other than a missing archive does not stop the restore.\<close>

definition restore_file :: "session \<Rightarrow> path \<Rightarrow> string \<Rightarrow> world \<Rightarrow> gerror option \<times> world" where
  "restore_file S p i w =
     (if i = [] then (Some (ENew ''invalid recovery state: missing path metadata''), w)
      else
        (case lstat S (recovery_path i) w of (found, w1) \<Rightarrow>
           if (case found of Inl e \<Rightarrow> err_is ErrNotExist e | Inr x \<Rightarrow> False) then
             (Some (EWrap [Inr ErrRecoverySourceNotFound, Inl ('': '' @ i)]), w1)
           else
             (case mkdir_all S (butlast p) (perms 7 5 5) w1 of
                (Some e, w2) \<Rightarrow> (Some (wrapf ''recreate parent directory: '' e), w2)
              | (None, w2) \<Rightarrow>
                  (case rename S (recovery_path i) p w2 of
                     (Some e, w3) \<Rightarrow> (Some (wrapf ''restore from recovery: '' e), w3)
                   | (None, w3) \<Rightarrow> (None, w3)))))"

end
