(* ===== verification/File_Claims.thy ===== *)
theory File_Claims
  imports Recovery_Site
begin

text \<open>
  File resources (\<open>pkg/op/provider/file\<close>: \<open>resource_kind.go\<close>, \<open>any_kind.go\<close>, \<open>regular.go\<close>,
  \<open>directory.go\<close>, \<open>symbolic_link.go\<close>, \<open>helpers.go\<close>): the kinds of the taxonomy, the candidates built
  for a path, and their claims in the run's catalog, where a production records a generation and a
  discovery does not. An entry's object has the type id of its kind; its path is in its URI.
\<close>

section \<open>Kinds\<close>

datatype file_kind = AnyKind | RegularKind | DirectoryKind | SymbolicLinkKind

fun file_kind_string :: "file_kind \<Rightarrow> string" where
  "file_kind_string AnyKind = ''any''"
| "file_kind_string RegularKind = ''regular''"
| "file_kind_string DirectoryKind = ''directory''"
| "file_kind_string SymbolicLinkKind = ''symbolic_link''"

definition parse_file_kind :: "string \<Rightarrow> (gerror, file_kind) result" where
  "parse_file_kind s =
     (if s = ''any'' then Inr AnyKind
      else if s = ''regular'' then Inr RegularKind
      else if s = ''directory'' then Inr DirectoryKind
      else if s = ''symbolic_link'' then Inr SymbolicLinkKind
      else Inl (ENew (''file.ResourceKind: unknown kind '' @ quote s
             @ '' (want any, regular, directory, or symbolic_link)'')))"

fun admits :: "file_kind \<Rightarrow> entry \<Rightarrow> bool" where
  "admits AnyKind x = (is_symlink x \<or> is_folder x \<or> is_plain x)"
| "admits RegularKind x = is_plain x"
| "admits DirectoryKind x = is_folder x"
| "admits SymbolicLinkKind x = is_symlink x"

definition file_package :: string where
  "file_package = ''github.com/NobleFactor/devlore-cli/pkg/op/provider/file.''"

fun kind_name :: "file_kind \<Rightarrow> string" where
  "kind_name AnyKind = ''file.AnyKind''"
| "kind_name RegularKind = ''file.Regular''"
| "kind_name DirectoryKind = ''file.Directory''"
| "kind_name SymbolicLinkKind = ''file.SymbolicLink''"

definition kind_type_id :: "file_kind \<Rightarrow> string" where
  "kind_type_id k = file_package @ drop 5 (kind_name k)"

text \<open>The kind an object has: the Go type of its concrete value, which its type id names.\<close>

definition object_kind :: "res_object \<Rightarrow> file_kind option" where
  "object_kind ob =
     find (\<lambda>k. kind_type_id k = rb_type_id (ro_base ob)) [AnyKind, RegularKind, DirectoryKind, SymbolicLinkKind]"

definition object_kind_name :: "res_object \<Rightarrow> string" where
  "object_kind_name ob =
     (case object_kind ob of Some k \<Rightarrow> kind_name k | None \<Rightarrow> rb_type_id (ro_base ob))"

section \<open>Candidates\<close>

definition build_candidate :: "file_kind \<Rightarrow> path \<Rightarrow> (gerror, res_object) result" where
  "build_candidate k p =
     (case new_resource_base (''file:'' @ show_path False p) (kind_type_id k) of
        Inl e \<Rightarrow> Inl e
      | Inr b \<Rightarrow> Inr \<lparr>ro_base = b, ro_addressing = AddressingLocation\<rparr>)"

definition object_path :: "res_object \<Rightarrow> path" where
  "object_path ob = elements (trim_prefix (rb_specific (ro_base ob)) ''file:'')"

text \<open>The kind an observed entry is of; a special file is of none.\<close>

definition observed_kind :: "path \<Rightarrow> entry \<Rightarrow> (gerror, file_kind) result" where
  "observed_kind p x =
     (if is_symlink x then Inr SymbolicLinkKind
      else if is_folder x then Inr DirectoryKind
      else if is_plain x then Inr RegularKind
      else Inl (ENew (''file: '' @ show_path False p @ '': unsupported entry kind (no taxonomy variant)'')))"

definition candidate_of_mode :: "path \<Rightarrow> entry \<Rightarrow> (gerror, res_object) result" where
  "candidate_of_mode p x = (case observed_kind p x of Inl e \<Rightarrow> Inl e | Inr k \<Rightarrow> build_candidate k p)"

section \<open>Claims in the catalog\<close>

definition put_ledger :: "ledger \<Rightarrow> world \<Rightarrow> world" where
  "put_ledger l w = w\<lparr>w_heap := fst l, w_catalog := Some (snd l)\<rparr>"

text \<open>\<open>internEntry\<close>: the candidate is constructed first; an entry of another kind is refused, except
  that a claim of any kind gives way to the stricter candidate.\<close>

definition settle_claim :: "file_kind \<Rightarrow> string \<Rightarrow> res \<Rightarrow> res \<Rightarrow> ledger \<Rightarrow> (gerror, res) result \<times> ledger" where
  "settle_claim k uri r got l =
     (let seen = object_kind (fst l ! got) in
      if seen = Some k then (Inr got, l)
      else if seen = Some AnyKind then (case supersede_entry got r l of (r', l') \<Rightarrow> (Inr r', l'))
      else (Inl (ENew (''file: catalog entry for '' @ quote uri @ '' is ''
              @ object_kind_name (fst l ! got) @ '', want '' @ kind_name k)), l))"

definition intern_entry :: "bool \<Rightarrow> string \<Rightarrow> file_kind \<Rightarrow> path \<Rightarrow> world \<Rightarrow> (gerror, res) result \<times> world" where
  "intern_entry claim producer k p w =
     (case build_candidate k p of
        Inl e \<Rightarrow> (Inl e, w)
      | Inr ob \<Rightarrow>
          (let r = length (w_heap w); h = w_heap w @ [ob]; uri = rb_uri (ro_base ob) in
           case w_catalog w of
             None \<Rightarrow> (Inr r, w\<lparr>w_heap := h\<rparr>)
           | Some c \<Rightarrow>
               (case (if claim then get_or_create producer uri (\<lambda>h'. (Inr r, h')) (h, c)
                      else discover uri (\<lambda>h'. (Inr r, h')) (h, c)) of
                  (Returns got, l) \<Rightarrow> (case settle_claim k uri r got l of (x, l') \<Rightarrow> (x, put_ledger l' w))
                | (Fails e, l) \<Rightarrow> (Inl e, put_ledger l w)
                | (Asserts s, l) \<Rightarrow> (Inl (ENew s), put_ledger l w))))"

text \<open>\<open>NewRegular\<close>, \<open>NewDirectory\<close>, \<open>NewSymbolicLink\<close> claim a production; their \<open>Discover\<close> twins do not.\<close>

definition new_entry :: "string \<Rightarrow> file_kind \<Rightarrow> path \<Rightarrow> world \<Rightarrow> (gerror, res) result \<times> world" where
  "new_entry producer k p w = intern_entry True producer k p w"

definition discover_entry :: "file_kind \<Rightarrow> path \<Rightarrow> world \<Rightarrow> (gerror, res) result \<times> world" where
  "discover_entry k p w = intern_entry False [] k p w"

definition discover_of_mode :: "path \<Rightarrow> entry \<Rightarrow> world \<Rightarrow> (gerror, res) result \<times> world" where
  "discover_of_mode p x w =
     (case observed_kind p x of Inl e \<Rightarrow> (Inl e, w) | Inr k \<Rightarrow> discover_entry k p w)"

definition discover_at :: "session \<Rightarrow> path \<Rightarrow> world \<Rightarrow> (gerror, res \<times> entry) result \<times> world" where
  "discover_at S p w =
     (case lstat S p w of
        (Inl e, w1) \<Rightarrow> (Inl e, w1)
      | (Inr x, w1) \<Rightarrow>
          (case discover_of_mode p x w1 of
             (Inl e, w2) \<Rightarrow> (Inl e, w2)
           | (Inr r, w2) \<Rightarrow> (Inr (r, x), w2)))"

definition produce_entry_at :: "string \<Rightarrow> path \<Rightarrow> entry \<Rightarrow> world \<Rightarrow> (gerror, res) result \<times> world" where
  "produce_entry_at producer p x w =
     (case observed_kind p x of Inl e \<Rightarrow> (Inl e, w) | Inr k \<Rightarrow> new_entry producer k p w)"

text \<open>\<open>markEntryGone\<close>: an object without a catalog id was never entered.\<close>

definition mark_entry_gone :: "string \<Rightarrow> res \<Rightarrow> world \<Rightarrow> world" where
  "mark_entry_gone caller r w =
     (case w_catalog w of
        None \<Rightarrow> w
      | Some c \<Rightarrow>
          if res_id (w_heap w) r = [] then w
          else (case destroy r caller (w_heap w, c) of Returns l \<Rightarrow> put_ledger l w | _ \<Rightarrow> w))"

section \<open>What a file resource answers\<close>

text \<open>The methods the catalog calls, on the tree as it stands: \<open>Exists\<close>, \<open>MismatchesKind\<close> and
  \<open>ResolveKind\<close> of each kind, by \<open>lstat\<close>; an etag and a directory's Merkle digest are arguments.\<close>

definition file_exists :: "session \<Rightarrow> tree \<Rightarrow> res_object \<Rightarrow> bool" where
  "file_exists S t ob =
     (case object_kind ob of
        None \<Rightarrow> False
      | Some k \<Rightarrow> (case entry_at S t False (object_path ob) of Inl e \<Rightarrow> False | Inr (q, x) \<Rightarrow> admits k x))"

definition file_mismatches :: "session \<Rightarrow> tree \<Rightarrow> res_object \<Rightarrow> bool" where
  "file_mismatches S t ob =
     (case object_kind ob of
        None \<Rightarrow> False
      | Some k \<Rightarrow> (case entry_at S t False (object_path ob) of Inl e \<Rightarrow> False | Inr (q, x) \<Rightarrow> \<not> admits k x))"

definition file_resolve_kind :: "session \<Rightarrow> tree \<Rightarrow> res_object \<Rightarrow> (gerror, res_object option) result option" where
  "file_resolve_kind S t ob =
     (if object_kind ob \<noteq> Some AnyKind then None
      else Some
        (case entry_at S t False (object_path ob) of
           Inl e \<Rightarrow> Inl (wrapf (''file.AnyKind: '' @ show_path False (object_path ob) @ '': '') e)
         | Inr (q, x) \<Rightarrow>
             (case candidate_of_mode (object_path ob) x of Inl e \<Rightarrow> Inl e | Inr ob' \<Rightarrow> Inr (Some ob'))))"

definition sha256_digest :: "session \<Rightarrow> string \<Rightarrow> digest" where
  "sha256_digest S s = \<lparr>dg_algorithm = ''sha256'', dg_bytes = se_sha256 S s\<rparr>"

text \<open>The digest of a plain file is its content's and a link's is its stored text's; the digest of any
  kind is that of the kind observed.\<close>

definition file_digest :: "session \<Rightarrow> (path \<Rightarrow> (gerror, digest) result) \<Rightarrow> tree \<Rightarrow> res_object \<Rightarrow> (gerror, digest) result" where
  "file_digest S merkle t ob =
     (case entry_at S t False (object_path ob) of
        Inl e \<Rightarrow> Inl e
      | Inr (q, x) \<Rightarrow>
          (if \<not> (case object_kind ob of None \<Rightarrow> False | Some k \<Rightarrow> admits k x) then
             Inl (ENew (''file kind mismatch: '' @ show_path False (object_path ob)))
           else (case x of
                   Plain s m o' \<Rightarrow> Inr (sha256_digest S s)
                 | Symlink s \<Rightarrow> Inr (sha256_digest S s)
                 | _ \<Rightarrow> merkle q)))"

definition file_methods ::
  "session \<Rightarrow> (res_object \<Rightarrow> (gerror, string) result) \<Rightarrow> (path \<Rightarrow> (gerror, digest) result) \<Rightarrow> tree
   \<Rightarrow> resource_methods"
where
  "file_methods S etag merkle t =
     \<lparr>etag_of = etag, digest_of = file_digest S merkle t,
      is_tree = (\<lambda>ob. object_kind ob = Some DirectoryKind),
      exists_on = file_exists S t, resolve_kind_of = file_resolve_kind S t,
      mismatches_kind = file_mismatches S t\<rparr>"

end
