(* ===== verification/File_Provider.thy ===== *)
theory File_Provider
  imports File_Claims Policies
begin

text \<open>
  The file provider's mutations (\<open>pkg/op/provider/file/provider.go\<close>, \<open>receipt.go\<close>) and their one
  compensation: each call claims its product, stages the target under the conflict policy, changes the
  disk and returns the product, a receipt and an error, any of which may be missing. Paths are those of
  the session root; \<open>Abs\<close> and \<open>Rel\<close> of a path name the same entry, so the elements of the relative
  form stand for both. Closing a handle does not fail in the model.
\<close>

section \<open>Receipts\<close>

text \<open>A kind is a text; five are named.\<close>

datatype mutation_kind =
    MutationCreateFile | MutationUpdateFile | MutationDeleteFile | MutationCreateDir | MutationDeleteDir
  | MutationOther string

text \<open>The receipt names entries by resource; what its undo uses of them is their path. The digest is
  missing when nothing could be hashed.\<close>

record file_receipt =
  fr_kind :: mutation_kind
  fr_path :: path
  fr_boundary :: "path option"
  fr_source :: "path option"
  fr_recovery :: "string option"
  fr_digest :: "digest option"

definition new_receipt :: "mutation_kind \<Rightarrow> path \<Rightarrow> file_receipt" where
  "new_receipt k p =
     \<lparr>fr_kind = k, fr_path = p, fr_boundary = None, fr_source = None, fr_recovery = None, fr_digest = None\<rparr>"

definition with_boundary :: "path \<Rightarrow> file_receipt \<Rightarrow> file_receipt" where
  "with_boundary b rc = rc\<lparr>fr_boundary := Some b\<rparr>"

definition with_recovery :: "string \<Rightarrow> digest option \<Rightarrow> file_receipt \<Rightarrow> file_receipt" where
  "with_recovery i d rc = rc\<lparr>fr_recovery := Some i, fr_digest := d\<rparr>"

definition with_source :: "path \<Rightarrow> file_receipt \<Rightarrow> file_receipt" where
  "with_source p rc = rc\<lparr>fr_source := Some p\<rparr>"

type_synonym product = "res \<times> path"
type_synonym file_outcome = "product option \<times> file_receipt option \<times> gerror option"

section \<open>The parts mutations share\<close>

definition write_conflict_policy :: "session \<Rightarrow> conflict_policy" where
  "write_conflict_policy S = (case se_conflict_flag S of Some c \<Rightarrow> c | None \<Rightarrow> ConflictReplace)"

definition stop_refusal :: "path \<Rightarrow> gerror" where
  "stop_refusal p =
     ENew (''target '' @ show_path False p
       @ '' is occupied and the conflict policy is stop (replace archives and overwrites; skip leaves it)'')"

definition checksum_file :: "session \<Rightarrow> path \<Rightarrow> world \<Rightarrow> string \<times> world" where
  "checksum_file S p w =
     (case read_file S p w of
        (Inl e, w1) \<Rightarrow> ([], w1)
      | (Inr s, w1) \<Rightarrow> (''sha256:'' @ hex_encode (se_sha256 S s), w1))"

definition pre_archive_digest :: "session \<Rightarrow> path \<Rightarrow> world \<Rightarrow> digest option \<times> world" where
  "pre_archive_digest S p w =
     (case checksum_file S p w of (s, w1) \<Rightarrow>
        (if s = [] then (None, w1)
         else (case parse_digest s of Inl e \<Rightarrow> (None, w1) | Inr d \<Rightarrow> (Some d, w1))))"

text \<open>\<open>resolveUser\<close> and \<open>resolveGroup\<close>: a decimal id, or a name to look up; empty means unchanged.\<close>

definition resolve_id :: "(string \<Rightarrow> (gerror, int) result) \<Rightarrow> string \<Rightarrow> (gerror, int) result" where
  "resolve_id lookup s =
     (if s = [] then Inr (- 1) else case atoi s of Some n \<Rightarrow> Inr n | None \<Rightarrow> lookup s)"

definition resolve_ownership :: "session \<Rightarrow> string \<Rightarrow> string \<Rightarrow> (gerror, int \<times> int) result" where
  "resolve_ownership S user grp =
     (case resolve_id (se_lookup_user S) user of
        Inl e \<Rightarrow> Inl e
      | Inr uid \<Rightarrow>
          (case resolve_id (se_lookup_group S) grp of
             Inl e \<Rightarrow> Inl e
           | Inr gid \<Rightarrow>
               if uid = - 1 \<and> gid = - 1 then
                 Inl (ENew ''invalid ownership: at least one of user or group must be present'')
               else Inr (uid, gid)))"

definition apply_ownership :: "session \<Rightarrow> path \<Rightarrow> string \<Rightarrow> string \<Rightarrow> world \<Rightarrow> gerror option \<times> world" where
  "apply_ownership S p user grp w =
     (if user = [] \<and> grp = [] then (None, w)
      else
        (let context = ''ownership '' @ quote (show_path False p) @ '': '' in
         case resolve_ownership S user grp of
           Inl e \<Rightarrow> (Some (wrapf context e), w)
         | Inr (uid, gid) \<Rightarrow>
             (case chown S p uid gid w of
                (Some e, w1) \<Rightarrow> (Some (wrapf context e), w1)
              | (None, w1) \<Rightarrow> (None, w1))))"

text \<open>\<open>findClosestExistingDir\<close>: up from the path to what exists, following links. A path is judged
  outside by the text of its relative form.\<close>

definition outside :: "path \<Rightarrow> path \<Rightarrow> bool" where
  "outside base p =
     (case rel_elements base p of None \<Rightarrow> True | Some r \<Rightarrow> has_prefix (show_path False r) ''..'')"

function climb :: "session \<Rightarrow> path \<Rightarrow> world \<Rightarrow> (gerror, path \<times> entry) result \<times> world" where
  "climb S p w =
     (case stat S p w of
        (Inr x, w1) \<Rightarrow> (Inr (p, x), w1)
      | (Inl e, w1) \<Rightarrow>
          if p = [] then (Inl (ENew (''scoped root '' @ se_root S @ '' does not exist or is not accessible'')), w1)
          else climb S (butlast p) w1)"
  by pat_completeness auto

termination
  by (relation "measure (\<lambda>(S, p, w). length p)") auto

definition find_closest_existing_dir ::
  "session \<Rightarrow> path \<Rightarrow> world \<Rightarrow> (gerror, product \<times> entry) result \<times> world"
where
  "find_closest_existing_dir S p w =
     (if outside [] p then
        (Inl (ENew (show_path False p @ '' lies outside scoped root '' @ se_root S)), w)
      else
        (case climb S p w of
           (Inl e, w1) \<Rightarrow> (Inl e, w1)
         | (Inr (q, x), w1) \<Rightarrow>
             (case discover_of_mode q x w1 of
                (Inl e, w2) \<Rightarrow> (Inl e, w2)
              | (Inr r, w2) \<Rightarrow> (Inr ((r, q), x), w2))))"

definition is_dir_and_not_empty :: "session \<Rightarrow> path \<Rightarrow> world \<Rightarrow> (gerror, bool) result \<times> world" where
  "is_dir_and_not_empty S p w =
     (case open_read S p w of
        (Inl e, w1) \<Rightarrow> (Inl e, w1)
      | (Inr (q, x), w1) \<Rightarrow>
          (case sync_handle w1 of
             (Some e, w2) \<Rightarrow> (Inl e, w2)
           | (None, w2) \<Rightarrow>
               if \<not> is_folder x then (Inr False, w2)
               else (case sync_handle w2 of
                       (Some e, w3) \<Rightarrow> (Inl e, w3)
                     | (None, w3) \<Rightarrow> (Inr (has_children (w_tree w3) q), w3))))"

text \<open>\<open>pruneEmptyParents\<close>: upwards while the directories can be removed.\<close>

function prune_up :: "session \<Rightarrow> path \<Rightarrow> path \<Rightarrow> world \<Rightarrow> world" where
  "prune_up S boundary dir w =
     (if dir = boundary then w
      else (case remove_entry S dir w of
              (Some e, w1) \<Rightarrow> w1
            | (None, w1) \<Rightarrow> if dir = [] then w1 else prune_up S boundary (butlast dir) w1))"
  by pat_completeness auto

termination
  by (relation "measure (\<lambda>(S, b, dir, w). length dir)") auto

definition prune_empty_parents :: "session \<Rightarrow> path \<Rightarrow> bool \<Rightarrow> path option \<Rightarrow> world \<Rightarrow> world" where
  "prune_empty_parents S p prune boundary w =
     (if \<not> prune then w
      else prune_up S (case boundary of None \<Rightarrow> [] | Some b \<Rightarrow> b) (butlast p) w)"

definition archive_and_prune ::
  "session \<Rightarrow> path \<Rightarrow> bool \<Rightarrow> path option \<Rightarrow> world \<Rightarrow> (gerror, string \<times> digest option) result \<times> world"
where
  "archive_and_prune S p prune boundary w =
     (case pre_archive_digest S p w of (d, w1) \<Rightarrow>
        (case archive_file S p w1 of
           (Inl e, w2) \<Rightarrow> (Inl e, w2)
         | (Inr i, w2) \<Rightarrow> (Inr (i, d), prune_empty_parents S p prune boundary w2)))"

definition resolve_product :: "session \<Rightarrow> file_kind \<Rightarrow> path \<Rightarrow> world \<Rightarrow> gerror option \<times> world" where
  "resolve_product S k p w =
     (case (if k = SymbolicLinkKind then lstat S p w else stat S p w) of
        (Inr x, w1) \<Rightarrow> (None, w1)
      | (Inl e, w1) \<Rightarrow>
          if err_is ErrNotExist e then (None, w1) else (Some (wrapf ''failed to stat: '' e), w1))"

section \<open>Writing\<close>

definition stage_write :: "session \<Rightarrow> path \<Rightarrow> world \<Rightarrow> (gerror, file_receipt) result \<times> world" where
  "stage_write S p w =
     (case lstat S p w of
        (Inl e, w1) \<Rightarrow>
          if err_is ErrNotExist e then
            (case find_closest_existing_dir S (butlast p) w1 of
               (Inl e', w2) \<Rightarrow> (Inl e', w2)
             | (Inr ((r, b), x), w2) \<Rightarrow>
                 (case mkdir_all S (butlast p) (perms 7 5 0) w2 of
                    (Some e', w3) \<Rightarrow> (Inl e', w3)
                  | (None, w3) \<Rightarrow> (Inr (with_boundary b (new_receipt MutationCreateFile p)), w3)))
          else (Inl e, w1)
      | (Inr x, w1) \<Rightarrow>
          (case write_conflict_policy S of
             ConflictStop \<Rightarrow> (Inl (stop_refusal p), w1)
           | ConflictSkip \<Rightarrow> (Inl ErrConflictSkip, w1)
           | ConflictReplace \<Rightarrow>
               (case is_dir_and_not_empty S p w1 of
                  (Inl e, w2) \<Rightarrow> (Inl e, w2)
                | (Inr True, w2) \<Rightarrow>
                    (Inl (ENew (''cannot overwrite non-empty directory '' @ show_path False p)), w2)
                | (Inr False, w2) \<Rightarrow>
                    (case archive_and_prune S p False None w2 of
                       (Inl e, w3) \<Rightarrow> (Inl (wrapf ''failed to backup existing file: '' e), w3)
                     | (Inr (i, d), w3) \<Rightarrow>
                         (Inr (with_recovery i d (new_receipt MutationUpdateFile p)), w3)))))"

text \<open>How a mutator reports a stage that did not go through: skipping is a success that did nothing.\<close>

definition unstaged :: "gerror \<Rightarrow> file_outcome" where
  "unstaged e = (if err_is ErrConflictSkip e then (None, None, None) else (None, None, Some e))"

text \<open>\<open>write\<close>: what follows the staging, in the order of the calls; the first failure ends it with the
  product and the receipt.\<close>

definition fill_file ::
  "session \<Rightarrow> path \<Rightarrow> string \<Rightarrow> file_mode \<Rightarrow> string \<Rightarrow> string \<Rightarrow> world \<Rightarrow> gerror option \<times> world"
where
  "fill_file S p src mode user grp w =
     (case open_create S p mode w of
        (Inl e, w1) \<Rightarrow> (Some e, w1)
      | (Inr q, w1) \<Rightarrow>
          (case copy_into q src w1 of
             (Some e, w2) \<Rightarrow> (Some e, w2)
           | (None, w2) \<Rightarrow>
               (case sync_handle w2 of
                  (Some e, w3) \<Rightarrow> (Some e, w3)
                | (None, w3) \<Rightarrow> apply_ownership S p user grp w3)))"

definition write_target ::
  "session \<Rightarrow> product \<Rightarrow> string \<Rightarrow> file_mode \<Rightarrow> string \<Rightarrow> string \<Rightarrow> world \<Rightarrow> file_outcome \<times> world"
where
  "write_target S target src mode user grp w =
     (case stage_write S (snd target) w of
        (Inl e, w1) \<Rightarrow> (unstaged e, w1)
      | (Inr rc, w1) \<Rightarrow>
          (case fill_file S (snd target) src mode user grp w1 of
             (err, w2) \<Rightarrow> ((Some target, Some rc, err), w2)))"

text \<open>\<open>WriteText\<close> and \<open>WriteBytes\<close>; \<open>WriteFile\<close> is the same with no ownership and a stream as source.\<close>

definition write_text ::
  "session \<Rightarrow> string \<Rightarrow> path \<Rightarrow> string \<Rightarrow> file_mode \<Rightarrow> string \<Rightarrow> string \<Rightarrow> world \<Rightarrow> file_outcome \<times> world"
where
  "write_text S caller p content mode user grp w =
     (case new_entry caller RegularKind p w of
        (Inl e, w1) \<Rightarrow> ((None, None, Some e), w1)
      | (Inr r, w1) \<Rightarrow> write_target S (r, p) content mode user grp w1)"

definition write_file :: "session \<Rightarrow> string \<Rightarrow> path \<Rightarrow> string \<Rightarrow> file_mode \<Rightarrow> world \<Rightarrow> file_outcome \<times> world" where
  "write_file S caller p src mode w =
     (case new_entry caller RegularKind p w of
        (Inl e, w1) \<Rightarrow> ((None, None, Some e), w1)
      | (Inr r, w1) \<Rightarrow> write_target S (r, p) src mode [] [] w1)"

text \<open>What \<open>Copy\<close> does after the staging: the source is opened before the target.\<close>

definition copy_content ::
  "session \<Rightarrow> path \<Rightarrow> path \<Rightarrow> file_mode \<Rightarrow> string \<Rightarrow> string \<Rightarrow> world \<Rightarrow> gerror option \<times> world"
where
  "copy_content S source p mode user grp w =
     (case open_read S source w of
        (Inl e, w1) \<Rightarrow> (Some e, w1)
      | (Inr (q, x), w1) \<Rightarrow>
          (case open_create S p mode w1 of
             (Inl e, w2) \<Rightarrow> (Some e, w2)
           | (Inr q', w2) \<Rightarrow>
               (case x of
                  Plain s m o' \<Rightarrow>
                    (case copy_into q' s w2 of
                       (Some e, w3) \<Rightarrow> (Some e, w3)
                     | (None, w3) \<Rightarrow>
                         (case apply_ownership S p user grp w3 of
                            (Some e, w4) \<Rightarrow> (Some e, w4)
                          | (None, w4) \<Rightarrow> resolve_product S RegularKind p w4))
                | _ \<Rightarrow> (Some (ENew ''is a directory''), w2))))"

definition copy ::
  "session \<Rightarrow> string \<Rightarrow> path \<Rightarrow> path \<Rightarrow> file_mode \<Rightarrow> string \<Rightarrow> string \<Rightarrow> world \<Rightarrow> file_outcome \<times> world"
where
  "copy S caller source p mode user grp w =
     (case new_entry caller RegularKind p w of
        (Inl e, w1) \<Rightarrow> ((None, None, Some e), w1)
      | (Inr r, w1) \<Rightarrow>
          (case stage_write S p w1 of
             (Inl e, w2) \<Rightarrow> (unstaged e, w2)
           | (Inr rc, w2) \<Rightarrow>
               (case copy_content S source p mode user grp w2 of
                  (err, w3) \<Rightarrow> ((Some (r, p), Some rc, err), w3))))"

section \<open>Links\<close>

text \<open>\<open>symlink\<close> stores the target relative to the link's folder; \<open>symlinkRaw\<close> stores it as given.\<close>

definition absolute :: "session \<Rightarrow> path \<Rightarrow> string" where
  "absolute S p = join_path [se_root S, show_path False p]"

definition symlink_to :: "session \<Rightarrow> string \<Rightarrow> path \<Rightarrow> world \<Rightarrow> gerror option \<times> world" where
  "symlink_to S target p w =
     (case rel_path (absolute S (butlast p)) target of
        None \<Rightarrow> (Some (ENew ''path cannot be made relative''), w)
      | Some rel \<Rightarrow> symlink_at S rel p w)"

text \<open>\<open>readLink\<close> makes the stored target absolute again.\<close>

definition read_link_abs :: "session \<Rightarrow> path \<Rightarrow> world \<Rightarrow> (gerror, string) result \<times> world" where
  "read_link_abs S p w =
     (case read_link S p w of
        (Inl e, w1) \<Rightarrow> (Inl e, w1)
      | (Inr target, w1) \<Rightarrow>
          (Inr (clean_path (if is_abs target then target else join_path [absolute S (butlast p), target])), w1))"

definition existing_link_matches :: "session \<Rightarrow> path \<Rightarrow> string \<Rightarrow> bool \<Rightarrow> world \<Rightarrow> bool \<times> world" where
  "existing_link_matches S p stored verbatim w =
     (case (if verbatim then read_link S p w else read_link_abs S p w) of
        (Inl e, w1) \<Rightarrow> (False, w1)
      | (Inr existing, w1) \<Rightarrow> (existing = stored, w1))"

definition archive_occupant :: "session \<Rightarrow> path \<Rightarrow> world \<Rightarrow> (gerror, file_receipt) result \<times> world" where
  "archive_occupant S p w =
     (case pre_archive_digest S p w of (d, w1) \<Rightarrow>
        (case archive_file S p w1 of
           (Inl e, w2) \<Rightarrow> (Inl e, w2)
         | (Inr i, w2) \<Rightarrow> (Inr (with_recovery i d (new_receipt MutationUpdateFile p)), w2)))"

text \<open>The link itself, and the product's resolution.\<close>

definition place_link ::
  "session \<Rightarrow> product \<Rightarrow> string \<Rightarrow> bool \<Rightarrow> file_receipt \<Rightarrow> world \<Rightarrow> file_outcome \<times> world"
where
  "place_link S target stored verbatim rc w =
     (case (if verbatim then symlink_at S stored (snd target) w else symlink_to S stored (snd target) w) of
        (Some e, w1) \<Rightarrow> ((None, Some rc, Some e), w1)
      | (None, w1) \<Rightarrow>
          (case resolve_product S SymbolicLinkKind (snd target) w1 of
             (Some e, w2) \<Rightarrow> ((None, Some rc, Some e), w2)
           | (None, w2) \<Rightarrow> ((Some target, Some rc, None), w2)))"

text \<open>Any failure of the first \<open>lstat\<close> is taken for a free target.\<close>

definition link_free ::
  "session \<Rightarrow> product \<Rightarrow> string \<Rightarrow> bool \<Rightarrow> world \<Rightarrow> file_outcome \<times> world"
where
  "link_free S target stored verbatim w =
     (let p = snd target in
      case find_closest_existing_dir S (butlast p) w of
        (Inl e, w1) \<Rightarrow> ((None, None, Some e), w1)
      | (Inr ((r, b), x), w1) \<Rightarrow>
          (let rc = with_boundary b (new_receipt MutationCreateFile p) in
           case mkdir_all S (butlast p) (perms 7 5 0) w1 of
             (Some e, w2) \<Rightarrow> ((None, Some rc, Some e), w2)
           | (None, w2) \<Rightarrow> place_link S target stored verbatim rc w2))"

definition link_occupied ::
  "session \<Rightarrow> product \<Rightarrow> string \<Rightarrow> bool \<Rightarrow> world \<Rightarrow> file_outcome \<times> world"
where
  "link_occupied S target stored verbatim w =
     (case write_conflict_policy S of
        ConflictStop \<Rightarrow> ((None, None, Some (stop_refusal (snd target))), w)
      | ConflictSkip \<Rightarrow> ((None, None, None), w)
      | ConflictReplace \<Rightarrow>
          (case archive_occupant S (snd target) w of
             (Inl e, w1) \<Rightarrow> ((None, None, Some e), w1)
           | (Inr rc, w1) \<Rightarrow> place_link S target stored verbatim rc w1))"

definition link_entry ::
  "session \<Rightarrow> string \<Rightarrow> string \<Rightarrow> path \<Rightarrow> bool \<Rightarrow> world \<Rightarrow> file_outcome \<times> world"
where
  "link_entry S caller source p verbatim w =
     (case make_path (se_root S) [source] of
        None \<Rightarrow> ((None, None, Some (ENew ''path cannot be made relative'')), w)
      | Some sp \<Rightarrow>
          (let stored = (if verbatim then source else sp_abs sp) in
           case new_entry caller SymbolicLinkKind p w of
             (Inl e, w1) \<Rightarrow> ((None, None, Some e), w1)
           | (Inr r, w1) \<Rightarrow>
               (case lstat S p w1 of
                  (Inl e, w2) \<Rightarrow> link_free S (r, p) stored verbatim w2
                | (Inr x, w2) \<Rightarrow>
                    if is_symlink x then
                      (case existing_link_matches S p stored verbatim w2 of
                         (True, w3) \<Rightarrow> ((Some (r, p), None, None), w3)
                       | (False, w3) \<Rightarrow> link_occupied S (r, p) stored verbatim w3)
                    else link_occupied S (r, p) stored verbatim w2)))"

section \<open>Directories\<close>

text \<open>The occupant a replacing \<open>Mkdir\<close> displaces is archived and its catalog entry is gone.\<close>

definition archive_mkdir_occupant ::
  "session \<Rightarrow> string \<Rightarrow> path \<Rightarrow> entry \<Rightarrow> world \<Rightarrow> (gerror, string \<times> digest option) result \<times> world"
where
  "archive_mkdir_occupant S caller p x w =
     (case discover_of_mode p x w of
        (Inl e, w1) \<Rightarrow> (Inl e, w1)
      | (Inr r, w1) \<Rightarrow>
          (case archive_and_prune S p False None w1 of
             (Inl e, w2) \<Rightarrow> (Inl e, w2)
           | (Inr (i, d), w2) \<Rightarrow> (Inr (i, d), mark_entry_gone caller r w2)))"

definition with_optional_recovery :: "(string \<times> digest option) option \<Rightarrow> file_receipt \<Rightarrow> file_receipt" where
  "with_optional_recovery a rc = (case a of None \<Rightarrow> rc | Some (i, d) \<Rightarrow> with_recovery i d rc)"

text \<open>\<open>foundDirectory\<close>: the directory was there; it is a discovery, verified in the catalog.\<close>

definition found_directory ::
  "session \<Rightarrow> (tree \<Rightarrow> resource_methods) \<Rightarrow> product \<Rightarrow> world \<Rightarrow> file_outcome \<times> world"
where
  "found_directory S M boundary w =
     (let r = fst boundary; ob = w_heap w ! r in
      if object_kind ob \<noteq> Some DirectoryKind then
        ((None, None, Some (ENew (''file.Mkdir: '' @ show_path False (snd boundary) @ '' exists but was discovered as ''
            @ object_kind_name ob @ '', not a directory''))), w)
      else (case w_catalog w of
              None \<Rightarrow> ((Some boundary, None, None), w)
            | Some c \<Rightarrow>
                (case verify_existence (M (w_tree w)) r (w_heap w, c) of
                   (Some e, l) \<Rightarrow> ((None, None, Some e), put_ledger l w)
                 | (None, l) \<Rightarrow> ((Some boundary, None, None), put_ledger l w))))"

definition mkdir_leaf ::
  "session \<Rightarrow> product \<Rightarrow> file_mode \<Rightarrow> string \<Rightarrow> string \<Rightarrow> file_receipt \<Rightarrow> world \<Rightarrow> file_outcome \<times> world"
where
  "mkdir_leaf S target mode user grp rc w =
     (case mkdir_all S (snd target) mode w of
        (Some e, w1) \<Rightarrow> ((None, Some rc, Some e), w1)
      | (None, w1) \<Rightarrow>
          (case apply_ownership S (snd target) user grp w1 of
             (Some e, w2) \<Rightarrow> ((None, Some rc, Some e), w2)
           | (None, w2) \<Rightarrow>
               (case resolve_product S DirectoryKind (snd target) w2 of
                  (Some e, w3) \<Rightarrow> ((None, Some rc, Some e), w3)
                | (None, w3) \<Rightarrow> ((Some target, Some rc, None), w3))))"

definition mkdir_claimed ::
  "session \<Rightarrow> (tree \<Rightarrow> resource_methods) \<Rightarrow> string \<Rightarrow> path \<Rightarrow> file_mode \<Rightarrow> string \<Rightarrow> string
   \<Rightarrow> (string \<times> digest option) option \<Rightarrow> world \<Rightarrow> file_outcome \<times> world"
where
  "mkdir_claimed S M caller p mode user grp archived w =
     (case find_closest_existing_dir S p w of
        (Inl e, w1) \<Rightarrow> ((None, None, Some e), w1)
      | (Inr ((r, b), x), w1) \<Rightarrow>
          if b = p then found_directory S M (r, b) w1
          else
            (case new_entry caller DirectoryKind p w1 of
               (Inl e, w2) \<Rightarrow> ((None, None, Some e), w2)
             | (Inr r', w2) \<Rightarrow>
                 mkdir_leaf S (r', p) mode user grp
                   (with_optional_recovery archived (with_boundary b (new_receipt MutationCreateDir p))) w2))"

definition mkdir ::
  "session \<Rightarrow> (tree \<Rightarrow> resource_methods) \<Rightarrow> string \<Rightarrow> path \<Rightarrow> file_mode \<Rightarrow> string \<Rightarrow> string \<Rightarrow> world
   \<Rightarrow> file_outcome \<times> world"
where
  "mkdir S M caller p mode user grp w =
     (case lstat S p w of (seen, w1) \<Rightarrow>
        (case seen of
           Inr x \<Rightarrow>
             if is_folder x then mkdir_claimed S M caller p mode user grp None w1
             else
               (case write_conflict_policy S of
                  ConflictStop \<Rightarrow> ((None, None, Some (stop_refusal p)), w1)
                | ConflictSkip \<Rightarrow> ((None, None, None), w1)
                | ConflictReplace \<Rightarrow>
                    (case archive_mkdir_occupant S caller p x w1 of
                       (Inl e, w2) \<Rightarrow> ((None, None, Some e), w2)
                     | (Inr a, w2) \<Rightarrow> mkdir_claimed S M caller p mode user grp (Some a) w2))
         | Inl e \<Rightarrow> mkdir_claimed S M caller p mode user grp None w1))"

section \<open>Moving and removing\<close>

text \<open>A failed rename gives the archived destination back, and the receipt is not returned.\<close>

definition move_staged ::
  "session \<Rightarrow> string \<Rightarrow> product \<Rightarrow> product \<Rightarrow> file_kind \<Rightarrow> file_receipt \<Rightarrow> world \<Rightarrow> file_outcome \<times> world"
where
  "move_staged S caller source target k rc w =
     (case rename S (snd source) (snd target) w of
        (Some e, w1) \<Rightarrow>
          ((None, None, Some e),
           (case fr_recovery rc of None \<Rightarrow> w1 | Some i \<Rightarrow> snd (restore_file S (snd target) i w1)))
      | (None, w1) \<Rightarrow>
          (case resolve_product S k (snd target) (mark_entry_gone caller (fst source) w1) of
             (err, w2) \<Rightarrow> ((Some target, Some rc, err), w2)))"

definition move :: "session \<Rightarrow> string \<Rightarrow> product \<Rightarrow> path \<Rightarrow> world \<Rightarrow> file_outcome \<times> world" where
  "move S caller source p w =
     (case lstat S (snd source) w of
        (Inl e, w1) \<Rightarrow> ((None, None, Some (wrapf (''move: source '' @ show_path False (snd source) @ '': '') e)), w1)
      | (Inr x, w1) \<Rightarrow>
          (case produce_entry_at caller p x w1 of
             (Inl e, w2) \<Rightarrow> ((None, None, Some e), w2)
           | (Inr r, w2) \<Rightarrow>
               (case candidate_of_mode (snd source) x of
                  Inl e \<Rightarrow> ((None, None, Some e), w2)
                | Inr ob \<Rightarrow>
                    (case stage_write S p w2 of
                       (Inl e, w3) \<Rightarrow> (unstaged e, w3)
                     | (Inr rc, w3) \<Rightarrow>
                         move_staged S caller source (r, p) (case object_kind ob of Some k \<Rightarrow> k | None \<Rightarrow> AnyKind)
                           (with_source (snd source) rc) w3))))"

text \<open>\<open>Backup\<close> moves the source beside itself; the suffix and the time stamp are texts.\<close>

definition backup :: "session \<Rightarrow> string \<Rightarrow> string \<Rightarrow> string \<Rightarrow> product \<Rightarrow> string \<Rightarrow> world \<Rightarrow> file_outcome \<times> world" where
  "backup S default_suffix timestamp caller source sfx w =
     (let s = (if sfx = [] then default_suffix else sfx);
          p = snd source
      in move S caller source (elements (show_path False p @ s @ ''.'' @ timestamp)) w)"

text \<open>\<open>removeEntry\<close>: only a directory can be refused for what it holds.\<close>

definition remove_found ::
  "session \<Rightarrow> string \<Rightarrow> res \<Rightarrow> path \<Rightarrow> bool \<Rightarrow> path option \<Rightarrow> world \<Rightarrow> file_outcome \<times> world"
where
  "remove_found S caller r p prune boundary w =
     (case archive_and_prune S p prune boundary w of
        (Inl e, w1) \<Rightarrow> ((None, None, Some e), w1)
      | (Inr (i, d), w1) \<Rightarrow>
          ((None, Some (with_recovery i d (new_receipt MutationDeleteFile p)), None), mark_entry_gone caller r w1))"

definition remove_any ::
  "session \<Rightarrow> string \<Rightarrow> path \<Rightarrow> bool \<Rightarrow> path option \<Rightarrow> missing_resource_policy \<Rightarrow> bool \<Rightarrow> world
   \<Rightarrow> file_outcome \<times> world"
where
  "remove_any S caller p prune boundary on_missing refuse w =
     (case discover_at S p w of
        (Inl e, w1) \<Rightarrow>
          if err_is ErrNotExist e then
            (if on_missing = MissingStop then
               ((None, None, Some (ENew (''file.remove: target '' @ show_path False p @ '' does not exist''))), w1)
             else ((None, None, None), w1))
          else ((None, None, Some e), w1)
      | (Inr (r, x), w1) \<Rightarrow>
          if is_folder x \<and> refuse then
            (case is_dir_and_not_empty S p w1 of
               (Inl e, w2) \<Rightarrow> ((None, None, Some e), w2)
             | (Inr True, w2) \<Rightarrow>
                 ((None, None, Some (ENew (''directory '' @ show_path False p
                    @ '' is not empty: file.remove takes one entry; file.remove_all takes a subtree''))), w2)
             | (Inr False, w2) \<Rightarrow> remove_found S caller r p prune boundary w2)
          else remove_found S caller r p prune boundary w1)"

definition remove_one ::
  "session \<Rightarrow> string \<Rightarrow> path \<Rightarrow> bool \<Rightarrow> path option \<Rightarrow> missing_resource_policy \<Rightarrow> world \<Rightarrow> file_outcome \<times> world"
where
  "remove_one S caller p prune boundary on_missing w = remove_any S caller p prune boundary on_missing True w"

definition remove_all ::
  "session \<Rightarrow> string \<Rightarrow> path \<Rightarrow> bool \<Rightarrow> path option \<Rightarrow> missing_resource_policy \<Rightarrow> world \<Rightarrow> file_outcome \<times> world"
where
  "remove_all S caller p prune boundary on_missing w = remove_any S caller p prune boundary on_missing False w"

section \<open>Compensation\<close>

text \<open>Upwards to the boundary, removing what is empty; a directory that is not ends the walk, and a
  missing one does not. Reports whether the boundary was reached.\<close>

function remove_toward :: "session \<Rightarrow> path \<Rightarrow> path \<Rightarrow> world \<Rightarrow> (gerror option \<times> bool) \<times> world" where
  "remove_toward S boundary p w =
     (if p = boundary then ((None, True), w)
      else
        (case remove_entry S p w of (err, w1) \<Rightarrow>
           (case err of
              Some e \<Rightarrow>
                if err_is ErrNotEmpty e then ((None, False), w1)
                else if \<not> err_is ErrNotExist e then ((Some e, False), w1)
                else if p = [] then ((None, True), w1)
                else remove_toward S boundary (butlast p) w1
            | None \<Rightarrow> if p = [] then ((None, True), w1) else remove_toward S boundary (butlast p) w1)))"
  by pat_completeness auto

termination
  by (relation "measure (\<lambda>(S, b, p, w). length p)") auto

definition outside_boundary :: "path \<Rightarrow> path \<Rightarrow> gerror" where
  "outside_boundary p b =
     ENew (''resource '' @ show_path False p @ '' is not under boundary '' @ show_path False b)"

definition prune_toward_boundary :: "session \<Rightarrow> path \<Rightarrow> path \<Rightarrow> world \<Rightarrow> gerror option \<times> world" where
  "prune_toward_boundary S p boundary w =
     (if outside boundary p then (Some (outside_boundary p boundary), w)
      else (case remove_toward S boundary p w of ((err, reached), w1) \<Rightarrow> (err, w1)))"

text \<open>A missing archive is tolerated.\<close>

definition restore_if_archived :: "session \<Rightarrow> path \<Rightarrow> string option \<Rightarrow> world \<Rightarrow> gerror option \<times> world" where
  "restore_if_archived S p recovery w =
     (case recovery of
        None \<Rightarrow> (None, w)
      | Some i \<Rightarrow>
          (case restore_file S p i w of
             (None, w1) \<Rightarrow> (None, w1)
           | (Some e, w1) \<Rightarrow> (if err_is ErrRecoverySourceNotFound e then None else Some e, w1)))"

definition compensate_write :: "session \<Rightarrow> file_receipt \<Rightarrow> world \<Rightarrow> gerror option \<times> world" where
  "compensate_write S rc w =
     (case remove_entry S (fr_path rc) w of (err, w1) \<Rightarrow>
        (case (case err of Some e \<Rightarrow> if err_is ErrNotExist e then None else Some e | None \<Rightarrow> None) of
           Some e \<Rightarrow> (Some e, w1)
         | None \<Rightarrow>
             (case restore_if_archived S (fr_path rc) (fr_recovery rc) w1 of
                (Some e, w2) \<Rightarrow> (Some e, w2)
              | (None, w2) \<Rightarrow>
                  (case fr_boundary rc of
                     None \<Rightarrow> (None, w2)
                   | Some b \<Rightarrow> prune_toward_boundary S (butlast (fr_path rc)) b w2))))"

definition compensate_make_dir :: "session \<Rightarrow> file_receipt \<Rightarrow> world \<Rightarrow> gerror option \<times> world" where
  "compensate_make_dir S rc w =
     (case fr_boundary rc of
        None \<Rightarrow> (None, w)
      | Some b \<Rightarrow>
          if outside b (fr_path rc) then (Some (outside_boundary (fr_path rc) b), w)
          else (case remove_toward S b (fr_path rc) w of
                  ((Some e, reached), w1) \<Rightarrow> (Some e, w1)
                | ((None, False), w1) \<Rightarrow> (None, w1)
                | ((None, True), w1) \<Rightarrow> restore_if_archived S (fr_path rc) (fr_recovery rc) w1))"

text \<open>The archive is compared with the digest of the receipt before it is restored.\<close>

definition verify_archive :: "session \<Rightarrow> string \<Rightarrow> digest option \<Rightarrow> world \<Rightarrow> gerror option \<times> world" where
  "verify_archive S i expected w =
     (case expected of
        None \<Rightarrow> (None, w)
      | Some d \<Rightarrow>
          (case checksum_file S (recovery_path i) w of (actual, w1) \<Rightarrow>
             (if actual = [] then (Some (ENew (''cannot read '' @ i @ '' for verification'')), w1)
              else (case parse_digest actual of
                      Inl e \<Rightarrow> (Some (wrapf ''compensate move: parse recovery checksum: '' e), w1)
                    | Inr d' \<Rightarrow>
                        if digest_equal d' d then (None, w1)
                        else (Some (ENew (i @ '' has been modified (digest mismatch)'')), w1)))))"

definition compensate_move :: "session \<Rightarrow> file_receipt \<Rightarrow> world \<Rightarrow> gerror option \<times> world" where
  "compensate_move S rc w =
     (case fr_source rc of
        None \<Rightarrow> (Some (ENew ''compensate move: receipt missing source resource''), w)
      | Some source \<Rightarrow>
          (case rename S (fr_path rc) source w of
             (Some e, w1) \<Rightarrow> (Some (wrapf ''compensate move: move back failed: '' e), w1)
           | (None, w1) \<Rightarrow>
               (case fr_recovery rc of
                  None \<Rightarrow> (None, w1)
                | Some i \<Rightarrow>
                    (case verify_archive S i (fr_digest rc) w1 of
                       (Some e, w2) \<Rightarrow> (Some e, w2)
                     | (None, w2) \<Rightarrow>
                         (case restore_file S (fr_path rc) i w2 of
                            (Some e, w3) \<Rightarrow> (Some (wrapf ''compensate move: restore old destination failed: '' e), w3)
                          | (None, w3) \<Rightarrow> (None, w3))))))"

definition compensate_remove_dir :: "session \<Rightarrow> file_receipt \<Rightarrow> world \<Rightarrow> gerror option \<times> world" where
  "compensate_remove_dir S rc w = mkdir_all S (fr_path rc) (perms 7 5 0) w"

definition compensate_file_mutation :: "session \<Rightarrow> file_receipt \<Rightarrow> world \<Rightarrow> gerror option \<times> world" where
  "compensate_file_mutation S rc w =
     (case fr_kind rc of
        MutationCreateDir \<Rightarrow> compensate_make_dir S rc w
      | MutationDeleteDir \<Rightarrow> compensate_remove_dir S rc w
      | MutationOther s \<Rightarrow> (Some (ENew (''compensate file mutation: unknown kind '' @ quote s)), w)
      | _ \<Rightarrow> if fr_source rc \<noteq> None then compensate_move S rc w else compensate_write S rc w)"

end
