(* ===== verification/File_Trees.thy ===== *)
theory File_Trees
  imports File_Provider
begin

text \<open>
  What the file calls do to a tree, entry by entry: the invariant of a file system, the paths reached
  without a link, and the effect of each change on every path.
\<close>

section \<open>Trees\<close>

text \<open>The root is a folder and every other entry lies in a folder.\<close>

definition sane :: "tree \<Rightarrow> bool" where
  "sane t \<longleftrightarrow> (\<exists>m w. look t [] = Some (Folder m w))
     \<and> (\<forall>p n x. look t (p @ [n]) = Some x \<longrightarrow> (\<exists>m w. look t p = Some (Folder m w)))"

definition folder_or_free :: "tree \<Rightarrow> path \<Rightarrow> bool" where
  "folder_or_free t p \<longleftrightarrow> (case look t p of None \<Rightarrow> True | Some x \<Rightarrow> is_folder x)"

definition clear :: "tree \<Rightarrow> path \<Rightarrow> bool" where
  "clear t p \<longleftrightarrow> ''..'' \<notin> set p \<and> (\<forall>q. strict_prefix q p \<longrightarrow> folder_or_free t q)"

lemma is_folder_iff: "is_folder x \<longleftrightarrow> (\<exists>m w. x = Folder m w)"
  by (cases x) auto

lemma look_set [simp]: "look (set_entry p x t) = (look t)(p \<mapsto> x)"
  by (auto simp: look_def set_entry_def)

lemma look_drop [simp]: "look (drop_entry p t) = (look t)(p := None)"
proof
  fix k
  show "look (drop_entry p t) k = ((look t)(p := None)) k"
    by (induction t) (auto simp: look_def drop_entry_def)
qed

lemma look_listed: "(k, x) \<in> set t \<Longrightarrow> look t k \<noteq> None"
  unfolding look_def map_of_eq_None_iff by (metis fst_conv image_eqI)

lemma has_children_iff: "has_children t p \<longleftrightarrow> (\<exists>n. look t (p @ [n]) \<noteq> None)"
proof
  assume "has_children t p"
  then obtain k x where "(k, x) \<in> set t" "k \<noteq> []" "butlast k = p"
    by (auto simp: has_children_def list_ex_iff)
  then have "look t (p @ [last k]) \<noteq> None" using look_listed [of k x t] by (metis append_butlast_last_id)
  then show "\<exists>n. look t (p @ [n]) \<noteq> None" ..
next
  assume "\<exists>n. look t (p @ [n]) \<noteq> None"
  then obtain n x where "(p @ [n], x) \<in> set t" by (auto simp: look_def dest: map_of_SomeD)
  then show "has_children t p" by (force simp: has_children_def list_ex_iff)
qed

lemma look_move:
  assumes q: "\<And>k. strict_prefix q k \<Longrightarrow> look t k = None" and apart: "\<not> prefix p q" "\<not> prefix q p"
  shows "look (move_tree p q t) k =
    (if prefix q k then look t (p @ drop (length q) k) else if prefix p k then None else look t k)"
proof -
  let ?ys = "drop_entry q t"
  have free: "\<not> prefix q j" if "(j, x) \<in> set ?ys" for j x
  proof
    assume "prefix q j"
    moreover have "look ?ys j \<noteq> None" using that by (rule look_listed)
    ultimately show False using q [of j] by (auto simp: strict_prefix_def split: if_splits)
  qed
  have keyed: "map_of (map (\<lambda>(k, x). (relocate p q k, x)) ys) k =
      (if prefix q k then map_of ys (p @ drop (length q) k) else if prefix p k then None else map_of ys k)"
    if "\<forall>(j, x) \<in> set ys. \<not> prefix q j" for ys
    using that
  proof (induction ys)
    case Nil
    then show ?case by simp
  next
    case (Cons y ys)
    obtain j x where y: "y = (j, x)" by (cases y)
    with Cons.prems have j: "\<not> prefix q j" by simp
    have hit: "relocate p q j = k \<longleftrightarrow>
        (if prefix q k then j = p @ drop (length q) k else \<not> prefix p k \<and> j = k)"
    proof (cases "prefix q k")
      case True
      then obtain z where z: "k = q @ z" by (auto simp: prefix_def)
      with j show ?thesis by (auto simp: relocate_def prefix_def)
    next
      case False
      with j show ?thesis by (auto simp: relocate_def)
    qed
    have step: "map_of (map (\<lambda>(k, x). (relocate p q k, x)) (y # ys)) k =
        (if relocate p q j = k then Some x else map_of (map (\<lambda>(k, x). (relocate p q k, x)) ys) k)"
      by (simp add: y)
    have IH: "map_of (map (\<lambda>(k, x). (relocate p q k, x)) ys) k =
        (if prefix q k then map_of ys (p @ drop (length q) k) else if prefix p k then None else map_of ys k)"
      using Cons.IH Cons.prems by simp
    show ?case
    proof (cases "prefix q k")
      case True
      with hit show ?thesis unfolding step IH by (auto simp: y)
    next
      case False
      with hit show ?thesis unfolding step IH by (auto simp: y)
    qed
  qed
  have "\<forall>(j, x) \<in> set ?ys. \<not> prefix q j" using free by auto
  from keyed [OF this] have "look (move_tree p q t) k =
      (if prefix q k then look ?ys (p @ drop (length q) k) else if prefix p k then None else look ?ys k)"
    by (simp only: move_tree_def look_def)
  moreover have "p @ drop (length q) k \<noteq> q" using apart(1) by (metis prefixI)
  ultimately show ?thesis using apart by auto
qed

section \<open>Paths without links\<close>

lemma sane_root: "sane t \<Longrightarrow> \<exists>m w. look t [] = Some (Folder m w)"
  by (simp add: sane_def)

lemma sane_parent: "sane t \<Longrightarrow> look t (p @ [n]) = Some x \<Longrightarrow> \<exists>m w. look t p = Some (Folder m w)"
  unfolding sane_def by blast

lemma sane_up:
  assumes "sane t" "look t (p @ r) = Some x" "r \<noteq> []"
  shows "\<exists>m w. look t p = Some (Folder m w)"
  using assms(2,3)
proof (induction r arbitrary: x rule: rev_induct)
  case (snoc n r)
  then obtain m w where "look t (p @ r) = Some (Folder m w)"
    using sane_parent [OF assms(1), of "p @ r" n] by auto
  with snoc.IH show ?case by (cases "r = []") auto
qed simp

lemma sane_free_below: "sane t \<Longrightarrow> look t p = None \<Longrightarrow> prefix p k \<Longrightarrow> look t k = None"
  using sane_up [of t p] by (cases "look t k") (auto simp: prefix_def, metis append_Nil2 option.distinct(1))

lemma sane_not_folder_below:
  "sane t \<Longrightarrow> look t p = Some x \<Longrightarrow> \<not> is_folder x \<Longrightarrow> strict_prefix p k \<Longrightarrow> look t k = None"
  using sane_up [of t p] by (cases "look t k") (auto simp: strict_prefix_def prefix_def, metis append_Nil2 is_folder.simps(1))

lemma clear_prefix: "clear t p \<Longrightarrow> prefix q p \<Longrightarrow> clear t q"
  unfolding clear_def by (meson prefix_order.less_le_trans set_mono_prefix subsetD)

lemma clear_strict: "clear t p \<Longrightarrow> strict_prefix q p \<Longrightarrow> folder_or_free t q"
  by (simp add: clear_def)

lemma clear_snoc: "clear t (p @ [n]) \<Longrightarrow> clear t p \<and> folder_or_free t p"
  using clear_prefix [of t "p @ [n]" p] clear_strict [of t "p @ [n]" p] by (simp add: strict_prefix_def)

lemma clear_butlast: "clear t p \<Longrightarrow> clear t (butlast p)"
  by (erule clear_prefix) (cases p rule: rev_cases, auto)

text \<open>Resolution goes down the path until an element is missing.\<close>

lemma resolve_clear:
  assumes "sane t" and "clear t (cwd @ cs)" and "cs \<noteq> []" and "\<exists>m w. look t cwd = Some (Folder m w)"
    and "follow \<Longrightarrow> \<not> (\<exists>s. look t (cwd @ cs) = Some (Symlink s))"
  shows "resolve_at n t follow cwd cs =
    (if \<exists>m w. look t (cwd @ butlast cs) = Some (Folder m w) then Inr (cwd @ cs) else Inl ErrNotExist)"
  using assms(2-)
proof (induction cs arbitrary: cwd)
  case (Cons c cs)
  have dots: "c \<noteq> ''..''" using Cons.prems(1) by (auto simp: clear_def)
  show ?case
  proof (cases "cs = []")
    case True
    with Cons.prems dots show ?thesis by (auto split: option.split entry.split)
  next
    case False
    have "strict_prefix (cwd @ [c]) (cwd @ c # cs)" using False by (auto simp: strict_prefix_def)
    with Cons.prems(1) have f: "folder_or_free t (cwd @ [c])" by (simp add: clear_def)
    show ?thesis
    proof (cases "look t (cwd @ [c])")
      case None
      then have "look t (cwd @ c # butlast cs) = None"
        using sane_free_below [OF assms(1) None, of "cwd @ c # butlast cs"] by (auto simp: prefix_def)
      with None False dots show ?thesis by simp
    next
      case (Some x)
      with f obtain m w where x: "x = Folder m w" by (auto simp: folder_or_free_def is_folder_iff)
      have "resolve_at n t follow (cwd @ [c]) cs =
          (if \<exists>m w. look t ((cwd @ [c]) @ butlast cs) = Some (Folder m w)
           then Inr ((cwd @ [c]) @ cs) else Inl ErrNotExist)"
        using Cons.IH [of "cwd @ [c]"] Cons.prems False Some x by simp
      with Some x False dots show ?thesis by simp
    qed
  qed
qed simp

lemma resolve_root:
  assumes "sane t" "clear t p" "follow \<Longrightarrow> \<not> (\<exists>s. look t p = Some (Symlink s))"
  shows "resolve_at n t follow [] p =
    (if p = [] \<or> (\<exists>m w. look t (butlast p) = Some (Folder m w)) then Inr p else Inl ErrNotExist)"
  using resolve_clear [of t "[]" p follow n] assms sane_root [OF assms(1)] by (cases "p = []") auto

lemma look_up: "sane t \<Longrightarrow> look t p = Some x \<Longrightarrow> p \<noteq> [] \<Longrightarrow> \<exists>m w. look t (butlast p) = Some (Folder m w)"
  using sane_parent [of t "butlast p" "last p" x] by simp

lemma entry_clear:
  assumes "sane t" "clear t p" "follow \<Longrightarrow> \<not> (\<exists>s. look t p = Some (Symlink s))"
  shows "entry_at S t follow p = (case look t p of None \<Rightarrow> Inl ErrNotExist | Some x \<Rightarrow> Inr (p, x))"
  using resolve_root [OF assms] look_up [OF assms(1), of p]
  by (auto simp: entry_at_def split: option.splits)

section \<open>The effect of the calls\<close>

definition adds_folders :: "tree \<Rightarrow> path \<Rightarrow> tree \<Rightarrow> bool" where
  "adds_folders t p t' \<longleftrightarrow> sane t' \<and> (\<forall>k. look t' k = look t k
     \<or> prefix k p \<and> look t k = None \<and> (\<exists>m w. look t' k = Some (Folder m w)))"

lemma sane_set_folder:
  assumes "sane t" "look t p = Some (Folder m w)" "look t (p @ [n]) = None"
  shows "sane (set_entry (p @ [n]) x t)"
  unfolding sane_def look_set
proof (intro conjI allI impI)
  show "\<exists>m w. ((look t)(p @ [n] \<mapsto> x)) [] = Some (Folder m w)" using sane_root [OF assms(1)] by simp
next
  fix q n' y
  assume y: "((look t)(p @ [n] \<mapsto> x)) (q @ [n']) = Some y"
  have "q \<noteq> p @ [n]"
    using y sane_free_below [OF assms(1,3), of "q @ [n']"] by (auto split: if_splits)
  with y assms(1,2) sane_parent [of t q n'] show "\<exists>m w. ((look t)(p @ [n] \<mapsto> x)) q = Some (Folder m w)"
    by (auto split: if_splits)
qed

lemma make_dirs_adds:
  assumes "sane t" and "''..'' \<notin> set cs" and "\<And>q. prefix q cs \<Longrightarrow> folder_or_free t (cwd @ q)"
    and "make_dirs S perm n f t cwd cs = (err, t')" and "\<exists>m w. look t cwd = Some (Folder m w)"
  shows "adds_folders t (cwd @ cs) t' \<and> (err = None \<longrightarrow> (\<exists>m w. look t' (cwd @ cs) = Some (Folder m w)))
    \<and> (f = None \<longrightarrow> err = None)"
  using assms
proof (induction cs arbitrary: cwd t f)
  case Nil
  then show ?case by (auto simp: adds_folders_def)
next
  case (Cons c cs)
  from Cons.prems(2) have dots: "c \<noteq> ''..''" "''..'' \<notin> set cs" by auto
  have fof: "folder_or_free t (cwd @ [c])" using Cons.prems(3) [of "[c]"] by simp
  show ?case
  proof (cases "look t (cwd @ [c])")
    case (Some x)
    with fof obtain m w where x: "x = Folder m w" by (auto simp: folder_or_free_def is_folder_iff)
    from Cons.IH [of t "cwd @ [c]" f] Cons.prems dots Some x show ?thesis by fastforce
  next
    case None
    show ?thesis
    proof (cases "\<exists>e. f = Some (e, 0)")
      case True
      with Cons.prems dots None show ?thesis by (auto simp: adds_folders_def)
    next
      case False
      let ?F = "Folder (perm AND NOT (se_umask S)) (se_owner S)"
      let ?t = "set_entry (cwd @ [c]) ?F t"
      let ?f = "map_option (map_prod id (\<lambda>k. k - 1)) f"
      from Cons.prems(5) obtain m w where cwd: "look t cwd = Some (Folder m w)" by blast
      have run: "make_dirs S perm n ?f ?t (cwd @ [c]) cs = (err, t')"
        using Cons.prems(4) None dots False by (auto split: option.splits nat.splits)
      have below: "folder_or_free ?t ((cwd @ [c]) @ q)" if "prefix q cs" for q
        using Cons.prems(3) [of "c # q"] that by (auto simp: folder_or_free_def)
      from Cons.IH [OF sane_set_folder [OF Cons.prems(1) cwd None] dots(2) below run]
      have ih: "adds_folders ?t (cwd @ c # cs) t'"
        "err = None \<Longrightarrow> \<exists>m w. look t' (cwd @ c # cs) = Some (Folder m w)" "f = None \<Longrightarrow> err = None"
        by simp_all
      have "adds_folders t (cwd @ c # cs) t'"
        unfolding adds_folders_def
      proof (intro conjI allI)
        show "sane t'" using ih(1) by (simp add: adds_folders_def)
        fix k
        show "look t' k = look t k \<or> prefix k (cwd @ c # cs) \<and> look t k = None
            \<and> (\<exists>m w. look t' k = Some (Folder m w))"
        proof (cases "k = cwd @ [c]")
          case True
          with ih(1) None show ?thesis
            by (auto simp: adds_folders_def dest: spec [of _ "cwd @ [c]"])
        next
          case False
          with ih(1) have "look t' k = look t k \<or> prefix k (cwd @ c # cs) \<and> look t k = None
              \<and> (\<exists>m w. look t' k = Some (Folder m w))"
            by (auto simp: adds_folders_def dest!: spec [of _ k])
          then show ?thesis .
        qed
      qed
      with ih(2,3) show ?thesis by blast
    qed
  qed
qed

text \<open>Without links on the way, only a failure to come stops the directories from being made.\<close>

lemma make_dirs_fails:
  assumes "sane t" and "''..'' \<notin> set cs" and "\<And>q. prefix q cs \<Longrightarrow> folder_or_free t (cwd @ q)"
    and "make_dirs S perm n f t cwd cs = (Some e, t')" and "\<exists>m w. look t cwd = Some (Folder m w)"
  shows "\<exists>k. f = Some (e, k)"
  using assms
proof (induction cs arbitrary: cwd t f)
  case (Cons c cs)
  from Cons.prems(2) have dots: "c \<noteq> ''..''" "''..'' \<notin> set cs" by auto
  have fof: "folder_or_free t (cwd @ [c])" using Cons.prems(3) [of "[c]"] by simp
  show ?case
  proof (cases "look t (cwd @ [c])")
    case (Some x)
    with fof obtain m w where x: "x = Folder m w" by (auto simp: folder_or_free_def is_folder_iff)
    from Cons.IH [of t "cwd @ [c]" f] Cons.prems dots Some x show ?thesis by fastforce
  next
    case None
    show ?thesis
    proof (cases "\<exists>e. f = Some (e, 0)")
      case True
      with Cons.prems dots None show ?thesis by auto
    next
      case False
      let ?t = "set_entry (cwd @ [c]) (Folder (perm AND NOT (se_umask S)) (se_owner S)) t"
      let ?f = "map_option (map_prod id (\<lambda>k. k - 1)) f"
      from Cons.prems(5) obtain m w where cwd: "look t cwd = Some (Folder m w)" by blast
      have run: "make_dirs S perm n ?f ?t (cwd @ [c]) cs = (Some e, t')"
        using Cons.prems(4) None dots False by (auto split: option.splits nat.splits)
      have "folder_or_free ?t ((cwd @ [c]) @ q)" if "prefix q cs" for q
        using Cons.prems(3) [of "c # q"] that by (auto simp: folder_or_free_def)
      from Cons.IH [OF sane_set_folder [OF Cons.prems(1) cwd None] dots(2) this run] show ?thesis by auto
    qed
  qed
qed simp

lemma make_dirs_there:
  assumes "sane t" "''..'' \<notin> set cs" "look t (cwd @ cs) = Some (Folder m w)"
  shows "make_dirs S perm n f t cwd cs = (None, t)"
  using assms(2,3)
proof (induction cs arbitrary: cwd)
  case (Cons c cs)
  obtain m' w' where "look t (cwd @ [c]) = Some (Folder m' w')"
  proof (cases "cs = []")
    case False
    with Cons.prems sane_up [OF assms(1), of "cwd @ [c]" cs] that show ?thesis by auto
  qed (use Cons.prems that in auto)
  moreover have "c \<noteq> ''..''" using Cons.prems(1) by auto
  ultimately show ?case using Cons by simp
qed simp

lemma sane_drop:
  assumes "sane t" "p \<noteq> []" "\<And>n. look t (p @ [n]) = None"
  shows "sane (drop_entry p t)"
  unfolding sane_def look_drop
proof (intro conjI allI impI)
  show "\<exists>m w. ((look t)(p := None)) [] = Some (Folder m w)" using sane_root [OF assms(1)] assms(2) by simp
next
  fix q n x
  assume "((look t)(p := None)) (q @ [n]) = Some x"
  then have x: "look t (q @ [n]) = Some x" by (auto split: if_splits)
  then have "q \<noteq> p" using assms(3) by auto
  with sane_parent [OF assms(1) x] show "\<exists>m w. ((look t)(p := None)) q = Some (Folder m w)" by simp
qed

lemma not_prefix_butlast: "p \<noteq> [] \<Longrightarrow> \<not> prefix p (butlast p)"
  by (cases p rule: rev_cases) (auto dest: prefix_length_le)

lemma apart_parent: "\<not> prefix p q \<Longrightarrow> \<not> prefix q p \<Longrightarrow> \<not> prefix p (butlast q)"
  by (meson prefix_order.trans prefixeq_butlast)

lemma sane_move:
  assumes t: "sane t" and q: "look t q = None" "look t (butlast q) = Some (Folder m w)" "q \<noteq> []"
    and apart: "\<not> prefix p q" "\<not> prefix q p"
  shows "sane (move_tree p q t)"
proof -
  have look: "look (move_tree p q t) k =
      (if prefix q k then look t (p @ drop (length q) k) else if prefix p k then None else look t k)" for k
    by (rule look_move) (use apart sane_free_below [OF t q(1)] in \<open>auto simp: strict_prefix_def\<close>)
  show ?thesis
    unfolding sane_def look
  proof (intro conjI allI impI)
    show "\<exists>m w. (if prefix q [] then look t (p @ drop (length q) []) else if prefix p [] then None
        else look t []) = Some (Folder m w)"
      using sane_root [OF t] apart q(3) by (cases "p = []") auto
  next
    fix k n y
    assume y: "(if prefix q (k @ [n]) then look t (p @ drop (length q) (k @ [n]))
        else if prefix p (k @ [n]) then None else look t (k @ [n])) = Some y"
    consider "k @ [n] = q" | "prefix q k" | "\<not> prefix q (k @ [n])" by auto
    then show "\<exists>m w. (if prefix q k then look t (p @ drop (length q) k) else if prefix p k then None
        else look t k) = Some (Folder m w)"
    proof cases
      case 1
      then have "k = butlast q" "\<not> prefix q k" using prefix_length_le [of q k] by auto
      with apart_parent [OF apart] q(2) 1 show ?thesis by auto
    next
      case 2
      then have "look t ((p @ drop (length q) k) @ [n]) = Some y" using y by (auto simp: prefix_def)
      from sane_parent [OF t this] 2 show ?thesis by simp
    next
      case 3
      with y have "look t (k @ [n]) = Some y" "\<not> prefix p (k @ [n])" by (auto split: if_splits)
      with sane_parent [OF t] 3 show ?thesis by fastforce
    qed
  qed
qed

end
