(* ===== verification/File_Calls.thy ===== *)
theory File_Calls
  imports File_Trees
begin

text \<open>
  The file calls and the steps the mutations are made of, on worlds: what each leaves of the tree when
  it may fail at any point, and what it does when nothing fails. The paths are reached without links
  and lie outside the recovery site.
\<close>

declare climb.simps [simp del] prune_up.simps [simp del] remove_toward.simps [simp del]

section \<open>Frames\<close>

text \<open>What no call of a mutation changes, the archive's apart: the answers to come of the probes and the
  keys minted; failures to come are only used up. A settled world has no failure to come.\<close>

definition quiet :: "world \<Rightarrow> world \<Rightarrow> bool" where
  "quiet w w' \<longleftrightarrow> w_probe_faults w' = w_probe_faults w \<and> w_minted w' = w_minted w
     \<and> set (w_faults w') \<subseteq> set (w_faults w)"

definition answered :: "world \<Rightarrow> bool" where
  "answered w \<longleftrightarrow> w_probe_faults w = []"

definition calm :: "world \<Rightarrow> bool" where
  "calm w \<longleftrightarrow> w_probe_faults w = [] \<and> w_faults w = []"

lemma quiet_refl [simp]: "quiet w w"
  by (simp add: quiet_def)

lemma quiet_trans: "quiet w w' \<Longrightarrow> quiet w' w'' \<Longrightarrow> quiet w w''"
  by (auto simp: quiet_def)

lemma quiet_answered: "quiet w w' \<Longrightarrow> answered w \<Longrightarrow> answered w'"
  by (simp add: quiet_def answered_def)

lemma next_fault_frame: "next_fault w = (f, w') \<Longrightarrow> quiet w w' \<and> w_tree w' = w_tree w"
  by (auto simp: next_fault_def quiet_def split: list.splits)

lemma calm_next [simp]: "calm w \<Longrightarrow> next_fault w = (None, w)" "calm w \<Longrightarrow> next_probe w = (None, w)"
  by (simp_all add: calm_def next_fault_def next_probe_def)

lemma answered_probe [simp]: "answered w \<Longrightarrow> next_probe w = (None, w)"
  by (simp add: answered_def next_probe_def)

lemma calm_answered [simp]: "calm w \<Longrightarrow> answered w"
  by (simp add: calm_def answered_def)

lemma calm_tree [simp]: "calm (w\<lparr>w_tree := t\<rparr>) = calm w" "answered (w\<lparr>w_tree := t\<rparr>) = answered w"
  "quiet w (w'\<lparr>w_tree := t\<rparr>) = quiet w w'"
  by (simp_all add: calm_def answered_def quiet_def)

section \<open>Reading\<close>

lemma lstat_answered:
  "answered w \<Longrightarrow> sane (w_tree w) \<Longrightarrow> clear (w_tree w) p \<Longrightarrow>
   lstat S p w = (case look (w_tree w) p of None \<Rightarrow> Inl ErrNotExist | Some x \<Rightarrow> Inr x, w)"
  by (simp add: lstat_def entry_clear split: option.splits)

lemma stat_answered:
  "answered w \<Longrightarrow> sane (w_tree w) \<Longrightarrow> clear (w_tree w) p \<Longrightarrow> folder_or_free (w_tree w) p \<Longrightarrow>
   stat S p w = (case look (w_tree w) p of None \<Rightarrow> Inl ErrNotExist | Some x \<Rightarrow> Inr x, w)"
  using entry_clear [of "w_tree w" p True S]
  by (auto simp: stat_def folder_or_free_def is_folder_iff split: option.splits)

lemma read_file_frame: "read_file S p w = (r, w') \<Longrightarrow> quiet w w' \<and> w_tree w' = w_tree w"
  by (auto simp: read_file_def split: prod.splits option.splits sum.splits entry.splits
      dest: next_fault_frame)

lemma open_read_frame: "open_read S p w = (r, w') \<Longrightarrow> quiet w w' \<and> w_tree w' = w_tree w"
  by (auto simp: open_read_def split: prod.splits option.splits dest: next_fault_frame)

lemma sync_frame: "sync_handle w = (e, w') \<Longrightarrow> quiet w w' \<and> w_tree w' = w_tree w"
  by (auto simp: sync_handle_def split: prod.splits dest: next_fault_frame)

lemma dir_probe_frame: "is_dir_and_not_empty S p w = (r, w') \<Longrightarrow> quiet w w' \<and> w_tree w' = w_tree w"
  by (auto simp: is_dir_and_not_empty_def split: prod.splits option.splits sum.splits if_splits
      dest!: open_read_frame sync_frame intro: quiet_trans)

lemma checksum_frame: "checksum_file S p w = (s, w') \<Longrightarrow> quiet w w' \<and> w_tree w' = w_tree w"
  by (auto simp: checksum_file_def split: prod.splits sum.splits dest: read_file_frame)

lemma digest_frame: "pre_archive_digest S p w = (d, w') \<Longrightarrow> quiet w w' \<and> w_tree w' = w_tree w"
  by (auto simp: pre_archive_digest_def split: prod.splits sum.splits if_splits dest: checksum_frame)

section \<open>Claims leave the disk alone\<close>

lemma put_ledger_frame [simp]:
  "w_tree (put_ledger l w) = w_tree w" "quiet w (put_ledger l w)" "calm (put_ledger l w) = calm w"
  by (simp_all add: put_ledger_def quiet_def calm_def)

lemma intern_frame: "intern_entry c u k p w = (r, w') \<Longrightarrow> quiet w w' \<and> w_tree w' = w_tree w"
  by (auto simp: intern_entry_def Let_def quiet_def put_ledger_def
      split: sum.splits option.splits prod.splits call.splits)

lemma new_entry_frame: "new_entry u k p w = (r, w') \<Longrightarrow> quiet w w' \<and> w_tree w' = w_tree w"
  by (simp add: new_entry_def intern_frame)

lemma discover_of_mode_frame: "discover_of_mode p x w = (r, w') \<Longrightarrow> quiet w w' \<and> w_tree w' = w_tree w"
  by (auto simp: discover_of_mode_def discover_entry_def split: sum.splits dest: intern_frame)

lemma produce_entry_frame: "produce_entry_at u p x w = (r, w') \<Longrightarrow> quiet w w' \<and> w_tree w' = w_tree w"
  by (auto simp: produce_entry_at_def split: sum.splits dest: new_entry_frame)

lemma mark_entry_gone_frame [simp]:
  "w_tree (mark_entry_gone u r w) = w_tree w" "quiet w (mark_entry_gone u r w)"
  by (simp_all add: mark_entry_gone_def split: option.split call.split)

lemma found_directory_frame: "found_directory S M b w = (out, w') \<Longrightarrow> quiet w w' \<and> w_tree w' = w_tree w"
  by (auto simp: found_directory_def Let_def split: if_splits option.splits prod.splits)

section \<open>Climbing\<close>

lemma climb_answered:
  assumes "answered w" "sane (w_tree w)" "''..'' \<notin> set p"
    and "\<And>k. prefix k p \<Longrightarrow> folder_or_free (w_tree w) k"
  shows "\<exists>b x. climb S p w = (Inr (b, x), w) \<and> prefix b p \<and> look (w_tree w) b = Some x \<and> is_folder x
    \<and> (\<forall>k. strict_prefix b k \<and> prefix k p \<longrightarrow> look (w_tree w) k = None)"
  using assms(3,4)
proof (induction p rule: rev_induct)
  case Nil
  then show ?case
    using sane_root [OF assms(2)] stat_answered [OF assms(1,2), of "[]"]
    by (auto simp: clear_def folder_or_free_def climb.simps)
next
  case (snoc n p)
  have c: "clear (w_tree w) (p @ [n])" "folder_or_free (w_tree w) (p @ [n])"
    using snoc.prems by (auto simp: clear_def strict_prefix_def)
  show ?case
  proof (cases "look (w_tree w) (p @ [n])")
    case (Some x)
    with c stat_answered [OF assms(1,2) c] show ?thesis
      by (auto simp: folder_or_free_def climb.simps [of S "p @ [n]"] dest!: prefix_length_less prefix_length_le)
  next
    case None
    obtain b x where b: "climb S p w = (Inr (b, x), w)" "prefix b p" "look (w_tree w) b = Some x" "is_folder x"
      "\<forall>k. strict_prefix b k \<and> prefix k p \<longrightarrow> look (w_tree w) k = None"
      using snoc by fastforce
    have "climb S (p @ [n]) w = (Inr (b, x), w)"
      using stat_answered [OF assms(1,2) c, of S] None b(1) by (simp add: climb.simps [of S "p @ [n]"])
    with b None show ?thesis by (intro exI [of _ b] exI [of _ x]) auto
  qed
qed

lemma find_closest_answered:
  assumes "answered w" "sane (w_tree w)" "''..'' \<notin> set p"
    and "\<And>k. prefix k p \<Longrightarrow> folder_or_free (w_tree w) k"
    and "find_closest_existing_dir S p w = (Inr ((r, b), x), w')"
  shows "quiet w w' \<and> w_tree w' = w_tree w \<and> prefix b p \<and> look (w_tree w) b = Some x \<and> is_folder x
    \<and> (\<forall>k. strict_prefix b k \<and> prefix k p \<longrightarrow> look (w_tree w) k = None)"
  using climb_answered [OF assms(1-4), of S] assms(5)
  by (auto simp: find_closest_existing_dir_def split: if_splits sum.splits prod.splits
      dest: discover_of_mode_frame)

lemma find_closest_frame:
  assumes "answered w" "sane (w_tree w)" "''..'' \<notin> set p"
    and "\<And>k. prefix k p \<Longrightarrow> folder_or_free (w_tree w) k"
    and "find_closest_existing_dir S p w = (r, w')"
  shows "quiet w w' \<and> w_tree w' = w_tree w"
  using climb_answered [OF assms(1-4), of S] assms(5)
  by (auto simp: find_closest_existing_dir_def split: if_splits sum.splits prod.splits
      dest: discover_of_mode_frame)

section \<open>Moving and making\<close>

lemma rename_step:
  assumes "sane (w_tree w)" "clear (w_tree w) p" "clear (w_tree w) q" "rename S p q w = (err, w')"
  shows "quiet w w' \<and> (case err of
      Some e \<Rightarrow> w_tree w' = w_tree w
    | None \<Rightarrow> p = q \<and> w_tree w' = w_tree w
        \<or> (\<exists>x m o'. look (w_tree w) p = Some x \<and> rename_refusal (w_tree w) p x q = None
             \<and> look (w_tree w) (butlast q) = Some (Folder m o') \<and> w_tree w' = move_tree p q (w_tree w)))"
proof -
  obtain f w1 where f: "next_fault w = (f, w1)" by (cases "next_fault w")
  note fr = next_fault_frame [OF f]
  have e: "entry_at S (w_tree w) False p = (case look (w_tree w) p of None \<Rightarrow> Inl ErrNotExist | Some x \<Rightarrow> Inr (p, x))"
    by (rule entry_clear [OF assms(1,2)]) simp
  have r: "resolve_at n (w_tree w) False [] q =
      (if q = [] \<or> (\<exists>m w'. look (w_tree w) (butlast q) = Some (Folder m w')) then Inr q else Inl ErrNotExist)" for n
    by (rule resolve_root [OF assms(1,3)]) simp
  show ?thesis
  proof (cases f)
    case (Some ek)
    with assms(4) f fr show ?thesis by (auto simp: rename_def split: prod.splits)
  next
    case None
    show ?thesis
    proof (cases "look (w_tree w) p")
      case n: None
      with assms(4) f fr None e show ?thesis by (auto simp: rename_def)
    next
      case (Some x)
      show ?thesis
      proof (cases "q = [] \<or> (\<exists>m w'. look (w_tree w) (butlast q) = Some (Folder m w'))")
        case False
        with assms(4) f fr None e Some r show ?thesis by (auto simp: rename_def)
      next
        case True
        with assms(4) f fr None e Some r
        have run: "(if p = q then (None, w1)
            else (case rename_refusal (w_tree w) p x q of
                    Some e \<Rightarrow> (Some e, w1) | None \<Rightarrow> (None, w1\<lparr>w_tree := move_tree p q (w_tree w)\<rparr>))) = (err, w')"
          by (auto simp: rename_def cong: option.case_cong)
        have "q \<noteq> []" if "rename_refusal (w_tree w) p x q = None" using that by (auto simp: rename_refusal_def)
        with run fr Some True show ?thesis by (auto split: if_splits option.splits)
      qed
    qed
  qed
qed

lemma rename_calm:
  assumes "calm w" "sane (w_tree w)" "clear (w_tree w) p" "clear (w_tree w) q" "p \<noteq> q"
    and "look (w_tree w) p = Some x" "rename_refusal (w_tree w) p x q = None"
    and "look (w_tree w) (butlast q) = Some (Folder m o')"
  shows "rename S p q w = (None, w\<lparr>w_tree := move_tree p q (w_tree w)\<rparr>)"
proof -
  have "entry_at S (w_tree w) False p = Inr (p, x)"
    using entry_clear [OF assms(2,3), of False S] assms(6) by simp
  moreover have "resolve_at (se_max_links S) (w_tree w) False [] q = Inr q"
    using resolve_root [OF assms(2,4), of False] assms(8) by simp
  ultimately show ?thesis using assms(1,5,7) by (simp add: rename_def)
qed

lemma mkdir_all_step:
  assumes "sane (w_tree w)" "''..'' \<notin> set p" "\<And>k. prefix k p \<Longrightarrow> folder_or_free (w_tree w) k"
    and "mkdir_all S p perm w = (err, w')"
  shows "quiet w w' \<and> adds_folders (w_tree w) p (w_tree w')
    \<and> (err = None \<longrightarrow> (\<exists>m o'. look (w_tree w') p = Some (Folder m o')))"
proof -
  obtain f w1 where f: "next_fault w = (f, w1)" by (cases "next_fault w")
  obtain e t where run: "make_dirs S perm (se_max_links S) f (w_tree w) [] p = (e, t)"
    by (cases "make_dirs S perm (se_max_links S) f (w_tree w) [] p")
  with assms(4) f next_fault_frame [OF f] have "w' = w1\<lparr>w_tree := t\<rparr>" "err = e"
    by (auto simp: mkdir_all_def)
  with make_dirs_adds [OF assms(1,2) _ run] assms(3) sane_root [OF assms(1)] next_fault_frame [OF f]
  show ?thesis by auto
qed

lemma mkdir_all_there:
  assumes "sane (w_tree w)" "''..'' \<notin> set p" "look (w_tree w) p = Some (Folder m o')" "calm w"
  shows "mkdir_all S p perm w = (None, w)"
  using make_dirs_there [OF assms(1,2), of "[]"] assms(3,4) by (simp add: mkdir_all_def)

section \<open>The recovery site\<close>

definition scaffold :: "path \<Rightarrow> bool" where
  "scaffold k \<longleftrightarrow> k = [''.devlore''] \<or> k = recovery_dir"

text \<open>A path a mutation may be about: below the root, outside the site, with no element that starts
  like the parent's name.\<close>

definition ordinary :: "path \<Rightarrow> bool" where
  "ordinary p \<longleftrightarrow> p \<noteq> [] \<and> hd p \<noteq> ''.devlore'' \<and> (\<forall>e \<in> set p. \<not> has_prefix e ''..'')"

definition site_clear :: "tree \<Rightarrow> bool" where
  "site_clear t \<longleftrightarrow> folder_or_free t [''.devlore''] \<and> folder_or_free t recovery_dir"

text \<open>Keys are never repeated: none that is to come names an entry of the site.\<close>

definition keys_fresh :: "session \<Rightarrow> world \<Rightarrow> bool" where
  "keys_fresh S w \<longleftrightarrow> (\<forall>n. se_uuid S n \<noteq> [] \<and> se_uuid S n \<noteq> ''..'') \<and> inj (se_uuid S)
     \<and> (\<forall>n \<ge> w_minted w. look (w_tree w) (recovery_path (se_uuid S n)) = None)"

definition same_view :: "tree \<Rightarrow> tree \<Rightarrow> bool" where
  "same_view t t' \<longleftrightarrow> (\<forall>k. \<not> scaffold k \<longrightarrow> look t' k = look t k)"

text \<open>The entry at a path is in the site under a key, with what it holds.\<close>

definition archived :: "path \<Rightarrow> string \<Rightarrow> tree \<Rightarrow> tree \<Rightarrow> bool" where
  "archived p i t t' \<longleftrightarrow> (\<exists>m w. look t' recovery_dir = Some (Folder m w))
     \<and> (\<forall>k. \<not> scaffold k \<longrightarrow> look t' k =
          (if prefix (recovery_path i) k then look t (p @ drop (length (recovery_path i)) k)
           else if prefix p k then None else look t k))"

lemma recovery_path_simps [simp]:
  "recovery_path i \<noteq> []" "butlast (recovery_path i) = recovery_dir" "length (recovery_path i) = 3"
  "recovery_dir \<noteq> []" "''..'' \<notin> set recovery_dir" "\<not> scaffold (recovery_path i)"
  by (simp_all add: recovery_path_def recovery_dir_def scaffold_def)

lemma prefix_recovery_dir: "prefix k recovery_dir \<longleftrightarrow> k = [] \<or> scaffold k"
  by (auto simp: recovery_dir_def scaffold_def prefix_Cons)

lemma prefix_recovery_path: "prefix k (recovery_path i) \<longleftrightarrow> k = [] \<or> scaffold k \<or> k = recovery_path i"
  by (auto simp: recovery_path_def prefix_snoc prefix_recovery_dir)

lemma ordinary_apart:
  assumes "ordinary p"
  shows "\<not> prefix p (recovery_path i)" "\<not> prefix (recovery_path i) p" "\<not> prefix p recovery_dir"
    "prefix k p \<Longrightarrow> \<not> scaffold k" "prefix p k \<Longrightarrow> \<not> scaffold k" "''..'' \<notin> set p" "\<not> scaffold p"
  using assms
  by (auto simp: ordinary_def scaffold_def recovery_path_def recovery_dir_def prefix_def has_prefix_iff
      neq_Nil_conv append_eq_Cons_conv)

lemma site_prefixes:
  "sane t \<Longrightarrow> site_clear t \<Longrightarrow> prefix k recovery_dir \<Longrightarrow> folder_or_free t k"
  using sane_root [of t] by (auto simp: prefix_recovery_dir site_clear_def scaffold_def folder_or_free_def)

lemma clear_recovery_path:
  "sane t \<Longrightarrow> site_clear t \<Longrightarrow> i \<noteq> ''..'' \<Longrightarrow> clear t (recovery_path i)"
  unfolding clear_def strict_prefix_def prefix_recovery_path
  using site_prefixes [of t] by (auto simp: prefix_recovery_dir recovery_path_def)

lemma adds_folders_fof: "adds_folders t q t' \<Longrightarrow> folder_or_free t k \<Longrightarrow> folder_or_free t' k"
  unfolding adds_folders_def folder_or_free_def by (drule conjunct2, drule spec [of _ k]) auto

lemma adds_folders_clear: "adds_folders t q t' \<Longrightarrow> clear t p \<Longrightarrow> clear t' p"
  by (simp add: clear_def adds_folders_fof)

lemma adds_folders_site_view: "adds_folders t recovery_dir t' \<Longrightarrow> same_view t t'" if "sane t"
  using sane_root [OF that] by (fastforce simp: adds_folders_def same_view_def prefix_recovery_dir)

lemma rename_refusal_free: "p \<noteq> [] \<Longrightarrow> q \<noteq> [] \<Longrightarrow> \<not> prefix p q \<Longrightarrow> look t q = None \<Longrightarrow> rename_refusal t p x q = None"
  by (auto simp: rename_refusal_def strict_prefix_def)

text \<open>Archiving: the site is made ready, a key is minted, the entry is renamed.\<close>

lemma ready_site_step:
  assumes "sane (w_tree w)" "site_clear (w_tree w)" "ready_site S w = (err, w')"
  shows "quiet w w' \<and> adds_folders (w_tree w) recovery_dir (w_tree w')
    \<and> (err = None \<longrightarrow> (\<exists>m o'. look (w_tree w') recovery_dir = Some (Folder m o')))"
  using mkdir_all_step [OF assms(1), of recovery_dir S "perms 7 0 0"] site_prefixes [OF assms(1,2)] assms(3)
  by (auto simp: ready_site_def split: prod.splits option.splits)

lemma archived_move:
  assumes t: "sane t" and p: "ordinary p" and fresh: "look t (recovery_path i) = None"
    and dir: "look t recovery_dir = Some (Folder m w)"
  shows "archived p i t (move_tree p (recovery_path i) t)" "sane (move_tree p (recovery_path i) t)"
proof -
  note apart = ordinary_apart(1,2) [OF p, of i]
  have look: "look (move_tree p (recovery_path i) t) k =
      (if prefix (recovery_path i) k then look t (p @ drop (length (recovery_path i)) k)
       else if prefix p k then None else look t k)" for k
    by (rule look_move) (use apart sane_free_below [OF t fresh] in \<open>auto simp: strict_prefix_def\<close>)
  have "\<not> prefix (recovery_path i) recovery_dir" by (simp add: prefix_recovery_dir)
  then show "archived p i t (move_tree p (recovery_path i) t)"
    using dir ordinary_apart(3) [OF p] by (simp add: archived_def look)
  show "sane (move_tree p (recovery_path i) t)"
    using sane_move [OF t fresh _ _ apart] dir by simp
qed

lemma archived_same_view:
  assumes "same_view t t1" "archived p i t1 t2" "ordinary p"
  shows "archived p i t t2"
proof -
  have "look t1 (p @ x) = look t (p @ x)" for x
    using assms(1) ordinary_apart(5) [OF assms(3), of "p @ x"] by (simp add: same_view_def)
  with assms(1,2) show ?thesis by (simp add: archived_def same_view_def)
qed

lemma archive_file_step:
  assumes t: "sane (w_tree w)" and site: "site_clear (w_tree w)" and p: "ordinary p" "clear (w_tree w) p"
    and fresh: "keys_fresh S w" and run: "archive_file S p w = (Inr i, w')"
  shows "w_probe_faults w' = w_probe_faults w \<and> w_minted w' = Suc (w_minted w)
    \<and> set (w_faults w') \<subseteq> set (w_faults w)
    \<and> i = se_uuid S (w_minted w) \<and> look (w_tree w) p \<noteq> None
    \<and> archived p i (w_tree w) (w_tree w') \<and> sane (w_tree w')"
proof -
  obtain w1 where ready: "ready_site S w = (None, w1)" and i: "i = se_uuid S (w_minted w1)"
    and mv: "rename S p (recovery_path i) (w1\<lparr>w_minted := Suc (w_minted w1)\<rparr>) = (None, w')"
    using run by (auto simp: archive_file_def mint_def split: prod.splits option.splits)
  from ready_site_step [OF t site ready] obtain m o' where w1: "quiet w w1"
    "adds_folders (w_tree w) recovery_dir (w_tree w1)" "look (w_tree w1) recovery_dir = Some (Folder m o')"
    by auto
  have view: "same_view (w_tree w) (w_tree w1)" using adds_folders_site_view [OF t w1(2)] .
  have t1: "sane (w_tree w1)" using w1(2) by (simp add: adds_folders_def)
  have p1: "look (w_tree w1) p = look (w_tree w) p"
    using view ordinary_apart(7) [OF p(1)] by (simp add: same_view_def)
  have i': "i = se_uuid S (w_minted w)" "i \<noteq> ''..''" "look (w_tree w1) (recovery_path i) = None"
    using i w1(1) fresh view by (auto simp: quiet_def keys_fresh_def same_view_def)
  have site1: "site_clear (w_tree w1)"
    using site by (simp add: site_clear_def adds_folders_fof [OF w1(2)])
  have "p \<noteq> recovery_path i" using ordinary_apart(1) [OF p(1), of i] by auto
  moreover note rename_step [of "w1\<lparr>w_minted := Suc (w_minted w1)\<rparr>" p "recovery_path i" S None w']
  ultimately have moved: "w_tree w' = move_tree p (recovery_path i) (w_tree w1)" "look (w_tree w1) p \<noteq> None"
    "w_probe_faults w' = w_probe_faults w1" "w_minted w' = Suc (w_minted w1)"
    "set (w_faults w') \<subseteq> set (w_faults w1)"
    using mv t1 adds_folders_clear [OF w1(2) p(2)] clear_recovery_path [OF t1 site1 i'(2)]
    by (simp_all add: quiet_def) blast+
  with archived_move [OF t1 p(1) i'(3) w1(3)] archived_same_view [OF view _ p(1)] p1 i' w1(1) moved
  show ?thesis by (auto simp: quiet_def)
qed

lemma archive_file_fails:
  assumes t: "sane (w_tree w)" and site: "site_clear (w_tree w)" and p: "ordinary p" "clear (w_tree w) p"
    and fresh: "keys_fresh S w" and run: "archive_file S p w = (Inl e, w')"
  shows "w_probe_faults w' = w_probe_faults w \<and> w_minted w \<le> w_minted w' \<and> set (w_faults w') \<subseteq> set (w_faults w)
    \<and> adds_folders (w_tree w) recovery_dir (w_tree w')"
proof -
  obtain r w1 where ready: "ready_site S w = (r, w1)" by (cases "ready_site S w")
  note w1 = ready_site_step [OF t site ready]
  show ?thesis
  proof (cases r)
    case (Some e')
    with run ready w1 show ?thesis by (auto simp: archive_file_def quiet_def)
  next
    case None
    let ?i = "se_uuid S (w_minted w1)" and ?w = "w1\<lparr>w_minted := Suc (w_minted w1)\<rparr>"
    have mv: "rename S p (recovery_path ?i) ?w = (Some e, w')"
      using run ready None by (auto simp: archive_file_def mint_def split: prod.splits option.splits)
    have t1: "sane (w_tree w1)" using w1 by (simp add: adds_folders_def)
    have site1: "site_clear (w_tree w1)"
      using site w1 adds_folders_fof [of "w_tree w" recovery_dir "w_tree w1"] by (auto simp: site_clear_def)
    have "?i \<noteq> ''..''" using fresh by (simp add: keys_fresh_def)
    from rename_step [OF _ _ _ mv] t1 adds_folders_clear [of _ recovery_dir, OF _ p(2)] w1
      clear_recovery_path [OF t1 site1 this]
    show ?thesis by (auto simp: quiet_def)
  qed
qed

end
