(* ===== verification/File_Undo.thy ===== *)
theory File_Undo
  imports File_Calls
begin

text \<open>
  Compensation on a settled world: what each undo leaves when the disk shows what its mutation left.
  The site's own folders are not compared, because the first archive makes them.
\<close>

section \<open>Removing towards the boundary\<close>

lemma remove_calm:
  assumes "calm w" "sane (w_tree w)" "clear (w_tree w) p" "p \<noteq> []"
  shows "remove_entry S p w =
    (case look (w_tree w) p of
       None \<Rightarrow> (Some ErrNotExist, w)
     | Some x \<Rightarrow>
         if is_folder x \<and> (\<exists>n. look (w_tree w) (p @ [n]) \<noteq> None) then (Some ErrNotEmpty, w)
         else (None, w\<lparr>w_tree := drop_entry p (w_tree w)\<rparr>))"
  using assms entry_clear [OF assms(2,3), of False S]
  by (auto simp: remove_entry_def has_children_iff split: option.splits)

definition removed :: "path \<Rightarrow> path \<Rightarrow> tree \<Rightarrow> tree \<Rightarrow> bool" where
  "removed b c t t' \<longleftrightarrow> sane t'
     \<and> (\<forall>k. look t' k = (if strict_prefix b k \<and> prefix k c then None else look t k))"

lemma remove_toward_chain:
  assumes "prefix b c" "calm w" "sane (w_tree w)" "clear (w_tree w) c" "folder_or_free (w_tree w) c"
    and "\<And>j n. strict_prefix b j \<Longrightarrow> prefix j c \<Longrightarrow> look (w_tree w) (j @ [n]) \<noteq> None \<Longrightarrow> prefix (j @ [n]) c"
  shows "\<exists>w'. remove_toward S b c w = ((None, True), w') \<and> calm w' \<and> w_minted w' = w_minted w
    \<and> removed b c (w_tree w) (w_tree w')"
  using assms
proof (induction c arbitrary: w rule: rev_induct)
  case Nil
  then show ?case by (auto simp: removed_def strict_prefix_def remove_toward.simps)
next
  case (snoc n c)
  show ?case
  proof (cases "b = c @ [n]")
    case True
    with snoc.prems show ?thesis
      by (auto simp: removed_def strict_prefix_def remove_toward.simps dest: prefix_order.antisym)
  next
    case False
    with snoc.prems(1) have b: "prefix b c" "strict_prefix b (c @ [n])" by (auto simp: strict_prefix_def)
    have cl: "clear (w_tree w) c" "folder_or_free (w_tree w) c"
      using clear_snoc [OF snoc.prems(4)] by simp_all
    define t where "t = (if look (w_tree w) (c @ [n]) = None then w_tree w else drop_entry (c @ [n]) (w_tree w))"
    have none: "look (w_tree w) ((c @ [n]) @ [n']) = None" for n'
    proof (rule ccontr)
      assume "look (w_tree w) ((c @ [n]) @ [n']) \<noteq> None"
      from prefix_length_le [OF snoc.prems(6) [OF b(2) _ this]] show False by simp
    qed
    have look_t: "look t k = (if k = c @ [n] then None else look (w_tree w) k)" for k
      by (auto simp: t_def)
    have sane_t: "sane t" using sane_drop [OF snoc.prems(3), of "c @ [n]"] none snoc.prems(3) by (simp add: t_def)
    have rest: "remove_toward S b (c @ [n]) w = remove_toward S b c (w\<lparr>w_tree := t\<rparr>)"
      using remove_calm [OF snoc.prems(2,3,4), of S] none False snoc.prems(5)
      by (subst remove_toward.simps) (auto simp: t_def folder_or_free_def split: option.splits)
    have "\<exists>w'. remove_toward S b c (w\<lparr>w_tree := t\<rparr>) = ((None, True), w') \<and> calm w'
        \<and> w_minted w' = w_minted (w\<lparr>w_tree := t\<rparr>) \<and> removed b c (w_tree (w\<lparr>w_tree := t\<rparr>)) (w_tree w')"
    proof (rule snoc.IH [OF b(1)])
      show "clear (w_tree (w\<lparr>w_tree := t\<rparr>)) c" "folder_or_free (w_tree (w\<lparr>w_tree := t\<rparr>)) c"
        using cl by (auto simp: clear_def folder_or_free_def look_t)
      fix j n'
      assume "strict_prefix b j" "prefix j c" "look (w_tree (w\<lparr>w_tree := t\<rparr>)) (j @ [n']) \<noteq> None"
      with snoc.prems(6) [of j n'] show "prefix (j @ [n']) c" by (auto simp: look_t split: if_splits)
    qed (use snoc.prems(2) sane_t in simp_all)
    then obtain w' where w': "remove_toward S b c (w\<lparr>w_tree := t\<rparr>) = ((None, True), w')" "calm w'"
      "w_minted w' = w_minted w" "removed b c t (w_tree w')" by auto
    have "removed b (c @ [n]) (w_tree w) (w_tree w')"
      using w'(4) b(2) unfolding removed_def look_t by auto
    with w' rest show ?thesis by auto
  qed
qed

lemma strip_common_prefix: "strip_common b (b @ r) = ([], r)"
  by (induction b) simp_all

lemma show_path_dots:
  assumes "\<forall>e \<in> set r. \<not> has_prefix e ''..''"
  shows "\<not> has_prefix (show_path False r) ''..''"
proof (cases r)
  case (Cons e es)
  then have e: "\<not> has_prefix e ''..''" using assms by simp
  have "\<not> has_prefix (e @ slash # s) ''..''" for s
    using e by (cases e; cases "tl e") auto
  with e Cons show ?thesis by (cases es) (auto simp: show_path_def)
qed (simp add: show_path_def)

lemma outside_prefix:
  assumes "\<forall>e \<in> set p. \<not> has_prefix e ''..''" "prefix b p"
  shows "\<not> outside b p"
proof -
  obtain r where "p = b @ r" using assms(2) by (auto simp: prefix_def)
  with assms(1) show_path_dots [of r] show ?thesis
    by (simp add: outside_def rel_elements_def strip_common_prefix)
qed

section \<open>Views\<close>

text \<open>A world that shows what a tree shows: settled, with a sound tree of the same view.\<close>

definition shows_tree :: "world \<Rightarrow> tree \<Rightarrow> bool" where
  "shows_tree w t \<longleftrightarrow> calm w \<and> sane (w_tree w) \<and> same_view t (w_tree w)"

lemma shows_look: "shows_tree w t \<Longrightarrow> \<not> scaffold k \<Longrightarrow> look (w_tree w) k = look t k"
  by (simp add: shows_tree_def same_view_def)

lemma ordinary_prefix: "ordinary p \<Longrightarrow> prefix q p \<Longrightarrow> q \<noteq> [] \<Longrightarrow> ordinary q"
  by (auto simp: ordinary_def prefix_def)

lemma not_scaffold_root [simp]: "\<not> scaffold []"
  by (simp add: scaffold_def recovery_dir_def)

lemma shows_fof: "shows_tree w t \<Longrightarrow> \<not> scaffold k \<Longrightarrow> folder_or_free (w_tree w) k = folder_or_free t k"
  by (simp add: folder_or_free_def shows_look)

lemma shows_clear: "shows_tree w t \<Longrightarrow> ordinary p \<Longrightarrow> clear (w_tree w) p = clear t p"
  using ordinary_apart(4) [of p] by (auto simp: clear_def shows_fof strict_prefix_def)

text \<open>A tree that differs from another at a path, where there is no folder, and on the way from a
  boundary down to the path's parent, where it may have made folders.\<close>

definition grown :: "path \<Rightarrow> path \<Rightarrow> tree \<Rightarrow> tree \<Rightarrow> bool" where
  "grown b p t t' \<longleftrightarrow> prefix b (butlast p) \<and> look t p = None
     \<and> (\<forall>k. strict_prefix b k \<and> prefix k (butlast p) \<longrightarrow> look t k = None \<and> folder_or_free t' k)
     \<and> (\<forall>x. look t' p = Some x \<longrightarrow> \<not> is_folder x)
     \<and> (\<forall>k. k \<noteq> p \<and> \<not> (strict_prefix b k \<and> prefix k (butlast p)) \<longrightarrow> look t' k = look t k)"

lemma strict_prefix_butlast: "p \<noteq> [] \<Longrightarrow> strict_prefix q p \<longleftrightarrow> prefix q (butlast p)"
  by (cases p rule: rev_cases) (auto simp: strict_prefix_def)

lemma grown_clear:
  assumes "grown b p t t'" "clear t p" "p \<noteq> []"
  shows "clear t' p"
  unfolding clear_def
proof (intro conjI allI impI)
  show "''..'' \<notin> set p" using assms(2) by (simp add: clear_def)
  fix q
  assume q: "strict_prefix q p"
  then have "q \<noteq> p" by (simp add: strict_prefix_def)
  with assms(1) clear_strict [OF assms(2) q] show "folder_or_free t' q"
    unfolding grown_def folder_or_free_def by (cases "strict_prefix b q \<and> prefix q (butlast p)") auto
qed

definition grown_dir :: "path \<Rightarrow> path \<Rightarrow> tree \<Rightarrow> tree \<Rightarrow> bool" where
  "grown_dir b c t t' \<longleftrightarrow> prefix b c
     \<and> (\<forall>k. strict_prefix b k \<and> prefix k c \<longrightarrow> look t k = None \<and> folder_or_free t' k)
     \<and> (\<forall>k. \<not> (strict_prefix b k \<and> prefix k c) \<longrightarrow> look t' k = look t k)"

lemma grown_dir_fof: "grown_dir b c t t' \<Longrightarrow> folder_or_free t k \<Longrightarrow> folder_or_free t' k"
  by (cases "strict_prefix b k \<and> prefix k c") (auto simp: grown_dir_def folder_or_free_def)

lemma remove_toward_undo:
  assumes c: "c \<noteq> [] \<Longrightarrow> ordinary c" "clear t c" "folder_or_free t c" and t: "sane t"
    and g: "grown_dir b c t t'" and w: "shows_tree w t'"
  shows "\<exists>w'. remove_toward S b c w = ((None, True), w') \<and> shows_tree w' t \<and> w_minted w' = w_minted w"
proof -
  have cw: "calm w" "sane (w_tree w)" using w by (simp_all add: shows_tree_def)
  have fof: "folder_or_free (w_tree w) k" if "prefix k c" "folder_or_free t k" for k
    using that c(1) ordinary_apart(4) [of c k] grown_dir_fof [OF g that(2)] shows_fof [OF w, of k]
    by (cases "c = []") auto
  have cl: "clear (w_tree w) c"
    using c(2) fof by (auto simp: clear_def strict_prefix_def)
  have only: "prefix (j @ [n]) c"
    if "strict_prefix b j" "prefix j c" "look (w_tree w) (j @ [n]) \<noteq> None" for j n
  proof (rule ccontr)
    assume "\<not> prefix (j @ [n]) c"
    with g have "look t' (j @ [n]) = look t (j @ [n])" by (simp add: grown_dir_def)
    moreover have "look t j = None" using g that(1,2) by (simp add: grown_dir_def)
    moreover have "j \<noteq> []" "c \<noteq> []" using that(1,2) by auto
    ultimately show False
      using sane_free_below [OF t, of j "j @ [n]"] that(3) shows_look [OF w, of "j @ [n]"]
        ordinary_apart(5) [OF ordinary_prefix [OF c(1) that(2)], of "j @ [n]"] by simp
  qed
  have chain: "prefix b c" using g by (simp add: grown_dir_def)
  from remove_toward_chain [OF chain cw cl fof [OF _ c(3)] only, of S] obtain w' where w':
    "remove_toward S b c w = ((None, True), w')" "calm w'" "w_minted w' = w_minted w"
    "removed b c (w_tree w) (w_tree w')" by auto
  have "same_view t (w_tree w')"
    using w'(4) g shows_look [OF w] by (auto simp: removed_def same_view_def grown_dir_def)
  with w' show ?thesis by (auto simp: shows_tree_def removed_def)
qed

text \<open>Removing what stands at a path, unless it is a folder.\<close>

lemma remove_standing:
  assumes "calm w" "sane (w_tree w)" "clear (w_tree w) p" "p \<noteq> []"
    and nf: "\<And>x. look (w_tree w) p = Some x \<Longrightarrow> \<not> is_folder x"
  shows "\<exists>e w1. remove_entry S p w = (e, w1) \<and> (e = None \<or> e = Some ErrNotExist) \<and> calm w1
    \<and> w_minted w1 = w_minted w \<and> sane (w_tree w1) \<and> look (w_tree w1) = (look (w_tree w))(p := None)"
proof (cases "look (w_tree w) p")
  case None
  with assms remove_calm [OF assms(1-4), of S] show ?thesis by (auto simp: fun_upd_idem)
next
  case (Some x)
  have "look (w_tree w) (p @ [n]) = None" for n
    using sane_not_folder_below [OF assms(2) Some nf [OF Some]] by (simp add: strict_prefix_def)
  with Some assms remove_calm [OF assms(1-4), of S] sane_drop [OF assms(2,4)] nf [OF Some] show ?thesis by simp
qed

theorem undo_create:
  assumes p: "ordinary p" "clear t p" and g: "grown b p t t'" and w: "shows_tree w t'"
    and t: "sane t"
  shows "\<exists>w'. compensate_write S (with_boundary b (new_receipt MutationCreateFile p)) w = (None, w')
    \<and> shows_tree w' t \<and> w_minted w' = w_minted w"
proof -
  have ne: "p \<noteq> []" and cw: "calm w" "sane (w_tree w)" using p(1) w by (auto simp: ordinary_def shows_tree_def)
  have cl: "clear (w_tree w) p" using shows_clear [OF w p(1)] grown_clear [OF g p(2) ne] by simp
  have look_p: "look (w_tree w) p = look t' p" using shows_look [OF w] ordinary_apart(7) [OF p(1)] by simp
  with g remove_standing [OF cw cl ne, of S] obtain e w1 where rm: "remove_entry S p w = (e, w1)"
    "e = None \<or> e = Some ErrNotExist" "calm w1" "w_minted w1 = w_minted w" "sane (w_tree w1)"
    "look (w_tree w1) = (look (w_tree w))(p := None)"
    by (auto simp: grown_def)
  have w1: "shows_tree w1 (drop_entry p t')"
    using rm shows_look [OF w] by (simp add: shows_tree_def same_view_def)
  have gd: "grown_dir b (butlast p) t (drop_entry p t')"
    using g by (auto simp: grown_def grown_dir_def folder_or_free_def)
  have "\<exists>w2. remove_toward S b (butlast p) w1 = ((None, True), w2) \<and> shows_tree w2 t \<and> w_minted w2 = w_minted w1"
  proof (rule remove_toward_undo [OF _ _ _ t gd w1])
    show "ordinary (butlast p)" if "butlast p \<noteq> []" by (rule ordinary_prefix [OF p(1) prefixeq_butlast that])
    show "clear t (butlast p)" "folder_or_free t (butlast p)"
      using clear_butlast [OF p(2)] clear_strict [OF p(2), of "butlast p"] ne by (simp_all add: strict_prefix_butlast)
  qed
  then obtain w2 where w2: "remove_toward S b (butlast p) w1 = ((None, True), w2)" "shows_tree w2 t"
    "w_minted w2 = w_minted w1" by blast
  have "\<forall>e \<in> set (butlast p). \<not> has_prefix e ''..''" using p(1) by (auto simp: ordinary_def dest: in_set_butlastD)
  from outside_prefix [OF this, of b] g w2 rm
  have "compensate_write S (with_boundary b (new_receipt MutationCreateFile p)) w = (None, w2)"
    by (auto simp: grown_def compensate_write_def with_boundary_def new_receipt_def restore_if_archived_def
        prune_toward_boundary_def)
  with w2 rm show ?thesis by auto
qed

text \<open>Something stands in the place of the archived entry, or nothing does.\<close>

definition replaced :: "path \<Rightarrow> string \<Rightarrow> tree \<Rightarrow> tree \<Rightarrow> bool" where
  "replaced p i t t' \<longleftrightarrow> (\<forall>x. look t' p = Some x \<longrightarrow> \<not> is_folder x)
     \<and> (\<forall>k. \<not> scaffold k \<and> k \<noteq> p \<longrightarrow> look t' k =
          (if prefix (recovery_path i) k then look t (p @ drop (length (recovery_path i)) k)
           else if prefix p k then None else look t k))"

lemma archived_replaced: "archived p i t t' \<Longrightarrow> ordinary p \<Longrightarrow> replaced p i t t'"
  using ordinary_apart(2,7) [of p] by (auto simp: archived_def replaced_def)

lemma site_clear_folder: "sane t \<Longrightarrow> look t recovery_dir = Some (Folder m w) \<Longrightarrow> site_clear t"
  using sane_parent [of t "[''.devlore'']" "''recovery''"]
  by (auto simp: site_clear_def folder_or_free_def recovery_dir_def)

lemma clear_same: "clear t p \<Longrightarrow> (\<And>q. strict_prefix q p \<Longrightarrow> look t' q = look t q) \<Longrightarrow> clear t' p"
  by (simp add: clear_def folder_or_free_def)

lemma above_apart:
  assumes "ordinary p" "strict_prefix q p"
  shows "\<not> scaffold q \<and> q \<noteq> p \<and> \<not> prefix p q \<and> \<not> prefix (recovery_path i) q"
  using assms ordinary_apart(4) [OF assms(1), of q] ordinary_apart(2) [OF assms(1), of i]
    prefix_order.trans [of "recovery_path i" q p]
  by (auto simp: strict_prefix_def)

text \<open>Bringing an archived entry back to its path, which is free again.\<close>

lemma restore_calm:
  assumes p: "ordinary p" "clear t p" "look t p = Some x" and t: "sane t" and i: "i \<noteq> []" "i \<noteq> ''..''"
    and fresh: "look t (recovery_path i) = None"
    and w: "calm w" "sane (w_tree w)" "look (w_tree w) recovery_dir = Some (Folder m o')"
    and view: "\<And>k. \<not> scaffold k \<Longrightarrow> look (w_tree w) k =
      (if prefix (recovery_path i) k then look t (p @ drop (length (recovery_path i)) k)
       else if prefix p k then None else look t k)"
  shows "\<exists>w'. restore_file S p i w = (None, w') \<and> shows_tree w' t \<and> w_minted w' = w_minted w"
proof -
  note apart = ordinary_apart(1,2) [OF p(1), of i]
  have ne: "p \<noteq> []" using p(1) by (simp add: ordinary_def)
  have cl: "clear (w_tree w) p"
    by (rule clear_same [OF p(2)]) (use above_apart [OF p(1)] view in simp)
  have site: "clear (w_tree w) (recovery_path i)"
    by (rule clear_recovery_path [OF w(2) site_clear_folder [OF w(2,3)] i(2)])
  have there: "look (w_tree w) (recovery_path i) = Some x" using view [of "recovery_path i"] p(3) by simp
  obtain m' o'' where up: "look t (butlast p) = Some (Folder m' o'')" using look_up [OF t p(3) ne] by blast
  have parent: "look (w_tree w) (butlast p) = Some (Folder m' o'')"
    using view [of "butlast p"] ordinary_apart(4) [OF p(1), of "butlast p"] up not_prefix_butlast [OF ne]
      prefix_order.trans [of "recovery_path i" "butlast p" p] apart(2)
    by (auto simp: prefixeq_butlast)
  have free: "look (w_tree w) p = None" using view [of p] ordinary_apart(7) [OF p(1)] apart by simp
  have dots: "''..'' \<notin> set (butlast p)" using ordinary_apart(6) [OF p(1)] by (auto dest: in_set_butlastD)
  have "rename S (recovery_path i) p w = (None, w\<lparr>w_tree := move_tree (recovery_path i) p (w_tree w)\<rparr>)"
    by (rule rename_calm [OF w(1,2) site cl _ there _ parent])
      (use apart ne free in \<open>auto intro: rename_refusal_free\<close>)
  then have run: "restore_file S p i w = (None, w\<lparr>w_tree := move_tree (recovery_path i) p (w_tree w)\<rparr>)"
    using i lstat_answered [OF calm_answered [OF w(1)] w(2) site] there mkdir_all_there [OF w(2) dots parent w(1)]
    by (simp add: restore_file_def)
  have look: "look (move_tree (recovery_path i) p (w_tree w)) k =
      (if prefix p k then look (w_tree w) (recovery_path i @ drop (length p) k)
       else if prefix (recovery_path i) k then None else look (w_tree w) k)" for k
    by (rule look_move) (use apart sane_free_below [OF w(2) free] in \<open>auto simp: strict_prefix_def\<close>)
  have "same_view t (move_tree (recovery_path i) p (w_tree w))"
    unfolding same_view_def look
  proof (intro allI impI)
    fix k
    assume k: "\<not> scaffold k"
    show "(if prefix p k then look (w_tree w) (recovery_path i @ drop (length p) k)
        else if prefix (recovery_path i) k then None else look (w_tree w) k) = look t k"
    proof (cases "prefix p k")
      case True
      then obtain r where r: "k = p @ r" by (auto simp: prefix_def)
      have "\<not> scaffold (recovery_path i @ r)" by (auto simp: scaffold_def recovery_path_def recovery_dir_def)
      with view [of "recovery_path i @ r"] True r show ?thesis by simp
    next
      case False
      with view [OF k] k sane_free_below [OF t fresh, of k] show ?thesis by auto
    qed
  qed
  moreover have "sane (move_tree (recovery_path i) p (w_tree w))"
    by (rule sane_move [OF w(2) free parent ne]) (use apart in auto)
  ultimately show ?thesis using run w(1) by (simp add: shows_tree_def)
qed

theorem undo_update:
  assumes p: "ordinary p" "clear t p" "look t p = Some x" and t: "sane t" and i: "i \<noteq> []" "i \<noteq> ''..''"
    and fresh: "look t (recovery_path i) = None" and g: "replaced p i t t'" and w: "shows_tree w t'"
    and rc: "fr_path rc = p" "fr_recovery rc = Some i" "fr_boundary rc = None"
  shows "\<exists>w'. compensate_write S rc w = (None, w') \<and> shows_tree w' t \<and> w_minted w' = w_minted w"
proof -
  have ne: "p \<noteq> []" and cw: "calm w" "sane (w_tree w)" using p(1) w by (auto simp: ordinary_def shows_tree_def)
  note apart = ordinary_apart(1,2) [OF p(1), of i]
  have view: "look (w_tree w) k = (if prefix (recovery_path i) k then look t (p @ drop (length (recovery_path i)) k)
      else if prefix p k then None else look t k)" if "\<not> scaffold k" "k \<noteq> p" for k
    using g shows_look [OF w that(1)] that by (simp add: replaced_def)
  have cl: "clear (w_tree w) p"
    by (rule clear_same [OF p(2)]) (use above_apart [OF p(1)] view in simp)
  have nf: "\<not> is_folder y" if "look (w_tree w) p = Some y" for y
    using g shows_look [OF w ordinary_apart(7) [OF p(1)]] that by (simp add: replaced_def)
  from remove_standing [OF cw cl ne nf, of S] obtain e w1 where rm: "remove_entry S p w = (e, w1)"
    "e = None \<or> e = Some ErrNotExist" "calm w1" "w_minted w1 = w_minted w" "sane (w_tree w1)"
    "look (w_tree w1) = (look (w_tree w))(p := None)"
    by auto
  have "recovery_path i \<noteq> p" using apart(1) by auto
  then have "look (w_tree w1) (recovery_dir @ [i]) = Some x"
    using view [of "recovery_path i"] p(3) by (simp add: rm(6) flip: recovery_path_def)
  from sane_parent [OF rm(5) this] obtain m o' where dir: "look (w_tree w1) recovery_dir = Some (Folder m o')"
    by blast
  have view1: "look (w_tree w1) k = (if prefix (recovery_path i) k then look t (p @ drop (length (recovery_path i)) k)
      else if prefix p k then None else look t k)" if "\<not> scaffold k" for k
    using view [OF that] apart by (auto simp: rm(6))
  from restore_calm [OF p t i fresh rm(3,5) dir view1, of S] obtain w2 where
    "restore_file S p i w1 = (None, w2)" "shows_tree w2 t" "w_minted w2 = w_minted w1" by auto
  with rm rc show ?thesis by (auto simp: compensate_write_def restore_if_archived_def)
qed

section \<open>Directories\<close>

lemma archived_parts:
  assumes "archived p i t t1" "ordinary p" "look t p = Some x"
  shows "look t1 (recovery_path i) = Some x" "look t1 p = None"
    "\<And>q. strict_prefix q p \<Longrightarrow> look t1 q = look t q"
  using assms ordinary_apart(2) [OF assms(2), of i] ordinary_apart(7) [OF assms(2)] above_apart [OF assms(2)]
  by (simp_all add: archived_def)

text \<open>Restoring on a world that shows the tree with the entry archived.\<close>

lemma restore_shown:
  assumes p: "ordinary p" "clear t p" "look t p = Some x" and t: "sane t" and i: "i \<noteq> []" "i \<noteq> ''..''"
    and fresh: "look t (recovery_path i) = None" and a: "archived p i t t1" and w: "shows_tree w t1"
  shows "\<exists>w'. restore_file S p i w = (None, w') \<and> shows_tree w' t \<and> w_minted w' = w_minted w"
proof -
  have cw: "calm w" "sane (w_tree w)" using w by (simp_all add: shows_tree_def)
  have "look (w_tree w) (recovery_path i) = Some x"
    using shows_look [OF w] archived_parts(1) [OF a p(1,3)] by simp
  then have "look (w_tree w) (recovery_dir @ [i]) = Some x" by (simp only: recovery_path_def)
  from sane_parent [OF cw(2) this] obtain m o' where dir: "look (w_tree w) recovery_dir = Some (Folder m o')"
    by blast
  show ?thesis
    by (rule restore_calm [OF p t i fresh cw dir])
      (use shows_look [OF w] a in \<open>simp add: archived_def\<close>)
qed

theorem undo_mkdir:
  assumes p: "ordinary p" "clear t1 p" "look t1 p = None" and t1: "sane t1"
    and g: "grown_dir b p t1 t'" and w: "shows_tree w t'"
    and rc: "fr_path rc = p" "fr_boundary rc = Some b"
    and r: "case fr_recovery rc of
        None \<Rightarrow> same_view t t1
      | Some i \<Rightarrow> archived p i t t1 \<and> sane t \<and> clear t p \<and> look t p \<noteq> None
                  \<and> look t (recovery_path i) = None \<and> i \<noteq> [] \<and> i \<noteq> ''..''"
  shows "\<exists>w'. compensate_make_dir S rc w = (None, w') \<and> shows_tree w' t \<and> w_minted w' = w_minted w"
proof -
  have "folder_or_free t1 p" using p(3) by (simp add: folder_or_free_def)
  from remove_toward_undo [OF _ p(2) this t1 g w, of S] p(1) obtain w1 where w1:
    "remove_toward S b p w = ((None, True), w1)" "shows_tree w1 t1" "w_minted w1 = w_minted w" by auto
  have out: "\<not> outside b p"
    by (rule outside_prefix) (use p(1) g in \<open>auto simp: ordinary_def grown_dir_def\<close>)
  show ?thesis
  proof (cases "fr_recovery rc")
    case None
    with r w1(2) have "shows_tree w1 t" by (simp add: shows_tree_def same_view_def)
    with out w1 rc None show ?thesis by (simp add: compensate_make_dir_def restore_if_archived_def)
  next
    case (Some i)
    with r obtain x where x: "archived p i t t1" "sane t" "clear t p" "look t p = Some x"
      "look t (recovery_path i) = None" "i \<noteq> []" "i \<noteq> ''..''" by auto
    from restore_shown [OF p(1) x(3,4,2,6,7,5,1) w1(2), of S] obtain w2 where
      "restore_file S p i w1 = (None, w2)" "shows_tree w2 t" "w_minted w2 = w_minted w1" by blast
    with out w1 rc Some show ?thesis by (simp add: compensate_make_dir_def restore_if_archived_def)
  qed
qed

section \<open>Moves\<close>

definition moved :: "path \<Rightarrow> path \<Rightarrow> tree \<Rightarrow> tree \<Rightarrow> bool" where
  "moved s p t t' \<longleftrightarrow> (\<forall>k. \<not> scaffold k \<longrightarrow> look t' k =
     (if prefix p k then look t (s @ drop (length p) k) else if prefix s k then None else look t k))"

lemma move_back:
  assumes p: "ordinary p" "clear t p" "look t p = None" and s: "ordinary s" "clear t s" "look t s = Some x"
    and apart: "\<not> prefix s p" "\<not> prefix p s" and t: "sane t" and m: "moved s p t t'" and w: "shows_tree w t'"
  shows "\<exists>w'. rename S p s w = (None, w') \<and> shows_tree w' t \<and> w_minted w' = w_minted w"
proof -
  have ne: "p \<noteq> []" "s \<noteq> []" and cw: "calm w" "sane (w_tree w)"
    using p(1) s(1) w by (auto simp: ordinary_def shows_tree_def)
  have view: "look (w_tree w) k = (if prefix p k then look t (s @ drop (length p) k)
      else if prefix s k then None else look t k)" if "\<not> scaffold k" for k
    using shows_look [OF w that] m that by (simp add: moved_def)
  have cp: "clear (w_tree w) p"
  proof (unfold clear_def, intro conjI allI impI)
    show "''..'' \<notin> set p" by (rule ordinary_apart(6) [OF p(1)])
    fix q assume q: "strict_prefix q p"
    with view [of q] above_apart [OF p(1) q] clear_strict [OF p(2) q]
    show "folder_or_free (w_tree w) q" by (simp add: folder_or_free_def)
  qed
  have up: "look (w_tree w) q = look t q" if "strict_prefix q s" for q
    using view [of q] above_apart [OF s(1) that] that apart(2) prefix_order.trans [of p q s]
    by (auto simp: strict_prefix_def)
  have cs: "clear (w_tree w) s" by (rule clear_same [OF s(2) up])
  obtain m' o' where "look t (butlast s) = Some (Folder m' o')" using look_up [OF t s(3) ne(2)] by blast
  with up [of "butlast s"] have parent: "look (w_tree w) (butlast s) = Some (Folder m' o')"
    using ne(2) by (simp add: strict_prefix_butlast)
  have there: "look (w_tree w) p = Some x" using view [OF ordinary_apart(7) [OF p(1)]] s(3) by simp
  have free: "look (w_tree w) s = None" using view [OF ordinary_apart(7) [OF s(1)]] apart(2) by simp
  have run: "rename S p s w = (None, w\<lparr>w_tree := move_tree p s (w_tree w)\<rparr>)"
    by (rule rename_calm [OF cw cp cs _ there _ parent]) (use apart ne free in \<open>auto intro: rename_refusal_free\<close>)
  have look: "look (move_tree p s (w_tree w)) k =
      (if prefix s k then look (w_tree w) (p @ drop (length s) k) else if prefix p k then None else look (w_tree w) k)" for k
    by (rule look_move) (use apart sane_free_below [OF cw(2) free] in \<open>auto simp: strict_prefix_def\<close>)
  have "same_view t (move_tree p s (w_tree w))"
    unfolding same_view_def look
  proof (intro allI impI)
    fix k assume k: "\<not> scaffold k"
    show "(if prefix s k then look (w_tree w) (p @ drop (length s) k) else if prefix p k then None
        else look (w_tree w) k) = look t k"
    proof (cases "prefix s k")
      case True
      then obtain r where r: "k = s @ r" by (auto simp: prefix_def)
      with view [of "p @ r"] ordinary_apart(5) [OF p(1), of "p @ r"] True show ?thesis by simp
    next
      case False
      with view [OF k] sane_free_below [OF t p(3), of k] show ?thesis by auto
    qed
  qed
  moreover have "sane (move_tree p s (w_tree w))"
    by (rule sane_move [OF cw(2) free parent ne(2)]) (use apart in auto)
  ultimately show ?thesis using run cw(1) by (simp add: shows_tree_def)
qed

lemma digest_taken:
  assumes "pre_archive_digest S p w = (Some d, w')" "sane (w_tree w)" "clear (w_tree w) p"
    and "\<And>s. look (w_tree w) p \<noteq> Some (Symlink s)"
  shows "\<exists>c m o'. look (w_tree w) p = Some (Plain c m o')
    \<and> parse_digest (''sha256:'' @ hex_encode (se_sha256 S c)) = Inr d"
  using assms(1) entry_clear [OF assms(2,3), of True S] assms(4)
  by (auto simp: pre_archive_digest_def checksum_file_def read_file_def
      split: prod.splits sum.splits option.splits entry.splits if_splits dest!: next_fault_frame)

lemma verify_archive_calm:
  assumes "calm w" "sane (w_tree w)" "clear (w_tree w) (recovery_path i)"
    and "look (w_tree w) (recovery_path i) = Some x"
    and "\<And>d'. d = Some d' \<Longrightarrow> \<exists>c m o'. x = Plain c m o' \<and> parse_digest (''sha256:'' @ hex_encode (se_sha256 S c)) = Inr d'"
  shows "verify_archive S i d w = (None, w)"
proof (cases d)
  case (Some d')
  with assms(5) obtain c m o' where x: "x = Plain c m o'"
    "parse_digest (''sha256:'' @ hex_encode (se_sha256 S c)) = Inr d'" by blast
  have "entry_at S (w_tree w) True (recovery_path i) = Inr (recovery_path i, Plain c m o')"
    using entry_clear [OF assms(2,3), of True S] assms(4) x(1) by simp
  with assms(1) have "read_file S (recovery_path i) w = (Inr c, w)" by (simp add: read_file_def)
  with Some x(2) show ?thesis by (simp add: verify_archive_def checksum_file_def digest_equal_def list_all_iff)
qed (simp add: verify_archive_def)

theorem undo_move:
  assumes p: "ordinary p" "clear t1 p" "look t1 p = None" and s: "ordinary s" "clear t1 s" "look t1 s = Some x"
    and apart: "\<not> prefix s p" "\<not> prefix p s" and t1: "sane t1" and m: "moved s p t1 t'" and w: "shows_tree w t'"
    and rc: "fr_path rc = p" "fr_source rc = Some s"
    and r: "case fr_recovery rc of
        None \<Rightarrow> same_view t t1
      | Some i \<Rightarrow> archived p i t t1 \<and> sane t \<and> clear t p \<and> look t (recovery_path i) = None \<and> i \<noteq> [] \<and> i \<noteq> ''..''
          \<and> (\<exists>y. look t p = Some y
               \<and> (\<forall>d. fr_digest rc = Some d \<longrightarrow>
                    (\<exists>c m o'. y = Plain c m o' \<and> parse_digest (''sha256:'' @ hex_encode (se_sha256 S c)) = Inr d)))"
  shows "\<exists>w'. compensate_move S rc w = (None, w') \<and> shows_tree w' t \<and> w_minted w' = w_minted w"
proof -
  from move_back [OF p s apart t1 m w, of S] obtain w1 where w1:
    "rename S p s w = (None, w1)" "shows_tree w1 t1" "w_minted w1 = w_minted w" by auto
  show ?thesis
  proof (cases "fr_recovery rc")
    case None
    with r w1(2) have "shows_tree w1 t" by (simp add: shows_tree_def same_view_def)
    with w1 rc None show ?thesis by (simp add: compensate_move_def)
  next
    case (Some i)
    with r obtain y where y: "archived p i t t1" "sane t" "clear t p" "look t (recovery_path i) = None"
      "i \<noteq> []" "i \<noteq> ''..''" "look t p = Some y"
      "\<And>d. fr_digest rc = Some d \<Longrightarrow>
        \<exists>c m o'. y = Plain c m o' \<and> parse_digest (''sha256:'' @ hex_encode (se_sha256 S c)) = Inr d"
      by auto
    have cw: "calm w1" "sane (w_tree w1)" using w1(2) by (simp_all add: shows_tree_def)
    have there: "look (w_tree w1) (recovery_path i) = Some y"
      using shows_look [OF w1(2)] archived_parts(1) [OF y(1) p(1) y(7)] by simp
    then have "look (w_tree w1) (recovery_dir @ [i]) = Some y" by (simp only: recovery_path_def)
    from sane_parent [OF cw(2) this] obtain m' o' where "look (w_tree w1) recovery_dir = Some (Folder m' o')"
      by blast
    from clear_recovery_path [OF cw(2) site_clear_folder [OF cw(2) this] y(6)]
    have "verify_archive S i (fr_digest rc) w1 = (None, w1)"
      by (rule verify_archive_calm [OF cw _ there y(8)])
    moreover from restore_shown [OF p(1) y(3,7,2,5,6,4,1) w1(2), of S] obtain w2 where
      "restore_file S p i w1 = (None, w2)" "shows_tree w2 t" "w_minted w2 = w_minted w1" by blast
    ultimately show ?thesis using w1 rc Some by (simp add: compensate_move_def)
  qed
qed

end
