(* ===== verification/File_Forward.thy ===== *)
theory File_Forward
  imports File_Undo
begin

text \<open>
  What each mutation leaves on the disk when any of its calls may fail: the stage, and the archive of
  what it displaces. A mutation starts from a ready world: its probes answer, its tree is sound, the
  recovery site can be made and its keys are fresh, and no failure to come is taken for the policy's
  skip.
\<close>

section \<open>Ready worlds\<close>

definition honest :: "world \<Rightarrow> bool" where
  "honest w \<longleftrightarrow> (\<forall>e k. Some (e, k) \<in> set (w_faults w) \<longrightarrow> \<not> err_is ErrConflictSkip e)"

lemma honest_less: "honest w \<Longrightarrow> set (w_faults w') \<subseteq> set (w_faults w) \<Longrightarrow> honest w'"
  by (auto simp: honest_def)

definition ready :: "session \<Rightarrow> world \<Rightarrow> bool" where
  "ready S w \<longleftrightarrow> answered w \<and> honest w \<and> sane (w_tree w) \<and> site_clear (w_tree w) \<and> keys_fresh S w"

definition aim :: "tree \<Rightarrow> path \<Rightarrow> bool" where
  "aim t p \<longleftrightarrow> ordinary p \<and> clear t p"

text \<open>A change at one path that leaves no folder there.\<close>

definition touches :: "path \<Rightarrow> tree \<Rightarrow> tree \<Rightarrow> bool" where
  "touches p t t' \<longleftrightarrow> sane t' \<and> (\<forall>k. k \<noteq> p \<longrightarrow> look t' k = look t k)
     \<and> (\<forall>x. look t' p = Some x \<longrightarrow> \<not> is_folder x)"

lemma touches_trans: "touches p t t1 \<Longrightarrow> touches p t1 t2 \<Longrightarrow> touches p t t2"
  by (simp add: touches_def)

lemma ready_quiet: "ready S w \<Longrightarrow> quiet w w' \<Longrightarrow> w_tree w' = w_tree w \<Longrightarrow> ready S w'"
  by (auto simp: ready_def quiet_def answered_def keys_fresh_def intro: honest_less)

lemma recovery_path_inj: "prefix (recovery_path i) (recovery_path j) \<longleftrightarrow> i = j"
  by (simp add: recovery_path_def)

lemma ready_same_site:
  assumes "ready S w" "quiet w w'" "sane (w_tree w')" "ordinary p"
    and "\<And>k. \<not> prefix p k \<Longrightarrow> \<not> prefix k p \<Longrightarrow> look (w_tree w') k = look (w_tree w) k"
  shows "ready S w'"
proof -
  have same: "look (w_tree w') k = look (w_tree w) k" if "k \<noteq> []" "scaffold k \<or> (\<exists>i. k = recovery_path i)" for k
    using assms(5) [of k] that ordinary_apart(1,2,4,5) [OF assms(4)] by blast
  have "[''.devlore''] \<noteq> []" "scaffold [''.devlore'']" "scaffold recovery_dir" by (simp_all add: scaffold_def)
  with same [of "[''.devlore'']"] same [of recovery_dir] assms(1-3)
  have "look (w_tree w') [''.devlore''] = look (w_tree w) [''.devlore'']"
    "look (w_tree w') recovery_dir = look (w_tree w) recovery_dir"
    "\<And>i. look (w_tree w') (recovery_path i) = look (w_tree w) (recovery_path i)"
    using same [of "recovery_path i" for i] by auto
  moreover have "honest w'" using assms(1,2) honest_less [of w w'] by (simp add: ready_def quiet_def)
  ultimately show ?thesis using assms(1-3)
    by (simp add: ready_def quiet_def answered_def keys_fresh_def site_clear_def folder_or_free_def)
qed

lemma ready_touches:
  "ready S w \<Longrightarrow> quiet w w' \<Longrightarrow> ordinary p \<Longrightarrow> touches p (w_tree w) (w_tree w') \<Longrightarrow> ready S w'"
  by (rule ready_same_site [of S w w' p]) (auto simp: touches_def)

lemma ready_adds:
  "ready S w \<Longrightarrow> quiet w w' \<Longrightarrow> ordinary p \<Longrightarrow> prefix q p \<Longrightarrow> adds_folders (w_tree w) q (w_tree w') \<Longrightarrow> ready S w'"
  by (rule ready_same_site [of S w w' p]) (auto simp: adds_folders_def dest: prefix_order.trans)

lemma ready_archived:
  assumes "ready S w" "w_probe_faults w' = w_probe_faults w" "w_minted w' = Suc (w_minted w)"
    and "archived p (se_uuid S (w_minted w)) (w_tree w) (w_tree w')" "sane (w_tree w')" "ordinary p"
    and "set (w_faults w') \<subseteq> set (w_faults w)"
  shows "ready S w'"
proof -
  have "look (w_tree w') (recovery_path (se_uuid S n)) = None" if "n \<ge> Suc (w_minted w)" for n
  proof -
    have "se_uuid S (w_minted w) \<noteq> se_uuid S n"
      using assms(1) that by (auto simp: ready_def keys_fresh_def dest: injD)
    with assms(1,4) that ordinary_apart(1) [OF assms(6)] show ?thesis
      by (simp add: archived_def recovery_path_inj ready_def keys_fresh_def)
  qed
  moreover have "site_clear (w_tree w')"
    using assms(4,5) site_clear_folder by (auto simp: archived_def)
  ultimately show ?thesis using assms(1-3,5) honest_less [OF _ assms(7)]
    by (simp add: ready_def answered_def keys_fresh_def)
qed

section \<open>Staging\<close>

lemma clear_fof_prefix: "clear t p \<Longrightarrow> p \<noteq> [] \<Longrightarrow> prefix k (butlast p) \<Longrightarrow> folder_or_free t k"
  using clear_strict [of t p k] by (simp add: strict_prefix_butlast)

lemma grown_chain:
  assumes t: "sane t" "look t p = None" "p \<noteq> []" and b: "prefix b (butlast p)" "look t b = Some x"
    and free: "\<forall>k. strict_prefix b k \<and> prefix k (butlast p) \<longrightarrow> look t k = None"
    and a: "adds_folders t (butlast p) t'"
  shows "grown b p t t' \<and> look t' p = None"
proof -
  have same: "look t' k = look t k" if "\<not> (strict_prefix b k \<and> prefix k (butlast p))" for k
  proof (cases "prefix k (butlast p)")
    case True
    with that b(1) have "prefix k b" using prefix_same_cases [of k "butlast p" b] by (auto simp: strict_prefix_def)
    then obtain r where r: "b = k @ r" by (auto simp: prefix_def)
    with b(2) sane_up [OF t(1), of k r x] have "look t k \<noteq> None" by (cases "r = []") auto
    with a show ?thesis by (auto simp: adds_folders_def dest: spec [of _ k])
  next
    case False
    with a show ?thesis by (auto simp: adds_folders_def dest: spec [of _ k])
  qed
  have "\<not> prefix p (butlast p)" by (rule not_prefix_butlast [OF t(3)])
  with same [of p] t(2) have p: "look t' p = None" by auto
  have "folder_or_free t' k" if "strict_prefix b k \<and> prefix k (butlast p)" for k
    using free that by (intro adds_folders_fof [OF a]) (simp add: folder_or_free_def)
  with p same b(1) free t(2) show ?thesis by (simp add: grown_def)
qed

definition staged :: "session \<Rightarrow> path \<Rightarrow> file_receipt \<Rightarrow> world \<Rightarrow> world \<Rightarrow> bool" where
  "staged S p rc w w' \<longleftrightarrow> ready S w' \<and> look (w_tree w') p = None
     \<and> (\<exists>m o'. look (w_tree w') (butlast p) = Some (Folder m o')) \<and>
     ((\<exists>b. rc = with_boundary b (new_receipt MutationCreateFile p) \<and> grown b p (w_tree w) (w_tree w')
         \<and> (\<forall>k. strict_prefix b k \<and> prefix k (butlast p) \<longrightarrow> look (w_tree w) k = None)
         \<and> look (w_tree w) b \<noteq> None)
      \<or> (\<exists>i d x. rc = with_recovery i d (new_receipt MutationUpdateFile p) \<and> i = se_uuid S (w_minted w)
         \<and> archived p i (w_tree w) (w_tree w') \<and> look (w_tree w) p = Some x
         \<and> (d \<noteq> None \<longrightarrow> (\<forall>s. x \<noteq> Symlink s) \<longrightarrow>
              (\<exists>c m o'. x = Plain c m o' \<and> parse_digest (''sha256:'' @ hex_encode (se_sha256 S c)) = Inr (the d)))))"

text \<open>The archive of what stands at a path, and what was hashed of it.\<close>

lemma archive_and_prune_step:
  assumes w: "ready S w" and p: "aim (w_tree w) p"
    and run: "archive_and_prune S p False bd w = (Inr (i, d), w')"
  shows "ready S w' \<and> i = se_uuid S (w_minted w) \<and> archived p i (w_tree w) (w_tree w')
    \<and> (\<exists>x. look (w_tree w) p = Some x \<and> (d \<noteq> None \<longrightarrow> (\<forall>s. x \<noteq> Symlink s) \<longrightarrow>
         (\<exists>c m o'. x = Plain c m o' \<and> parse_digest (''sha256:'' @ hex_encode (se_sha256 S c)) = Inr (the d))))"
proof -
  obtain w1 where d: "pre_archive_digest S p w = (d, w1)" and a: "archive_file S p w1 = (Inr i, w')"
    using run by (auto simp: archive_and_prune_def prune_empty_parents_def split: prod.splits sum.splits)
  have p': "ordinary p" "clear (w_tree w) p" using p by (simp_all add: aim_def)
  from digest_frame [OF d] have w1: "quiet w w1" "w_tree w1 = w_tree w" by simp_all
  have r1: "ready S w1" by (rule ready_quiet [OF w w1])
  then have "sane (w_tree w1)" "site_clear (w_tree w1)" "keys_fresh S w1" by (simp_all add: ready_def)
  from archive_file_step [OF this(1,2) p'(1) _ this(3) a] p'(2) w1
  have step: "w_probe_faults w' = w_probe_faults w1" "w_minted w' = Suc (w_minted w1)" "i = se_uuid S (w_minted w1)"
    "set (w_faults w') \<subseteq> set (w_faults w1)" "look (w_tree w1) p \<noteq> None" "archived p i (w_tree w1) (w_tree w')" "sane (w_tree w')" by auto
  have "ready S w'" using ready_archived [OF r1 step(1,2) _ step(7) p'(1) step(4)] step(3,6) by simp
  moreover have "sane (w_tree w)" using w by (simp add: ready_def)
  moreover have "i = se_uuid S (w_minted w)" "archived p i (w_tree w) (w_tree w')"
    using step(3,6) w1 by (simp_all add: quiet_def)
  moreover obtain x where "look (w_tree w) p = Some x" using step(5) w1(2) by auto
  ultimately show ?thesis using digest_taken [of S p w _ w1] d p'(2) by auto
qed

lemma archived_free:
  assumes "archived p i t t'" "sane t" "ordinary p" "look t p = Some x"
  shows "look t' p = None \<and> (\<exists>m o'. look t' (butlast p) = Some (Folder m o'))"
proof -
  have "p \<noteq> []" using assms(3) by (simp add: ordinary_def)
  with archived_parts [OF assms(1,3,4)] look_up [OF assms(2,4)] show ?thesis
    by (simp add: strict_prefix_butlast)
qed

lemma ready_sane: "ready S w \<Longrightarrow> sane (w_tree w)" "ready S w \<Longrightarrow> answered w"
  by (simp_all add: ready_def)

text \<open>Below the closest existing folder the missing folders of a parent are made, or some of them.\<close>

lemma make_parent_step:
  assumes w: "ready S w" and p: "aim (w_tree w) p" and free: "look (w_tree w) p = None"
    and f: "find_closest_existing_dir S (butlast p) w = (Inr ((r, b), x), w1)"
    and m: "mkdir_all S (butlast p) perm w1 = (err, w2)"
  shows "ready S w2 \<and> grown b p (w_tree w) (w_tree w2) \<and> look (w_tree w2) p = None
    \<and> (\<forall>k. strict_prefix b k \<and> prefix k (butlast p) \<longrightarrow> look (w_tree w) k = None) \<and> look (w_tree w) b \<noteq> None
    \<and> (err = None \<longrightarrow> (\<exists>m o'. look (w_tree w2) (butlast p) = Some (Folder m o')))"
proof -
  have p': "ordinary p" "clear (w_tree w) p" "p \<noteq> []" using p by (simp_all add: aim_def ordinary_def)
  have dots: "''..'' \<notin> set (butlast p)" using ordinary_apart(6) [OF p'(1)] by (auto dest: in_set_butlastD)
  note fof = clear_fof_prefix [OF p'(2,3)]
  from find_closest_answered [OF ready_sane(2,1) [OF w] dots fof f]
  have b: "quiet w w1" "w_tree w1 = w_tree w" "prefix b (butlast p)" "look (w_tree w) b = Some x"
    "\<forall>k. strict_prefix b k \<and> prefix k (butlast p) \<longrightarrow> look (w_tree w) k = None" by simp_all
  have r1: "ready S w1" by (rule ready_quiet [OF w b(1,2)])
  from mkdir_all_step [OF ready_sane(1) [OF r1] dots _ m] fof b(2)
  have mk: "quiet w1 w2" "adds_folders (w_tree w) (butlast p) (w_tree w2)"
    "err = None \<longrightarrow> (\<exists>m o'. look (w_tree w2) (butlast p) = Some (Folder m o'))" by auto
  have "ready S w2"
    by (rule ready_adds [OF r1 mk(1) p'(1) prefixeq_butlast]) (simp add: b(2) mk(2))
  with grown_chain [OF ready_sane(1) [OF w] free p'(3) b(3,4,5) mk(2)] mk(3) b show ?thesis by simp
qed

lemma stage_write_step:
  assumes w: "ready S w" and p: "aim (w_tree w) p" and run: "stage_write S p w = (Inr rc, w')"
  shows "staged S p rc w w'"
proof -
  have p': "ordinary p" "clear (w_tree w) p" using p by (simp_all add: aim_def)
  note seen = lstat_answered [OF ready_sane(2,1) [OF w] p'(2), of S]
  show ?thesis
  proof (cases "look (w_tree w) p")
    case None
    with run seen obtain r b x w1 where f: "find_closest_existing_dir S (butlast p) w = (Inr ((r, b), x), w1)"
      "mkdir_all S (butlast p) (perms 7 5 0) w1 = (None, w')" "rc = with_boundary b (new_receipt MutationCreateFile p)"
      by (auto simp: stage_write_def split: prod.splits sum.splits option.splits)
    from make_parent_step [OF w p None f(1,2)] f(3) show ?thesis by (auto simp: staged_def)
  next
    case (Some x)
    with run seen obtain w1 i d where a: "is_dir_and_not_empty S p w = (Inr False, w1)"
      "archive_and_prune S p False None w1 = (Inr (i, d), w')" "rc = with_recovery i d (new_receipt MutationUpdateFile p)"
      by (auto simp: stage_write_def split: prod.splits sum.splits option.splits conflict_policy.splits bool.splits)
    from dir_probe_frame [OF a(1)] have w1: "quiet w w1" "w_tree w1 = w_tree w" by simp_all
    from archive_and_prune_step [OF ready_quiet [OF w w1] _ a(2)] p w1
    have st: "ready S w'" "i = se_uuid S (w_minted w)" "archived p i (w_tree w) (w_tree w')"
      "d \<noteq> None \<longrightarrow> (\<forall>s. x \<noteq> Symlink s) \<longrightarrow>
         (\<exists>c m o'. x = Plain c m o' \<and> parse_digest (''sha256:'' @ hex_encode (se_sha256 S c)) = Inr (the d))"
      using Some by (auto simp: quiet_def)
    with archived_free [OF st(3) ready_sane(1) [OF w] p'(1) Some] a(3) Some show ?thesis
      by (auto simp: staged_def)
  qed
qed

end
