(* ===== verification/File_Mutations.thy ===== *)
theory File_Mutations
  imports File_Forward
begin

text \<open>
  Every mutation of the file provider is undone by its receipt, alone and in a run of mutations undone
  in reverse: whatever calls of the mutation failed, the compensation on a settled disk succeeds and
  restores what the disk showed.
\<close>

section \<open>Filling the target\<close>

lemma sane_set_leaf:
  assumes "sane t" "\<exists>m o'. look t (butlast p) = Some (Folder m o')" "p \<noteq> []"
    and "\<And>y. look t p = Some y \<Longrightarrow> \<not> is_folder y"
  shows "sane (set_entry p x t)"
  unfolding sane_def look_set
proof (intro conjI allI impI)
  show "\<exists>m w. ((look t)(p \<mapsto> x)) [] = Some (Folder m w)" using sane_root [OF assms(1)] assms(3) by simp
next
  fix q n y
  assume y: "((look t)(p \<mapsto> x)) (q @ [n]) = Some y"
  have "\<exists>m w. look t q = Some (Folder m w)"
  proof (cases "q @ [n] = p")
    case True
    with assms(2) show ?thesis by auto
  next
    case False
    with y sane_parent [OF assms(1)] show ?thesis by simp
  qed
  with assms(4) show "\<exists>m w. ((look t)(p \<mapsto> x)) q = Some (Folder m w)" by auto
qed

lemma touches_set:
  assumes "sane t" "\<exists>m o'. look t (butlast p) = Some (Folder m o')" "p \<noteq> []"
    and "\<And>y. look t p = Some y \<Longrightarrow> \<not> is_folder y" "\<not> is_folder x"
  shows "touches p t (set_entry p x t)"
  using sane_set_leaf [OF assms(1-4)] assms(5) by (simp add: touches_def)

text \<open>The place a stage leaves: free, below a folder.\<close>

definition vacant :: "tree \<Rightarrow> path \<Rightarrow> bool" where
  "vacant t p \<longleftrightarrow> sane t \<and> clear t p \<and> p \<noteq> [] \<and> look t p = None \<and> (\<exists>m o'. look t (butlast p) = Some (Folder m o'))"

text \<open>The place once a plain file stands there.\<close>

definition holds_file :: "tree \<Rightarrow> path \<Rightarrow> bool" where
  "holds_file t p \<longleftrightarrow> sane t \<and> clear t p \<and> p \<noteq> [] \<and> (\<exists>c m o'. look t p = Some (Plain c m o'))"

lemma holds_file_set:
  assumes "holds_file t p"
  shows "holds_file (set_entry p (Plain c m o') t) p \<and> touches p t (set_entry p (Plain c m o') t)"
proof -
  obtain c' m' o'' where t: "sane t" "clear t p" "p \<noteq> []" "look t p = Some (Plain c' m' o'')"
    using assms by (auto simp: holds_file_def)
  from look_up [OF t(1,4,3)] have up: "\<exists>m o'. look t (butlast p) = Some (Folder m o')" .
  have "touches p t (set_entry p (Plain c m o') t)"
    by (rule touches_set [OF t(1) up t(3)]) (use t(4) in auto)
  moreover from this have "sane (set_entry p (Plain c m o') t)" by (simp add: touches_def)
  moreover have "clear (set_entry p (Plain c m o') t) p"
    by (rule clear_same [OF t(2)]) (auto simp: strict_prefix_def)
  ultimately show ?thesis using t(3) by (simp add: holds_file_def)
qed

lemma vacant_set:
  assumes "vacant t p" "\<not> is_folder x"
  shows "touches p t (set_entry p x t) \<and> clear (set_entry p x t) p"
proof -
  have t: "sane t" "clear t p" "p \<noteq> []" "look t p = None" "\<exists>m o'. look t (butlast p) = Some (Folder m o')"
    using assms(1) by (simp_all add: vacant_def)
  have "touches p t (set_entry p x t)" by (rule touches_set [OF t(1,5,3) _ assms(2)]) (simp add: t(4))
  moreover have "clear (set_entry p x t) p" by (rule clear_same [OF t(2)]) (auto simp: strict_prefix_def)
  ultimately show ?thesis by simp
qed

lemma touches_refl: "sane t \<Longrightarrow> (\<And>x. look t p = Some x \<Longrightarrow> \<not> is_folder x) \<Longrightarrow> touches p t t"
  by (simp add: touches_def)

lemma vacant_touches: "vacant t p \<Longrightarrow> touches p t t"
  by (simp add: vacant_def touches_def)

lemma holds_file_touches: "holds_file t p \<Longrightarrow> touches p t t"
  by (auto simp: holds_file_def touches_def)

text \<open>A call that does nothing but fill the place.\<close>

definition fills :: "path \<Rightarrow> world \<Rightarrow> world \<Rightarrow> bool" where
  "fills p w w' \<longleftrightarrow> quiet w w' \<and> touches p (w_tree w) (w_tree w')"

lemma fills_trans [trans]: "fills p w w1 \<Longrightarrow> fills p w1 w2 \<Longrightarrow> fills p w w2"
  unfolding fills_def using quiet_trans touches_trans by blast

lemma fills_still: "fills p w w1 \<Longrightarrow> quiet w1 w2 \<Longrightarrow> w_tree w2 = w_tree w1 \<Longrightarrow> fills p w w2"
  unfolding fills_def using quiet_trans by auto

lemma holds_file_still: "holds_file (w_tree w) p \<Longrightarrow> quiet w w' \<Longrightarrow> w_tree w' = w_tree w \<Longrightarrow> fills p w w'"
  using holds_file_touches by (simp add: fills_def)

lemma vacant_still: "vacant (w_tree w) p \<Longrightarrow> quiet w w' \<Longrightarrow> w_tree w' = w_tree w \<Longrightarrow> fills p w w'"
  using vacant_touches by (simp add: fills_def)

lemma open_create_step:
  assumes "vacant (w_tree w) p" "open_create S p mode w = (r, w')"
  shows "fills p w w' \<and> (case r of Inl e \<Rightarrow> True | Inr q \<Rightarrow> q = p \<and> holds_file (w_tree w') p)"
proof -
  obtain f w1 where f: "next_fault w = (f, w1)" by (cases "next_fault w")
  note fr = next_fault_frame [OF f]
  have v: "sane (w_tree w)" "clear (w_tree w) p" "look (w_tree w) p = None" "p \<noteq> []"
    "\<exists>m o'. look (w_tree w) (butlast p) = Some (Folder m o')" using assms(1) by (simp_all add: vacant_def)
  let ?x = "Plain [] (mode AND NOT (se_umask S)) (se_owner S)"
  from vacant_set [OF assms(1), of ?x] have new: "touches p (w_tree w) (set_entry p ?x (w_tree w))"
    "clear (set_entry p ?x (w_tree w)) p" by simp_all
  have "resolve_at n (w_tree w) True [] p = Inr p" for n
    using resolve_root [OF v(1,2), of True n] v(3,5) by auto
  with assms(2) f fr new v vacant_touches [OF assms(1)] show ?thesis
    by (cases f) (auto simp: open_create_def holds_file_def touches_def fills_def)
qed

lemma copy_into_step:
  assumes "holds_file (w_tree w) p" "copy_into p s w = (err, w')"
  shows "fills p w w' \<and> holds_file (w_tree w') p"
proof -
  obtain f w1 where f: "next_fault w = (f, w1)" by (cases "next_fault w")
  have app: "holds_file (append_to p s (w_tree w)) p \<and> touches p (w_tree w) (append_to p s (w_tree w))" for s
    using assms(1) holds_file_set [OF assms(1)] by (auto simp: append_to_def holds_file_def)
  with assms(2) f next_fault_frame [OF f] show ?thesis by (cases f) (auto simp: copy_into_def fills_def)
qed

lemma chown_step:
  assumes "holds_file (w_tree w) p" "chown S p uid gid w = (err, w')"
  shows "fills p w w' \<and> holds_file (w_tree w') p"
proof -
  obtain c m o' where t: "sane (w_tree w)" "clear (w_tree w) p" "look (w_tree w) p = Some (Plain c m o')"
    using assms(1) by (auto simp: holds_file_def)
  have e: "entry_at S (w_tree w) True p = Inr (p, Plain c m o')"
    using entry_clear [OF t(1,2), of True S] t(3) by simp
  obtain f w1 where f: "next_fault w = (f, w1)" by (cases "next_fault w")
  from holds_file_set [OF assms(1), of c m "merge_owner uid gid o'"]
  show ?thesis
    using assms(2) e f next_fault_frame [OF f] holds_file_touches [OF assms(1)] assms(1)
    by (cases f) (auto simp: chown_def fills_def simp del: split_paired_All)
qed

lemma apply_ownership_step:
  assumes "holds_file (w_tree w) p" "apply_ownership S p user grp w = (err, w')"
  shows "fills p w w' \<and> holds_file (w_tree w') p"
  using assms chown_step [OF assms(1)] holds_file_still [OF assms(1) quiet_refl]
  by (auto simp: apply_ownership_def Let_def split: if_splits sum.splits prod.splits option.splits)

lemma sync_step: "holds_file (w_tree w) p \<Longrightarrow> sync_handle w = (e, w') \<Longrightarrow> fills p w w' \<and> holds_file (w_tree w') p"
  using sync_frame [of w e w'] holds_file_still [of w p w'] by simp

lemma stat_frame: "stat S p w = (r, w') \<Longrightarrow> answered w \<Longrightarrow> w' = w"
  by (simp add: stat_def)

lemma lstat_frame: "lstat S p w = (r, w') \<Longrightarrow> answered w \<Longrightarrow> w' = w"
  by (simp add: lstat_def)

lemma resolve_product_frame: "resolve_product S k p w = (r, w') \<Longrightarrow> answered w \<Longrightarrow> w' = w"
  by (auto simp: resolve_product_def split: prod.splits sum.splits if_splits dest: stat_frame lstat_frame)

text \<open>The calls of a filling, one after the other.\<close>

lemma fill_file_step:
  assumes "vacant (w_tree w) p" "fill_file S p src mode user grp w = (err, w')"
  shows "fills p w w'"
proof -
  obtain r w1 where o: "open_create S p mode w = (r, w1)" by (cases "open_create S p mode w")
  note a = open_create_step [OF assms(1) o]
  show ?thesis
  proof (cases r)
    case (Inl e)
    with assms(2) o a show ?thesis by (auto simp: fill_file_def)
  next
    case (Inr q)
    with a have q: "q = p" "fills p w w1" "holds_file (w_tree w1) p" by simp_all
    obtain e2 w2 where c: "copy_into p src w1 = (e2, w2)" by (cases "copy_into p src w1")
    obtain e3 w3 where s: "sync_handle w2 = (e3, w3)" by (cases "sync_handle w2")
    obtain e4 w4 where d: "apply_ownership S p user grp w3 = (e4, w4)" by (cases "apply_ownership S p user grp w3")
    from copy_into_step [OF q(3) c] have f2: "fills p w w2" "holds_file (w_tree w2) p"
      using fills_trans [OF q(2)] by auto
    from sync_step [OF f2(2) s] have f3: "fills p w w3" "holds_file (w_tree w3) p"
      using fills_trans [OF f2(1)] by auto
    from apply_ownership_step [OF f3(2) d] have "fills p w w4" using fills_trans [OF f3(1)] by auto
    with f2 f3 assms(2) o Inr q c s d show ?thesis by (auto simp: fill_file_def split: option.splits)
  qed
qed

lemma copy_content_step:
  assumes "answered w" "vacant (w_tree w) p" "copy_content S source p mode user grp w = (err, w')"
  shows "fills p w w'"
proof -
  obtain r w0 where s: "open_read S source w = (r, w0)" by (cases "open_read S source w")
  from open_read_frame [OF s] have f0: "fills p w w0" "w_tree w0 = w_tree w"
    using vacant_still [OF assms(2)] by simp_all
  obtain r1 w1 where o: "open_create S p mode w0 = (r1, w1)" by (cases "open_create S p mode w0")
  from open_create_step [of w0, OF _ o] assms(2) f0(2)
  have a: "fills p w w1" "case r1 of Inl e \<Rightarrow> True | Inr q \<Rightarrow> q = p \<and> holds_file (w_tree w1) p"
    using fills_trans [OF f0(1)] by auto
  show ?thesis
  proof (cases "\<exists>e. r = Inl e \<or> r1 = Inl e")
    case True
    with assms(3) s o a f0 show ?thesis by (auto simp: copy_content_def split: sum.splits)
  next
    case False
    then obtain q x where r: "r = Inr (q, x)" "r1 = Inr p" using a(2) by (cases r; cases r1) auto
    with a have h: "holds_file (w_tree w1) p" by simp
    obtain e2 w2 where c: "copy_into p (case x of Plain s m o' \<Rightarrow> s | _ \<Rightarrow> []) w1 = (e2, w2)" by fastforce
    obtain e3 w3 where d: "apply_ownership S p user grp w2 = (e3, w3)" by (cases "apply_ownership S p user grp w2")
    obtain e4 w4 where k: "resolve_product S RegularKind p w3 = (e4, w4)" by (cases "resolve_product S RegularKind p w3")
    from copy_into_step [OF h c] have f2: "fills p w w2" "holds_file (w_tree w2) p"
      using fills_trans [OF a(1)] by auto
    from apply_ownership_step [OF f2(2) d] have f3: "fills p w w3" using fills_trans [OF f2(1)] by auto
    then have "answered w3" using assms(1) by (auto simp: fills_def intro: quiet_answered)
    with resolve_product_frame [OF k] f2 f3 a assms(3) s o r c d k show ?thesis
      by (auto simp: copy_content_def split: option.splits entry.splits)
  qed
qed

lemma symlink_at_step:
  assumes "vacant (w_tree w) p" "symlink_at S s p w = (err, w')"
  shows "fills p w w'"
proof -
  obtain f w1 where f: "next_fault w = (f, w1)" by (cases "next_fault w")
  have v: "sane (w_tree w)" "clear (w_tree w) p" "look (w_tree w) p = None" using assms(1) by (simp_all add: vacant_def)
  have "resolve_at n (w_tree w) False [] p = Inr p" for n
    using resolve_root [OF v(1,2), of False n] assms(1) by (auto simp: vacant_def)
  with assms(2) f v next_fault_frame [OF f] vacant_set [OF assms(1), of "Symlink s"] vacant_touches [OF assms(1)]
  show ?thesis by (cases f) (auto simp: symlink_at_def fills_def)
qed

lemma place_link_step:
  assumes "answered w" "vacant (w_tree w) (snd target)" "place_link S target stored verbatim rc w = ((pr, rc', err), w')"
  shows "rc' = Some rc \<and> fills (snd target) w w'"
proof -
  have sym: "fills (snd target) w w1 \<and> answered w1"
    if "(if verbatim then symlink_at S stored (snd target) w else symlink_to S stored (snd target) w) = (e, w1)" for e w1
  proof -
    have "fills (snd target) w w1"
      using that symlink_at_step [OF assms(2)] vacant_still [OF assms(2) quiet_refl]
      by (auto simp: symlink_to_def split: if_splits option.splits)
    then show ?thesis using assms(1) by (auto simp: fills_def intro: quiet_answered)
  qed
  show ?thesis
    using assms(3) sym
    by (auto simp: place_link_def split: prod.splits option.splits dest!: resolve_product_frame)
qed

section \<open>What a receipt undoes\<close>

text \<open>The compensation of a receipt, on any settled disk that shows what the mutation left, succeeds
  and shows again what was there before.\<close>

definition undoes :: "session \<Rightarrow> file_receipt \<Rightarrow> tree \<Rightarrow> tree \<Rightarrow> bool" where
  "undoes S rc t t' \<longleftrightarrow> (\<forall>v. shows_tree v t' \<longrightarrow>
     (\<exists>v'. compensate_file_mutation S rc v = (None, v') \<and> shows_tree v' t))"

lemma grown_touches: "grown b p t t1 \<Longrightarrow> p \<noteq> [] \<Longrightarrow> touches p t1 t2 \<Longrightarrow> grown b p t t2"
  using not_prefix_butlast [of p]
  by (auto simp: grown_def touches_def folder_or_free_def)

lemma replaced_touches: "replaced p i t t1 \<Longrightarrow> touches p t1 t2 \<Longrightarrow> replaced p i t t2"
  by (auto simp: replaced_def touches_def)

lemma fresh_key: "ready S w \<Longrightarrow> n \<ge> w_minted w \<Longrightarrow>
  look (w_tree w) (recovery_path (se_uuid S n)) = None \<and> se_uuid S n \<noteq> [] \<and> se_uuid S n \<noteq> ''..''"
  by (simp add: ready_def keys_fresh_def)

lemma created_undo:
  assumes "ready S w" "aim (w_tree w) p" "grown b p (w_tree w) (w_tree w1)" "touches p (w_tree w1) t2"
  shows "undoes S (with_boundary b (new_receipt MutationCreateFile p)) (w_tree w) t2"
proof -
  have p: "ordinary p" "clear (w_tree w) p" "p \<noteq> []" using assms(2) by (simp_all add: aim_def ordinary_def)
  note undo = undo_create [OF p(1,2) grown_touches [OF assms(3) p(3) assms(4)] _ ready_sane(1) [OF assms(1)], of _ S]
  have "fr_kind (with_boundary b (new_receipt MutationCreateFile p)) = MutationCreateFile"
    "fr_source (with_boundary b (new_receipt MutationCreateFile p)) = None"
    by (simp_all add: with_boundary_def new_receipt_def)
  with undo show ?thesis unfolding undoes_def compensate_file_mutation_def by auto
qed

lemma archived_undo:
  assumes "ready S w" "aim (w_tree w) p" "look (w_tree w) p = Some x" "i = se_uuid S (w_minted w)"
    and "archived p i (w_tree w) (w_tree w1)" "touches p (w_tree w1) t2"
    and k: "k = MutationUpdateFile \<or> k = MutationDeleteFile"
  shows "undoes S (with_recovery i d (new_receipt k p)) (w_tree w) t2"
proof -
  have p: "ordinary p" "clear (w_tree w) p" using assms(2) by (simp_all add: aim_def)
  have i: "i \<noteq> []" "i \<noteq> ''..''" "look (w_tree w) (recovery_path i) = None"
    using fresh_key [OF assms(1) order_refl] assms(4) by simp_all
  let ?rc = "with_recovery i d (new_receipt k p)"
  have "fr_path ?rc = p" "fr_recovery ?rc = Some i" "fr_boundary ?rc = None" "fr_source ?rc = None" "fr_kind ?rc = k"
    by (simp_all add: with_recovery_def new_receipt_def)
  note rc = this
  show ?thesis
    unfolding undoes_def
  proof (intro allI impI)
    fix v
    assume "shows_tree v t2"
    from undo_update [OF p assms(3) ready_sane(1) [OF assms(1)] i
        replaced_touches [OF archived_replaced [OF assms(5) p(1)] assms(6)] this rc(1-3), of S]
    show "\<exists>v'. compensate_file_mutation S ?rc v = (None, v') \<and> shows_tree v' (w_tree w)"
      using rc(4,5) k by (auto simp: compensate_file_mutation_def)
  qed
qed

lemma staged_undo:
  assumes w: "ready S w" and p: "aim (w_tree w) p" and s: "staged S p rc w w1" and f: "fills p w1 w2"
  shows "undoes S rc (w_tree w) (w_tree w2) \<and> ready S w2"
proof -
  have o: "ordinary p" using p by (simp add: aim_def)
  have "ready S w2" using ready_touches [of S w1 w2 p] s f o by (simp add: staged_def fills_def)
  moreover have "undoes S rc (w_tree w) (w_tree w2)"
    using s f created_undo [OF w p, of _ w1 "w_tree w2"] archived_undo [OF w p, of _ _ w1 "w_tree w2" MutationUpdateFile]
    by (auto simp: staged_def fills_def)
  ultimately show ?thesis by simp
qed

lemma staged_vacant:
  assumes "ready S w" "aim (w_tree w) p" "staged S p rc w w1"
  shows "vacant (w_tree w1) p \<and> answered w1"
proof -
  have p: "ordinary p" "clear (w_tree w) p" "p \<noteq> []" using assms(2) by (simp_all add: aim_def ordinary_def)
  have "clear (w_tree w1) p"
  proof -
    consider b where "grown b p (w_tree w) (w_tree w1)"
      | i x where "archived p i (w_tree w) (w_tree w1)" "look (w_tree w) p = Some x"
      using assms(3) by (auto simp: staged_def)
    then show ?thesis
    proof cases
      case 1
      then show ?thesis using grown_clear p by blast
    next
      case 2
      then show ?thesis using clear_same [OF p(2)] archived_parts(3) [OF 2(1) p(1) 2(2)] by simp
    qed
  qed
  with assms(3) p(3) show ?thesis by (auto simp: staged_def vacant_def ready_def)
qed

text \<open>The outcome of a mutation: a receipt that undoes it, or no receipt and nothing done.\<close>

definition compensated :: "session \<Rightarrow> file_outcome \<times> world \<Rightarrow> world \<Rightarrow> bool" where
  "compensated S out w \<longleftrightarrow> (case out of ((pr, rc, err), w') \<Rightarrow>
     (case rc of
        Some r \<Rightarrow> undoes S r (w_tree w) (w_tree w') \<and> ready S w'
      | None \<Rightarrow> err = None \<longrightarrow> same_view (w_tree w) (w_tree w') \<and> ready S w'))"

lemma compensated_later: "w_tree w1 = w_tree w \<Longrightarrow> compensated S out w1 \<Longrightarrow> compensated S out w"
  by (auto simp: compensated_def split: prod.splits option.splits)

lemma new_entry_ready: "new_entry u k p w = (r, w') \<Longrightarrow> ready S w \<Longrightarrow> ready S w' \<and> w_tree w' = w_tree w"
  using new_entry_frame ready_quiet by blast

section \<open>Writing and copying\<close>

lemma same_view_refl [simp]: "same_view t t"
  by (simp add: same_view_def)

lemma ready_site_view:
  assumes "ready S w" "adds_folders (w_tree w) recovery_dir (w_tree w')"
    and "w_probe_faults w' = w_probe_faults w" "w_minted w \<le> w_minted w'" "set (w_faults w') \<subseteq> set (w_faults w)"
  shows "same_view (w_tree w) (w_tree w') \<and> ready S w'"
proof -
  have t: "sane (w_tree w)" using assms(1) by (simp add: ready_def)
  have view: "same_view (w_tree w) (w_tree w')" by (rule adds_folders_site_view [OF t assms(2)])
  then have "look (w_tree w') (recovery_path i) = look (w_tree w) (recovery_path i)" for i
    by (simp add: same_view_def)
  with view assms honest_less [OF _ assms(5)] adds_folders_fof [OF assms(2)] show ?thesis
    by (simp add: ready_def answered_def keys_fresh_def site_clear_def adds_folders_def)
qed

text \<open>A failed archive leaves at most the site's own folders.\<close>

lemma archive_and_prune_fails:
  assumes w: "ready S w" and p: "aim (w_tree w) p"
    and run: "archive_and_prune S p False bd w = (Inl e, w')"
  shows "same_view (w_tree w) (w_tree w') \<and> ready S w'"
proof -
  obtain d w1 where d: "pre_archive_digest S p w = (d, w1)" and a: "archive_file S p w1 = (Inl e, w')"
    using run by (auto simp: archive_and_prune_def split: prod.splits sum.splits)
  from digest_frame [OF d] have w1: "quiet w w1" "w_tree w1 = w_tree w" by simp_all
  have r1: "ready S w1" by (rule ready_quiet [OF w w1])
  then have s1: "sane (w_tree w1)" "site_clear (w_tree w1)" "keys_fresh S w1" by (simp_all add: ready_def)
  have p': "ordinary p" "clear (w_tree w1) p" using p w1(2) by (simp_all add: aim_def)
  from archive_file_fails [OF s1(1,2) p' s1(3) a] ready_site_view [OF r1, of w'] w1(2) show ?thesis by simp
qed

lemma mkdir_all_fails:
  assumes "sane (w_tree w)" "''..'' \<notin> set p" "\<And>k. prefix k p \<Longrightarrow> folder_or_free (w_tree w) k"
    and "mkdir_all S p perm w = (Some e, w')"
  shows "\<exists>k. Some (e, k) \<in> set (w_faults w)"
proof -
  obtain f w1 where f: "next_fault w = (f, w1)" by (cases "next_fault w")
  obtain err t where run: "make_dirs S perm (se_max_links S) f (w_tree w) [] p = (err, t)"
    by (cases "make_dirs S perm (se_max_links S) f (w_tree w) [] p")
  with assms(4) f next_fault_frame [OF f] have "err = Some e" by (auto simp: mkdir_all_def)
  with run have run: "make_dirs S perm (se_max_links S) f (w_tree w) [] p = (Some e, t)" by simp
  have "\<exists>k. f = Some (e, k)"
    by (rule make_dirs_fails [OF assms(1,2) _ run]) (use assms(3) sane_root [OF assms(1)] in auto)
  then obtain k where "f = Some (e, k)" ..
  with f show ?thesis by (auto simp: next_fault_def split: list.splits)
qed

lemma stage_write_skips:
  assumes w: "ready S w" and p: "aim (w_tree w) p"
    and run: "stage_write S p w = (Inl e, w')" and skip: "err_is ErrConflictSkip e"
  shows "same_view (w_tree w) (w_tree w') \<and> ready S w'"
proof -
  have p': "ordinary p" "clear (w_tree w) p" "p \<noteq> []" using p by (simp_all add: aim_def ordinary_def)
  note seen = lstat_answered [OF ready_sane(2,1) [OF w] p'(2), of S]
  have dots: "''..'' \<notin> set (butlast p)" using ordinary_apart(6) [OF p'(1)] by (auto dest: in_set_butlastD)
  note fof = clear_fof_prefix [OF p'(2,3)]
  show ?thesis
  proof (cases "look (w_tree w) p")
    case None
    obtain r w1 where f: "find_closest_existing_dir S (butlast p) w = (r, w1)" by fastforce
    from find_closest_frame [OF ready_sane(2,1) [OF w] dots fof f] have w1: "quiet w w1" "w_tree w1 = w_tree w" by simp_all
    have r1: "ready S w1" by (rule ready_quiet [OF w w1])
    show ?thesis
    proof (cases "\<exists>x. r = Inr x \<and> (\<exists>w2. mkdir_all S (butlast p) (perms 7 5 0) w1 = (Some e, w2))")
      case True
      then obtain w2 where "mkdir_all S (butlast p) (perms 7 5 0) w1 = (Some e, w2)" by blast
      from mkdir_all_fails [OF ready_sane(1) [OF r1] dots _ this] fof w1(2) r1 skip show ?thesis
        by (auto simp: ready_def honest_def)
    next
      case False
      with run seen None f r1 w1(2) show ?thesis
        by (auto simp: stage_write_def split: prod.splits sum.splits option.splits)
    qed
  next
    case (Some x)
    obtain r w1 where d: "is_dir_and_not_empty S p w = (r, w1)" by fastforce
    from dir_probe_frame [OF d] have w1: "quiet w w1" "w_tree w1 = w_tree w" by simp_all
    have r1: "ready S w1" by (rule ready_quiet [OF w w1])
    have arch: "same_view (w_tree w) (w_tree w2) \<and> ready S w2"
      if "archive_and_prune S p False None w1 = (Inl e', w2)" for e' w2
      using archive_and_prune_fails [OF r1 _ that] p w1(2) by simp
    show ?thesis
      using run seen Some d w r1 w1(2) arch
      by (auto simp: stage_write_def split: prod.splits sum.splits option.splits conflict_policy.splits bool.splits)
  qed
qed

text \<open>A staged mutation that only fills its target afterwards.\<close>

lemma staged_compensated:
  assumes w: "ready S w" and p: "aim (w_tree w) p"
    and run: "out = (case stage_write S p w of
        (Inl e, w1) \<Rightarrow> (unstaged e, w1) | (Inr rc, w1) \<Rightarrow> (case fill w1 of (err, w2) \<Rightarrow> ((pr, Some rc, err), w2)))"
    and fill: "\<And>w1 err w2. answered w1 \<Longrightarrow> vacant (w_tree w1) p \<Longrightarrow> fill w1 = (err, w2) \<Longrightarrow> fills p w1 w2"
  shows "compensated S out w"
proof -
  obtain r w1 where s: "stage_write S p w = (r, w1)" by fastforce
  show ?thesis
  proof (cases r)
    case (Inl e)
    with run s stage_write_skips [OF w p, of e w1] show ?thesis
      by (auto simp: compensated_def unstaged_def)
  next
    case (Inr rc)
    obtain err w2 where f: "fill w1 = (err, w2)" by fastforce
    have st: "staged S p rc w w1" using stage_write_step [OF w p] s Inr by simp
    from staged_vacant [OF w p st] fill [OF _ _ f] staged_undo [OF w p st] have "undoes S rc (w_tree w) (w_tree w2) \<and> ready S w2"
      by blast
    with run s Inr f show ?thesis by (simp add: compensated_def)
  qed
qed

lemma write_target_compensated:
  assumes "ready S w" "aim (w_tree w) (snd target)"
  shows "compensated S (write_target S target src mode user grp w) w"
  by (rule staged_compensated [OF assms write_target_def]) (rule fill_file_step)

text \<open>The claim of the product comes first.\<close>

lemma claimed_compensated:
  assumes "ready S w" and run: "out = (case new_entry u k p w of
      (Inl e, w1) \<Rightarrow> ((None, None, Some e), w1) | (Inr r, w1) \<Rightarrow> body r w1)"
    and body: "\<And>r w1. ready S w1 \<Longrightarrow> w_tree w1 = w_tree w \<Longrightarrow> compensated S (body r w1) w1"
  shows "compensated S out w"
proof -
  obtain x w1 where n: "new_entry u k p w = (x, w1)" by fastforce
  from new_entry_ready [OF n assms(1)] have w1: "ready S w1" "w_tree w1 = w_tree w" by simp_all
  show ?thesis
    using run n compensated_later [OF w1(2) body [OF w1]] by (cases x) (simp_all add: compensated_def)
qed

lemma write_text_compensated:
  assumes "ready S w" "aim (w_tree w) p"
  shows "compensated S (write_text S u p content mode user grp w) w"
  by (rule claimed_compensated [OF assms(1) write_text_def]) (simp add: write_target_compensated assms(2))

lemma write_file_compensated:
  assumes "ready S w" "aim (w_tree w) p"
  shows "compensated S (write_file S u p content mode w) w"
  by (rule claimed_compensated [OF assms(1) write_file_def]) (simp add: write_target_compensated assms(2))

lemma copy_compensated:
  assumes "ready S w" "aim (w_tree w) p"
  shows "compensated S (copy S u source p mode user grp w) w"
proof (rule claimed_compensated [OF assms(1) copy_def])
  fix r w1
  assume "ready S w1" "w_tree w1 = w_tree w"
  with assms(2) show "compensated S (case stage_write S p w1 of
      (Inl e, w2) \<Rightarrow> (unstaged e, w2)
    | (Inr rc, w2) \<Rightarrow> (case copy_content S source p mode user grp w2 of
        (err, w3) \<Rightarrow> ((Some (r, p), Some rc, err), w3))) w1"
    by (intro staged_compensated [OF _ _ refl]) (auto intro: copy_content_step)
qed

section \<open>Links\<close>

lemma ready_vacant: "ready S w \<Longrightarrow> answered w"
  by (simp add: ready_def)

lemma link_free_compensated:
  assumes w: "ready S w" and p: "aim (w_tree w) (snd target)" "look (w_tree w) (snd target) = None"
  shows "compensated S (link_free S target stored verbatim w) w"
proof -
  let ?p = "snd target"
  obtain r w1 where f: "find_closest_existing_dir S (butlast ?p) w = (r, w1)" by fastforce
  show ?thesis
  proof (cases r)
    case (Inl e)
    with f show ?thesis by (simp add: link_free_def compensated_def)
  next
    case (Inr rbx)
    then obtain r' b x where r: "r = Inr ((r', b), x)" by (metis prod.collapse)
    obtain err w2 where m: "mkdir_all S (butlast ?p) (perms 7 5 0) w1 = (err, w2)" by fastforce
    have f': "find_closest_existing_dir S (butlast ?p) w = (Inr ((r', b), x), w1)" using f r by simp
    from make_parent_step [OF w p f' m] have w2: "ready S w2" "grown b ?p (w_tree w) (w_tree w2)"
      "look (w_tree w2) ?p = None" "err = None \<longrightarrow> (\<exists>m o'. look (w_tree w2) (butlast ?p) = Some (Folder m o'))"
      by simp_all
    have p': "ordinary ?p" "clear (w_tree w) ?p" "?p \<noteq> []" using p(1) by (simp_all add: aim_def ordinary_def)
    have t2: "touches ?p (w_tree w2) (w_tree w2)" using w2(1,3) by (simp add: touches_def ready_def)
    show ?thesis
    proof (cases err)
      case (Some e)
      with f r m created_undo [OF w p(1) w2(2) t2] w2(1) show ?thesis
        by (simp add: link_free_def Let_def compensated_def)
    next
      case None
      let ?rc = "with_boundary b (new_receipt MutationCreateFile ?p)"
      obtain pr rc err' w3 where l: "place_link S target stored verbatim ?rc w2 = ((pr, rc, err'), w3)"
        by (metis prod.collapse)
      have "vacant (w_tree w2) ?p"
        using w2 None p' grown_clear [OF w2(2) p'(2,3)] by (simp add: vacant_def ready_def)
      from place_link_step [OF ready_vacant [OF w2(1)] this l] have l3: "rc = Some ?rc" "fills ?p w2 w3" by simp_all
      then have "ready S w3" "touches ?p (w_tree w2) (w_tree w3)"
        using ready_touches [OF w2(1) _ p'(1)] by (simp_all add: fills_def)
      with f r m None l l3 created_undo [OF w p(1) w2(2)] show ?thesis
        by (simp add: link_free_def Let_def compensated_def)
    qed
  qed
qed

lemma archived_vacant:
  assumes "archived p i t t'" "aim t p" "look t p = Some x" "sane t" "sane t'"
  shows "vacant t' p"
proof -
  have p: "ordinary p" "clear t p" "p \<noteq> []" using assms(2) by (simp_all add: aim_def ordinary_def)
  have "clear t' p" by (rule clear_same [OF p(2)]) (rule archived_parts(3) [OF assms(1) p(1) assms(3)])
  with archived_free [OF assms(1,4) p(1) assms(3)] p(3) assms(5) show ?thesis by (simp add: vacant_def)
qed

lemma archive_occupant_eq: "archive_occupant S p w =
  (case archive_and_prune S p False None w of
     (Inl e, w1) \<Rightarrow> (Inl e, w1)
   | (Inr (i, d), w1) \<Rightarrow> (Inr (with_recovery i d (new_receipt MutationUpdateFile p)), w1))"
  by (auto simp: archive_occupant_def archive_and_prune_def prune_empty_parents_def split: prod.splits sum.splits)

lemma link_occupied_compensated:
  assumes w: "ready S w" and p: "aim (w_tree w) (snd target)"
  shows "compensated S (link_occupied S target stored verbatim w) w"
proof (cases "write_conflict_policy S")
  case ConflictReplace
  let ?p = "snd target"
  obtain r w1 where a: "archive_and_prune S ?p False None w = (r, w1)" by fastforce
  show ?thesis
  proof (cases r)
    case (Inl e)
    with a ConflictReplace show ?thesis by (simp add: link_occupied_def archive_occupant_eq compensated_def)
  next
    case (Inr x)
    then obtain i d where r: "r = Inr (i, d)" by (cases x) auto
    with a archive_and_prune_step [OF w p] obtain y where st: "ready S w1" "i = se_uuid S (w_minted w)"
      "archived ?p i (w_tree w) (w_tree w1)" "look (w_tree w) ?p = Some y" by blast
    let ?rc = "with_recovery i d (new_receipt MutationUpdateFile ?p)"
    obtain pr rc err w2 where l: "place_link S target stored verbatim ?rc w1 = ((pr, rc, err), w2)"
      by (metis prod.collapse)
    have "vacant (w_tree w1) ?p"
      by (rule archived_vacant [OF st(3) p st(4) ready_sane(1) [OF w] ready_sane(1) [OF st(1)]])
    from place_link_step [OF ready_vacant [OF st(1)] this l] have l2: "rc = Some ?rc" "fills ?p w1 w2" by simp_all
    then have "ready S w2" "touches ?p (w_tree w1) (w_tree w2)"
      using ready_touches [OF st(1), of w2 ?p] p by (simp_all add: fills_def aim_def)
    with a r l l2 ConflictReplace archived_undo [OF w p st(4,2,3), of "w_tree w2" MutationUpdateFile d] show ?thesis
      by (simp add: link_occupied_def archive_occupant_eq compensated_def)
  qed
qed (use w in \<open>simp_all add: link_occupied_def compensated_def\<close>)

lemma read_link_frame: "read_link S p w = (r, w') \<Longrightarrow> answered w \<Longrightarrow> w' = w"
  by (auto simp: read_link_def split: sum.splits prod.splits entry.splits)

lemma link_matches_frame: "existing_link_matches S p stored verbatim w = (r, w') \<Longrightarrow> answered w \<Longrightarrow> w' = w"
  by (auto simp: existing_link_matches_def read_link_abs_def split: sum.splits prod.splits if_splits
      dest: read_link_frame)

lemma link_entry_compensated:
  assumes "ready S w" "aim (w_tree w) p"
  shows "compensated S (link_entry S u source p verbatim w) w"
proof (cases "make_path (se_root S) [source]")
  case None
  then show ?thesis by (simp add: link_entry_def compensated_def)
next
  case (Some sp)
  let ?stored = "if verbatim then source else sp_abs sp"
  show ?thesis
  proof (rule claimed_compensated [OF assms(1)])
    show "link_entry S u source p verbatim w = (case new_entry u SymbolicLinkKind p w of
        (Inl e, w1) \<Rightarrow> ((None, None, Some e), w1)
      | (Inr r, w1) \<Rightarrow> (case lstat S p w1 of
          (Inl e, w2) \<Rightarrow> link_free S (r, p) ?stored verbatim w2
        | (Inr x, w2) \<Rightarrow>
            if is_symlink x then
              (case existing_link_matches S p ?stored verbatim w2 of
                 (True, w3) \<Rightarrow> ((Some (r, p), None, None), w3)
               | (False, w3) \<Rightarrow> link_occupied S (r, p) ?stored verbatim w3)
            else link_occupied S (r, p) ?stored verbatim w2))"
      by (simp only: link_entry_def Some option.case Let_def)
  next
    fix r w1
    assume w1: "ready S w1" "w_tree w1 = w_tree w"
    have p: "aim (w_tree w1) p" using assms(2) w1(2) by simp
    then have c: "clear (w_tree w1) p" by (simp add: aim_def)
    note seen = lstat_answered [OF ready_sane(2,1) [OF w1(1)] c, of S]
    show "compensated S (case lstat S p w1 of
          (Inl e, w2) \<Rightarrow> link_free S (r, p) ?stored verbatim w2
        | (Inr x, w2) \<Rightarrow>
            if is_symlink x then
              (case existing_link_matches S p ?stored verbatim w2 of
                 (True, w3) \<Rightarrow> ((Some (r, p), None, None), w3)
               | (False, w3) \<Rightarrow> link_occupied S (r, p) ?stored verbatim w3)
            else link_occupied S (r, p) ?stored verbatim w2) w1"
    proof (cases "look (w_tree w1) p")
      case None
      with seen link_free_compensated [OF w1(1), of "(r, p)"] p show ?thesis by simp
    next
      case (Some x)
      note occ = link_occupied_compensated [OF w1(1), of "(r, p)"]
      obtain b w3 where "existing_link_matches S p ?stored verbatim w1 = (b, w3)" by fastforce
      with link_matches_frame [OF this ready_vacant [OF w1(1)]] seen Some occ p w1 show ?thesis
        by (cases b) (auto simp: compensated_def)
    qed
  qed
qed

section \<open>Removing\<close>

lemma mark_entry_gone_ready: "ready S w \<Longrightarrow> ready S (mark_entry_gone u r w)"
  by (rule ready_quiet) simp_all

lemma discover_at_frame:
  "discover_at S p w = (r, w') \<Longrightarrow> answered w \<Longrightarrow> quiet w w' \<and> w_tree w' = w_tree w"
  by (auto simp: discover_at_def split: sum.splits prod.splits dest: lstat_frame discover_of_mode_frame)

lemma remove_found_compensated:
  assumes w: "ready S w" and p: "aim (w_tree w) p"
  shows "compensated S (remove_found S u r p False bd w) w"
proof -
  obtain x w1 where a: "archive_and_prune S p False bd w = (x, w1)" by fastforce
  show ?thesis
  proof (cases x)
    case (Inl e)
    with a show ?thesis by (simp add: remove_found_def compensated_def)
  next
    case (Inr y)
    then obtain i d where r: "x = Inr (i, d)" by (cases y) auto
    with a archive_and_prune_step [OF w p] obtain y where st: "ready S w1" "i = se_uuid S (w_minted w)"
      "archived p i (w_tree w) (w_tree w1)" "look (w_tree w) p = Some y" by blast
    have "touches p (w_tree w1) (w_tree w1)"
      by (rule vacant_touches)
        (rule archived_vacant [OF st(3) p st(4) ready_sane(1) [OF w] ready_sane(1) [OF st(1)]])
    from archived_undo [OF w p st(4,2,3) this, of MutationDeleteFile d] a r mark_entry_gone_ready [OF st(1)]
    show ?thesis by (simp add: remove_found_def compensated_def)
  qed
qed

lemma remove_any_compensated:
  assumes w: "ready S w" and p: "aim (w_tree w) p"
  shows "compensated S (remove_any S u p False bd on_missing refuse w) w"
proof -
  obtain x w1 where d: "discover_at S p w = (x, w1)" by fastforce
  from discover_at_frame [OF d ready_vacant [OF w]] have w1: "quiet w w1" "w_tree w1 = w_tree w" by simp_all
  have r1: "ready S w1" by (rule ready_quiet [OF w w1])
  obtain y w2 where e: "is_dir_and_not_empty S p w1 = (y, w2)" by fastforce
  from dir_probe_frame [OF e] have w2: "quiet w1 w2" "w_tree w2 = w_tree w" using w1(2) by simp_all
  have r2: "ready S w2" using ready_quiet [OF r1 w2(1)] w1(2) w2(2) by simp
  have found: "compensated S (remove_found S u r p False bd w') w" if "ready S w'" "w_tree w' = w_tree w" for r w'
    using compensated_later [OF that(2) remove_found_compensated [OF that(1)]] p that(2) by simp
  show ?thesis
    using d e r1 w1(2) found [OF r1 w1(2)] found [OF r2 w2(2)]
    by (auto simp: remove_any_def compensated_def split: sum.splits bool.splits if_splits)
qed

section \<open>Making directories\<close>

lemma fof_prefix: "clear t p \<Longrightarrow> folder_or_free t p \<Longrightarrow> prefix k p \<Longrightarrow> folder_or_free t k"
  using clear_strict [of t p k] by (auto simp: strict_prefix_def)

lemma grown_dir_chain:
  assumes t: "sane t" and b: "prefix b p" "look t b = Some x"
    and free: "\<forall>k. strict_prefix b k \<and> prefix k p \<longrightarrow> look t k = None"
    and a: "adds_folders t p t'"
  shows "grown_dir b p t t'"
proof -
  have same: "look t' k = look t k" if "\<not> (strict_prefix b k \<and> prefix k p)" for k
  proof (cases "prefix k p")
    case True
    with that b(1) have "prefix k b" using prefix_same_cases [of k p b] by (auto simp: strict_prefix_def)
    then obtain r where r: "b = k @ r" by (auto simp: prefix_def)
    with b(2) sane_up [OF t(1), of k r x] have "look t k \<noteq> None" by (cases "r = []") auto
    with a show ?thesis by (auto simp: adds_folders_def dest: spec [of _ k])
  next
    case False
    with a show ?thesis by (auto simp: adds_folders_def dest: spec [of _ k])
  qed
  have "folder_or_free t' k" if "strict_prefix b k \<and> prefix k p" for k
    using free that by (intro adds_folders_fof [OF a]) (simp add: folder_or_free_def)
  with same b(1) free show ?thesis by (simp add: grown_dir_def)
qed

lemma sane_set_same_folder:
  assumes "sane t" "look t p = Some (Folder m w)"
  shows "sane (set_entry p (Folder m' w') t)"
  unfolding sane_def look_set
proof (intro conjI allI impI)
  show "\<exists>m w. ((look t)(p \<mapsto> Folder m' w')) [] = Some (Folder m w)" using sane_root [OF assms(1)] by simp
next
  fix q n y
  assume y: "((look t)(p \<mapsto> Folder m' w')) (q @ [n]) = Some y"
  with assms(2) obtain z where "look t (q @ [n]) = Some z" by (auto split: if_splits)
  from sane_parent [OF assms(1) this] show "\<exists>m w. ((look t)(p \<mapsto> Folder m' w')) q = Some (Folder m w)" by simp
qed

text \<open>A change of a folder's owner.\<close>

definition refolded :: "path \<Rightarrow> world \<Rightarrow> world \<Rightarrow> bool" where
  "refolded p w w' \<longleftrightarrow> quiet w w' \<and> sane (w_tree w') \<and> folder_or_free (w_tree w') p
     \<and> (\<forall>k. k \<noteq> p \<longrightarrow> look (w_tree w') k = look (w_tree w) k)"

lemma own_folder_step:
  assumes t: "sane (w_tree w)" "clear (w_tree w) p" "look (w_tree w) p = Some (Folder m o')"
    and run: "apply_ownership S p user grp w = (err, w')"
  shows "refolded p w w'"
proof -
  have e: "entry_at S (w_tree w) True p = Inr (p, Folder m o')"
    using entry_clear [OF t(1,2), of True S] t(3) by simp
  have same: "refolded p w w" using t by (simp add: refolded_def folder_or_free_def)
  have "refolded p w w'" if ch: "chown S p uid gid w = (err, w')" for uid gid err
  proof -
    obtain f w1 where f: "next_fault w = (f, w1)" by (cases "next_fault w")
    from sane_set_same_folder [OF t(1,3), of m "merge_owner uid gid o'"] show ?thesis
      using ch e f next_fault_frame [OF f] same
      by (cases f) (auto simp: chown_def refolded_def folder_or_free_def)
  qed
  with run same show ?thesis
    by (auto simp: apply_ownership_def Let_def split: if_splits sum.splits prod.splits option.splits)
qed

lemma grown_dir_refolded:
  assumes "grown_dir b p t (w_tree w)" "strict_prefix b p" "refolded p w w'"
  shows "grown_dir b p t (w_tree w')"
proof -
  have "folder_or_free (w_tree w') k" if "strict_prefix b k \<and> prefix k p" for k
    using assms(1,3) that by (cases "k = p") (auto simp: grown_dir_def refolded_def folder_or_free_def)
  with assms show ?thesis by (auto simp: grown_dir_def refolded_def)
qed

lemma ready_refolded: "ready S w \<Longrightarrow> ordinary p \<Longrightarrow> refolded p w w' \<Longrightarrow> ready S w'"
  by (rule ready_same_site [of S w w' p]) (auto simp: refolded_def)

lemma mkdir_leaf_step:
  assumes w: "ready S w" and p: "aim (w_tree w) p" "look (w_tree w) p = None"
    and b: "prefix b p" "look (w_tree w) b = Some x"
      "\<forall>k. strict_prefix b k \<and> prefix k p \<longrightarrow> look (w_tree w) k = None"
    and run: "mkdir_leaf S (r, p) mode user grp rc w = ((pr, rc', err), w')"
  shows "rc' = Some rc \<and> ready S w' \<and> grown_dir b p (w_tree w) (w_tree w')"
proof -
  have p': "ordinary p" "clear (w_tree w) p" "''..'' \<notin> set p"
    using p(1) by (simp_all add: aim_def clear_def)
  have fof: "folder_or_free (w_tree w) p" using p(2) by (simp add: folder_or_free_def)
  obtain e1 w1 where m: "mkdir_all S p mode w = (e1, w1)" by fastforce
  from mkdir_all_step [OF ready_sane(1) [OF w] p'(3) fof_prefix [OF p'(2) fof] m]
  have a: "quiet w w1" "adds_folders (w_tree w) p (w_tree w1)"
    "e1 = None \<longrightarrow> (\<exists>m o'. look (w_tree w1) p = Some (Folder m o'))" by simp_all
  have g1: "grown_dir b p (w_tree w) (w_tree w1)" by (rule grown_dir_chain [OF ready_sane(1) [OF w] b a(2)])
  have r1: "ready S w1" by (rule ready_adds [OF w a(1) p'(1) prefix_order.refl a(2)])
  show ?thesis
  proof (cases e1)
    case (Some e)
    with run m g1 r1 show ?thesis by (simp add: mkdir_leaf_def)
  next
    case None
    then obtain fm fo where f: "look (w_tree w1) p = Some (Folder fm fo)" using a(3) by blast
    obtain e2 w2 where o: "apply_ownership S p user grp w1 = (e2, w2)" by fastforce
    from own_folder_step [OF ready_sane(1) [OF r1] adds_folders_clear [OF a(2) p'(2)] f o]
    have re: "refolded p w1 w2" .
    have "strict_prefix b p" using b(1,2) p(2) by (auto simp: strict_prefix_def)
    from grown_dir_refolded [OF g1 this re] have g2: "grown_dir b p (w_tree w) (w_tree w2)" .
    have r2: "ready S w2" by (rule ready_refolded [OF r1 p'(1) re])
    obtain e3 w3 where k: "resolve_product S DirectoryKind p w2 = (e3, w3)" by fastforce
    from resolve_product_frame [OF k ready_vacant [OF r2]] run m None o k g2 r2 show ?thesis
      by (auto simp: mkdir_leaf_def split: option.splits)
  qed
qed

lemma mkdir_claimed_step:
  assumes w: "ready S w" and p: "aim (w_tree w) p" "folder_or_free (w_tree w) p"
    and run: "mkdir_claimed S M u p mode user grp a w = ((pr, rc, err), w')"
  shows "case rc of
      None \<Rightarrow> err = None \<longrightarrow> w_tree w' = w_tree w \<and> ready S w' \<and> look (w_tree w) p \<noteq> None
    | Some rc' \<Rightarrow> ready S w' \<and> look (w_tree w) p = None
        \<and> (\<exists>b. rc' = with_optional_recovery a (with_boundary b (new_receipt MutationCreateDir p))
             \<and> grown_dir b p (w_tree w) (w_tree w'))"
proof -
  have p': "ordinary p" "clear (w_tree w) p" "''..'' \<notin> set p"
    using p(1) by (simp_all add: aim_def clear_def)
  obtain f w1 where f: "find_closest_existing_dir S p w = (f, w1)" by fastforce
  show ?thesis
  proof (cases f)
    case (Inl e)
    with run f show ?thesis by (auto simp: mkdir_claimed_def)
  next
    case (Inr y)
    then obtain r b x where r: "f = Inr ((r, b), x)" by (metis prod.collapse)
    have "find_closest_existing_dir S p w = (Inr ((r, b), x), w1)" using f r by simp
    from find_closest_answered [OF ready_sane(2,1) [OF w] p'(3) fof_prefix [OF p'(2) p(2)] this]
    have b: "quiet w w1" "w_tree w1 = w_tree w" "prefix b p" "look (w_tree w) b = Some x" "is_folder x"
      "\<forall>k. strict_prefix b k \<and> prefix k p \<longrightarrow> look (w_tree w) k = None" by simp_all
    have r1: "ready S w1" by (rule ready_quiet [OF w b(1,2)])
    show ?thesis
    proof (cases "b = p")
      case True
      with run f r have fd: "found_directory S M (r, p) w1 = ((pr, rc, err), w')" by (simp add: mkdir_claimed_def)
      then have "rc = None" by (auto simp: found_directory_def Let_def split: if_splits option.splits prod.splits)
      with found_directory_frame [OF fd] ready_quiet [OF r1] b(2,4) True show ?thesis by simp
    next
      case False
      then have free: "look (w_tree w) p = None" using b(3,6) by (simp add: strict_prefix_def)
      obtain n w2 where n: "new_entry u DirectoryKind p w1 = (n, w2)" by fastforce
      from new_entry_ready [OF n r1] b(2) have w2: "ready S w2" "w_tree w2 = w_tree w" by simp_all
      let ?rc = "with_optional_recovery a (with_boundary b (new_receipt MutationCreateDir p))"
      show ?thesis
      proof (cases n)
        case (Inl e)
        with run f r n False show ?thesis by (auto simp: mkdir_claimed_def)
      next
        case (Inr r')
        with run f r n False have "mkdir_leaf S (r', p) mode user grp ?rc w2 = ((pr, rc, err), w')"
          by (simp add: mkdir_claimed_def)
        from mkdir_leaf_step [OF w2(1) _ _ b(3) _ _ this] w2(2) p(1) free b(4,6) show ?thesis by auto
      qed
    qed
  qed
qed

lemma optional_recovery_parts [simp]:
  "fr_path (with_optional_recovery a rc) = fr_path rc" "fr_boundary (with_optional_recovery a rc) = fr_boundary rc"
  "fr_source (with_optional_recovery a rc) = fr_source rc" "fr_kind (with_optional_recovery a rc) = fr_kind rc"
  "fr_recovery (with_optional_recovery a rc) = (case a of None \<Rightarrow> fr_recovery rc | Some x \<Rightarrow> Some (fst x))"
  by (auto simp: with_optional_recovery_def with_recovery_def split: option.splits)

lemma mkdir_undo:
  assumes "aim t1 p" "look t1 p = None" "sane t1" "grown_dir b p t1 t'"
    and "case a of None \<Rightarrow> same_view t t1
      | Some (i, d) \<Rightarrow> archived p i t t1 \<and> sane t \<and> clear t p \<and> look t p \<noteq> None
                  \<and> look t (recovery_path i) = None \<and> i \<noteq> [] \<and> i \<noteq> ''..''"
  shows "undoes S (with_optional_recovery a (with_boundary b (new_receipt MutationCreateDir p))) t t'"
  unfolding undoes_def
proof (intro allI impI)
  fix v
  assume v: "shows_tree v t'"
  let ?rc = "with_optional_recovery a (with_boundary b (new_receipt MutationCreateDir p))"
  have rc: "fr_path ?rc = p" "fr_boundary ?rc = Some b" "fr_kind ?rc = MutationCreateDir"
    "fr_recovery ?rc = map_option fst a"
    by (auto simp: with_boundary_def new_receipt_def split: option.split)
  have "case fr_recovery ?rc of None \<Rightarrow> same_view t t1
      | Some i \<Rightarrow> archived p i t t1 \<and> sane t \<and> clear t p \<and> look t p \<noteq> None
                  \<and> look t (recovery_path i) = None \<and> i \<noteq> [] \<and> i \<noteq> ''..''"
    using assms(5) rc(4) by (auto split: option.splits)
  from undo_mkdir [OF _ _ assms(2,3,4) v rc(1,2) this, of S] assms(1) rc(3)
  show "\<exists>v'. compensate_file_mutation S ?rc v = (None, v') \<and> shows_tree v' t"
    by (auto simp: aim_def compensate_file_mutation_def)
qed

lemma mkdir_claimed_compensated:
  assumes "ready S w" "aim (w_tree w) p" "folder_or_free (w_tree w) p"
  shows "compensated S (mkdir_claimed S M u p mode user grp None w) w"
proof -
  obtain pr rc err w' where run: "mkdir_claimed S M u p mode user grp None w = ((pr, rc, err), w')"
    by (metis prod.collapse)
  from mkdir_claimed_step [OF assms run] show ?thesis
    using run mkdir_undo [OF assms(2) _ ready_sane(1) [OF assms(1)], where t' = "w_tree w'" and a = None and t = "w_tree w"]
    by (auto simp: compensated_def split: option.splits)
qed

lemma mkdir_replacing_compensated:
  assumes w: "ready S w" and p: "aim (w_tree w) p"
  shows "compensated S (case archive_mkdir_occupant S u p x w of
      (Inl e, w2) \<Rightarrow> ((None, None, Some e), w2)
    | (Inr a, w2) \<Rightarrow> mkdir_claimed S M u p mode user grp (Some a) w2) w"
proof -
  obtain o' w2 where a: "archive_mkdir_occupant S u p x w = (o', w2)" by fastforce
  show ?thesis
  proof (cases o')
    case (Inl e)
    with a show ?thesis by (simp add: compensated_def)
  next
    case (Inr y)
    then obtain i d where o: "o' = Inr (i, d)" by (cases y) auto
    with a obtain r w0 w1 where d: "discover_of_mode p x w = (Inr r, w0)"
      "archive_and_prune S p False None w0 = (Inr (i, d), w1)" "w2 = mark_entry_gone u r w1"
      by (auto simp: archive_mkdir_occupant_def split: prod.splits sum.splits)
    from discover_of_mode_frame [OF d(1)] have w0: "quiet w w0" "w_tree w0 = w_tree w" by simp_all
    have r0: "ready S w0" by (rule ready_quiet [OF w w0])
    from archive_and_prune_step [OF r0 _ d(2)] p w0 obtain z where st: "ready S w1" "i = se_uuid S (w_minted w)"
      "archived p i (w_tree w) (w_tree w1)" "look (w_tree w) p = Some z" by (auto simp: quiet_def)
    have r2: "ready S w2" "w_tree w2 = w_tree w1" using mark_entry_gone_ready [OF st(1)] d(3) by simp_all
    have v: "vacant (w_tree w2) p"
      using archived_vacant [OF st(3) p st(4) ready_sane(1) [OF w] ready_sane(1) [OF st(1)]] r2(2) by simp
    then have aim2: "aim (w_tree w2) p" "look (w_tree w2) p = None" "folder_or_free (w_tree w2) p"
      using p by (simp_all add: vacant_def aim_def folder_or_free_def)
    obtain pr rc err w' where run: "mkdir_claimed S M u p mode user grp (Some (i, d)) w2 = ((pr, rc, err), w')"
      by (metis prod.collapse)
    have key: "case Some (i, d) of None \<Rightarrow> same_view (w_tree w) (w_tree w2)
      | Some (i, d) \<Rightarrow> archived p i (w_tree w) (w_tree w2) \<and> sane (w_tree w) \<and> clear (w_tree w) p
          \<and> look (w_tree w) p \<noteq> None \<and> look (w_tree w) (recovery_path i) = None \<and> i \<noteq> [] \<and> i \<noteq> ''..''"
      using fresh_key [OF w order_refl] st r2(2) p ready_sane(1) [OF w] by (simp add: aim_def)
    from mkdir_claimed_step [OF r2(1) aim2(1,3) run] show ?thesis
      using a o run aim2(2) mkdir_undo [OF aim2(1,2) ready_sane(1) [OF r2(1)] _ key]
      by (auto simp: compensated_def split: option.splits)
  qed
qed

lemma mkdir_compensated:
  assumes w: "ready S w" and p: "aim (w_tree w) p"
  shows "compensated S (mkdir S M u p mode user grp w) w"
proof -
  have c: "clear (w_tree w) p" using p by (simp add: aim_def)
  note seen = lstat_answered [OF ready_sane(2,1) [OF w] c, of S]
  show ?thesis
  proof (cases "\<exists>x. look (w_tree w) p = Some x \<and> \<not> is_folder x")
    case True
    then obtain x where "look (w_tree w) p = Some x" "\<not> is_folder x" by blast
    with seen mkdir_replacing_compensated [OF w p, of M u mode user grp x] w show ?thesis
      by (auto simp: mkdir_def compensated_def split: conflict_policy.splits)
  next
    case False
    then have "folder_or_free (w_tree w) p" by (auto simp: folder_or_free_def split: option.splits)
    from mkdir_claimed_compensated [OF w p this] seen False show ?thesis
      by (auto simp: mkdir_def split: option.splits)
  qed
qed

section \<open>Moving\<close>

text \<open>The places of a move: apart, the destination's folder there, and no link in the destination's
  place, because the digest taken of a link is that of what it leads to.\<close>

definition movable :: "tree \<Rightarrow> path \<Rightarrow> path \<Rightarrow> bool" where
  "movable t s p \<longleftrightarrow> aim t s \<and> aim t p \<and> \<not> prefix s p \<and> \<not> prefix p s
     \<and> (case look t (butlast p) of Some x \<Rightarrow> is_folder x | None \<Rightarrow> False)
     \<and> (case look t p of Some x \<Rightarrow> \<not> is_symlink x | None \<Rightarrow> True)"

text \<open>What staging the destination leaves: the tree as it was, or with the occupant archived; the
  receipt, with the source, tells which.\<close>

definition move_ready :: "session \<Rightarrow> path \<Rightarrow> file_receipt \<Rightarrow> world \<Rightarrow> world \<Rightarrow> bool" where
  "move_ready S p rc w w1 \<longleftrightarrow> fr_path rc = p \<and> fr_kind rc \<in> {MutationCreateFile, MutationUpdateFile}
     \<and> (case fr_recovery rc of
          None \<Rightarrow> look (w_tree w1) = look (w_tree w)
        | Some i \<Rightarrow> i = se_uuid S (w_minted w) \<and> archived p i (w_tree w) (w_tree w1)
            \<and> (\<exists>y. look (w_tree w) p = Some y
                 \<and> (\<forall>d. fr_digest rc = Some d \<longrightarrow>
                      (\<exists>c m o'. y = Plain c m o' \<and> parse_digest (''sha256:'' @ hex_encode (se_sha256 S c)) = Inr d))))"

lemma staged_move_ready:
  assumes m: "movable (w_tree w) s p" and st: "staged S p rc w w1"
  shows "move_ready S p rc w w1"
proof -
  consider b where "rc = with_boundary b (new_receipt MutationCreateFile p)" "grown b p (w_tree w) (w_tree w1)"
      "look (w_tree w1) p = None"
    | i d x where "rc = with_recovery i d (new_receipt MutationUpdateFile p)" "i = se_uuid S (w_minted w)"
      "archived p i (w_tree w) (w_tree w1)" "look (w_tree w) p = Some x"
      "d \<noteq> None \<longrightarrow> (\<forall>s. x \<noteq> Symlink s) \<longrightarrow>
         (\<exists>c m o'. x = Plain c m o' \<and> parse_digest (''sha256:'' @ hex_encode (se_sha256 S c)) = Inr (the d))"
    using st unfolding staged_def by blast
  then show ?thesis
  proof cases
    case 1
    have "b = butlast p"
    proof (rule ccontr)
      assume "b \<noteq> butlast p"
      with 1(2) have "look (w_tree w) (butlast p) = None" by (auto simp: grown_def strict_prefix_def)
      with m show False by (simp add: movable_def)
    qed
    then have "look (w_tree w1) k = look (w_tree w) k" for k
      using 1(2,3) by (cases "k = p") (auto simp: grown_def strict_prefix_def)
    with 1(1) show ?thesis by (auto simp: move_ready_def with_boundary_def new_receipt_def)
  next
    case 2
    have "\<forall>s. x \<noteq> Symlink s" using m 2(4) by (auto simp: movable_def)
    with 2 show ?thesis by (auto simp: move_ready_def with_recovery_def new_receipt_def)
  qed
qed

lemma move_ready_source:
  assumes m: "movable (w_tree w) s p" and r: "move_ready S p rc w w1"
  shows "look (w_tree w1) s = look (w_tree w) s \<and> clear (w_tree w1) s"
proof (cases "fr_recovery rc")
  case None
  with r m show ?thesis by (simp add: move_ready_def movable_def aim_def clear_def folder_or_free_def)
next
  case (Some i)
  with r have a: "archived p i (w_tree w) (w_tree w1)" by (auto simp: move_ready_def)
  have s: "ordinary s" "clear (w_tree w) s" "\<not> prefix p s" using m by (simp_all add: movable_def aim_def)
  have "look (w_tree w1) q = look (w_tree w) q" if "strict_prefix q s" for q
    using a above_apart [OF s(1) that] that s(3) prefix_order.trans [of p q s]
    by (auto simp: archived_def strict_prefix_def)
  with s a ordinary_apart(2,7) [OF s(1)] show ?thesis by (auto simp: archived_def intro: clear_same)
qed

lemma renamed_moved:
  assumes "sane t1" "look t1 p = None" "\<not> prefix s p" "\<not> prefix p s"
  shows "moved s p t1 (move_tree s p t1)"
proof -
  have "look (move_tree s p t1) k = (if prefix p k then look t1 (s @ drop (length p) k)
      else if prefix s k then None else look t1 k)" for k
    by (rule look_move) (use assms sane_free_below [OF assms(1,2)] in \<open>auto simp: strict_prefix_def\<close>)
  then show ?thesis by (simp add: moved_def)
qed

lemma ready_moved:
  assumes w: "ready S w1" and q: "quiet w1 w2" and o: "ordinary s" "ordinary p"
    and m: "moved s p (w_tree w1) (w_tree w2)" and t: "sane (w_tree w2)"
    and sc: "\<And>k. scaffold k \<Longrightarrow> look (w_tree w2) k = look (w_tree w1) k"
  shows "ready S w2"
proof -
  have "look (w_tree w2) (recovery_path i) = look (w_tree w1) (recovery_path i)" for i
    using m ordinary_apart(1) [OF o(1)] ordinary_apart(1) [OF o(2)] by (simp add: moved_def)
  moreover have "scaffold [''.devlore'']" "scaffold recovery_dir" by (simp_all add: scaffold_def)
  moreover have "honest w2" using w q honest_less [of w1 w2] by (simp add: ready_def quiet_def)
  ultimately show ?thesis using w q t sc
    by (simp add: ready_def quiet_def answered_def keys_fresh_def site_clear_def folder_or_free_def)
qed

lemma rename_moves:
  assumes w: "ready S w1" and s: "ordinary s" "clear (w_tree w1) s" and p: "ordinary p" "vacant (w_tree w1) p"
    and apart: "\<not> prefix s p" "\<not> prefix p s" and run: "rename S s p w1 = (None, w2)"
  shows "ready S w2 \<and> moved s p (w_tree w1) (w_tree w2) \<and> look (w_tree w1) s \<noteq> None"
proof -
  have v: "clear (w_tree w1) p" "look (w_tree w1) p = None" "p \<noteq> []" using p(2) by (simp_all add: vacant_def)
  have "s \<noteq> p" using apart by auto
  with rename_step [OF ready_sane(1) [OF w] s(2) v(1) run] obtain x m o' where
    r: "quiet w1 w2" "look (w_tree w1) s = Some x" "w_tree w2 = move_tree s p (w_tree w1)"
    "look (w_tree w1) (butlast p) = Some (Folder m o')" by auto
  have mv: "moved s p (w_tree w1) (w_tree w2)"
    using renamed_moved [OF ready_sane(1) [OF w] v(2) apart] r(3) by simp
  have t2: "sane (w_tree w2)"
    unfolding r(3) by (rule sane_move [OF ready_sane(1) [OF w] v(2) r(4) v(3) apart])
  have look: "look (w_tree w2) k = (if prefix p k then look (w_tree w1) (s @ drop (length p) k)
      else if prefix s k then None else look (w_tree w1) k)" for k
    unfolding r(3)
    by (rule look_move)
      (use apart sane_free_below [OF ready_sane(1) [OF w] v(2)] in \<open>auto simp: strict_prefix_def\<close>)
  have "look (w_tree w2) k = look (w_tree w1) k" if "scaffold k" for k
    using look [of k] that ordinary_apart(5) [OF s(1), of k] ordinary_apart(5) [OF p(1), of k] by auto
  from ready_moved [OF w r(1) s(1) p(1) mv t2 this] mv r(2) show ?thesis by simp
qed

lemma move_undo:
  assumes w: "ready S w" and m: "movable (w_tree w) s p" and r: "move_ready S p rc w w1" and w1: "ready S w1"
    and v1: "vacant (w_tree w1) p" and x: "look (w_tree w1) s = Some x" and mv: "moved s p (w_tree w1) t'"
  shows "undoes S (with_source s rc) (w_tree w) t'"
  unfolding undoes_def
proof (intro allI impI)
  fix v
  assume v: "shows_tree v t'"
  have o: "ordinary p" "ordinary s" "clear (w_tree w) p" "\<not> prefix s p" "\<not> prefix p s"
    using m by (simp_all add: movable_def aim_def)
  have p1: "clear (w_tree w1) p" "look (w_tree w1) p = None" using v1 by (simp_all add: vacant_def)
  have s1: "clear (w_tree w1) s" using move_ready_source [OF m r] by simp
  have rc: "fr_path (with_source s rc) = p" "fr_source (with_source s rc) = Some s"
    "fr_recovery (with_source s rc) = fr_recovery rc" "fr_digest (with_source s rc) = fr_digest rc"
    "fr_kind (with_source s rc) = fr_kind rc"
    using r by (simp_all add: with_source_def move_ready_def)
  have "case fr_recovery (with_source s rc) of
        None \<Rightarrow> same_view (w_tree w) (w_tree w1)
      | Some i \<Rightarrow> archived p i (w_tree w) (w_tree w1) \<and> sane (w_tree w) \<and> clear (w_tree w) p
          \<and> look (w_tree w) (recovery_path i) = None \<and> i \<noteq> [] \<and> i \<noteq> ''..''
          \<and> (\<exists>y. look (w_tree w) p = Some y
               \<and> (\<forall>d. fr_digest (with_source s rc) = Some d \<longrightarrow>
                    (\<exists>c m o'. y = Plain c m o' \<and> parse_digest (''sha256:'' @ hex_encode (se_sha256 S c)) = Inr d)))"
    using r fresh_key [OF w order_refl] ready_sane(1) [OF w] o(3)
    by (auto simp: rc(3,4) move_ready_def same_view_def split: option.splits)
  from undo_move [OF o(1) p1 o(2) s1 x o(4,5) ready_sane(1) [OF w1] mv v rc(1,2) this]
  obtain v' where "compensate_move S (with_source s rc) v = (None, v')" "shows_tree v' (w_tree w)" by blast
  moreover have "fr_kind rc \<in> {MutationCreateFile, MutationUpdateFile}" using r by (simp add: move_ready_def)
  ultimately show "\<exists>v'. compensate_file_mutation S (with_source s rc) v = (None, v') \<and> shows_tree v' (w_tree w)"
    using rc(2,5) by (auto simp: compensate_file_mutation_def)
qed

lemma move_staged_compensated:
  assumes w: "ready S w" and m: "movable (w_tree w) (snd source) p" and st: "staged S p rc w w1"
  shows "compensated S (move_staged S u source (r, p) k (with_source (snd source) rc) w1) w"
proof -
  let ?s = "snd source"
  have ms: "aim (w_tree w) p" "ordinary ?s" "ordinary p" "\<not> prefix ?s p" "\<not> prefix p ?s"
    using m by (simp_all add: movable_def aim_def)
  have r1: "ready S w1" using st by (simp add: staged_def)
  have v: "vacant (w_tree w1) p" using staged_vacant [OF w ms(1) st] by simp
  note mr = staged_move_ready [OF m st]
  note src = move_ready_source [OF m mr]
  obtain e w2 where n: "rename S ?s p w1 = (e, w2)" by fastforce
  show ?thesis
  proof (cases e)
    case (Some e')
    with n show ?thesis by (simp add: move_staged_def compensated_def)
  next
    case None
    from rename_moves [OF r1 ms(2) _ ms(3) v ms(4,5)] src n None have mv:
      "ready S w2" "moved ?s p (w_tree w1) (w_tree w2)" "look (w_tree w1) ?s \<noteq> None" by auto
    then obtain x where x: "look (w_tree w1) ?s = Some x" by blast
    obtain err w3 where k: "resolve_product S k p (mark_entry_gone u (fst source) w2) = (err, w3)" by fastforce
    have r2: "ready S (mark_entry_gone u (fst source) w2)" by (rule mark_entry_gone_ready [OF mv(1)])
    from resolve_product_frame [OF k ready_vacant [OF r2]] r2
    have w3: "ready S w3" "w_tree w3 = w_tree w2" by simp_all
    from move_undo [OF w m mr r1 v x mv(2)] n None k w3 show ?thesis
      by (simp add: move_staged_def compensated_def)
  qed
qed

lemma move_compensated:
  assumes w: "ready S w" and m: "movable (w_tree w) (snd source) p"
  shows "compensated S (move S u source p w) w"
proof -
  let ?s = "snd source"
  have ms: "aim (w_tree w) ?s" "aim (w_tree w) p" using m by (simp_all add: movable_def)
  then have c: "clear (w_tree w) ?s" by (simp add: aim_def)
  note seen = lstat_answered [OF ready_sane(2,1) [OF w] c, of S]
  show ?thesis
  proof (cases "look (w_tree w) ?s")
    case None
    with seen show ?thesis by (simp add: move_def compensated_def)
  next
    case (Some x)
    obtain r w2 where pe: "produce_entry_at u p x w = (r, w2)" by fastforce
    from produce_entry_frame [OF pe] have w2: "quiet w w2" "w_tree w2 = w_tree w" by simp_all
    have r2: "ready S w2" by (rule ready_quiet [OF w w2])
    obtain q w3 where s: "stage_write S p w2 = (q, w3)" by fastforce
    have staged: "compensated S (move_staged S u source (r', p) k (with_source ?s rc) w3) w" if "q = Inr rc" for r' k rc
      using compensated_later [OF w2(2) move_staged_compensated [OF r2 _ stage_write_step [OF r2]]] s that m ms w2(2)
      by simp
    have skips: "compensated S (unstaged e, w3) w" if "q = Inl e" for e
      using stage_write_skips [OF r2, of p e w3] s that ms w2(2) by (auto simp: compensated_def unstaged_def)
    show ?thesis
      using seen Some pe s staged skips
      by (auto simp: move_def compensated_def split: sum.splits)
  qed
qed

end
