(* ===== verification/File_Saga.thy ===== *)
theory File_Saga
  imports File_Mutations Recovery_Stack
begin

text \<open>
  The saga of file mutations: each operation of the provider is undone by the receipt it returns, and
  a run of operations recorded on a recovery stack is undone by unwinding that stack, whichever calls
  failed on the way. The contract is stated once for any provider and interpreted on this one.
\<close>

section \<open>The contract of a compensable provider\<close>

text \<open>Operations one after the other, until one errs; the receipts are in the order they were returned.
  A run that ends in an error tells whether the failed operation left a receipt.\<close>

fun perform_all ::
  "('o \<Rightarrow> 'w \<Rightarrow> ('r option \<times> gerror option) \<times> 'w) \<Rightarrow> 'o list \<Rightarrow> 'w \<Rightarrow> ('r list \<times> (gerror \<times> bool) option) \<times> 'w"
where
  "perform_all f [] w = (([], None), w)"
| "perform_all f (op # ops) w =
     (case f op w of ((rc, err), w1) \<Rightarrow>
        (case err of
           Some e \<Rightarrow> (((case rc of None \<Rightarrow> [] | Some r \<Rightarrow> [r]), Some (e, rc \<noteq> None)), w1)
         | None \<Rightarrow>
             (case perform_all f ops w1 of ((rs, out), w2) \<Rightarrow>
                (((case rc of None \<Rightarrow> rs | Some r \<Rightarrow> r # rs), out), w2))))"

fun fits_all ::
  "('w \<Rightarrow> 'o \<Rightarrow> bool) \<Rightarrow> ('o \<Rightarrow> 'w \<Rightarrow> ('r option \<times> gerror option) \<times> 'w) \<Rightarrow> 'o list \<Rightarrow> 'w \<Rightarrow> bool"
where
  "fits_all fit f [] w = True"
| "fits_all fit f (op # ops) w =
     (fit w op \<and> (case f op w of ((rc, None), w1) \<Rightarrow> fits_all fit f ops w1 | _ \<Rightarrow> True))"

text \<open>The undo companion of a receipt on the stack, which stands for a receipt of the provider.\<close>

definition companion :: "('r \<Rightarrow> 'w \<Rightarrow> gerror option \<times> 'w) \<Rightarrow> (receipt \<Rightarrow> 'r) \<Rightarrow> receipt \<Rightarrow> 'w \<Rightarrow> 'w \<times> gerror option" where
  "companion revert book r w = prod.swap (revert (book r) w)"

locale compensable =
  fixes sound :: "'w \<Rightarrow> bool"
    and fit :: "'w \<Rightarrow> 'o \<Rightarrow> bool"
    and act :: "'o \<Rightarrow> 'w \<Rightarrow> ('r option \<times> gerror option) \<times> 'w"
    and revert :: "'r \<Rightarrow> 'w \<Rightarrow> gerror option \<times> 'w"
    and shown :: "'w \<Rightarrow> 'w \<Rightarrow> bool"
  assumes receipt_undoes: "sound w \<Longrightarrow> fit w op \<Longrightarrow> act op w = ((Some r, err), w') \<Longrightarrow>
      sound w' \<and> (\<forall>v. shown v w' \<longrightarrow> (\<exists>v'. revert r v = (None, v') \<and> shown v' w))"
    and idle: "sound w \<Longrightarrow> fit w op \<Longrightarrow> act op w = ((None, None), w') \<Longrightarrow>
      sound w' \<and> (\<forall>v. shown v w' \<longrightarrow> shown v w)"
begin

lemma run_undone:
  assumes "sound w" "fits_all fit act ops w" "perform_all act ops w = ((rs, out), w')"
    and "out = None \<or> (\<exists>e. out = Some (e, True))" and "shown v w'" and "map book xs = rs"
  shows "\<exists>v' log. undo_all (companion revert book) (rev xs) v = (v', log) \<and> log_errors log = [] \<and> shown v' w"
  using assms
proof (induction ops arbitrary: w rs xs)
  case Nil
  then show ?case by simp
next
  case (Cons op ops)
  obtain rc err w1 where a: "act op w = ((rc, err), w1)" by (metis prod.collapse)
  have head: "\<exists>v' log. undo_all (companion revert book) (rev ys) u = (v', log) \<and> log_errors log = [] \<and> shown v' w"
    if "shown u w1" "map book ys = (case rc of None \<Rightarrow> [] | Some r \<Rightarrow> [r])" "rc = None \<longrightarrow> err = None" for u ys
  proof (cases rc)
    case None
    with that a idle [OF Cons.prems(1), of op w1] Cons.prems(2) show ?thesis by simp
  next
    case (Some r)
    with that obtain y where y: "ys = [y]" "book y = r" by auto
    from receipt_undoes [OF Cons.prems(1), of op r err w1] a Some Cons.prems(2) that(1)
    obtain v' where "revert r u = (None, v')" "shown v' w" by auto
    with y show ?thesis by (simp add: companion_def)
  qed
  show ?case
  proof (cases err)
    case (Some e)
    with Cons.prems(3-6) a head [of v xs] show ?thesis by auto
  next
    case None
    obtain rs' where p: "perform_all act ops w1 = ((rs', out), w')"
      and rs: "rs = (case rc of None \<Rightarrow> [] | Some r \<Rightarrow> [r]) @ rs'"
      using Cons.prems(3) a None by (auto split: prod.splits option.splits)
    obtain ys zs where xs: "xs = ys @ zs" "map book ys = (case rc of None \<Rightarrow> [] | Some r \<Rightarrow> [r])" "map book zs = rs'"
      using Cons.prems(6) rs by (auto simp: map_eq_append_conv)
    have w1: "sound w1" "fits_all fit act ops w1"
      using Cons.prems(1,2) a None receipt_undoes [of w op _ None w1] idle [of w op w1] by (cases rc; auto)+
    from Cons.IH [OF w1 p Cons.prems(4,5) xs(3)] obtain u log where
      u: "undo_all (companion revert book) (rev zs) v = (u, log)" "log_errors log = []" "shown u w1" by blast
    from head [OF u(3) xs(2)] None obtain v' log' where
      "undo_all (companion revert book) (rev ys) u = (v', log')" "log_errors log' = []" "shown v' w" by blast
    with u xs(1) show ?thesis by (simp add: undo_all_append)
  qed
qed

text \<open>Unwinding a stack that holds the receipts of a run, nested as it may be.\<close>

lemma unwind_restores:
  assumes "sound w" "fits_all fit act ops w" "perform_all act ops w = ((rs, out), w')"
    and "out = None \<or> (\<exists>e. out = Some (e, True))" and "shown v w'" and "map book (saga s) = rs"
  shows "case unwind (companion revert book) s v of (s', v', err) \<Rightarrow> err = None \<and> shown v' w"
proof -
  obtain s' v' err where u: "unwind (companion revert book) s v = (s', v', err)" by (metis prod.collapse)
  from run_undone [OF assms] unwind_parts(1) [OF u] show ?thesis
    by (auto simp: u unwound_def split: option.splits)
qed

lemma sound_after: "sound w \<Longrightarrow> fits_all fit act ops w \<Longrightarrow> perform_all act ops w = ((rs, None), w') \<Longrightarrow> sound w'"
  by (induction ops arbitrary: w rs)
    (auto split: prod.splits option.splits dest: receipt_undoes idle)

end

section \<open>The operations of the provider\<close>

datatype file_op =
    OpWriteText path string file_mode string string
  | OpWriteFile path string file_mode
  | OpCopy path path file_mode string string
  | OpLink string path bool
  | OpMkdir path file_mode string string
  | OpMove product path
  | OpRemove path "path option" missing_resource_policy
  | OpRemoveAll path "path option" missing_resource_policy

fun perform :: "session \<Rightarrow> (tree \<Rightarrow> resource_methods) \<Rightarrow> string \<Rightarrow> file_op \<Rightarrow> world \<Rightarrow> file_outcome \<times> world" where
  "perform S M u (OpWriteText p s m user grp) w = write_text S u p s m user grp w"
| "perform S M u (OpWriteFile p s m) w = write_file S u p s m w"
| "perform S M u (OpCopy q p m user grp) w = copy S u q p m user grp w"
| "perform S M u (OpLink s p verbatim) w = link_entry S u s p verbatim w"
| "perform S M u (OpMkdir p m user grp) w = mkdir S M u p m user grp w"
| "perform S M u (OpMove s p) w = move S u s p w"
| "perform S M u (OpRemove p bd mp) w = remove_one S u p False bd mp w"
| "perform S M u (OpRemoveAll p bd mp) w = remove_all S u p False bd mp w"

text \<open>The places an operation is about are reached without links, below the root, outside the site, and
  have no element that starts with two dots.\<close>

fun fits :: "tree \<Rightarrow> file_op \<Rightarrow> bool" where
  "fits t (OpWriteText p s m user grp) = aim t p"
| "fits t (OpWriteFile p s m) = aim t p"
| "fits t (OpCopy q p m user grp) = aim t p"
| "fits t (OpLink s p verbatim) = aim t p"
| "fits t (OpMkdir p m user grp) = aim t p"
| "fits t (OpMove s p) = movable t (snd s) p"
| "fits t (OpRemove p bd mp) = aim t p"
| "fits t (OpRemoveAll p bd mp) = aim t p"

lemma perform_compensated:
  assumes "ready S w" "fits (w_tree w) op"
  shows "compensated S (perform S M u op w) w"
  using assms
  by (cases op) (simp_all add: write_text_compensated write_file_compensated copy_compensated
      link_entry_compensated mkdir_compensated move_compensated remove_one_def remove_all_def remove_any_compensated)

definition recorded :: "session \<Rightarrow> (tree \<Rightarrow> resource_methods) \<Rightarrow> string \<Rightarrow> file_op \<Rightarrow> world
    \<Rightarrow> (file_receipt option \<times> gerror option) \<times> world" where
  "recorded S M u op w = (case perform S M u op w of (out, w') \<Rightarrow> (snd out, w'))"

lemma shows_same: "shows_tree v t' \<Longrightarrow> same_view t t' \<Longrightarrow> shows_tree v t"
  by (simp add: shows_tree_def same_view_def)

lemma recorded_outcome:
  assumes "recorded S M u op w = ((rc, err), w')" "ready S w" "fits (w_tree w) op"
  shows "case rc of
      Some r \<Rightarrow> undoes S r (w_tree w) (w_tree w') \<and> ready S w'
    | None \<Rightarrow> err = None \<longrightarrow> same_view (w_tree w) (w_tree w') \<and> ready S w'"
  using perform_compensated [OF assms(2,3), of M u] assms(1)
  by (auto simp: recorded_def compensated_def split: prod.splits option.splits)

interpretation file_saga: compensable "ready S" "\<lambda>w. fits (w_tree w)" "recorded S M u"
    "compensate_file_mutation S" "\<lambda>v w. shows_tree v (w_tree w)"
  for S M u
proof unfold_locales
  fix w op r err w'
  assume "ready S w" "fits (w_tree w) op" "recorded S M u op w = ((Some r, err), w')"
  with recorded_outcome [of S M u op w "Some r" err w']
  show "ready S w' \<and> (\<forall>v. shows_tree v (w_tree w') \<longrightarrow>
      (\<exists>v'. compensate_file_mutation S r v = (None, v') \<and> shows_tree v' (w_tree w)))"
    by (simp add: undoes_def)
next
  fix w op w'
  assume "ready S w" "fits (w_tree w) op" "recorded S M u op w = ((None, None), w')"
  with recorded_outcome [of S M u op w None None w'] shows_same
  show "ready S w' \<and> (\<forall>v. shows_tree v (w_tree w') \<longrightarrow> shows_tree v (w_tree w))"
    by fastforce
qed

section \<open>Every mutation is undone by its receipt\<close>

text \<open>C2: on a ready disk, a mutation that fits it is undone by its receipt, whichever of its changing calls
  fail. Ready: no lstat, stat or readlink fails, no failure to come is a conflict skip, every entry lies
  below a folder, .devlore and .devlore/recovery are folders or free, and the site's fresh keys are distinct
  and unused. Fits: each target lies below the root, outside .devlore, has no element that begins with
  two dots, and its parents are folders or free; a move's two paths do not contain each other, its
  destination's directory exists and its destination is no link. Then, if the mutation returns a receipt,
  with an error or without, compensating it on a disk with no failure to come, sound and showing what the
  mutation left, succeeds and shows again what was there before, entry by entry, the folders .devlore and
  .devlore/recovery apart. File_Defects shows what goes wrong without these conditions. Removals are
  those that prune no parents.\<close>

theorem mutation_is_undone:
  assumes "ready S w" and "fits (w_tree w) op"
    and "perform S M u op w = ((pr, Some rc, err), w')" and "shows_tree v (w_tree w')"
  shows "\<exists>v'. compensate_file_mutation S rc v = (None, v') \<and> shows_tree v' (w_tree w)"
  using perform_compensated [OF assms(1,2), of M u] assms(3,4) by (simp add: compensated_def undoes_def)

text \<open>C3: on a ready disk (no lstat, stat or readlink fails, no failure to come is a conflict skip, every
  entry lies below a folder, .devlore and .devlore/recovery are folders or free, the keys to come are
  distinct and unused), a mutation that fits it (targets below the root, outside .devlore, with no element
  that begins with two dots and with folders or nothing as parents; a move as C2 has it) and returns a
  receipt, or neither a receipt nor an error, leaves the disk ready again: every entry below a folder, the
  recovery site usable, the keys to come unused. Without a receipt it has changed nothing but the site's
  own folders.\<close>

theorem mutations_keep_the_disk_sound:
  assumes "ready S w" and "fits (w_tree w) op"
    and "perform S M u op w = ((pr, rc, err), w')" and "rc \<noteq> None \<or> err = None"
  shows "sane (w_tree w') \<and> ready S w' \<and> (rc = None \<longrightarrow> same_view (w_tree w) (w_tree w'))"
  using perform_compensated [OF assms(1,2), of M u] assms(3,4)
  by (auto simp: compensated_def ready_def split: option.splits)

text \<open>C1: a run of mutations that starts on a ready disk (as C2 says: no lstat, stat or readlink fails, a sound
  tree, a usable recovery site with unused keys) and each of which fits the disk it meets (targets below
  the root, outside .devlore, no element beginning with two dots, parents folders or free; a move's paths
  apart, its destination's directory there and its destination no link), recorded on a recovery stack,
  in nested stacks or not, is undone by unwinding that stack: on a disk with no failure to come that shows
  what the run left, the unwind succeeds and shows what the disk showed before the run, entry by entry,
  .devlore and .devlore/recovery themselves apart. So also if the last mutation failed, provided it
  returned a receipt. The conditions are needed: File_Defects has a move into a missing directory, a move
  over a link and a write below a dotted directory that are not restored.\<close>

theorem file_run_unwinds:
  assumes "ready S w" and "fits_all (\<lambda>w. fits (w_tree w)) (recorded S M u) ops w"
    and "perform_all (recorded S M u) ops w = ((rs, out), w')"
    and "out = None \<or> (\<exists>e. out = Some (e, True))"
    and "shows_tree v (w_tree w')" and "map book (saga s) = rs"
  shows "case unwind (companion (compensate_file_mutation S) book) s v of
      (s', v', err) \<Rightarrow> err = None \<and> shows_tree v' (w_tree w)"
  by (rule file_saga.unwind_restores [OF assms])

section \<open>A disk to try them on\<close>

definition demo_disk_session :: session where
  "demo_disk_session =
     \<lparr>se_root = ''/r'', se_max_links = 8, se_umask = perms 0 2 2, se_owner = (1, 1), se_conflict_flag = None,
      se_uuid = (\<lambda>n. replicate (Suc n) CHR ''u''), se_sha256 = (\<lambda>s. replicate 32 (of_nat (length s))),
      se_lookup_user = (\<lambda>s. Inl ErrCanceled), se_lookup_group = (\<lambda>s. Inl ErrCanceled)\<rparr>"

definition demo_disk :: "tree \<Rightarrow> fault option list \<Rightarrow> world" where
  "demo_disk t fs =
     \<lparr>w_tree = t, w_probe_faults = [], w_faults = fs, w_minted = 0, w_heap = [],
      w_catalog = Some new_resource_catalog\<rparr>"

definition demo_tree :: tree where
  "demo_tree =
     [([], Folder (perms 7 5 5) (1, 1)), ([''a''], Plain ''old'' (perms 6 0 0) (1, 1)),
      ([''d''], Folder (perms 7 0 0) (1, 1)), ([''d'', ''x''], Plain ''text'' (perms 6 0 0) (1, 1)), ([''b''], Plain ''b'' (perms 6 0 0) (1, 1))]"

abbreviation demo_methods :: "tree \<Rightarrow> resource_methods" where
  "demo_methods \<equiv> file_methods demo_disk_session (\<lambda>ob. Inr []) (\<lambda>p. Inl ErrCanceled)"

definition sane_listed :: "tree \<Rightarrow> bool" where
  "sane_listed t \<longleftrightarrow> list_all (\<lambda>(k, x). case look t (butlast k) of Some y \<Rightarrow> is_folder y | None \<Rightarrow> False) t"

lemma sane_if_listed: "sane_listed t \<Longrightarrow> t \<noteq> [] \<Longrightarrow> sane t" if "\<forall>(k, x) \<in> set t. k = [] \<longrightarrow> is_folder x"
proof -
  assume t: "sane_listed t" "t \<noteq> []"
  have up: "\<exists>m w. look t (butlast k) = Some (Folder m w)" if "(k, x) \<in> set t" for k x
    using t(1) that by (force simp: sane_listed_def list_all_iff is_folder_iff split: option.splits)
  have some: "\<exists>m w. look t (p) = Some (Folder m w)" if "look t (p @ [n]) = Some x" for p n x
    using up [of "p @ [n]" x] that by (simp add: look_def map_of_SomeD)
  have "\<exists>x. look t [] = Some x"
  proof -
    obtain k x where "(k, x) \<in> set t" using t(2) by (cases t) auto
    moreover have "\<exists>x. look t [] = Some x" if "look t q = Some y" for q y
      using that
    proof (induction q arbitrary: y rule: rev_induct)
      case (snoc n q)
      then show ?case using some by blast
    qed auto
    ultimately show ?thesis using look_listed [of k x t] by blast
  qed
  then obtain y where "look t [] = Some y" ..
  moreover from this have "is_folder y"
    using that by (auto simp: look_def dest!: map_of_SomeD)
  ultimately show "sane t" using some by (auto simp: sane_def is_folder_iff)
qed

lemma clear_if_listed:
  "''..'' \<notin> set p \<Longrightarrow> (\<And>n. n < length p \<Longrightarrow> folder_or_free t (take n p)) \<Longrightarrow> clear t p"
  unfolding clear_def by (metis append_eq_conv_conj prefix_def prefix_length_less strict_prefix_def)

lemma demo_ready: "(\<And>e k. Some (e, k) \<in> set fs \<Longrightarrow> e = ErrCanceled) \<Longrightarrow> ready demo_disk_session (demo_disk demo_tree fs)"
proof -
  assume fs: "\<And>e k. Some (e, k) \<in> set fs \<Longrightarrow> e = ErrCanceled"
  have "sane demo_tree"
    by (rule sane_if_listed) (simp_all add: demo_tree_def sane_listed_def look_def)
  moreover have "inj (se_uuid demo_disk_session)"
    by (rule injI) (simp add: demo_disk_session_def replicate_eq_replicate)
  moreover have "look demo_tree (recovery_path i) = None" for i
    by (simp add: demo_tree_def look_def recovery_path_def recovery_dir_def)
  moreover have "site_clear demo_tree"
    by (simp add: site_clear_def folder_or_free_def demo_tree_def look_def recovery_dir_def)
  moreover have "honest (demo_disk demo_tree fs)" using fs by (force simp: honest_def demo_disk_def)
  moreover have "se_uuid demo_disk_session n \<noteq> [] \<and> se_uuid demo_disk_session n \<noteq> ''..''" for n
    by (cases n) (simp_all add: demo_disk_session_def)
  ultimately show ?thesis by (simp add: ready_def answered_def demo_disk_def keys_fresh_def)
qed

text \<open>Writing over a file, the copy failing after two bytes.\<close>

definition demo_write :: "file_outcome \<times> world" where
  "demo_write = perform demo_disk_session demo_methods ''u'' (OpWriteText [''a''] ''new'' (perms 6 6 6) [] [])
     (demo_disk demo_tree (replicate 6 None @ [Some (ErrCanceled, 2)]))"

lemma demo_write_fails:
  "case demo_write of ((pr, rc, err), w') \<Rightarrow>
     rc \<noteq> None \<and> err = Some ErrCanceled \<and> w_faults w' = [] \<and> w_probe_faults w' = []
     \<and> look (w_tree w') [''a''] = Some (Plain ''ne'' (perms 6 4 4) (1, 1))"
  by code_simp

lemma demo_fits: "aim demo_tree [''a'']"
  by (auto simp: aim_def ordinary_def demo_tree_def folder_or_free_def look_def intro!: clear_if_listed)

lemma mutation_is_undone_witness:
  "case demo_write of ((pr, Some rc, err), w') \<Rightarrow>
     err = Some ErrCanceled \<and> look (w_tree w') [''a''] = Some (Plain ''ne'' (perms 6 4 4) (1, 1))
     \<and> (\<exists>v'. compensate_file_mutation demo_disk_session rc w' = (None, v') \<and> shows_tree v' demo_tree)
   | _ \<Rightarrow> False"
proof -
  let ?w = "demo_disk demo_tree (replicate 6 None @ [Some (ErrCanceled, 2)])"
  obtain pr rc err w' where run: "demo_write = ((pr, rc, err), w')" by (metis prod.collapse)
  have "rc \<noteq> None" and r: "err = Some ErrCanceled" "calm w'"
    "look (w_tree w') [''a''] = Some (Plain ''ne'' (perms 6 4 4) (1, 1))"
    using demo_write_fails unfolding run by (simp_all add: calm_def)
  then obtain r where rc: "rc = Some r" by blast
  have w: "ready demo_disk_session ?w" by (rule demo_ready) auto
  have f: "fits (w_tree ?w) (OpWriteText [''a''] ''new'' (perms 6 6 6) [] [])"
    using demo_fits by (simp add: demo_disk_def)
  from perform_compensated [OF w f, of demo_methods "''u''"] run r rc have "sane (w_tree w')"
    unfolding demo_write_def by (simp add: compensated_def ready_def del: perform.simps)
  with r have "shows_tree w' (w_tree w')" by (simp add: shows_tree_def same_view_def)
  from mutation_is_undone [OF w f _ this] run r rc show ?thesis
    by (simp add: demo_write_def demo_disk_def)
qed

lemma mutations_keep_the_disk_sound_witness:
  "sane (w_tree (snd demo_write)) \<and> ready demo_disk_session (snd demo_write)"
proof -
  let ?w = "demo_disk demo_tree (replicate 6 None @ [Some (ErrCanceled, 2)])"
  obtain pr rc err w' where run: "demo_write = ((pr, rc, err), w')" by (metis prod.collapse)
  have rc: "rc \<noteq> None \<or> err = None" using demo_write_fails unfolding run by simp
  have w: "ready demo_disk_session ?w" by (rule demo_ready) auto
  have f: "fits (w_tree ?w) (OpWriteText [''a''] ''new'' (perms 6 6 6) [] [])"
    using demo_fits by (simp add: demo_disk_def)
  from mutations_keep_the_disk_sound [OF w f _ rc] run show ?thesis by (simp add: demo_write_def)
qed

text \<open>A run: a file is written below new folders, a file is moved over another, and a directory takes the
  place of a third file; the directory's owner cannot be set, which ends the run.\<close>

definition demo_ops :: "file_op list" where
  "demo_ops =
     [OpWriteText [''n'', ''m'', ''f''] ''text'' (perms 6 6 6) [] [],
      OpMove (0, [''a'']) [''d'', ''x''],
      OpMkdir [''b''] (perms 7 5 5) ''1000'' []]"

definition demo_faults :: "fault option list" where
  "demo_faults = replicate 14 None @ [Some (ErrCanceled, 0)]"

text \<open>The run's environment has no catalog.\<close>

definition demo_run_disk :: world where
  "demo_run_disk = (demo_disk demo_tree demo_faults)\<lparr>w_catalog := None\<rparr>"

definition demo_run_outcome :: "(file_receipt list \<times> (gerror \<times> bool) option) \<times> world" where
  "demo_run_outcome = perform_all (recorded demo_disk_session demo_methods ''u'') demo_ops demo_run_disk"

text \<open>What decides whether an operation fits, evaluated.\<close>

definition listed_clear :: "tree \<Rightarrow> path \<Rightarrow> bool" where
  "listed_clear t p \<longleftrightarrow> list_all (\<lambda>e. \<not> has_prefix e ''..'') p \<and> list_all (\<lambda>n. folder_or_free t (take n p)) [0..<length p]
     \<and> p \<noteq> [] \<and> hd p \<noteq> ''.devlore''"

lemma aim_if_listed: "listed_clear t p \<Longrightarrow> aim t p"
proof -
  assume p: "listed_clear t p"
  then have "''..'' \<notin> set p" by (auto simp: listed_clear_def list_all_iff)
  with p show "aim t p"
    by (auto simp: aim_def ordinary_def listed_clear_def list_all_iff intro!: clear_if_listed)
qed

fun listed_fits :: "tree \<Rightarrow> file_op \<Rightarrow> bool" where
  "listed_fits t (OpWriteText p s m user grp) = listed_clear t p"
| "listed_fits t (OpMkdir p m user grp) = listed_clear t p"
| "listed_fits t (OpMove s p) = (listed_clear t (snd s) \<and> listed_clear t p \<and> \<not> prefix (snd s) p \<and> \<not> prefix p (snd s)
     \<and> (case look t (butlast p) of Some x \<Rightarrow> is_folder x | None \<Rightarrow> False)
     \<and> (case look t p of Some x \<Rightarrow> \<not> is_symlink x | None \<Rightarrow> True))"
| "listed_fits t _ = False"

lemma fits_if_listed: "listed_fits t op \<Longrightarrow> fits t op"
  by (cases op) (auto simp: movable_def intro: aim_if_listed)

lemma fits_all_mono: "(\<And>w op. fit w op \<Longrightarrow> fit' w op) \<Longrightarrow> fits_all fit f ops w \<Longrightarrow> fits_all fit' f ops w"
  by (induction ops arbitrary: w) (auto split: prod.splits option.splits)

lemma demo_run_fits:
  "fits_all (\<lambda>w. listed_fits (w_tree w)) (recorded demo_disk_session demo_methods ''u'') demo_ops demo_run_disk"
  by code_simp

lemma demo_run_facts:
  "case demo_run_outcome of ((rs, out), w') \<Rightarrow>
     length rs = 3 \<and> out \<noteq> None \<and> snd (the out) \<and> w_faults w' = [] \<and> w_probe_faults w' = []
     \<and> sane_listed (w_tree w') \<and> w_tree w' \<noteq> [] \<and> list_all (\<lambda>(k, x). k = [] \<longrightarrow> is_folder x) (w_tree w')"
  by code_simp

lemma demo_run_shows: "shows_tree (snd demo_run_outcome) (w_tree (snd demo_run_outcome))"
proof -
  obtain rs out w' where run: "demo_run_outcome = ((rs, out), w')" by (metis prod.collapse)
  have "sane_listed (w_tree w') \<and> w_tree w' \<noteq> [] \<and> list_all (\<lambda>(k, x). k = [] \<longrightarrow> is_folder x) (w_tree w') \<and> calm w'"
    using demo_run_facts unfolding run by (simp add: calm_def)
  then show ?thesis
    using sane_if_listed [of "w_tree w'"] by (auto simp: run shows_tree_def same_view_def list_all_iff)
qed

definition demo_stack :: rstack where
  "demo_stack =
     (let r = (\<lambda>i. EReceipt (Receipt i [] [] True SelfCompensator None None VNil None VNil))
      in RStack [r [], EStack (RStack [r ''1'', r ''22''] ''sub'' VNil None)] ''run'' VNil None)"

lemma file_run_unwinds_witness:
  "case demo_run_outcome of ((rs, out), w') \<Rightarrow> length rs = 3 \<and> out \<noteq> None \<and>
     (case unwind (companion (compensate_file_mutation demo_disk_session) (\<lambda>r. rs ! length (r_unit_id r)))
        demo_stack w' of (s', v', err) \<Rightarrow> err = None \<and> shows_tree v' demo_tree)"
proof -
  obtain rs out w' where run: "demo_run_outcome = ((rs, out), w')" by (metis prod.collapse)
  have f: "length rs = 3" "out \<noteq> None" "\<exists>e. out = Some (e, True)"
    using demo_run_facts unfolding run by auto
  have "ready demo_disk_session (demo_disk demo_tree demo_faults)" by (rule demo_ready) (auto simp: demo_faults_def)
  then have w: "ready demo_disk_session demo_run_disk"
    by (simp add: demo_run_disk_def ready_def answered_def honest_def keys_fresh_def)
  have fit: "fits_all (\<lambda>w. fits (w_tree w)) (recorded demo_disk_session demo_methods ''u'') demo_ops demo_run_disk"
    by (rule fits_all_mono [OF fits_if_listed demo_run_fits])
  have sh: "shows_tree w' (w_tree w')" using demo_run_shows by (simp add: run)
  have book: "map (\<lambda>r. rs ! length (r_unit_id r)) (saga demo_stack) = rs"
    using f(1) unfolding demo_stack_def Let_def by (cases rs; cases "tl rs"; cases "tl (tl rs)") auto
  from file_run_unwinds [OF w fit run [unfolded demo_run_outcome_def] _ sh book] f show ?thesis
    by (simp add: run demo_run_disk_def demo_disk_def)
qed

end
