(* ===== verification/File_Trace.thy ===== *)
theory File_Trace
  imports File_Saga
begin

text \<open>
  File receipts in a trace (\<open>pkg/op/provider/file/receipt.go\<close>): a receipt is written with the catalog
  ids of its resource, its boundary and its source, and read back by looking the ids up in the
  rehydrated catalog. The base of the envelope belongs to the recovery stack; the parser of UUIDs is an
  argument.
\<close>

section \<open>Kinds\<close>

fun kind_text :: "mutation_kind \<Rightarrow> string" where
  "kind_text MutationCreateFile = ''create_file''"
| "kind_text MutationUpdateFile = ''update_file''"
| "kind_text MutationDeleteFile = ''delete_file''"
| "kind_text MutationCreateDir = ''create_dir''"
| "kind_text MutationDeleteDir = ''delete_dir''"
| "kind_text (MutationOther s) = s"

definition mutation_of_text :: "string \<Rightarrow> mutation_kind" where
  "mutation_of_text s =
     (if s = ''create_file'' then MutationCreateFile
      else if s = ''update_file'' then MutationUpdateFile
      else if s = ''delete_file'' then MutationDeleteFile
      else if s = ''create_dir'' then MutationCreateDir
      else if s = ''delete_dir'' then MutationDeleteDir
      else MutationOther s)"

section \<open>Writing and reading a receipt\<close>

text \<open>The handles a receipt holds: its resource, and when it has them its boundary and its source.\<close>

record receipt_handles =
  rh_resource :: res_object
  rh_boundary :: "res_object option"
  rh_source :: "res_object option"

abbreviation object_id :: "res_object \<Rightarrow> string" where
  "object_id ob \<equiv> rb_id (ro_base ob)"

definition handle_id :: "res_object option \<Rightarrow> string" where
  "handle_id x = (case x of None \<Rightarrow> [] | Some ob \<Rightarrow> object_id ob)"

definition omit_empty :: "string \<Rightarrow> string \<Rightarrow> (string \<times> string) list" where
  "omit_empty key s = (if s = [] then [] else [(key, s)])"

definition receipt_fields :: "receipt_handles \<Rightarrow> file_receipt \<Rightarrow> (string \<times> string) list" where
  "receipt_fields hs rc =
     [(''resource_id'', object_id (rh_resource hs))]
     @ omit_empty ''boundary_id'' (handle_id (rh_boundary hs))
     @ omit_empty ''source_id'' (handle_id (rh_source hs))
     @ omit_empty ''recovery_id'' (case fr_recovery rc of None \<Rightarrow> [] | Some i \<Rightarrow> i)
     @ omit_empty ''recovery_digest'' (case fr_digest rc of None \<Rightarrow> [] | Some d \<Rightarrow> digest_string d)
     @ omit_empty ''kind'' (kind_text (fr_kind rc))"

definition string_field :: "(string \<times> string) list \<Rightarrow> string \<Rightarrow> string" where
  "string_field fs key = (case map_of fs key of None \<Rightarrow> [] | Some s \<Rightarrow> s)"

text \<open>The entry of an id must be a file resource.\<close>

definition lookup_resource :: "ledger \<Rightarrow> string \<Rightarrow> (gerror, res) result" where
  "lookup_resource l i =
     (case lookup_res (snd l) i of
        None \<Rightarrow> Inl (ENew (''file.Receipt: resource id '' @ quote i @ '' not in catalog''))
      | Some r \<Rightarrow>
          if object_kind (fst l ! r) = None then
            Inl (ENew (''file.Receipt: catalog entry '' @ quote i @ '' is not a file taxonomy entry''))
          else Inr r)"

definition restore_handle :: "ledger \<Rightarrow> string \<Rightarrow> string \<Rightarrow> (gerror, path option) result" where
  "restore_handle l what i =
     (if i = [] then Inr None
      else (case lookup_resource l i of
              Inl e \<Rightarrow> Inl e
            | Inr r \<Rightarrow> Inr (Some (object_path (fst l ! r)))))"

definition parse_optional :: "(string \<Rightarrow> (gerror, 'a) result) \<Rightarrow> string \<Rightarrow> (gerror, 'a option) result" where
  "parse_optional f s = (if s = [] then Inr None else (case f s of Inl e \<Rightarrow> Inl e | Inr x \<Rightarrow> Inr (Some x)))"

text \<open>Every failure but a missing catalog is an assertion; the texts of the assertions are shortened.\<close>

definition restore_encoded ::
  "(string \<Rightarrow> (gerror, string) result) \<Rightarrow> res_heap \<Rightarrow> catalog option \<Rightarrow> (string \<times> string) list \<Rightarrow> file_receipt call"
where
  "restore_encoded parse_uuid h c fs =
     (case c of
        None \<Rightarrow> Fails (ENew ''file.Receipt: RestoreEncoded requires a runtime environment with a catalog'')
      | Some c \<Rightarrow>
          (case lookup_resource (h, c) (string_field fs ''resource_id'') of
             Inl e \<Rightarrow> Asserts ''file.Receipt: resource lookup''
           | Inr r \<Rightarrow>
               (case restore_handle (h, c) ''boundary'' (string_field fs ''boundary_id'') of
                  Inl e \<Rightarrow> Asserts ''file.Receipt: boundary lookup''
                | Inr b \<Rightarrow>
                    (case restore_handle (h, c) ''source'' (string_field fs ''source_id'') of
                       Inl e \<Rightarrow> Asserts ''file.Receipt: source lookup''
                     | Inr s \<Rightarrow>
                         (case parse_optional parse_uuid (string_field fs ''recovery_id'') of
                            Inl e \<Rightarrow> Asserts ''uuid''
                          | Inr i \<Rightarrow>
                              (case parse_optional parse_digest (string_field fs ''recovery_digest'') of
                                 Inl e \<Rightarrow> Asserts ''digest''
                               | Inr d \<Rightarrow>
                                   Returns
                                     \<lparr>fr_kind = mutation_of_text (string_field fs ''kind''),
                                      fr_path = object_path (h ! r), fr_boundary = b, fr_source = s,
                                      fr_recovery = i, fr_digest = d\<rparr>))))))"

section \<open>What survives the trace\<close>

text \<open>A handle that the catalog knows under its id.\<close>

definition known :: "ledger \<Rightarrow> res_object \<Rightarrow> path \<Rightarrow> bool" where
  "known l ob p \<longleftrightarrow> object_id ob \<noteq> [] \<and> (\<exists>r. lookup_res (snd l) (object_id ob) = Some r
     \<and> object_kind (fst l ! r) \<noteq> None \<and> object_path (fst l ! r) = p)"

lemma known_lookup:
  "known (h, c) ob p \<Longrightarrow> \<exists>r. lookup_resource (h, c) (object_id ob) = Inr r \<and> object_path (h ! r) = p"
  by (auto simp: known_def lookup_resource_def)

lemma restore_known: "known (h, c) ob p \<Longrightarrow> restore_handle (h, c) what (object_id ob) = Inr (Some p)"
  using known_lookup [of h c ob p] by (auto simp: restore_handle_def known_def)

text \<open>The fields read back.\<close>

lemma string_field_fields:
  "string_field (receipt_fields hs rc) ''resource_id'' = object_id (rh_resource hs)"
  "string_field (receipt_fields hs rc) ''boundary_id'' = handle_id (rh_boundary hs)"
  "string_field (receipt_fields hs rc) ''source_id'' = handle_id (rh_source hs)"
  "string_field (receipt_fields hs rc) ''recovery_id'' = (case fr_recovery rc of None \<Rightarrow> [] | Some i \<Rightarrow> i)"
  "string_field (receipt_fields hs rc) ''recovery_digest'' = (case fr_digest rc of None \<Rightarrow> [] | Some d \<Rightarrow> digest_string d)"
  "string_field (receipt_fields hs rc) ''kind'' = kind_text (fr_kind rc)"
  by (auto simp: string_field_def receipt_fields_def omit_empty_def map_add_def split: option.split)

lemma kind_text_back: "k \<notin> range MutationOther \<Longrightarrow> mutation_of_text (kind_text k) = k"
  by (cases k) (auto simp: mutation_of_text_def)

definition handle_of :: "ledger \<Rightarrow> res_object option \<Rightarrow> path option \<Rightarrow> bool" where
  "handle_of l x p = (case (x, p) of (None, None) \<Rightarrow> True | (Some ob, Some q) \<Rightarrow> known l ob q | _ \<Rightarrow> False)"

lemma restore_handle_of: "handle_of (h, c) x p \<Longrightarrow> restore_handle (h, c) what (handle_id x) = Inr p"
  by (cases x; cases p) (auto simp: handle_of_def handle_id_def restore_known, simp add: restore_handle_def)

lemma parse_optional_text:
  "(\<And>x. v = Some x \<Longrightarrow> f (g x) = Inr x \<and> g x \<noteq> []) \<Longrightarrow>
   parse_optional f (case v of None \<Rightarrow> [] | Some x \<Rightarrow> g x) = Inr v"
  by (cases v) (auto simp: parse_optional_def)

text \<open>C4: a receipt whose handles the rehydrated catalog knows by their ids reads back as it was: kind,
  path, boundary, source, recovery key and digest.\<close>

theorem receipt_survives_the_trace:
  assumes "known (h, c) (rh_resource hs) (fr_path rc)"
    and "handle_of (h, c) (rh_boundary hs) (fr_boundary rc)" and "handle_of (h, c) (rh_source hs) (fr_source rc)"
    and "\<And>i. fr_recovery rc = Some i \<Longrightarrow> parse_uuid i = Inr i \<and> i \<noteq> []"
    and "\<And>d. fr_digest rc = Some d \<Longrightarrow> dg_algorithm d = ''sha256'' \<and> length (dg_bytes d) = 32"
    and "fr_kind rc \<notin> range MutationOther"
  shows "restore_encoded parse_uuid h (Some c) (receipt_fields hs rc) = Returns rc"
proof -
  have "parse_optional parse_uuid (case fr_recovery rc of None \<Rightarrow> [] | Some i \<Rightarrow> i) = Inr (fr_recovery rc)"
    using parse_optional_text [of "fr_recovery rc" parse_uuid "\<lambda>i. i"] assms(4) by simp
  moreover have "parse_digest (digest_string d) = Inr d \<and> digest_string d \<noteq> []" if "fr_digest rc = Some d" for d
    using assms(5) [OF that] digest_codec_exact [of "digest_string d" d] by (simp add: digest_string_def)
  then have "parse_optional parse_digest (case fr_digest rc of None \<Rightarrow> [] | Some d \<Rightarrow> digest_string d) = Inr (fr_digest rc)"
    by (rule parse_optional_text)
  moreover obtain r where "lookup_resource (h, c) (object_id (rh_resource hs)) = Inr r" "object_path (h ! r) = fr_path rc"
    using known_lookup [OF assms(1)] by blast
  ultimately show ?thesis
    using restore_handle_of [OF assms(2)] restore_handle_of [OF assms(3)] kind_text_back [OF assms(6)]
    by (simp add: restore_encoded_def string_field_fields)
qed

lemma candidate_has_no_id: "candidate_of_mode p x = Inr ob \<Longrightarrow> object_id ob = []"
  by (auto simp: candidate_of_mode_def observed_kind_def build_candidate_def new_resource_base_def Let_def
      split: if_splits sum.splits prod.splits option.splits)

text \<open>The source handle of a move's receipt is a candidate that is not in the catalog and has no id, so
  the receipt read back from a trace has no source: whatever the disk, compensating it is compensating a
  write, which removes the moved entry at its destination instead of moving it back.\<close>

theorem moved_receipt_forgets_its_source:
  assumes "candidate_of_mode s x = Inr ob" and "rh_source hs = Some ob"
    and "restore_encoded parse_uuid h c (receipt_fields hs rc) = Returns rc'"
    and "fr_kind rc \<in> {MutationCreateFile, MutationUpdateFile}"
  shows "fr_source rc' = None \<and> compensate_file_mutation S rc' w = compensate_write S rc' w"
proof -
  have "string_field (receipt_fields hs rc) ''source_id'' = []"
    using candidate_has_no_id [OF assms(1)] assms(2) by (simp add: string_field_fields handle_id_def)
  moreover have "string_field (receipt_fields hs rc) ''kind'' = kind_text (fr_kind rc)"
    by (rule string_field_fields)
  ultimately have "fr_source rc' = None" "fr_kind rc' = mutation_of_text (kind_text (fr_kind rc))"
    using assms(3)
    by (auto simp: restore_encoded_def restore_handle_def split: option.splits sum.splits)
  with assms(4) show ?thesis
    by (auto simp: compensate_file_mutation_def mutation_of_text_def)
qed

section \<open>Examples\<close>

text \<open>A file is moved, and the run that moved it is saved, resumed and unwound.\<close>

definition demo_moved :: "file_outcome \<times> world" where
  "demo_moved = (case new_entry ''u'' RegularKind [''a''] (demo_disk demo_tree []) of
     (Inr r, w) \<Rightarrow> move demo_disk_session ''u'' (r, [''a'']) [''d'', ''y''] w)"

text \<open>The handles: the product, the boundary the stage found, and the source's candidate.\<close>

definition demo_source :: res_object where
  "demo_source = projr (candidate_of_mode [''a''] (Plain ''old'' (perms 6 0 0) (1, 1)))"

definition demo_handles :: receipt_handles where
  "demo_handles =
     (let h = w_heap (snd demo_moved)
      in \<lparr>rh_resource = h ! 1, rh_boundary = Some (h ! 2), rh_source = Some demo_source\<rparr>)"

definition demo_restored :: "file_receipt call" where
  "demo_restored =
     restore_encoded Inr (w_heap (snd demo_moved)) (w_catalog (snd demo_moved))
       (receipt_fields demo_handles (the (fst (snd (fst demo_moved)))))"

definition old_text :: "tree \<Rightarrow> bool" where
  "old_text t \<longleftrightarrow> list_ex (\<lambda>(k, x). case x of Plain s m w \<Rightarrow> s = ''old'' | _ \<Rightarrow> False) t"

lemma demo_source_candidate: "candidate_of_mode [''a''] (Plain ''old'' (perms 6 0 0) (1, 1)) = Inr demo_source"
  by code_simp

lemma demo_moved_facts:
  "fst (fst demo_moved) = Some (1, [''d'', ''y'']) \<and> snd (snd (fst demo_moved)) = None
     \<and> (case fst (snd (fst demo_moved)) of None \<Rightarrow> False
          | Some rc \<Rightarrow> fr_source rc = Some [''a''] \<and> fr_kind rc = MutationCreateFile)
     \<and> old_text (w_tree (snd demo_moved)) \<and> w_faults (snd demo_moved) = []"
  by code_simp

lemma demo_restored_facts:
  "demo_restored =
     Returns \<lparr>fr_kind = MutationCreateFile, fr_path = [''d'', ''y''], fr_boundary = Some [''d''], fr_source = None,
              fr_recovery = None, fr_digest = None\<rparr>"
  by code_simp

lemma demo_lost:
  "case demo_restored of Returns rc \<Rightarrow>
     (case compensate_write demo_disk_session rc (snd demo_moved) of (e, w') \<Rightarrow> e = None \<and> \<not> old_text (w_tree w'))
   | _ \<Rightarrow> False"
  by code_simp

lemma moved_receipt_forgets_its_source_witness:
  "old_text (w_tree (snd demo_moved)) \<and>
   (case demo_restored of Returns rc \<Rightarrow>
      fr_source rc = None \<and>
      (case compensate_file_mutation demo_disk_session rc (snd demo_moved) of
         (e, w') \<Rightarrow> e = None \<and> \<not> old_text (w_tree w'))
    | _ \<Rightarrow> False)"
proof -
  obtain rc where rc: "fst (snd (fst demo_moved)) = Some rc" "fr_kind rc = MutationCreateFile"
    using demo_moved_facts by (auto split: option.splits)
  obtain rc' where rc': "demo_restored = Returns rc'" using demo_restored_facts by blast
  have "rh_source demo_handles = Some demo_source" by (simp add: demo_handles_def Let_def)
  from moved_receipt_forgets_its_source [OF demo_source_candidate this, of Inr "w_heap (snd demo_moved)"
      "w_catalog (snd demo_moved)" rc rc' demo_disk_session "snd demo_moved"] rc rc'
  have same: "fr_source rc' = None \<and> compensate_file_mutation demo_disk_session rc' (snd demo_moved)
      = compensate_write demo_disk_session rc' (snd demo_moved)"
    by (simp add: demo_restored_def)
  show ?thesis using demo_lost demo_moved_facts same unfolding rc' by (simp split: prod.splits)
qed

text \<open>A receipt of an overwritten file, as its run would save it.\<close>

definition demo_update :: file_receipt where
  "demo_update = \<lparr>fr_kind = MutationUpdateFile, fr_path = [''d'', ''y''], fr_boundary = Some [''d''], fr_source = None,
     fr_recovery = Some ''u'', fr_digest = Some \<lparr>dg_algorithm = ''sha256'', dg_bytes = replicate 32 7\<rparr>\<rparr>"

lemma demo_known:
  "object_id (rh_resource demo_handles) = ''res-2'' \<and> map_option object_id (rh_boundary demo_handles) = Some ''res-3''
   \<and> (case w_catalog (snd demo_moved) of None \<Rightarrow> False
      | Some c \<Rightarrow> lookup_res c ''res-2'' = Some 1 \<and> lookup_res c ''res-3'' = Some 2)
   \<and> object_kind (w_heap (snd demo_moved) ! 1) = Some RegularKind
   \<and> object_kind (w_heap (snd demo_moved) ! 2) = Some DirectoryKind
   \<and> object_path (w_heap (snd demo_moved) ! 1) = [''d'', ''y''] \<and> object_path (w_heap (snd demo_moved) ! 2) = [''d'']"
  by code_simp

lemma receipt_survives_the_trace_witness:
  "restore_encoded Inr (w_heap (snd demo_moved)) (Some (the (w_catalog (snd demo_moved))))
     (receipt_fields (demo_handles\<lparr>rh_source := None\<rparr>) demo_update) = Returns demo_update"
proof (rule receipt_survives_the_trace)
  obtain c where c: "w_catalog (snd demo_moved) = Some c" using demo_known by (auto split: option.splits)
  let ?l = "(w_heap (snd demo_moved), the (w_catalog (snd demo_moved)))"
  show "known ?l (rh_resource (demo_handles\<lparr>rh_source := None\<rparr>)) (fr_path demo_update)"
    using demo_known c by (simp add: known_def demo_update_def)
  obtain ob where "rh_boundary demo_handles = Some ob" "object_id ob = ''res-3''" using demo_known by auto
  then show "handle_of ?l (rh_boundary (demo_handles\<lparr>rh_source := None\<rparr>)) (fr_boundary demo_update)"
    using demo_known c by (simp add: handle_of_def known_def demo_update_def)
qed (auto simp: demo_update_def handle_of_def)

end
