(* ===== verification/File_Defects.thy ===== *)
theory File_Defects
  imports File_Trace
begin

text \<open>
  Mutations of the file provider whose compensation does not bring back what was there, each run on a
  small disk: the cases the hypotheses of the undo theorems leave out.
\<close>

definition undone :: "file_outcome \<times> world \<Rightarrow> (gerror option \<times> world) option" where
  "undone r = (case r of ((pr, rc, err), w) \<Rightarrow> map_option (\<lambda>rc. compensate_file_mutation demo_disk_session rc w) rc)"

definition entry_after :: "file_outcome \<times> world \<Rightarrow> path \<Rightarrow> entry option" where
  "entry_after r p = (case undone r of None \<Rightarrow> None | Some (e, w) \<Rightarrow> look (w_tree w) p)"

definition error_after :: "file_outcome \<times> world \<Rightarrow> gerror option" where
  "error_after r = (case undone r of None \<Rightarrow> None | Some (e, w) \<Rightarrow> e)"

definition demo_links :: tree where
  "demo_links = ([''l''], Symlink ''a'') # ([''gone''], Symlink ''nowhere'') # demo_tree"

text \<open>A file written below a new directory whose name starts with two dots is created with a receipt
  whose compensation fails: the directory's path is taken to lie outside its boundary by the text of
  its relative form, and the directory is left behind.\<close>

theorem dotted_directory_is_not_undone:
  "let r = write_text demo_disk_session ''u'' [''d'', ''..data'', ''f''] ''text'' (perms 6 6 6) [] [] (demo_disk demo_tree [])
   in snd (snd (fst r)) = None \<and> look (w_tree (snd r)) [''d'', ''..data'', ''f''] \<noteq> None
     \<and> error_after r = Some (outside_boundary [''d'', ''..data''] [''d''])
     \<and> entry_after r [''d'', ''..data''] \<noteq> None"
  by code_simp

text \<open>A move into a directory that does not exist yet makes the directory and, compensated, leaves it:
  the boundary the stage records is not used for a move.\<close>

theorem move_leaves_the_directories_it_made:
  "let r = move demo_disk_session ''u'' (0, [''a'']) [''new'', ''b''] ((demo_disk demo_tree [])\<lparr>w_catalog := None\<rparr>)
   in snd (snd (fst r)) = None \<and> error_after r = None
     \<and> entry_after r [''a''] = look demo_tree [''a''] \<and> look demo_tree [''new''] = None
     \<and> entry_after r [''new''] = Some (Folder (perms 7 5 0) (1, 1))"
  by code_simp

text \<open>A move that replaces a symbolic link cannot be compensated: the digest of the receipt is that of
  the file the link led to, and after the archive has moved the link it leads nowhere.\<close>

theorem move_over_a_link_is_not_undone:
  "let r = move demo_disk_session ''u'' (0, [''d'', ''x'']) [''l''] ((demo_disk demo_links [])\<lparr>w_catalog := None\<rparr>)
   in snd (snd (fst r)) = None \<and> error_after r = Some (ENew ''cannot read u for verification'')
     \<and> entry_after r [''l''] = None \<and> look demo_links [''l''] = Some (Symlink ''a'')"
  by code_simp

text \<open>Removing with pruning and compensating brings the directory back with another mode: it was 0700
  and is 0755.\<close>

theorem pruned_parent_comes_back_readable:
  "let r = remove_one demo_disk_session ''u'' [''d'', ''x''] True None MissingStop ((demo_disk demo_tree [])\<lparr>w_catalog := None\<rparr>)
   in snd (snd (fst r)) = None \<and> error_after r = None
     \<and> look demo_tree [''d''] = Some (Folder (perms 7 0 0) (1, 1))
     \<and> entry_after r [''d''] = Some (Folder (perms 7 5 5) (1, 1))"
  by code_simp

text \<open>Under the replacing policy a dangling link is not overwritten by a file, though a directory takes its
  place.\<close>

theorem dangling_link_is_not_overwritten:
  "let w = (demo_disk demo_links [])\<lparr>w_catalog := None\<rparr>;
       r = write_text demo_disk_session ''u'' [''gone''] ''text'' (perms 6 6 6) [] [] w;
       q = mkdir demo_disk_session demo_methods ''u'' [''gone''] (perms 7 5 5) [] [] w
   in fst r = (None, None, Some ErrNotExist)
     \<and> snd (snd (fst q)) = None \<and> look (w_tree (snd q)) [''gone''] = Some (Folder (perms 7 5 5) (1, 1))"
  by code_simp

text \<open>A probe that fails for a moment makes a link's target look free: the link is refused because the
  target is there, and compensating the receipt of the refused link removes the target.\<close>

theorem unseen_occupant_is_removed:
  "let w = (demo_disk demo_tree [])\<lparr>w_catalog := None, w_probe_faults := [Some ErrCanceled]\<rparr>;
       r = link_entry demo_disk_session ''u'' ''/r/d'' [''a''] False w
   in snd (snd (fst r)) = Some (ENew ''file exists'') \<and> look (w_tree (snd r)) [''a''] = look demo_tree [''a'']
     \<and> error_after r = None \<and> entry_after r [''a''] = None"
  by code_simp

text \<open>A write whose directories are only partly made returns no receipt: nothing removes them.\<close>

theorem partial_directories_are_left:
  "let w = (demo_disk demo_tree [Some (ErrCanceled, 1)])\<lparr>w_catalog := None\<rparr>;
       r = write_text demo_disk_session ''u'' [''p'', ''q'', ''f''] ''text'' (perms 6 6 6) [] [] w
   in fst r = (None, None, Some ErrCanceled) \<and> look (w_tree (snd r)) [''p''] = Some (Folder (perms 7 5 0) (1, 1))"
  by code_simp

end
