(* ===== verification/Selector.thy ===== *)
theory Selector
  imports Errors "HOL-Library.List_Lexorder" "HOL-Library.Char_ord" "HOL-Library.Product_Lexorder"
begin

text \<open>
  The selector API of \<open>pkg/selector\<close>: the words of operating systems, distributions and architectures
  (\<open>words.go\<close>), os-release (\<open>osrelease.go\<close>), the host and its chain (\<open>host.go\<close>), and the selection of
  directory names in the order to apply them (\<open>selector.go\<close>). Letters are ASCII where their case
  changes; a line of os-release is trimmed of ASCII spaces.
\<close>

section \<open>Words\<close>

definition os_words :: "(string \<times> string) list" where
  "os_words =
     [(''darwin'', ''Darwin''), (''freebsd'', ''FreeBSD''), (''linux'', ''Linux''), (''netbsd'', ''NetBSD''),
      (''openbsd'', ''OpenBSD''), (''windows'', ''Windows'')]"

definition unix_words :: "string list" where
  "unix_words = [''Darwin'', ''FreeBSD'', ''Linux'', ''NetBSD'', ''OpenBSD'']"

definition distro_words :: "(string \<times> string) list" where
  "distro_words =
     [(''almalinux'', ''AlmaLinux''), (''alpine'', ''Alpine''), (''arch'', ''Arch''), (''centos'', ''CentOS''),
      (''centos-stream'', ''CentOS''), (''debian'', ''Debian''), (''fedora'', ''Fedora''), (''linuxmint'', ''Mint''),
      (''manjaro'', ''Manjaro''), (''mint'', ''Mint''), (''opensuse'', ''OpenSUSE''), (''opensuse-leap'', ''OpenSUSE''),
      (''opensuse-tumbleweed'', ''OpenSUSE''), (''rhel'', ''RHEL''), (''rocky'', ''Rocky''), (''suse'', ''SUSE''),
      (''ubuntu'', ''Ubuntu'')]"

definition arch_words :: "(string \<times> string) list" where
  "arch_words = [(''aarch64'', ''arm64''), (''amd64'', ''amd64''), (''arm64'', ''arm64''), (''x86_64'', ''amd64'')]"

definition upper_char :: "char \<Rightarrow> char" where
  "upper_char c = (let n = of_char c :: nat in if 97 \<le> n \<and> n \<le> 122 then char_of (n - 32) else c)"

definition lower_char :: "char \<Rightarrow> char" where
  "lower_char c = (let n = of_char c :: nat in if 65 \<le> n \<and> n \<le> 90 then char_of (n + 32) else c)"

fun capitalized :: "string \<Rightarrow> string" where
  "capitalized [] = []"
| "capitalized (c # cs) = upper_char c # cs"

definition distro_word :: "string \<Rightarrow> string" where
  "distro_word i = (case map_of distro_words i of Some w \<Rightarrow> w | None \<Rightarrow> capitalized i)"

definition os_word :: "string \<Rightarrow> string" where
  "os_word i = (case map_of os_words i of Some w \<Rightarrow> w | None \<Rightarrow> capitalized i)"

definition arch_of :: "string \<Rightarrow> string option" where
  "arch_of w = map_of arch_words w"

definition is_platform_word :: "string \<Rightarrow> bool" where
  "is_platform_word w = (w = ''Unix'' \<or> w \<in> set (map snd os_words) \<or> w \<in> set (map snd distro_words))"

section \<open>os-release\<close>

record os_release =
  or_id :: string
  or_id_like :: "string list"
  or_version_id :: string
  or_variant_id :: string

definition no_release :: os_release where
  "no_release = \<lparr>or_id = [], or_id_like = [], or_version_id = [], or_variant_id = []\<rparr>"

fun unescape :: "string \<Rightarrow> string" where
  "unescape [] = []"
| "unescape [c] = [c]"
| "unescape (c # d # cs) = (if c = CHR 0x5C then d # unescape cs else c # unescape (d # cs))"

definition unquote :: "string \<Rightarrow> string" where
  "unquote v =
     (if length v < 2 then v
      else let inner = butlast (tl v) in
        if hd v = CHR 0x27 \<and> last v = CHR 0x27 then inner
        else if hd v = CHR 0x22 \<and> last v = CHR 0x22 then unescape inner
        else v)"

definition is_space :: "char \<Rightarrow> bool" where
  "is_space c \<longleftrightarrow> of_char c \<in> {9, 10, 11, 12, 13, 32 :: nat}"

definition trim_space :: "string \<Rightarrow> string" where
  "trim_space s = rev (dropWhile is_space (rev (dropWhile is_space s)))"

fun text_fields :: "string \<Rightarrow> string \<Rightarrow> string list" where
  "text_fields w [] = (if w = [] then [] else [w])"
| "text_fields w (c # cs) =
     (if is_space c then (if w = [] then [] else [w]) @ text_fields [] cs else text_fields (w @ [c]) cs)"

text \<open>A \<open>bufio.Scanner\<close>: the lines of the content, up to one that does not fit its buffer.\<close>

definition scan_lines :: "string \<Rightarrow> string list \<times> bool" where
  "scan_lines s =
     (let ls = split_on (CHR 0x0A) s;
          ls' = (if last ls = [] then butlast ls else ls);
          fit = takeWhile (\<lambda>l. length l < 65536) ls'
      in (map (\<lambda>l. if l \<noteq> [] \<and> last l = CHR 0x0D then butlast l else l) fit, length fit < length ls'))"

definition release_line :: "string \<Rightarrow> os_release \<Rightarrow> os_release" where
  "release_line raw r =
     (let line = trim_space raw in
      if line = [] \<or> has_prefix line ''#'' then r
      else (case cut line (CHR ''='') of
              (key, value, False) \<Rightarrow> r
            | (key, value, True) \<Rightarrow>
                (let v = unquote value in
                 if key = ''ID'' then r\<lparr>or_id := map lower_char v\<rparr>
                 else if key = ''ID_LIKE'' then r\<lparr>or_id_like := text_fields [] (map lower_char v)\<rparr>
                 else if key = ''VERSION_ID'' then r\<lparr>or_version_id := v\<rparr>
                 else if key = ''VARIANT_ID'' then r\<lparr>or_variant_id := v\<rparr>
                 else r)))"

definition parse_os_release :: "string \<Rightarrow> os_release \<times> gerror option" where
  "parse_os_release s =
     (case scan_lines s of (ls, long) \<Rightarrow>
        (fold release_line ls no_release, if long then Some (ENew ''bufio.Scanner: token too long'') else None))"

text \<open>\<open>ReadOSRelease\<close>: the first file that can be opened and read.\<close>

fun read_os_release :: "(string \<Rightarrow> string option) \<Rightarrow> string list \<Rightarrow> os_release \<times> bool" where
  "read_os_release open_file [] = (no_release, False)"
| "read_os_release open_file (p # ps) =
     (case open_file p of
        None \<Rightarrow> read_os_release open_file ps
      | Some s \<Rightarrow>
          (case parse_os_release s of
             (r, None) \<Rightarrow> (r, True)
           | (r, Some e) \<Rightarrow> read_os_release open_file ps))"

definition os_release_paths :: "string list" where
  "os_release_paths = [''/etc/os-release'', ''/usr/lib/os-release'']"

section \<open>Hosts\<close>

record host =
  ho_os :: string
  ho_distro :: string
  ho_lineage :: "string list"
  ho_chain :: "string list"
  ho_arch :: string

text \<open>The loop of \<open>keepMostSpecific\<close> runs from the last word; what it keeps is reversed.\<close>

fun keep_unseen :: "string list \<Rightarrow> string list \<Rightarrow> string list" where
  "keep_unseen seen [] = []"
| "keep_unseen seen (w # ws) =
     (if w \<in> set seen then keep_unseen seen ws else w # keep_unseen (w # seen) ws)"

definition keep_most_specific :: "string list \<Rightarrow> string list" where
  "keep_most_specific chain = rev (keep_unseen [] (rev chain))"

definition new_host_from_words :: "string \<Rightarrow> string \<Rightarrow> string list \<Rightarrow> string \<Rightarrow> host" where
  "new_host_from_words os distro lineage arch =
     (let canonical = (case arch_of arch of Some a \<Rightarrow> a | None \<Rightarrow> arch);
          base = (if os \<in> set unix_words then [''Unix''] else []) @ [os]
      in if distro = [] then
           \<lparr>ho_os = os, ho_distro = [], ho_lineage = [], ho_chain = base, ho_arch = canonical\<rparr>
         else
           \<lparr>ho_os = os, ho_distro = distro, ho_lineage = lineage,
            ho_chain = keep_most_specific (base @ lineage @ [distro]), ho_arch = canonical\<rparr>)"

definition new_host :: "string \<Rightarrow> string \<Rightarrow> os_release \<Rightarrow> host" where
  "new_host goos goarch r =
     (if goos = ''linux'' \<and> or_id r \<noteq> [] then
        new_host_from_words (os_word goos) (distro_word (or_id r)) (map distro_word (rev (or_id_like r))) goarch
      else new_host_from_words (os_word goos) [] [] goarch)"

fun position :: "string list \<Rightarrow> string \<Rightarrow> nat" where
  "position [] w = 0"
| "position (x # xs) w = (if x = w then 1 else (case position xs w of 0 \<Rightarrow> 0 | Suc n \<Rightarrow> Suc (Suc n)))"

definition depth :: "host \<Rightarrow> string \<Rightarrow> nat" where
  "depth h w = position (ho_chain h) w"

section \<open>Selection\<close>

record segment_decl =
  sg_name :: string
  sg_values :: "string list"
  sg_value :: string

record rank =
  rk_project :: int
  rk_link :: nat
  rk_arch :: bool
  rk_extras :: "bool list"

datatype violation = UnknownWord | OutOfOrder | RepeatedPart

record grammar_error =
  ge_name :: string
  ge_word :: string
  ge_violation :: violation
  ge_part :: string

record selected =
  se_name :: string
  se_project :: string
  se_rank :: rank

record selector =
  sel_host :: host
  sel_projects :: "string list"
  sel_base :: string
  sel_segments :: "segment_decl list"

definition compare_bool :: "bool \<Rightarrow> bool \<Rightarrow> int" where
  "compare_bool a b = (if a = b then 0 else if b then -1 else 1)"

fun compare_extras :: "bool list \<Rightarrow> bool list \<Rightarrow> int" where
  "compare_extras (x # xs) (y # ys) =
     (if compare_bool x y \<noteq> 0 then compare_bool x y else compare_extras xs ys)"
| "compare_extras xs ys = int (length xs) - int (length ys)"

definition compare_rank :: "rank \<Rightarrow> rank \<Rightarrow> int" where
  "compare_rank r q =
     (if rk_project r - rk_project q \<noteq> 0 then rk_project r - rk_project q
      else if int (rk_link r) - int (rk_link q) \<noteq> 0 then int (rk_link r) - int (rk_link q)
      else if compare_bool (rk_arch r) (rk_arch q) \<noteq> 0 then compare_bool (rk_arch r) (rk_arch q)
      else compare_extras (rk_extras r) (rk_extras q))"

text \<open>The parts of the grammar by number: the OS, the architecture, then the extras.\<close>

definition os_part :: nat where "os_part = 0"
definition arch_part :: nat where "arch_part = 1"
definition extra_parts :: nat where "extra_parts = 2"

lemmas part_defs = os_part_def arch_part_def extra_parts_def

fun segment_holding :: "nat \<Rightarrow> segment_decl list \<Rightarrow> string \<Rightarrow> nat option" where
  "segment_holding i [] w = None"
| "segment_holding i (g # gs) w = (if w \<in> set (sg_values g) then Some i else segment_holding (Suc i) gs w)"

definition part_of :: "selector \<Rightarrow> string \<Rightarrow> (nat \<times> string) option" where
  "part_of s w =
     (if is_platform_word w \<or> depth (sel_host s) w > 0 then Some (os_part, w)
      else (case arch_of w of
              Some a \<Rightarrow> Some (arch_part, a)
            | None \<Rightarrow>
                if w = ho_arch (sel_host s) then Some (arch_part, w)
                else map_option (\<lambda>i. (extra_parts + i, w)) (segment_holding 0 (sel_segments s) w)))"

definition part_name :: "selector \<Rightarrow> nat \<Rightarrow> string" where
  "part_name s part =
     (if part = os_part then ''OS'' else if part = arch_part then ''architecture''
      else sg_name (sel_segments s ! (part - extra_parts)))"

text \<open>One word, in a part that is in order: what it adds to the rank, and whether it names this machine.\<close>

definition take_word :: "selector \<Rightarrow> string \<Rightarrow> nat \<Rightarrow> string \<Rightarrow> rank \<Rightarrow> bool \<Rightarrow> rank \<times> bool" where
  "take_word s word part value r m =
     (if part = os_part then
        (r\<lparr>rk_link := depth (sel_host s) word\<rparr>, m \<and> depth (sel_host s) word > 0)
      else if part = arch_part then (r\<lparr>rk_arch := True\<rparr>, m \<and> value = ho_arch (sel_host s))
      else
        (let i = part - extra_parts; g = sel_segments s ! i in
         (r\<lparr>rk_extras := (rk_extras r)[i := True]\<rparr>, m \<and> sg_value g \<noteq> [] \<and> value = sg_value g)))"

definition new_grammar_error :: "string \<Rightarrow> string \<Rightarrow> violation \<Rightarrow> string \<Rightarrow> grammar_error" where
  "new_grammar_error name word v part = \<lparr>ge_name = name, ge_word = word, ge_violation = v, ge_part = part\<rparr>"

text \<open>The loop of \<open>judge\<close>; \<open>prev\<close> is the part of the word before, \<open>None\<close> at the first word.\<close>

fun judge_words ::
  "selector \<Rightarrow> string \<Rightarrow> nat option \<Rightarrow> rank \<Rightarrow> bool \<Rightarrow> string list \<Rightarrow> (grammar_error, rank \<times> bool) result"
where
  "judge_words s name prev r m [] = Inr (r, m)"
| "judge_words s name prev r m (word # words) =
     (case part_of s word of
        None \<Rightarrow> Inl (new_grammar_error name word UnknownWord [])
      | Some (part, value) \<Rightarrow>
          if prev = Some part then Inl (new_grammar_error name word RepeatedPart (part_name s part))
          else if (case prev of None \<Rightarrow> False | Some l \<Rightarrow> part < l) then
            Inl (new_grammar_error name word OutOfOrder (part_name s part))
          else (case take_word s word part value r m of (r', m') \<Rightarrow>
                  judge_words s name (Some part) r' m' words))"

definition judge :: "selector \<Rightarrow> string \<Rightarrow> string list \<Rightarrow> (grammar_error, rank \<times> bool) result" where
  "judge s name words =
     judge_words s name None
       \<lparr>rk_project = 0, rk_link = 0, rk_arch = False, rk_extras = replicate (length (sel_segments s)) False\<rparr> True words"

fun index_of :: "string list \<Rightarrow> string \<Rightarrow> int" where
  "index_of [] x = -1"
| "index_of (y # ys) x = (if y = x then 0 else let i = index_of ys x in if i < 0 then -1 else i + 1)"

definition project_index :: "selector \<Rightarrow> string \<Rightarrow> int" where
  "project_index s p = (if sel_projects s = [] then 0 else index_of (sel_projects s) p)"

definition split_name :: "selector \<Rightarrow> string \<Rightarrow> string \<times> string list" where
  "split_name s name =
     (if sel_projects s \<noteq> [] then
        (case cut name (CHR ''.'') of
           (project, rest, False) \<Rightarrow> (project, [])
         | (project, rest, True) \<Rightarrow> (project, split_on (CHR ''.'') rest))
      else if name = sel_base s then ([], [])
      else ([], split_on (CHR ''.'') name))"

definition judge_name :: "selector \<Rightarrow> string \<Rightarrow> (grammar_error, selected option) result" where
  "judge_name s name =
     (case split_name s name of (project, words) \<Rightarrow>
        (case judge s name words of
           Inl e \<Rightarrow> Inl e
         | Inr (r, m) \<Rightarrow>
             (let i = project_index s project in
              Inr (if \<not> m \<or> i < 0 then None
                   else Some \<lparr>se_name = name, se_project = project, se_rank = r\<lparr>rk_project := i\<rparr>\<rparr>))))"

text \<open>A stable sort by a strict order, as \<open>sort.SliceStable\<close>.\<close>

fun insert_by :: "('a \<Rightarrow> 'a \<Rightarrow> bool) \<Rightarrow> 'a \<Rightarrow> 'a list \<Rightarrow> 'a list" where
  "insert_by before x [] = [x]"
| "insert_by before x (y # ys) = (if before y x then y # insert_by before x ys else x # y # ys)"

definition stable_sort :: "('a \<Rightarrow> 'a \<Rightarrow> bool) \<Rightarrow> 'a list \<Rightarrow> 'a list" where
  "stable_sort before xs = foldr (insert_by before) xs []"

definition applied_before :: "selected \<Rightarrow> selected \<Rightarrow> bool" where
  "applied_before x y =
     (let c = compare_rank (se_rank x) (se_rank y) in if c \<noteq> 0 then c < 0 else se_name x < se_name y)"

definition select_names :: "selector \<Rightarrow> string list \<Rightarrow> selected list \<times> grammar_error list" where
  "select_names s names =
     (let judged = map (judge_name s) names in
      (stable_sort applied_before
         (concat (map (\<lambda>j. case j of Inr (Some x) \<Rightarrow> [x] | _ \<Rightarrow> []) judged)),
       concat (map (\<lambda>j. case j of Inl e \<Rightarrow> [e] | _ \<Rightarrow> []) judged)))"

section \<open>Declared segments\<close>

definition builtins :: "string list" where
  "builtins = [''OS'', ''DISTRO'', ''ARCH'']"

text \<open>The problems of one value, with the owner of every value seen before.\<close>

definition value_problem :: "string \<Rightarrow> (string \<times> string) list \<Rightarrow> string \<Rightarrow> gerror option" where
  "value_problem seg owner v =
     (if v = [] then Some (ENew (''segment '' @ seg @ '' declares an empty value''))
      else if is_platform_word v then
        Some (ENew (''segment '' @ seg @ '': '' @ quote v @ '' is an OS or distribution word''))
      else if arch_of v \<noteq> None then
        Some (ENew (''segment '' @ seg @ '': '' @ quote v @ '' is an architecture word''))
      else (case map_of owner v of
              Some o' \<Rightarrow>
                if o' \<noteq> [] then
                  Some (ENew (''segments '' @ o' @ '' and '' @ seg @ '' both declare '' @ quote v @ ''; values must be unique''))
                else None
            | None \<Rightarrow> None))"

fun check_values ::
  "string \<Rightarrow> string list \<Rightarrow> (string \<times> string) list \<Rightarrow> gerror list \<times> (string \<times> string) list"
where
  "check_values seg [] owner = ([], owner)"
| "check_values seg (v # vs) owner =
     (case value_problem seg owner v of
        Some e \<Rightarrow> (case check_values seg vs owner of (es, owner') \<Rightarrow> (e # es, owner'))
      | None \<Rightarrow> check_values seg vs ((v, seg) # owner))"

definition name_problem :: "string list \<Rightarrow> string \<Rightarrow> gerror list" where
  "name_problem names n =
     (if n = [] then [ENew ''a segment has no name'']
      else if n \<in> set builtins then [ENew (''segment '' @ n @ '': '' @ n @ '' is built in, and cannot be declared'')]
      else if n \<in> set names then [ENew (''segment '' @ n @ '' is declared twice'')]
      else [])"

definition current_problem :: "segment_decl \<Rightarrow> gerror list" where
  "current_problem g =
     (if sg_value g \<noteq> [] \<and> sg_value g \<notin> set (sg_values g) then
        [ENew (''segment '' @ sg_name g @ '': '' @ quote (sg_value g) @ '' is not one of its values ['' @
               join_with '' '' (sg_values g) @ '']'')]
      else [])"

fun segment_problems :: "string list \<Rightarrow> (string \<times> string) list \<Rightarrow> segment_decl list \<Rightarrow> gerror list" where
  "segment_problems names owner [] = []"
| "segment_problems names owner (g # gs) =
     (case check_values (sg_name g) (sg_values g) owner of (es, owner') \<Rightarrow>
        name_problem names (sg_name g) @ es @ current_problem g
        @ segment_problems (sg_name g # names) owner' gs)"

definition validate_segments :: "segment_decl list \<Rightarrow> gerror option" where
  "validate_segments gs = join_errors (segment_problems [] [] gs)"

end
