(* ===== verification/Selection.thy ===== *)
theory Selection
  imports Selector "HOL-Library.Multiset"
begin

text \<open>
  What the selector of \<open>pkg/selector\<close> selects: exactly the well-formed names each word of which names the
  machine, general names before the names that narrow them, in an order the listing does not change; and
  what \<open>ValidateSegments\<close> accepts.
\<close>

section \<open>Sorting\<close>

lemma stable_sort_is_sort_key:
  assumes "\<And>x y. before x y \<longleftrightarrow> f x < (f y :: 'k :: linorder)"
  shows "stable_sort before xs = sort_key f xs"
proof -
  have "insert_by before = insort_key f"
  proof (intro ext)
    show "insert_by before x ys = insort_key f x ys" for x ys
      by (induction ys) (auto simp: assms not_le)
  qed
  then show ?thesis by (simp add: stable_sort_def sort_key_def)
qed

lemma sort_key_of_one_mset:
  assumes "mset xs = mset ys" "inj_on f (set xs)"
  shows "sort_key f xs = sort_key f ys"
  by (rule sort_key_inj_key_eq) (use assms in auto)

type_synonym order_key = "int \<times> nat \<times> bool \<times> bool list \<times> string"

definition order_key :: "selected \<Rightarrow> order_key" where
  "order_key x =
     (let r = se_rank x in (rk_project r, rk_link r, rk_arch r, rk_extras r, se_name x))"

lemma compare_bool_sign [simp]:
  "compare_bool a b < 0 \<longleftrightarrow> a < b" "compare_bool a b = 0 \<longleftrightarrow> a = b"
  by (auto simp: compare_bool_def)

lemma empty_less_iff: "[] < (ys :: 'a :: order list) \<longleftrightarrow> ys \<noteq> []"
  by (cases ys) auto

lemma compare_extras_sign:
  "(compare_extras xs ys < 0 \<longleftrightarrow> xs < ys) \<and> (compare_extras xs ys = 0 \<longleftrightarrow> xs = ys)"
  by (induction xs ys rule: compare_extras.induct) (auto simp: empty_less_iff)

lemma applied_before_by_key: "applied_before x y \<longleftrightarrow> order_key x < order_key y"
  using compare_extras_sign [of "rk_extras (se_rank x)" "rk_extras (se_rank y)"]
  by (auto simp: applied_before_def compare_rank_def order_key_def Let_def less_prod_def' split: if_splits)

lemma select_names_sorts:
  "fst (select_names s names) =
     sort_key order_key (concat (map (\<lambda>n. case judge_name s n of Inr (Some x) \<Rightarrow> [x] | _ \<Rightarrow> []) names))"
  by (simp add: select_names_def Let_def stable_sort_is_sort_key [OF applied_before_by_key] comp_def)

section \<open>Well-formed names\<close>

definition words_of :: "selector \<Rightarrow> string \<Rightarrow> string list" where
  "words_of s name = snd (split_name s name)"

definition part_num :: "selector \<Rightarrow> string \<Rightarrow> nat" where
  "part_num s w = (case part_of s w of Some (p, v) \<Rightarrow> p | None \<Rightarrow> 0)"

definition well_formed :: "selector \<Rightarrow> string \<Rightarrow> bool" where
  "well_formed s name \<longleftrightarrow>
     (\<forall>w \<in> set (words_of s name). part_of s w \<noteq> None) \<and>
     sorted_wrt (<) (map (part_num s) (words_of s name))"

definition names_machine :: "selector \<Rightarrow> string \<Rightarrow> bool" where
  "names_machine s w =
     (case part_of s w of
        None \<Rightarrow> False
      | Some (p, v) \<Rightarrow>
          if p = os_part then w \<in> set (ho_chain (sel_host s))
          else if p = arch_part then v = ho_arch (sel_host s)
          else sg_value (sel_segments s ! (p - extra_parts)) = v \<and> v \<noteq> [])"

definition add_word :: "selector \<Rightarrow> string \<Rightarrow> rank \<Rightarrow> rank" where
  "add_word s w r = (case part_of s w of Some (p, v) \<Rightarrow> fst (take_word s w p v r True) | None \<Rightarrow> r)"

lemma position_pos: "position xs w > 0 \<longleftrightarrow> w \<in> set xs"
  by (induction xs) (auto split: nat.splits)

lemma take_word_eq:
  assumes "part_of s w = Some (p, v)"
  shows "take_word s w p v r m = (add_word s w r, m \<and> names_machine s w)"
  using assms by (auto simp: take_word_def add_word_def names_machine_def depth_def position_pos Let_def)

definition in_order :: "selector \<Rightarrow> nat option \<Rightarrow> string list \<Rightarrow> bool" where
  "in_order s prev ws \<longleftrightarrow>
     (\<forall>w \<in> set ws. part_of s w \<noteq> None) \<and>
     sorted_wrt (<) ((case prev of None \<Rightarrow> [] | Some l \<Rightarrow> [l]) @ map (part_num s) ws)"

lemma in_order_Cons:
  "in_order s prev (w # ws) \<longleftrightarrow>
     (\<exists>p v. part_of s w = Some (p, v) \<and> (\<forall>l. prev = Some l \<longrightarrow> l < p) \<and> in_order s (Some p) ws)"
  by (cases prev) (auto simp: in_order_def part_num_def intro: less_trans)

lemma judge_words_eq:
  "if in_order s prev ws
   then judge_words s name prev r m ws = Inr (fold (add_word s) ws r, m \<and> (\<forall>w \<in> set ws. names_machine s w))
   else \<exists>e. judge_words s name prev r m ws = Inl e \<and> ge_name e = name \<and> ge_word e \<in> set ws"
proof (induction ws arbitrary: prev r m)
  case Nil
  then show ?case by (auto simp: in_order_def split: option.splits)
next
  case (Cons w ws)
  show ?case
  proof (cases "part_of s w")
    case None
    then show ?thesis by (simp add: in_order_Cons new_grammar_error_def)
  next
    case (Some pv)
    obtain p v where pv: "pv = (p, v)" by (cases pv)
    note known = Some [unfolded pv]
    show ?thesis
      using Cons.IH [of "Some p" "add_word s w r" "m \<and> names_machine s w"] known
      by (auto simp: in_order_Cons take_word_eq [OF known] new_grammar_error_def split: option.splits if_splits)
  qed
qed

definition first_rank :: "selector \<Rightarrow> rank" where
  "first_rank s =
     \<lparr>rk_project = 0, rk_link = 0, rk_arch = False, rk_extras = replicate (length (sel_segments s)) False\<rparr>"

definition rank_of :: "selector \<Rightarrow> string \<Rightarrow> rank" where
  "rank_of s name =
     (fold (add_word s) (words_of s name) (first_rank s))\<lparr>rk_project := project_index s (fst (split_name s name))\<rparr>"

definition included :: "selector \<Rightarrow> string \<Rightarrow> bool" where
  "included s name \<longleftrightarrow>
     well_formed s name \<and> (\<forall>w \<in> set (words_of s name). names_machine s w) \<and>
     0 \<le> project_index s (fst (split_name s name))"

definition selected_of :: "selector \<Rightarrow> string \<Rightarrow> selected" where
  "selected_of s name = \<lparr>se_name = name, se_project = fst (split_name s name), se_rank = rank_of s name\<rparr>"

lemma judge_name_eq:
  "if well_formed s name
   then judge_name s name = Inr (if included s name then Some (selected_of s name) else None)
   else \<exists>e. judge_name s name = Inl e \<and> ge_name e = name \<and> ge_word e \<in> set (words_of s name)"
proof -
  have wf: "well_formed s name = in_order s None (words_of s name)"
    by (simp add: well_formed_def in_order_def)
  show ?thesis
    using judge_words_eq [of s None "words_of s name" name "first_rank s" True]
    by (auto simp: wf judge_name_def judge_def words_of_def split_beta first_rank_def [symmetric] included_def
        selected_of_def rank_of_def Let_def split: if_splits)
qed

lemma select_names_eq:
  "fst (select_names s names) = sort_key order_key (map (selected_of s) (filter (included s) names))"
proof -
  have "concat (map (\<lambda>n. case judge_name s n of Inr (Some x) \<Rightarrow> [x] | _ \<Rightarrow> []) names) =
        map (selected_of s) (filter (included s) names)"
  proof (induction names)
    case (Cons n names)
    show ?case
      using judge_name_eq [of s n] Cons.IH
      by (auto split: if_splits sum.splits option.splits simp: included_def)
  qed simp
  then show ?thesis by (simp add: select_names_sorts)
qed

lemma errors_of_selection:
  "map ge_name (snd (select_names s names)) = filter (\<lambda>n. \<not> well_formed s n) names"
proof (induction names)
  case (Cons n names)
  show ?case
    using judge_name_eq [of s n] Cons.IH
    by (auto simp: select_names_def Let_def split: if_splits)
qed (simp add: select_names_def)

section \<open>What a selection holds\<close>

text \<open>C36: \<open>Select\<close> reports exactly the names that break the grammar (a word no part knows, a part repeated or out of
  order), in the order listed, and includes exactly the well-formed names each word of which names this
  machine and whose project is one of the selector's; each is included as often as it is listed.\<close>

theorem selection_is_exact:
  "map ge_name (snd (select_names s names)) = filter (\<lambda>n. \<not> well_formed s n) names \<and>
   mset (map se_name (fst (select_names s names))) =
     mset (filter (\<lambda>n. well_formed s n \<and> list_all (names_machine s) (words_of s n) \<and>
                       0 \<le> project_index s (fst (split_name s n))) names)"
  by (simp add: errors_of_selection select_names_eq selected_of_def image_mset.compositionality comp_def included_def
      list_all_iff)

lemma order_key_inj: "inj_on order_key (set (map (selected_of s) names))"
  by (auto simp: inj_on_def order_key_def selected_of_def Let_def)

text \<open>The order of application does not depend on the order the names were listed in.\<close>

theorem selection_ignores_the_listing_order:
  assumes "mset names = mset names'"
  shows "fst (select_names s names) = fst (select_names s names')"
  unfolding select_names_eq
  by (rule sort_key_of_one_mset [OF _ order_key_inj]) (simp add: assms)

subsection \<open>General names first\<close>

lemma part_of_range:
  assumes "part_of s w = Some (p, v)" "p \<noteq> os_part" "p \<noteq> arch_part"
  shows "\<exists>i < length (sel_segments s). p = extra_parts + i"
proof -
  have "segment_holding k gs w = Some i \<Longrightarrow> k \<le> i \<and> i < k + length gs" for k gs i
    by (induction gs arbitrary: k) (force split: if_splits)+
  from this [of 0] show ?thesis using assms by (auto simp: part_of_def split: if_splits option.splits)
qed

lemma fold_add_word:
  assumes "\<forall>w \<in> set ws. part_of s w \<noteq> None" "length (rk_extras r) = length (sel_segments s)"
  shows "(rk_arch (fold (add_word s) ws r) \<longleftrightarrow> rk_arch r \<or> (\<exists>w \<in> set ws. part_num s w = arch_part)) \<and>
    length (rk_extras (fold (add_word s) ws r)) = length (sel_segments s) \<and>
    (\<forall>i < length (sel_segments s). rk_extras (fold (add_word s) ws r) ! i \<longleftrightarrow>
       rk_extras r ! i \<or> (\<exists>w \<in> set ws. part_num s w = extra_parts + i)) \<and>
    ((\<forall>w \<in> set ws. part_num s w \<noteq> os_part) \<longrightarrow> rk_link (fold (add_word s) ws r) = rk_link r)"
  using assms
proof (induction ws arbitrary: r)
  case (Cons w ws)
  obtain p v where known: "part_of s w = Some (p, v)" using Cons.prems by auto
  let ?r = "add_word s w r"
  have r: "length (rk_extras ?r) = length (sel_segments s)"
    "rk_arch ?r \<longleftrightarrow> rk_arch r \<or> p = arch_part"
    "i < length (sel_segments s) \<Longrightarrow> rk_extras ?r ! i \<longleftrightarrow> rk_extras r ! i \<or> p = extra_parts + i"
    "p \<noteq> os_part \<Longrightarrow> rk_link ?r = rk_link r" for i
    using Cons.prems part_of_range [OF known] known
    by (auto simp: add_word_def take_word_def Let_def part_defs nth_list_update split: if_splits)
  have p: "part_num s w = p" by (simp add: part_num_def known)
  show ?case using Cons.IH [of ?r] Cons.prems r p by auto
qed simp

lemma link_of_os_word:
  assumes "sorted_wrt (<) (map (part_num s) ws)" "\<forall>w \<in> set ws. part_of s w \<noteq> None"
    and "length (rk_extras r) = length (sel_segments s)" "w \<in> set ws" "part_num s w = os_part"
  shows "rk_link (fold (add_word s) ws r) = depth (sel_host s) w"
proof -
  obtain us vs where ws: "ws = us @ w # vs" using assms(4) by (meson split_list)
  have "part_num s u < part_num s w" if "u \<in> set us" for u
    using assms(1) that by (auto simp: ws sorted_wrt_append)
  then have us: "us = []" using assms(5) by (cases us) (auto simp: os_part_def)
  have vs: "\<forall>v \<in> set vs. part_num s v \<noteq> os_part" using assms(1,5) by (auto simp: ws sorted_wrt_append os_part_def)
  obtain v where known: "part_of s w = Some (os_part, v)"
    using assms(2,4,5) by (force simp: part_num_def split: option.splits)
  have "length (rk_extras (add_word s w r)) = length (sel_segments s)"
    using assms(3) by (simp add: add_word_def known take_word_def)
  then have "rk_link (fold (add_word s) vs (add_word s w r)) = rk_link (add_word s w r)"
    using fold_add_word [of vs s "add_word s w r"] assms(2) vs by (simp add: ws)
  then show ?thesis by (simp add: ws us add_word_def known take_word_def)
qed

lemma less_by_extras:
  fixes xs ys :: "bool list"
  assumes "length xs = length ys" "\<forall>i < length xs. xs ! i \<longrightarrow> ys ! i"
  shows "xs \<le> ys" and "xs \<noteq> ys \<Longrightarrow> xs < ys"
proof -
  show le: "xs \<le> ys"
    using assms
  proof (induction xs ys rule: list_induct2)
    case (Cons x xs y ys)
    from Cons.prems have "x \<le> y" by (metis le_boolI length_Cons nth_Cons_0 zero_less_Suc)
    moreover have "xs \<le> ys" using Cons.IH Cons.prems by force
    ultimately show ?case by (auto simp: Cons_le_Cons)
  qed simp
  then show "xs \<noteq> ys \<Longrightarrow> xs < ys" by simp
qed

lemma part_in_words:
  assumes "sorted_wrt (<) (map (part_num s) ws)" "v \<in> set ws" "w \<in> set ws" "part_num s v = part_num s w"
  shows "v = w"
  using assms by (induction ws) auto

lemma narrower_rank:
  assumes x: "included s x" and y: "included s y"
    and project: "fst (split_name s x) = fst (split_name s y)"
    and words: "set (words_of s x) \<subset> set (words_of s y)"
  shows "order_key (selected_of s x) < order_key (selected_of s y)"
proof -
  let ?wx = "words_of s x" and ?wy = "words_of s y"
  let ?rx = "fold (add_word s) ?wx (first_rank s)" and ?ry = "fold (add_word s) ?wy (first_rank s)"
  have wf: "\<forall>w \<in> set ?wx. part_of s w \<noteq> None" "sorted_wrt (<) (map (part_num s) ?wx)"
    "\<forall>w \<in> set ?wy. part_of s w \<noteq> None" "sorted_wrt (<) (map (part_num s) ?wy)"
    and names: "\<forall>w \<in> set ?wy. names_machine s w"
    using x y by (auto simp: included_def well_formed_def)
  have len: "length (rk_extras (first_rank s)) = length (sel_segments s)" by (simp add: first_rank_def)
  note fx = fold_add_word [OF wf(1) len] and fy = fold_add_word [OF wf(3) len]
  note linkx = link_of_os_word [OF wf(2,1) len] and linky = link_of_os_word [OF wf(4,3) len]
  have first: "\<not> rk_arch (first_rank s)" "rk_link (first_rank s) = 0"
    "i < length (sel_segments s) \<Longrightarrow> \<not> rk_extras (first_rank s) ! i" for i
    by (auto simp: first_rank_def)
  have link: "rk_link ?rx = rk_link ?ry \<or> rk_link ?rx = 0"
    using linkx linky fx first(2) words by (metis psubsetD)
  have arch: "rk_arch ?rx \<longrightarrow> rk_arch ?ry" using fx fy first words by blast
  have len': "length (rk_extras ?rx) = length (rk_extras ?ry)" using fx fy by simp
  have extras: "\<forall>i < length (rk_extras ?rx). rk_extras ?rx ! i \<longrightarrow> rk_extras ?ry ! i"
    using fx fy first(3) words by (metis psubsetD)
  obtain w where w: "w \<in> set ?wy" "w \<notin> set ?wx" using words by blast
  have lack: "part_num s v \<noteq> part_num s w" if "v \<in> set ?wx" for v
    using part_in_words [OF wf(4), of v w] that w words by blast
  obtain p v where known: "part_of s w = Some (p, v)" using wf(3) w(1) by fastforce
  have p: "part_num s w = p" by (simp add: part_num_def known)
  have strict: "rk_link ?rx < rk_link ?ry \<or> rk_arch ?rx \<noteq> rk_arch ?ry \<or> rk_extras ?rx \<noteq> rk_extras ?ry"
  proof -
    consider "p = os_part" | "p = arch_part" | i where "i < length (sel_segments s)" "p = extra_parts + i"
      using part_of_range [OF known] by blast
    then show ?thesis
    proof cases
      case 1
      then have "rk_link ?rx = 0" using fx lack p first(2) by auto
      moreover have "rk_link ?ry = depth (sel_host s) w" using linky w(1) p 1 by simp
      moreover have "depth (sel_host s) w > 0"
        using names w(1) known 1 by (auto simp: names_machine_def depth_def position_pos)
      ultimately show ?thesis by simp
    next
      case 2 then show ?thesis using fx fy lack p w(1) first(1) by metis
    next
      case 3 then show ?thesis using fx fy lack p w(1) first(3) by metis
    qed
  qed
  show ?thesis
    using link arch strict less_by_extras [OF len' extras] project
    by (auto simp: order_key_def selected_of_def rank_of_def Let_def less_prod_def')
qed

lemma sorted_key_positions:
  fixes f :: "'a \<Rightarrow> 'k :: linorder"
  assumes "x \<in> set xs" "y \<in> set xs" "f x < f y"
  shows "\<exists>i j. i < j \<and> j < length xs \<and> sort_key f xs ! i = x \<and> sort_key f xs ! j = y"
proof -
  obtain i j where ij: "i < length xs" "sort_key f xs ! i = x" "j < length xs" "sort_key f xs ! j = y"
    using assms(1,2) by (metis in_set_conv_nth length_sort set_sort)
  have "i < j"
  proof (rule ccontr)
    assume "\<not> i < j"
    then have "map f (sort_key f xs) ! j \<le> map f (sort_key f xs) ! i"
      using ij by (intro sorted_nth_mono) auto
    then show False using assms(3) ij by simp
  qed
  then show ?thesis using ij by blast
qed

text \<open>C37: Of two included names of one project, the one whose words are among the other's (a general name) is applied
  strictly before the one that narrows it: the narrower wins.\<close>

theorem narrower_names_are_applied_later:
  assumes "x \<in> set names" "y \<in> set names" "included s x" "included s y"
    and "fst (split_name s x) = fst (split_name s y)"
    and "set (words_of s x) \<subset> set (words_of s y)"
  shows "\<exists>i j. i < j \<and> j < length (fst (select_names s names)) \<and>
           se_name (fst (select_names s names) ! i) = x \<and> se_name (fst (select_names s names) ! j) = y"
proof -
  have "\<exists>i j. i < j \<and> j < length (map (selected_of s) (filter (included s) names)) \<and>
      sort_key order_key (map (selected_of s) (filter (included s) names)) ! i = selected_of s x \<and>
      sort_key order_key (map (selected_of s) (filter (included s) names)) ! j = selected_of s y"
    using assms(1-4) by (intro sorted_key_positions narrower_rank [OF assms(3-6)]) auto
  then show ?thesis by (fastforce simp: select_names_eq selected_of_def)
qed

section \<open>Hosts\<close>

lemma keep_unseen_snoc:
  "keep_unseen seen (ws @ [w]) = keep_unseen seen ws @ (if w \<in> set seen \<union> set ws then [] else [w])"
  by (induction ws arbitrary: seen) auto

lemma keep_most_specific_remdups: "keep_most_specific xs = remdups xs"
  unfolding keep_most_specific_def by (induction xs) (auto simp: keep_unseen_snoc)

lemma position_le: "position xs w \<le> length xs"
  by (induction xs) (auto split: nat.splits)

lemma position_nth: "distinct xs \<Longrightarrow> i < length xs \<Longrightarrow> position xs (xs ! i) = Suc i"
proof (induction xs arbitrary: i)
  case (Cons x xs)
  then show ?case by (cases i) auto
qed simp

lemma remdups_snoc: "remdups (xs @ [d]) = remdups (filter (\<lambda>x. x \<noteq> d) xs) @ [d]"
  by (induction xs) auto

lemma position_snoc: "w \<noteq> d \<Longrightarrow> position (xs @ [d]) w = position xs w"
  by (induction xs) (auto split: nat.splits)

text \<open>
  A host's chain holds each word once, at its most specific position, and its distribution is the deepest.
\<close>

lemma new_host_chain:
  assumes "distro \<noteq> []" and h: "h = new_host_from_words os distro lineage arch"
  shows "ho_chain h = remdups ((if os \<in> set unix_words then [''Unix''] else []) @ [os] @ lineage @ [distro])"
    and "distinct (ho_chain h)" and "depth h distro = length (ho_chain h)"
    and "w \<noteq> distro \<Longrightarrow> depth h w < depth h distro"
proof -
  let ?pre = "(if os \<in> set unix_words then [''Unix''] else []) @ [os] @ lineage"
  have chain: "ho_chain h = remdups (?pre @ [distro])"
    using assms by (simp add: new_host_from_words_def keep_most_specific_remdups Let_def)
  then show "ho_chain h = remdups ((if os \<in> set unix_words then [''Unix''] else []) @ [os] @ lineage @ [distro])"
    by simp
  show dist: "distinct (ho_chain h)" using chain by simp
  define c where "c = remdups (filter (\<lambda>x. x \<noteq> distro) ?pre)"
  have c: "ho_chain h = c @ [distro]" unfolding chain c_def by (rule remdups_snoc)
  show deep: "depth h distro = length (ho_chain h)"
    using position_nth [OF dist, of "length c"] by (simp add: depth_def c)
  show "depth h w < depth h distro" if "w \<noteq> distro"
    using position_le [of c w] that unfolding deep by (simp add: depth_def c position_snoc less_Suc_eq_le)
qed

section \<open>What \<open>ValidateSegments\<close> accepts\<close>

definition fit_value :: "string \<Rightarrow> bool" where
  "fit_value v \<longleftrightarrow> v \<noteq> [] \<and> \<not> is_platform_word v \<and> arch_of v = None"

lemma value_problem_None:
  assumes "seg \<noteq> []" "\<forall>(v, n) \<in> set owner. n \<noteq> []"
  shows "value_problem seg owner v = None \<longleftrightarrow> fit_value v \<and> v \<notin> fst ` set owner"
proof -
  have "map_of owner v = Some n \<Longrightarrow> n \<noteq> []" for n using assms(2) map_of_SomeD by fastforce
  then show ?thesis
    by (auto simp: value_problem_def fit_value_def map_of_eq_None_iff dest: map_of_SomeD intro: rev_image_eqI split: option.splits)
qed

lemma check_values_None:
  assumes "seg \<noteq> []" "\<forall>(v, n) \<in> set owner. n \<noteq> []"
  shows "fst (check_values seg vs owner) = [] \<longleftrightarrow>
           (\<forall>v \<in> set vs. fit_value v) \<and> distinct vs \<and> set vs \<inter> fst ` set owner = {}"
    and "fst (check_values seg vs owner) = [] \<Longrightarrow>
           snd (check_values seg vs owner) = rev (map (\<lambda>v. (v, seg)) vs) @ owner"
  using assms
proof (induction vs arbitrary: owner)
  case (Cons v vs)
  case 1
  then show ?case
    using Cons.IH(1) [of "(v, seg) # owner"] value_problem_None [of seg owner v]
    by (auto split: option.splits prod.splits)
next
  case (Cons v vs)
  case 2
  then show ?case
    using Cons.IH(2) [of "(v, seg) # owner"]
    by (auto split: option.splits prod.splits)
qed auto

lemma name_problem_Nil: "name_problem names n = [] \<longleftrightarrow> n \<noteq> [] \<and> n \<notin> set builtins \<and> n \<notin> set names"
  by (auto simp: name_problem_def)

definition fit_segment :: "string set \<Rightarrow> string set \<Rightarrow> segment_decl \<Rightarrow> bool" where
  "fit_segment names seen g \<longleftrightarrow>
     sg_name g \<notin> {[]} \<union> set builtins \<union> names \<and> (\<forall>v \<in> set (sg_values g). fit_value v) \<and>
     set (sg_values g) \<inter> seen = {} \<and> (sg_value g = [] \<or> sg_value g \<in> set (sg_values g))"

lemma fit_segment_insert:
  "(\<forall>g \<in> G. fit_segment (insert n names) (V \<union> seen) g) \<longleftrightarrow>
     (\<forall>g \<in> G. fit_segment names seen g) \<and> n \<notin> sg_name ` G \<and> V \<inter> (\<Union>g \<in> G. set (sg_values g)) = {}"
  (is "?l \<longleftrightarrow> ?r1 \<and> ?r2 \<and> ?r3")
proof
  assume ?l
  then show "?r1 \<and> ?r2 \<and> ?r3" by (intro conjI) (force simp: fit_segment_def)+
next
  assume "?r1 \<and> ?r2 \<and> ?r3"
  then show ?l by (force simp: fit_segment_def)
qed

lemma segment_problems_Nil:
  assumes "\<forall>(v, n) \<in> set owner. n \<noteq> []"
  shows "segment_problems names owner gs = [] \<longleftrightarrow>
    (\<forall>g \<in> set gs. fit_segment (set names) (fst ` set owner) g) \<and>
    distinct (map sg_name gs) \<and> distinct (concat (map sg_values gs))"
  using assms
proof (induction gs arbitrary: names owner)
  case (Cons g gs)
  let ?check = "check_values (sg_name g) (sg_values g) owner"
  show ?case
  proof (cases "sg_name g \<noteq> [] \<and> fst ?check = []")
    case False
    then show ?thesis
      using check_values_None(1) [of "sg_name g" owner "sg_values g"] Cons.prems
      by (auto simp: split_beta name_problem_Nil fit_segment_def)
  next
    case True
    then have snd: "snd ?check = rev (map (\<lambda>v. (v, sg_name g)) (sg_values g)) @ owner"
      using check_values_None(2) Cons.prems by blast
    have owners: "\<forall>(v, n) \<in> set (snd ?check). n \<noteq> []" using True Cons.prems by (auto simp: snd)
    have seen: "fst ` set (snd ?check) = set (sg_values g) \<union> fst ` set owner"
      by (simp add: snd image_Un image_image)
    have fit: "(\<forall>v \<in> set (sg_values g). fit_value v) \<and> distinct (sg_values g) \<and>
        set (sg_values g) \<inter> fst ` set owner = {}"
      using True check_values_None(1) Cons.prems by blast
    have "segment_problems names owner (g # gs) = [] \<longleftrightarrow>
        sg_name g \<notin> set builtins \<and> sg_name g \<notin> set names \<and> (sg_value g = [] \<or> sg_value g \<in> set (sg_values g)) \<and>
        segment_problems (sg_name g # names) (snd ?check) gs = []"
      using True by (auto simp: split_beta name_problem_Nil current_problem_def)
    also have "\<dots> \<longleftrightarrow> fit_segment (set names) (fst ` set owner) g \<and>
        segment_problems (sg_name g # names) (snd ?check) gs = []"
      using True fit by (simp add: fit_segment_def)
    also have "\<dots> \<longleftrightarrow> (\<forall>g' \<in> set (g # gs). fit_segment (set names) (fst ` set owner) g') \<and>
        distinct (map sg_name (g # gs)) \<and> distinct (concat (map sg_values (g # gs)))"
      unfolding Cons.IH [OF owners] seen list.set(2) fit_segment_insert
      using fit by auto
    finally show ?thesis .
  qed
qed simp

text \<open>\<open>ValidateSegments\<close> accepts a declaration exactly when the segments' names are distinct, named and no
  built-in, no value is declared twice or is empty, an OS or distribution word of the table, or an
  architecture word, and each current value is one of its segment's values.\<close>

theorem validate_segments_is_exact:
  "validate_segments gs = None \<longleftrightarrow>
     distinct (map sg_name gs) \<and> list_all (\<lambda>g. sg_name g \<notin> {[]} \<union> set builtins) gs \<and>
     distinct (concat (map sg_values gs)) \<and>
     list_all (\<lambda>v. v \<noteq> [] \<and> \<not> is_platform_word v \<and> arch_of v = None) (concat (map sg_values gs)) \<and>
     list_all (\<lambda>g. sg_value g \<in> set ([] # sg_values g)) gs"
  unfolding validate_segments_def join_errors_None segment_problems_Nil [of "[]" "[]", simplified]
  by (auto simp: fit_segment_def fit_value_def list_all_iff)

section \<open>A machine\<close>

text \<open>An Ubuntu machine on arm64, a desktop, with two projects.\<close>

definition demo_host :: host where
  "demo_host = new_host ''linux'' ''aarch64''
     \<lparr>or_id = ''ubuntu'', or_id_like = [''debian''], or_version_id = ''24.04'', or_variant_id = []\<rparr>"

definition demo_selector :: selector where
  "demo_selector =
     \<lparr>sel_host = demo_host, sel_projects = [''Home'', ''Work''], sel_base = [],
      sel_segments = [\<lparr>sg_name = ''ROLE'', sg_values = [''desktop'', ''server''], sg_value = ''desktop''\<rparr>]\<rparr>"

definition demo_names :: "string list" where
  "demo_names = [''Work'', ''Home.Ubuntu.desktop'', ''Home.Windows'', ''Home.desktop.Linux'', ''Home.Unix'', ''Home'', ''Home.Debian'']"

lemma demo_chain: "ho_chain demo_host = [''Unix'', ''Linux'', ''Debian'', ''Ubuntu'']"
  by code_simp

lemma demo_selection:
  "map se_name (fst (select_names demo_selector demo_names)) =
     [''Home'', ''Home.Unix'', ''Home.Debian'', ''Home.Ubuntu.desktop'', ''Work'']"
  "map ge_name (snd (select_names demo_selector demo_names)) = [''Home.desktop.Linux'']"
  by code_simp+

theorem selection_ignores_the_listing_order_witness:
  "fst (select_names demo_selector [''Work'', ''Home'']) = fst (select_names demo_selector [''Home'', ''Work''])"
  by (rule selection_ignores_the_listing_order) simp

lemma demo_included:
  "included demo_selector ''Home.Debian''" "included demo_selector ''Home.Debian.desktop''"
  "fst (split_name demo_selector ''Home.Debian'') = fst (split_name demo_selector ''Home.Debian.desktop'')"
  "words_of demo_selector ''Home.Debian'' = [''Debian'']"
  "words_of demo_selector ''Home.Debian.desktop'' = [''Debian'', ''desktop'']"
  by code_simp+

theorem narrower_names_are_applied_later_witness:
  "\<exists>i j. i < j \<and>
     j < length (fst (select_names demo_selector [''Home.Debian.desktop'', ''Home.Debian''])) \<and>
     se_name (fst (select_names demo_selector [''Home.Debian.desktop'', ''Home.Debian'']) ! i) = ''Home.Debian'' \<and>
     se_name (fst (select_names demo_selector [''Home.Debian.desktop'', ''Home.Debian'']) ! j) = ''Home.Debian.desktop''"
  by (rule narrower_names_are_applied_later [OF _ _ demo_included(1-3)])
    (auto simp: demo_included(4,5))

text \<open>
  A distribution the table does not know takes its own capitalised ID as its word, and a declared segment may
  hold that word: \<open>ValidateSegments\<close> has no host to compare with. The OS part then takes the word, and the
  segment's value never selects.
\<close>

theorem validated_value_is_taken_by_the_host:
  "let h = new_host ''linux'' ''amd64'' \<lparr>or_id = ''pop'', or_id_like = [], or_version_id = [], or_variant_id = []\<rparr>;
       g = \<lparr>sg_name = ''MOOD'', sg_values = [''Pop'', ''Rock''], sg_value = ''Rock''\<rparr>;
       s = \<lparr>sel_host = h, sel_projects = [], sel_base = ''Common'', sel_segments = [g]\<rparr>
   in validate_segments [g] = None \<and> map se_name (fst (select_names s [''Pop''])) = [''Pop'']"
  by code_simp

end
