(* ===== verification/Segments.thy ===== *)
theory Segments
  imports Selection Scoped_Path
begin

text \<open>
  writ's segments, \<open>cmd/writ/writ/segment\<close>: the built-in ones detection supplies and the extras configuration
  declares, overridden by the environment and then by flags (\<open>detect.go\<close>), the host they describe
  (\<open>segment.go\<close>), and the selection of a layer's directories (\<open>matcher.go\<close>). What the machine reports
  (\<open>selector.Detect\<close>), the environment and the directory listing are arguments.
\<close>

section \<open>Segments\<close>

record segment =
  sm_name :: string
  sm_value :: string
  sm_values :: "string list"
  sm_lineage :: "string list"

type_synonym segments = "segment list"

fun get_segment :: "segments \<Rightarrow> string \<Rightarrow> string" where
  "get_segment [] name = []"
| "get_segment (s # ss) name = (if sm_name s = name then sm_value s else get_segment ss name)"

fun set_segment :: "segments \<Rightarrow> string \<Rightarrow> string \<Rightarrow> segments" where
  "set_segment [] name value = [\<lparr>sm_name = name, sm_value = value, sm_values = [], sm_lineage = []\<rparr>]"
| "set_segment (s # ss) name value =
     (if sm_name s = name then s\<lparr>sm_value := value\<rparr> # ss else s # set_segment ss name value)"

definition extras :: "segments \<Rightarrow> segment_decl list" where
  "extras ss =
     map (\<lambda>s. \<lparr>sg_name = sm_name s, sg_values = sm_values s, sg_value = sm_value s\<rparr>)
       (filter (\<lambda>s. sm_name s \<notin> set builtins) ss)"

definition lineage_of :: "segments \<Rightarrow> string list" where
  "lineage_of ss = fold (\<lambda>s l. if sm_name s = ''DISTRO'' then sm_lineage s else l) ss []"

definition host_of :: "segments \<Rightarrow> host" where
  "host_of ss =
     new_host_from_words (get_segment ss ''OS'') (get_segment ss ''DISTRO'') (lineage_of ss) (get_segment ss ''ARCH'')"

definition selector_of :: "segments \<Rightarrow> string list \<Rightarrow> selector" where
  "selector_of ss projects =
     \<lparr>sel_host = host_of ss, sel_projects = projects, sel_base = [], sel_segments = extras ss\<rparr>"

definition string_of_segments :: "segments \<Rightarrow> string" where
  "string_of_segments ss =
     join_with '', '' (map (\<lambda>s. sm_name s @ ''='' @ sm_value s) (filter (\<lambda>s. sm_value s \<noteq> []) ss))"

section \<open>Resolution\<close>

definition env_var_prefix :: string where
  "env_var_prefix = ''WRIT_SEGMENT_''"

definition detect_segments :: "host \<Rightarrow> segments" where
  "detect_segments h =
     [\<lparr>sm_name = ''OS'', sm_value = ho_os h, sm_values = [], sm_lineage = []\<rparr>,
      \<lparr>sm_name = ''DISTRO'', sm_value = ho_distro h, sm_values = [], sm_lineage = ho_lineage h\<rparr>,
      \<lparr>sm_name = ''ARCH'', sm_value = ho_arch h, sm_values = [], sm_lineage = []\<rparr>]"

definition admits_setting :: "segments \<Rightarrow> string \<Rightarrow> string \<Rightarrow> gerror option" where
  "admits_setting ss name value =
     (if name \<in> set builtins then None
      else case find (\<lambda>s. sm_name s = name) ss of
             None \<Rightarrow> Some (ENew (name @ '' is not a declared segment; declare it in writ.segments''))
           | Some s \<Rightarrow>
               if value \<in> set (sm_values s) then None
               else Some (ENew (quote value @ '' is not one of '' @ name @ '''s declared values ['' @
                                join_with '' '' (sm_values s) @ '']'')))"

fun from_environment :: "string list \<Rightarrow> segments \<Rightarrow> (gerror, segments) result" where
  "from_environment [] ss = Inr ss"
| "from_environment (entry # env) ss =
     (case cut entry (CHR ''='') of (name, value, found) \<Rightarrow>
        if \<not> has_prefix name env_var_prefix \<or> value = [] then from_environment env ss
        else (let n = trim_prefix name env_var_prefix in
              case admits_setting ss n value of
                Some e \<Rightarrow> Inl (wrapf (env_var_prefix @ n @ '': '') e)
              | None \<Rightarrow> from_environment env (set_segment ss n value)))"

fun from_flags :: "string list \<Rightarrow> segments \<Rightarrow> (gerror, segments) result" where
  "from_flags [] ss = Inr ss"
| "from_flags (flag # flags) ss =
     (case cut flag (CHR ''='') of
        (name, value, False) \<Rightarrow> Inl (ENew (''invalid --segment '' @ quote flag @ '': expected NAME=value''))
      | (name, value, True) \<Rightarrow>
          (case admits_setting ss name value of
             Some e \<Rightarrow> Inl (wrapf (''--segment '' @ flag @ '': '') e)
           | None \<Rightarrow> from_flags flags (set_segment ss name value)))"

definition resolve_segments ::
  "host \<Rightarrow> string list \<Rightarrow> segment_decl list \<Rightarrow> string list \<Rightarrow> (gerror, segments) result"
where
  "resolve_segments detected env declared flags =
     (case validate_segments declared of
        Some e \<Rightarrow> Inl (wrapf ''writ.segments: '' e)
      | None \<Rightarrow>
          (let ss = detect_segments detected @
                 map (\<lambda>d. \<lparr>sm_name = sg_name d, sm_value = sg_value d, sm_values = sg_values d, sm_lineage = []\<rparr>) declared
           in case from_environment env ss of
                Inl e \<Rightarrow> Inl e
              | Inr ss' \<Rightarrow> from_flags flags ss'))"

section \<open>A layer's directories\<close>

record match_result =
  mr_path :: path
  mr_project :: string
  mr_rank :: rank

type_synonym read_dir = "path \<Rightarrow> (gerror, (string \<times> bool) list) result"

definition project_names :: "(string \<times> bool) list \<Rightarrow> string list" where
  "project_names es = map fst (filter (\<lambda>(name, dir). dir \<and> \<not> has_prefix name ''.'') es)"

definition match_directories ::
  "read_dir \<Rightarrow> path \<Rightarrow> string list \<Rightarrow> segments \<Rightarrow> (gerror, match_result list \<times> grammar_error list) result"
where
  "match_directories list_dir root projects ss =
     (case list_dir root of
        Inl e \<Rightarrow> Inl e
      | Inr es \<Rightarrow>
          (case select_names (selector_of ss projects) (project_names es) of (chosen, errs) \<Rightarrow>
             Inr (map (\<lambda>x. \<lparr>mr_path = root @ [se_name x], mr_project = se_project x, mr_rank = se_rank x\<rparr>) chosen, errs)))"

section \<open>Overrides\<close>

lemma get_set_segment: "get_segment (set_segment ss n v) m = (if m = n then v else get_segment ss m)"
  by (induction ss) auto

text \<open>What the overrides leave alone: a segment's declared values and its lineage.\<close>

definition shape_of :: "segments \<Rightarrow> (string \<times> string list \<times> string list) list" where
  "shape_of ss = map (\<lambda>s. (sm_name s, sm_values s, sm_lineage s)) ss"

lemma shape_set_segment: "n \<in> sm_name ` set ss \<Longrightarrow> shape_of (set_segment ss n v) = shape_of ss"
  by (induction ss) (auto simp: shape_of_def)

lemma shape_names: "sm_name ` set ss = fst ` set (shape_of ss)"
  by (auto simp: shape_of_def image_image)

definition fit_settings :: "segments \<Rightarrow> bool" where
  "fit_settings ss \<longleftrightarrow>
     set builtins \<subseteq> sm_name ` set ss \<and>
     (\<forall>s \<in> set ss. sm_name s \<in> set builtins \<or> sm_value s = [] \<or> sm_value s \<in> set (sm_values s))"

lemma admits_known:
  assumes "admits_setting ss n v = None" "set builtins \<subseteq> sm_name ` set ss"
  shows "n \<in> sm_name ` set ss"
  using assms by (auto simp: admits_setting_def find_None_iff find_Some_iff split: if_splits option.splits)

lemma in_set_segment:
  assumes "s \<in> set (set_segment ss n v)" "n \<in> sm_name ` set ss"
  shows "s \<in> set ss \<or> (\<exists>t. find (\<lambda>t. sm_name t = n) ss = Some t \<and> s = t\<lparr>sm_value := v\<rparr>)"
  using assms by (induction ss) (auto split: if_splits)

lemma set_segment_fit:
  assumes fit: "fit_settings ss" and ok: "admits_setting ss n v = None"
  shows "fit_settings (set_segment ss n v)"
proof -
  have here: "n \<in> sm_name ` set ss"
    using admits_known [OF ok] fit by (simp add: fit_settings_def)
  have names: "sm_name ` set (set_segment ss n v) = sm_name ` set ss"
    using here by (simp only: shape_names shape_set_segment)
  have "sm_name s \<in> set builtins \<or> sm_value s = [] \<or> sm_value s \<in> set (sm_values s)"
    if "s \<in> set (set_segment ss n v)" for s
    using in_set_segment [OF that here]
  proof
    assume "s \<in> set ss" then show ?thesis using fit by (simp add: fit_settings_def)
  next
    assume "\<exists>t. find (\<lambda>t. sm_name t = n) ss = Some t \<and> s = t\<lparr>sm_value := v\<rparr>"
    then obtain t where t: "find (\<lambda>t. sm_name t = n) ss = Some t" "s = t\<lparr>sm_value := v\<rparr>" by blast
    then have "sm_name t = n" by (auto simp: find_Some_iff)
    then show ?thesis using ok t by (auto simp: admits_setting_def split: if_splits)
  qed
  then show ?thesis using fit names by (simp add: fit_settings_def)
qed

text \<open>The settings the environment and the flags make, in order.\<close>

definition env_settings :: "string list \<Rightarrow> (string \<times> string) list" where
  "env_settings env =
     map (\<lambda>(name, value, found). (trim_prefix name env_var_prefix, value))
       (filter (\<lambda>(name, value, found). has_prefix name env_var_prefix \<and> value \<noteq> [])
         (map (\<lambda>entry. cut entry (CHR ''='')) env))"

definition flag_settings :: "string list \<Rightarrow> (string \<times> string) list" where
  "flag_settings flags = map (\<lambda>flag. case cut flag (CHR ''='') of (name, value, found) \<Rightarrow> (name, value)) flags"

definition apply_settings :: "(string \<times> string) list \<Rightarrow> segments \<Rightarrow> segments" where
  "apply_settings kvs ss = fold (\<lambda>(n, v) s. set_segment s n v) kvs ss"

lemma apply_settings_simps [simp]:
  "apply_settings [] ss = ss"
  "apply_settings ((n, v) # kvs) ss = apply_settings kvs (set_segment ss n v)"
  by (simp_all add: apply_settings_def)

lemma get_apply_settings:
  "get_segment (apply_settings kvs ss) n = (case map_of (rev kvs) n of Some v \<Rightarrow> v | None \<Rightarrow> get_segment ss n)"
proof (induction kvs arbitrary: ss)
  case (Cons kv kvs)
  then show ?case by (cases kv) (simp add: get_set_segment map_add_def split: option.splits)
qed simp

lemma set_segment_keeps:
  assumes "fit_settings ss" "admits_setting ss n v = None"
  shows "fit_settings (set_segment ss n v) \<and> shape_of (set_segment ss n v) = shape_of ss"
  using assms set_segment_fit shape_set_segment admits_known by (simp add: fit_settings_def)

lemma from_environment_settings:
  assumes "from_environment env ss = Inr ss'" "fit_settings ss"
  shows "ss' = apply_settings (env_settings env) ss \<and> fit_settings ss' \<and> shape_of ss' = shape_of ss"
  using assms
proof (induction env ss rule: from_environment.induct)
  case (2 entry env ss)
  obtain n v b where c: "cut entry (CHR ''='') = (n, v, b)" by (metis prod_cases3)
  show ?case
    using 2 set_segment_keeps [of ss "trim_prefix n env_var_prefix" v]
    by (auto simp: c env_settings_def Let_def split: if_splits option.splits)
qed (simp add: env_settings_def)

lemma from_flags_settings:
  assumes "from_flags flags ss = Inr ss'" "fit_settings ss"
  shows "ss' = apply_settings (flag_settings flags) ss \<and> fit_settings ss' \<and> shape_of ss' = shape_of ss"
  using assms
proof (induction flags ss rule: from_flags.induct)
  case (2 flag flags ss)
  obtain n v b where c: "cut flag (CHR ''='') = (n, v, b)" by (metis prod_cases3)
  show ?case
    using 2 set_segment_keeps [of ss n v]
    by (cases b) (auto simp: c flag_settings_def split: option.splits)
qed (simp add: flag_settings_def)

definition configured :: "host \<Rightarrow> segment_decl list \<Rightarrow> segments" where
  "configured h declared =
     detect_segments h @
     map (\<lambda>d. \<lparr>sm_name = sg_name d, sm_value = sg_value d, sm_values = sg_values d, sm_lineage = []\<rparr>) declared"

text \<open>A resolved segment's value is the last a flag gives it, else the last non-empty one the environment gives it,
  else the detected or configured one; the names, declared values and lineages are those of the
  configuration, and every declared segment is unset or holds one of its values.\<close>

theorem resolved_segments_by_precedence:
  assumes "resolve_segments h env declared flags = Inr ss"
  shows "get_segment ss n =
           (case map_of (rev (flag_settings flags)) n of
              Some v \<Rightarrow> v
            | None \<Rightarrow> (case map_of (rev (env_settings env)) n of
                         Some v \<Rightarrow> v | None \<Rightarrow> get_segment (configured h declared) n)) \<and>
         shape_of ss = shape_of (configured h declared) \<and> fit_settings ss"
proof -
  have "validate_segments declared = None"
    using assms by (simp add: resolve_segments_def split: option.splits)
  then have "segment_problems [] [] declared = []" by (simp add: validate_segments_def)
  then have "\<forall>g \<in> set declared. sg_value g = [] \<or> sg_value g \<in> set (sg_values g)"
    by (simp add: segment_problems_Nil fit_segment_def)
  then have start: "fit_settings (configured h declared)"
    by (auto simp: fit_settings_def configured_def detect_segments_def builtins_def)
  obtain ss1 where env: "from_environment env (configured h declared) = Inr ss1"
    and flags: "from_flags flags ss1 = Inr ss"
    using assms by (auto simp: resolve_segments_def configured_def split: option.splits sum.splits)
  show ?thesis
    using from_environment_settings [OF env start] from_flags_settings [OF flags]
    by (auto simp: get_apply_settings split: option.splits)
qed

definition demo_declared :: "segment_decl list" where
  "demo_declared =
     [\<lparr>sg_name = ''ROLE'', sg_values = [''desktop'', ''server''], sg_value = ''desktop''\<rparr>]"

lemma demo_resolved:
  "\<exists>ss. resolve_segments demo_host [''PATH=/bin'', ''WRIT_SEGMENT_ROLE=server'', ''WRIT_SEGMENT_OS='']
     demo_declared [''DISTRO=Mint''] = Inr ss"
proof -
  have "\<not> isl (resolve_segments demo_host [''PATH=/bin'', ''WRIT_SEGMENT_ROLE=server'', ''WRIT_SEGMENT_OS='']
     demo_declared [''DISTRO=Mint''])"
    by code_simp
  then show ?thesis by (simp add: isl_def) (metis sum.exhaust)
qed

theorem resolved_segments_by_precedence_witness:
  "\<exists>ss. get_segment ss ''ROLE'' = ''server'' \<and> fit_settings ss \<and>
     resolve_segments demo_host [''PATH=/bin'', ''WRIT_SEGMENT_ROLE=server'', ''WRIT_SEGMENT_OS='']
       demo_declared [''DISTRO=Mint''] = Inr ss"
proof -
  obtain ss where ss: "resolve_segments demo_host [''PATH=/bin'', ''WRIT_SEGMENT_ROLE=server'', ''WRIT_SEGMENT_OS='']
       demo_declared [''DISTRO=Mint''] = Inr ss"
    using demo_resolved by blast
  have "map_of (rev (flag_settings [''DISTRO=Mint''])) ''ROLE'' = None"
    "map_of (rev (env_settings [''PATH=/bin'', ''WRIT_SEGMENT_ROLE=server'', ''WRIT_SEGMENT_OS=''])) ''ROLE'' = Some ''server''"
    by code_simp+
  then show ?thesis using resolved_segments_by_precedence [OF ss, of "''ROLE''"] ss by auto
qed

end
