(* ===== verification/Deploy_Tree.thy ===== *)
theory Deploy_Tree
  imports Segments
begin

text \<open>
  writ's deployment tree, \<open>cmd/writ/writ/tree\<close>: the pipeline a file's name gives it (\<open>node.go\<close>), and the build that
  selects every layer's directories, walks them in the order of application, takes a target from the last
  directory that holds it and records what was overridden (\<open>builder.go\<close>). A path is its list of elements from the
  root, so \<open>filepath.Join\<close> appends; the directory listing, \<open>filepath.WalkDir\<close> and \<open>manifest.Validate\<close> are
  arguments. A name from a walk holds no separator, so it is its own \<open>filepath.Base\<close>.
\<close>

section \<open>Pipelines\<close>

definition manifest_resolve_operation :: string where
  "manifest_resolve_operation = ''manifest.resolve''"

definition packages_manifest_files :: "string list" where
  "packages_manifest_files = [''packages-manifest.yaml'', ''packages-manifest.json'']"

definition processing_pipeline :: "string \<Rightarrow> string \<times> string list" where
  "processing_pipeline filename =
     (if filename \<in> set packages_manifest_files then (filename, [manifest_resolve_operation])
      else
        (let (name1, p1) = (if has_suffix filename ''.sops''
                            then (trim_suffix filename ''.sops'', [''encryption.decrypt'']) else (filename, []));
             (name2, p2) = (if has_suffix name1 ''.tmpl''
                            then (trim_suffix name1 ''.tmpl'', p1 @ [''template.render_bytes'']) else (name1, p1))
         in (name2, if p2 \<noteq> [] then p2 @ [''file.copy''] else [''file.link''])))"

definition has_action :: "string list \<Rightarrow> string \<Rightarrow> bool" where
  "has_action actions name \<longleftrightarrow> name \<in> set actions"

definition is_manifest_file :: "string \<Rightarrow> bool" where
  "is_manifest_file name \<longleftrightarrow> name = ''packages-manifest.yaml'' \<or> name = ''packages-manifest.json''"

section \<open>Data\<close>

record layer_source =
  ls_layer :: string
  ls_source_root :: path
  ls_origin_root :: "path option"
  ls_target_root :: path
  ls_target_name :: string

record file_entry =
  fe_id :: string
  fe_operations :: "string list"
  fe_source :: path
  fe_origin :: path
  fe_target :: path
  fe_project :: string
  fe_layer :: string
  fe_target_name :: string
  fe_mode :: nat

record entry_meta =
  em_entry :: file_entry
  em_dir :: string
  em_layer :: string
  em_rank :: rank

record collision =
  co_target :: string
  co_winner :: path
  co_winner_dir :: string
  co_winner_layer :: string
  co_loser :: path
  co_loser_dir :: string
  co_loser_layer :: string
  co_winner_rank :: rank
  co_loser_rank :: rank
  co_reason :: string

record build_result =
  br_files :: "file_entry list"
  br_source_root :: "path option"
  br_target_root :: path
  br_sources :: "layer_source list"
  br_projects :: "string list"
  br_matched :: "match_result list"
  br_collisions :: "collision list"
  br_manifests :: "file_entry list"

record build_config =
  bc_source_root :: path
  bc_target_root :: path
  bc_sources :: "layer_source list"
  bc_projects :: "string list"
  bc_segments :: segments

text \<open>A refusal names every malformed directory with the tree it is in.\<close>

datatype build_error = Refused "(path \<times> grammar_error) list" | BuildFailed gerror

section \<open>Walking a directory\<close>

text \<open>One call of the function \<open>filepath.WalkDir\<close> is given: the path below the root, whether it is a directory, the error.\<close>

record walk_event =
  we_rel :: path
  we_dir :: bool
  we_err :: "gerror option"

type_synonym walk = "path \<Rightarrow> walk_event list"
type_synonym validator = "path \<Rightarrow> gerror option"

text \<open>\<open>filepath.Join\<close> with one more element, which \<open>filepath.Clean\<close> resolves.\<close>

definition enter :: "path \<Rightarrow> string \<Rightarrow> path" where
  "enter p name =
     (if name = [] \<or> name = ''.'' then p else if name = ''..'' then butlast p else p @ [name])"

definition relative_text :: "path \<Rightarrow> string" where
  "relative_text p = (if p = [] then ''.'' else join_with ''/'' p)"

definition origin_root :: "layer_source \<Rightarrow> path" where
  "origin_root source = (case ls_origin_root source of Some p \<Rightarrow> p | None \<Rightarrow> ls_source_root source)"

definition file_entry_at ::
  "validator \<Rightarrow> match_result \<Rightarrow> layer_source \<Rightarrow> path \<Rightarrow> path \<Rightarrow> (gerror, file_entry) result"
where
  "file_entry_at validate m source origin rel =
     (let dir = butlast rel; name = last rel;
          (target_name, actions) = processing_pipeline name;
          rel_target = (if dir \<noteq> [] then relative_text (enter dir target_name) else target_name);
          mode = (if has_action actions ''encryption.decrypt'' then 384 else 0);
          source_relative = drop (length (ls_source_root source)) (mr_path m @ rel);
          made = \<lparr>fe_id = rel_target, fe_operations = actions, fe_source = mr_path m @ rel,
                  fe_origin = origin @ source_relative,
                  fe_target = (if dir \<noteq> [] then ls_target_root source @ enter dir target_name
                               else enter (ls_target_root source) target_name),
                  fe_project = mr_project m, fe_layer = [], fe_target_name = [], fe_mode = mode\<rparr>
      in if has_action actions ''manifest.resolve'' \<and> is_manifest_file name then
           (case validate (mr_path m @ rel) of
              Some e \<Rightarrow> Inl (wrapf (''invalid '' @ relative_text rel @ '': '') e)
            | None \<Rightarrow> Inr made)
         else Inr made)"

fun walk_entries ::
  "validator \<Rightarrow> match_result \<Rightarrow> layer_source \<Rightarrow> walk_event list \<Rightarrow> (gerror, file_entry list) result"
where
  "walk_entries validate m source [] = Inr []"
| "walk_entries validate m source (ev # evs) =
     (case we_err ev of
        Some e \<Rightarrow> Inl e
      | None \<Rightarrow>
          if we_dir ev then walk_entries validate m source evs
          else (case file_entry_at validate m source (origin_root source) (we_rel ev) of
                  Inl e \<Rightarrow> Inl e
                | Inr entry \<Rightarrow>
                    (case walk_entries validate m source evs of
                       Inl e \<Rightarrow> Inl e
                     | Inr entries \<Rightarrow> Inr (entry # entries))))"

definition walk_directory ::
  "walk \<Rightarrow> validator \<Rightarrow> match_result \<Rightarrow> layer_source \<Rightarrow> (gerror, file_entry list) result"
where
  "walk_directory walk validate m source = walk_entries validate m source (walk (mr_path m))"

section \<open>Applying a directory\<close>

definition is_manifest :: "file_entry \<Rightarrow> bool" where
  "is_manifest e \<longleftrightarrow> fe_operations e = [manifest_resolve_operation]"

fun segment_reason :: "bool list \<Rightarrow> bool list \<Rightarrow> segment_decl list \<Rightarrow> string" where
  "segment_reason (w # ws) (l # ls) (g # gs) =
     (if w \<noteq> l then ''it names the '' @ sg_name g @ '' segment'' else segment_reason ws ls gs)"
| "segment_reason ws ls gs = ''applied later''"

definition collision_reason :: "entry_meta \<Rightarrow> entry_meta \<Rightarrow> segment_decl list \<Rightarrow> string" where
  "collision_reason winner loser exts =
     (if em_layer winner \<noteq> em_layer loser then ''a later layer''
      else if rk_project (em_rank winner) \<noteq> rk_project (em_rank loser) then ''a later project''
      else if rk_link (em_rank winner) \<noteq> rk_link (em_rank loser) then ''a more specific OS word''
      else if rk_arch (em_rank winner) \<noteq> rk_arch (em_rank loser) then ''it names the architecture''
      else segment_reason (rk_extras (em_rank winner)) (rk_extras (em_rank loser)) exts)"

type_synonym build_state = "(string \<times> entry_meta) list \<times> build_result"

definition collide :: "segment_decl list \<Rightarrow> entry_meta \<Rightarrow> entry_meta \<Rightarrow> collision" where
  "collide exts taken existing =
     \<lparr>co_target = fe_id (em_entry taken), co_winner = fe_source (em_entry taken),
      co_winner_dir = em_dir taken, co_winner_layer = em_layer taken,
      co_loser = fe_source (em_entry existing), co_loser_dir = em_dir existing,
      co_loser_layer = em_layer existing, co_winner_rank = em_rank taken,
      co_loser_rank = em_rank existing, co_reason = collision_reason taken existing exts\<rparr>"

fun apply_entry ::
  "segment_decl list \<Rightarrow> match_result \<Rightarrow> layer_source \<Rightarrow> file_entry \<Rightarrow> build_state \<Rightarrow> build_state"
where
  "apply_entry exts m source e0 (table, r) =
     (let e = e0\<lparr>fe_layer := ls_layer source, fe_target_name := ls_target_name source\<rparr> in
      if is_manifest e then (table, r\<lparr>br_manifests := br_manifests r @ [e]\<rparr>)
      else
        (let taken = \<lparr>em_entry = e, em_dir = last (mr_path m), em_layer = ls_layer source, em_rank = mr_rank m\<rparr>;
             r' = (case alookup table (fe_id e) of
                     Some existing \<Rightarrow> r\<lparr>br_collisions := br_collisions r @ [collide exts taken existing]\<rparr>
                   | None \<Rightarrow> r)
         in (aput (fe_id e) taken table, r')))"

definition apply_directory ::
  "segment_decl list \<Rightarrow> match_result \<Rightarrow> layer_source \<Rightarrow> file_entry list \<Rightarrow> build_state \<Rightarrow> build_state"
where
  "apply_directory exts m source entries st = fold (apply_entry exts m source) entries st"

section \<open>Building\<close>

definition layer_error :: "layer_source \<Rightarrow> gerror \<Rightarrow> gerror" where
  "layer_error source e =
     (if ls_layer source = [] then e else wrapf (''layer '' @ ls_layer source @ '': '') e)"

fun select_layers ::
  "read_dir \<Rightarrow> string list \<Rightarrow> segments \<Rightarrow> layer_source list \<Rightarrow>
     (gerror, match_result list list \<times> (path \<times> grammar_error) list) result"
where
  "select_layers list_dir projects ss [] = Inr ([], [])"
| "select_layers list_dir projects ss (source # sources) =
     (case match_directories list_dir (ls_source_root source) projects ss of
        Inl e \<Rightarrow> Inl (layer_error source e)
      | Inr (ms, errs) \<Rightarrow>
          (case select_layers list_dir projects ss sources of
             Inl e \<Rightarrow> Inl e
           | Inr (mss, refused) \<Rightarrow> Inr (ms # mss, map (Pair (origin_root source)) errs @ refused)))"

definition select_directories ::
  "read_dir \<Rightarrow> build_config \<Rightarrow> layer_source list \<Rightarrow> (build_error, match_result list list) result"
where
  "select_directories list_dir cfg sources =
     (case select_layers list_dir (bc_projects cfg) (bc_segments cfg) sources of
        Inl e \<Rightarrow> Inl (BuildFailed e)
      | Inr (mss, refused) \<Rightarrow> if refused \<noteq> [] then Inl (Refused refused) else Inr mss)"

fun build_matches ::
  "walk \<Rightarrow> validator \<Rightarrow> segment_decl list \<Rightarrow> layer_source \<Rightarrow> match_result list \<Rightarrow> build_state \<Rightarrow>
     (build_error, build_state) result"
where
  "build_matches walk validate exts source [] st = Inr st"
| "build_matches walk validate exts source (m # ms) st =
     (case walk_directory walk validate m source of
        Inl e \<Rightarrow> Inl (BuildFailed (layer_error source e))
      | Inr entries \<Rightarrow> build_matches walk validate exts source ms (apply_directory exts m source entries st))"

fun build_layers ::
  "walk \<Rightarrow> validator \<Rightarrow> segment_decl list \<Rightarrow> (layer_source \<times> match_result list) list \<Rightarrow> build_state \<Rightarrow>
     (build_error, build_state) result"
where
  "build_layers walk validate exts [] st = Inr st"
| "build_layers walk validate exts ((source, ms) # layers) st =
     (case st of (table, r) \<Rightarrow>
        (case build_matches walk validate exts source ms (table, r\<lparr>br_matched := br_matched r @ ms\<rparr>) of
           Inl e \<Rightarrow> Inl e
         | Inr st' \<Rightarrow> build_layers walk validate exts layers st'))"

definition config_sources :: "build_config \<Rightarrow> layer_source list" where
  "config_sources cfg =
     (if bc_sources cfg = [] then
        [\<lparr>ls_layer = [], ls_source_root = bc_source_root cfg, ls_origin_root = None,
          ls_target_root = bc_target_root cfg, ls_target_name = []\<rparr>]
      else bc_sources cfg)"

definition fresh_result :: "build_config \<Rightarrow> build_result" where
  "fresh_result cfg =
     \<lparr>br_files = [], br_source_root = (if bc_sources cfg = [] then Some (bc_source_root cfg) else None),
      br_target_root = bc_target_root cfg, br_sources = bc_sources cfg, br_projects = bc_projects cfg,
      br_matched = [], br_collisions = [], br_manifests = []\<rparr>"

definition build ::
  "read_dir \<Rightarrow> walk \<Rightarrow> validator \<Rightarrow> build_config \<Rightarrow> (build_error, build_result) result"
where
  "build list_dir walk validate cfg =
     (case select_directories list_dir cfg (config_sources cfg) of
        Inl e \<Rightarrow> Inl e
      | Inr selections \<Rightarrow>
          (case build_layers walk validate (extras (bc_segments cfg)) (zip (config_sources cfg) selections)
                  ([], fresh_result cfg) of
             Inl e \<Rightarrow> Inl e
           | Inr (table, r) \<Rightarrow> Inr (r\<lparr>br_files := sort_key fe_id (map (em_entry \<circ> snd) table)\<rparr>)))"

section \<open>Counts\<close>

definition has_collisions :: "build_result \<Rightarrow> bool" where
  "has_collisions r \<longleftrightarrow> br_collisions r \<noteq> []"

definition file_count :: "build_result \<Rightarrow> nat" where
  "file_count r = length (br_files r)"

definition count_with :: "string \<Rightarrow> build_result \<Rightarrow> nat" where
  "count_with action r = length (filter (\<lambda>f. has_action (fe_operations f) action) (br_files r))"

definition secret_count :: "build_result \<Rightarrow> nat" where
  "secret_count = count_with ''encryption.decrypt''"

definition template_count :: "build_result \<Rightarrow> nat" where
  "template_count = count_with ''template.render_bytes''"

definition packages_count :: "build_result \<Rightarrow> nat" where
  "packages_count = count_with ''manifest.resolve''"

definition link_count :: "build_result \<Rightarrow> nat" where
  "link_count r = length (filter (\<lambda>f. fe_operations f = [''file.link'']) (br_files r))"

end
