(* ===== verification/Deploy_Laws.thy ===== *)
theory Deploy_Laws
  imports Deploy_Tree "HOL-Library.Sublist"
begin

text \<open>
  What the build of writ's tree promises: a target is taken from the last directory applied that holds it,
  manifests are kept in order and never collide, every collision is one directory overriding the one before
  it and follows the layers and the ranks, and a malformed name refuses the build before a file is read.
\<close>

section \<open>What was applied\<close>

abbreviation target_id :: "entry_meta \<Rightarrow> string" where
  "target_id x \<equiv> fe_id (em_entry x)"

definition meta_of :: "layer_source \<Rightarrow> match_result \<Rightarrow> file_entry \<Rightarrow> entry_meta" where
  "meta_of source m e =
     \<lparr>em_entry = e\<lparr>fe_layer := ls_layer source, fe_target_name := ls_target_name source\<rparr>,
      em_dir = last (mr_path m), em_layer = ls_layer source, em_rank = mr_rank m\<rparr>"

definition entries_of :: "walk \<Rightarrow> validator \<Rightarrow> layer_source \<Rightarrow> match_result \<Rightarrow> entry_meta list" where
  "entries_of walk validate source m =
     (case walk_directory walk validate m source of Inr es \<Rightarrow> map (meta_of source m) es | Inl e \<Rightarrow> [])"

definition layer_entries :: "walk \<Rightarrow> validator \<Rightarrow> layer_source \<times> match_result list \<Rightarrow> entry_meta list" where
  "layer_entries walk validate l = concat (map (entries_of walk validate (fst l)) (snd l))"

definition applied_layers :: "read_dir \<Rightarrow> build_config \<Rightarrow> (layer_source \<times> match_result list) list" where
  "applied_layers list_dir cfg =
     (case select_directories list_dir cfg (config_sources cfg) of
        Inr mss \<Rightarrow> zip (config_sources cfg) mss | Inl e \<Rightarrow> [])"

text \<open>Every entry walked, in the order of application.\<close>

definition applied_entries :: "read_dir \<Rightarrow> walk \<Rightarrow> validator \<Rightarrow> build_config \<Rightarrow> entry_meta list" where
  "applied_entries list_dir walk validate cfg =
     concat (map (layer_entries walk validate) (applied_layers list_dir cfg))"

definition applied_files :: "read_dir \<Rightarrow> walk \<Rightarrow> validator \<Rightarrow> build_config \<Rightarrow> entry_meta list" where
  "applied_files list_dir walk validate cfg =
     filter (\<lambda>x. \<not> is_manifest (em_entry x)) (applied_entries list_dir walk validate cfg)"

type_synonym build_view = "(string \<times> entry_meta) list \<times> file_entry list \<times> collision list"

definition view_of :: "build_state \<Rightarrow> build_view" where
  "view_of st = (fst st, br_manifests (snd st), br_collisions (snd st))"

fun take_meta :: "segment_decl list \<Rightarrow> entry_meta \<Rightarrow> build_view \<Rightarrow> build_view" where
  "take_meta exts x (t, ms, cs) =
     (if is_manifest (em_entry x) then (t, ms @ [em_entry x], cs)
      else (aput (target_id x) x t, ms,
            cs @ (case alookup t (target_id x) of Some y \<Rightarrow> [collide exts x y] | None \<Rightarrow> [])))"

lemma view_apply_entry:
  "view_of (apply_entry exts m source e st) = take_meta exts (meta_of source m e) (view_of st)"
  by (cases st) (auto simp: view_of_def meta_of_def is_manifest_def Let_def split: option.splits)

lemma view_apply_directory:
  "view_of (apply_directory exts m source es st) = fold (take_meta exts) (map (meta_of source m) es) (view_of st)"
  unfolding apply_directory_def by (induction es arbitrary: st) (simp_all add: view_apply_entry)

lemma view_build_matches:
  assumes "build_matches walk validate exts source ms st = Inr st'"
  shows "view_of st' = fold (take_meta exts) (layer_entries walk validate (source, ms)) (view_of st)"
  using assms
  by (induction ms arbitrary: st)
    (auto simp: layer_entries_def entries_of_def view_apply_directory split: sum.splits)

lemma view_build_layers:
  assumes "build_layers walk validate exts layers st = Inr st'"
  shows "view_of st' = fold (take_meta exts) (concat (map (layer_entries walk validate) layers)) (view_of st)"
  using assms
proof (induction walk validate exts layers st rule: build_layers.induct)
  case (2 walk validate exts source ms layers st)
  obtain t r where st: "st = (t, r)" by (cases st)
  obtain st1 where one: "build_matches walk validate exts source ms (t, r\<lparr>br_matched := br_matched r @ ms\<rparr>) = Inr st1"
    and rest: "build_layers walk validate exts layers st1 = Inr st'"
    using 2(2) by (auto simp: st split: sum.splits)
  have "view_of (t, r\<lparr>br_matched := br_matched r @ ms\<rparr>) = view_of st" by (simp add: view_of_def st)
  then show ?case
    using 2(1) [OF st [symmetric] one rest] view_build_matches [OF one] by simp
qed simp

definition last_with :: "entry_meta list \<Rightarrow> entry_meta \<Rightarrow> bool" where
  "last_with xs x \<longleftrightarrow> (\<exists>us ws. xs = us @ x # ws \<and> (\<forall>w \<in> set ws. target_id w \<noteq> target_id x))"

definition overrides :: "entry_meta list \<Rightarrow> entry_meta \<Rightarrow> entry_meta \<Rightarrow> bool" where
  "overrides xs x y \<longleftrightarrow>
     (\<exists>us vs ws. xs = us @ y # vs @ x # ws \<and> target_id x = target_id y \<and>
        (\<forall>v \<in> set vs. target_id v \<noteq> target_id x))"

lemma last_with_snoc: "last_with (xs @ [x]) y \<longleftrightarrow> y = x \<or> last_with xs y \<and> target_id y \<noteq> target_id x"
proof
  assume "last_with (xs @ [x]) y"
  then obtain us ws where "xs @ [x] = us @ y # ws" "\<forall>w \<in> set ws. target_id w \<noteq> target_id y"
    by (auto simp: last_with_def)
  then show "y = x \<or> last_with xs y \<and> target_id y \<noteq> target_id x"
    by (cases ws rule: rev_cases) (auto simp: last_with_def)
next
  assume "y = x \<or> last_with xs y \<and> target_id y \<noteq> target_id x"
  then show "last_with (xs @ [x]) y"
  proof
    assume "y = x" then show ?thesis by (force simp: last_with_def)
  next
    assume "last_with xs y \<and> target_id y \<noteq> target_id x"
    then obtain us ws where "xs = us @ y # ws" "\<forall>w \<in> set (ws @ [x]). target_id w \<noteq> target_id y"
      by (auto simp: last_with_def)
    then show ?thesis unfolding last_with_def by (metis append_Cons append_assoc)
  qed
qed

lemma overrides_snoc: "overrides xs x y \<Longrightarrow> overrides (xs @ [z]) x y"
  unfolding overrides_def by (metis append_Cons append_assoc)

lemma overrides_snocD:
  assumes "overrides (xs @ [z]) x y"
  shows "overrides xs x y \<or> x = z \<and> last_with xs y \<and> target_id z = target_id y"
proof -
  obtain us vs ws where "xs @ [z] = us @ y # vs @ x # ws" "target_id x = target_id y" "\<forall>v \<in> set vs. target_id v \<noteq> target_id x"
    using assms by (auto simp: overrides_def)
  then show ?thesis
  proof (cases ws rule: rev_cases)
    case Nil
    with \<open>xs @ [z] = us @ y # vs @ x # ws\<close> have "xs = us @ y # vs" "z = x"
      by (metis append.assoc append_Cons append_same_eq butlast_snoc last_snoc)+
    then show ?thesis
      using \<open>target_id x = target_id y\<close> \<open>\<forall>v \<in> set vs. target_id v \<noteq> target_id x\<close> by (auto simp: last_with_def)
  next
    case (snoc ws0 z0)
    with \<open>xs @ [z] = us @ y # vs @ x # ws\<close> have "xs = us @ y # vs @ x # ws0" by simp
    then show ?thesis
      using \<open>target_id x = target_id y\<close> \<open>\<forall>v \<in> set vs. target_id v \<noteq> target_id x\<close> by (auto simp: overrides_def)
  qed
qed

lemma kept_or_overridden:
  assumes "y \<in> set xs"
  shows "last_with xs y \<or> (\<exists>x. overrides xs x y)"
proof -
  obtain us ws where xs: "xs = us @ y # ws" using assms by (auto simp: in_set_conv_decomp)
  show ?thesis
  proof (cases "\<exists>w \<in> set ws. target_id w = target_id y")
    case True
    then obtain vs x zs where "ws = vs @ x # zs" "target_id x = target_id y" "\<forall>v \<in> set vs. target_id v \<noteq> target_id y"
      using split_list_first_prop [of ws "\<lambda>w. target_id w = target_id y"] by blast
    then have "xs = us @ y # vs @ x # zs" "target_id x = target_id y" "\<forall>v \<in> set vs. target_id v \<noteq> target_id x"
      using xs by simp_all
    then show ?thesis unfolding overrides_def by blast
  next
    case False
    then show ?thesis using xs unfolding last_with_def by blast
  qed
qed

lemma overrides_last: "last_with xs y \<Longrightarrow> target_id x = target_id y \<Longrightarrow> overrides (xs @ [x]) x y"
  unfolding overrides_def last_with_def by force

lemma alookup_last_with:
  "alookup (rev (map (\<lambda>x. (target_id x, x)) xs)) k = Some x \<longleftrightarrow> last_with xs x \<and> target_id x = k"
proof (induction xs rule: rev_induct)
  case (snoc z xs) then show ?case by (auto simp: last_with_snoc)
qed (simp add: last_with_def)

definition table_of :: "entry_meta list \<Rightarrow> string \<Rightarrow> entry_meta option" where
  "table_of xs = alookup (rev (map (\<lambda>x. (target_id x, x)) xs))"

lemma length_aput: "length (aput k v m) = (if alookup m k = None then Suc (length m) else length m)"
  by (induction m) auto

lemma fold_take_meta:
  fixes xs :: "entry_meta list"
  defines "files \<equiv> filter (\<lambda>x. \<not> is_manifest (em_entry x)) xs"
  assumes "fold (take_meta exts) xs ([], [], []) = (t, ms, cs)"
  shows "alookup t = table_of files \<and> distinct (map fst t) \<and>
     ms = map em_entry (filter (\<lambda>x. is_manifest (em_entry x)) xs) \<and>
     set cs = {collide exts x y |x y. overrides files x y} \<and>
     length cs + length t = length files"
  using assms(2) unfolding files_def
proof (induction xs arbitrary: t ms cs rule: rev_induct)
  case (snoc x xs)
  obtain t0 ms0 cs0 where before: "fold (take_meta exts) xs ([], [], []) = (t0, ms0, cs0)"
    by (metis prod_cases3)
  note IH = snoc.IH [OF before]
  have step: "take_meta exts x (t0, ms0, cs0) = (t, ms, cs)" using snoc.prems by (simp add: before)
  show ?case
  proof (cases "is_manifest (em_entry x)")
    case True then show ?thesis using IH step by auto
  next
    case False
    let ?files = "filter (\<lambda>x. \<not> is_manifest (em_entry x)) xs"
    have t: "t = aput (target_id x) x t0" and ms: "ms = ms0"
      and cs: "cs = cs0 @ (case alookup t0 (target_id x) of Some y \<Rightarrow> [collide exts x y] | None \<Rightarrow> [])"
      using step False by auto
    have new: "overrides (?files @ [x]) a b \<longleftrightarrow>
        overrides ?files a b \<or> a = x \<and> alookup t0 (target_id x) = Some b" for a b
      using IH overrides_snocD [of ?files x a b] overrides_snoc [of ?files a b x] overrides_last [of ?files b x]
      by (auto simp: table_of_def alookup_last_with)
    have "set cs = {collide exts a b |a b. overrides ?files a b} \<union> {collide exts x b |b. alookup t0 (target_id x) = Some b}"
      unfolding cs using IH by (cases "alookup t0 (target_id x)") auto
    then have "set cs = {collide exts a b |a b. overrides (?files @ [x]) a b}"
      unfolding new by blast
    then show ?thesis
      using IH False by (auto simp: t ms cs distinct_aput length_aput table_of_def split: option.splits)
  qed
qed (simp add: table_of_def overrides_def)

section \<open>The order of application\<close>

lemma compare_extras_swap: "compare_extras ys xs = - compare_extras xs ys"
  by (induction xs ys rule: compare_extras.induct) (auto simp: compare_bool_def)

lemma compare_rank_swap: "compare_rank q r = - compare_rank r q"
  using compare_extras_swap [of "rk_extras q" "rk_extras r"]
  by (auto simp: compare_rank_def compare_bool_def)

lemma key_order_ranks: "order_key x \<le> order_key y \<Longrightarrow> compare_rank (se_rank x) (se_rank y) \<le> 0"
  using applied_before_by_key [of y x] compare_rank_swap [of "se_rank y" "se_rank x"]
  by (auto simp: applied_before_def Let_def not_le [symmetric] split: if_splits)

lemma selected_in_order:
  "sorted_wrt (\<lambda>x y. compare_rank (se_rank x) (se_rank y) \<le> 0) (fst (select_names s names))"
proof -
  have "sorted_wrt (\<lambda>x y. order_key x \<le> order_key y) (fst (select_names s names))"
    unfolding select_names_eq using sorted_sort_key [of order_key] by (simp add: sorted_map)
  then show ?thesis by (rule sorted_wrt_mono_rel [rotated]) (rule key_order_ranks)
qed

lemma matched_in_order:
  assumes "match_directories list_dir root projects ss = Inr (ms, errs)"
  shows "sorted_wrt (\<lambda>x y. compare_rank (mr_rank x) (mr_rank y) \<le> 0) ms"
proof -
  obtain es where es: "list_dir root = Inr es"
    using assms by (auto simp: match_directories_def split: sum.splits)
  have "ms = map (\<lambda>x. \<lparr>mr_path = root @ [se_name x], mr_project = se_project x, mr_rank = se_rank x\<rparr>)
      (fst (select_names (selector_of ss projects) (project_names es)))"
    using assms by (simp add: match_directories_def es split_beta)
  then show ?thesis using selected_in_order by (simp add: sorted_wrt_map)
qed

text \<open>The entry \<open>y\<close> comes from a source before \<open>x\<close>'s, or from the same one and a directory of no higher rank.\<close>

definition applied_no_later ::
  "walk \<Rightarrow> validator \<Rightarrow> (layer_source \<times> match_result list) list \<Rightarrow> entry_meta \<Rightarrow> entry_meta \<Rightarrow> bool" where
  "applied_no_later walk validate layers y x \<longleftrightarrow>
     (\<exists>i j. i \<le> j \<and> j < length layers \<and> y \<in> set (layer_entries walk validate (layers ! i)) \<and>
        x \<in> set (layer_entries walk validate (layers ! j)) \<and>
        (i = j \<longrightarrow> compare_rank (em_rank y) (em_rank x) \<le> 0))"

lemma compare_rank_refl: "compare_rank r r = 0"
  using compare_rank_swap [of r r] by simp

lemma entries_of_layer:
  assumes "x \<in> set (entries_of walk validate source m)"
  shows "em_layer x = ls_layer source" "em_rank x = mr_rank m"
  using assms by (auto simp: entries_of_def meta_of_def split: sum.splits)

lemma sorted_wrt_concat:
  assumes "\<forall>xs \<in> set xss. sorted_wrt R xs"
    and "sorted_wrt (\<lambda>xs ys. \<forall>x \<in> set xs. \<forall>y \<in> set ys. R x y) xss"
  shows "sorted_wrt R (concat xss)"
  using assms by (induction xss) (auto simp: sorted_wrt_append)

lemma sorted_wrt_all: "(\<forall>x \<in> set xs. \<forall>y \<in> set xs. R x y) \<Longrightarrow> sorted_wrt R xs"
  by (induction xs) auto

lemma layer_entries_in_order:
  assumes "sorted_wrt (\<lambda>x y. compare_rank (mr_rank x) (mr_rank y) \<le> 0) ms"
  shows "sorted_wrt (\<lambda>y x. compare_rank (em_rank y) (em_rank x) \<le> 0) (layer_entries walk validate (source, ms))"
proof -
  have "sorted_wrt (\<lambda>xs ys. \<forall>x \<in> set xs. \<forall>y \<in> set ys. compare_rank (em_rank x) (em_rank y) \<le> 0)
      (map (entries_of walk validate source) ms)"
    unfolding sorted_wrt_map using assms
    by (rule sorted_wrt_mono_rel [rotated]) (auto simp: entries_of_layer)
  moreover have "sorted_wrt (\<lambda>y x. compare_rank (em_rank y) (em_rank x) \<le> 0) (entries_of walk validate source m)" for m
    by (rule sorted_wrt_all) (auto simp: entries_of_layer compare_rank_refl)
  ultimately show ?thesis by (simp add: layer_entries_def sorted_wrt_concat)
qed

lemma select_layers_matches:
  assumes "select_layers list_dir projects ss sources = Inr (mss, refused)"
  shows "length mss = length sources" and
    "(source, ms) \<in> set (zip sources mss) \<Longrightarrow> \<exists>errs. match_directories list_dir (ls_source_root source) projects ss = Inr (ms, errs)"
  using assms
proof (induction sources arbitrary: mss refused)
  case (Cons s sources)
  {
    case 1 then show ?case using Cons.IH(1) by (auto split: sum.splits prod.splits)
  next
    case 2 then show ?case using Cons.IH(2) by (auto split: sum.splits prod.splits)
  }
qed auto

lemma applied_layer_ranks:
  assumes "(source, ms) \<in> set (applied_layers list_dir cfg)"
  shows "sorted_wrt (\<lambda>x y. compare_rank (mr_rank x) (mr_rank y) \<le> 0) ms"
proof -
  obtain mss where mss: "select_directories list_dir cfg (config_sources cfg) = Inr mss"
    "(source, ms) \<in> set (zip (config_sources cfg) mss)"
    using assms by (cases "select_directories list_dir cfg (config_sources cfg)") (auto simp: applied_layers_def)
  then obtain refused where "select_layers list_dir (bc_projects cfg) (bc_segments cfg) (config_sources cfg) = Inr (mss, refused)"
    by (auto simp: select_directories_def split: sum.splits prod.splits if_splits)
  from select_layers_matches(2) [OF this mss(2)] matched_in_order show ?thesis by blast
qed

lemma applied_in_order:
  "sorted_wrt (applied_no_later walk validate (applied_layers list_dir cfg)) (applied_entries list_dir walk validate cfg)"
proof -
  let ?layers = "applied_layers list_dir cfg"
  have one: "sorted_wrt (applied_no_later walk validate ?layers) (layer_entries walk validate l)" if mem: "l \<in> set ?layers" for l
  proof -
    obtain source ms where l: "l = (source, ms)" by (cases l)
    obtain i where "i < length ?layers" "?layers ! i = l" using mem by (auto simp: in_set_conv_nth)
    then show ?thesis
      using layer_entries_in_order [OF applied_layer_ranks [OF mem [unfolded l]], of walk validate source]
      unfolding l by (elim sorted_wrt_mono_rel [rotated]) (auto simp: applied_no_later_def intro!: exI [of _ i])
  qed
  have "sorted_wrt (\<lambda>xs ys. \<forall>x \<in> set xs. \<forall>y \<in> set ys. applied_no_later walk validate ?layers x y)
      (map (layer_entries walk validate) ?layers)"
    unfolding sorted_wrt_iff_nth_less
  proof (intro allI impI ballI)
    fix i j y x
    assume "i < j" "j < length (map (layer_entries walk validate) ?layers)"
      "y \<in> set (map (layer_entries walk validate) ?layers ! i)" "x \<in> set (map (layer_entries walk validate) ?layers ! j)"
    then show "applied_no_later walk validate ?layers y x"
      unfolding applied_no_later_def by (intro exI [of _ i] exI [of _ j]) simp
  qed
  with one show ?thesis unfolding applied_entries_def by (intro sorted_wrt_concat) auto
qed

section \<open>The build\<close>

lemma build_view:
  assumes "build list_dir walk validate cfg = Inr r"
  shows "\<exists>t r0. r = r0\<lparr>br_files := sort_key fe_id (map (em_entry \<circ> snd) t)\<rparr> \<and>
     fold (take_meta (extras (bc_segments cfg))) (applied_entries list_dir walk validate cfg) ([], [], []) =
       (t, br_manifests r0, br_collisions r0)"
proof -
  obtain mss where sel: "select_directories list_dir cfg (config_sources cfg) = Inr mss"
    using assms by (auto simp: build_def split: sum.splits)
  obtain t r0 where run: "build_layers walk validate (extras (bc_segments cfg)) (zip (config_sources cfg) mss)
      ([], fresh_result cfg) = Inr (t, r0)"
    and r: "r = r0\<lparr>br_files := sort_key fe_id (map (em_entry \<circ> snd) t)\<rparr>"
    using assms by (auto simp: build_def sel split: sum.splits prod.splits)
  show ?thesis
    using view_build_layers [OF run] r
    by (intro exI [of _ t] exI [of _ r0])
      (simp add: view_of_def fresh_result_def applied_entries_def applied_layers_def sel)
qed

lemma strict_ids:
  assumes "distinct (map f xs)"
  shows "sorted_wrt (<) (map f (sort_key f xs))"
  using assms by (simp add: strict_sorted_iff distinct_map)

lemma table_entries:
  assumes "alookup t = table_of xs" "distinct (map fst t)"
  shows "map (fe_id \<circ> em_entry \<circ> snd) t = map fst t"
    and "f \<in> em_entry ` snd ` set t \<longleftrightarrow> (\<exists>x. last_with xs x \<and> f = em_entry x)"
proof -
  have mem: "(k, x) \<in> set t \<longleftrightarrow> last_with xs x \<and> target_id x = k" for k x
    using assms by (simp add: map_of_eq_Some_iff [symmetric] table_of_def alookup_last_with)
  show "map (fe_id \<circ> em_entry \<circ> snd) t = map fst t" using mem by (auto intro!: map_cong)
  show "f \<in> em_entry ` snd ` set t \<longleftrightarrow> (\<exists>x. last_with xs x \<and> f = em_entry x)" 
  proof -
    have "x \<in> snd ` set t \<longleftrightarrow> (\<exists>k. (k, x) \<in> set t)" for x by force
    then have "x \<in> snd ` set t \<longleftrightarrow> last_with xs x" for x by (simp add: mem)
    then show ?thesis by blast
  qed
qed

lemma build_files:
  assumes "build list_dir walk validate cfg = Inr r"
  shows "sorted_wrt (<) (map fe_id (br_files r)) \<and>
     (f \<in> set (br_files r) \<longleftrightarrow>
        (\<exists>x. last_with (applied_files list_dir walk validate cfg) x \<and> f = em_entry x)) \<and>
     br_manifests r = filter is_manifest (map em_entry (applied_entries list_dir walk validate cfg)) \<and>
     set (br_collisions r) = {collide (extras (bc_segments cfg)) x y |x y.
        overrides (applied_files list_dir walk validate cfg) x y} \<and>
     length (br_files r) + length (br_manifests r) + length (br_collisions r) =
       length (applied_entries list_dir walk validate cfg)"
proof -
  let ?xs = "applied_entries list_dir walk validate cfg"
  obtain t r0 where r: "r = r0\<lparr>br_files := sort_key fe_id (map (em_entry \<circ> snd) t)\<rparr>"
    and run: "fold (take_meta (extras (bc_segments cfg))) ?xs ([], [], []) = (t, br_manifests r0, br_collisions r0)"
    using build_view [OF assms] by blast
  note facts = fold_take_meta [OF run, folded applied_files_def]
  note t = table_entries [OF conjunct1 [OF facts] conjunct1 [OF conjunct2 [OF facts]]]
  have "length ?xs = length (filter (\<lambda>x. is_manifest (em_entry x)) ?xs) + length (applied_files list_dir walk validate cfg)"
    unfolding applied_files_def by (rule sum_length_filter_compl [symmetric])
  moreover have "distinct (map fe_id (map (em_entry \<circ> snd) t))"
    unfolding map_map comp_assoc [symmetric] t(1) using facts by blast
  then have "sorted_wrt (<) (map fe_id (br_files r))" by (simp add: r strict_ids del: map_map)
  ultimately show ?thesis
    using facts t(2) by (simp add: r filter_map comp_def image_image)
qed

text \<open>C33: a build's files are sorted by target with no target twice, and hold for each target exactly the entry
  of the last directory applied that holds it; the package manifests are all kept, in the order of
  application, and never among the files. Every other entry applied is a file of the build or was
  overridden by the next entry for its target, and that collision is recorded with it as the loser; no
  other collision is recorded, and none is missing from the count.\<close>

theorem build_takes_the_last_applied:
  assumes "build list_dir walk validate cfg = Inr r"
  shows "sorted_wrt (<) (map fe_id (br_files r)) \<and>
     (f \<in> set (br_files r) \<longleftrightarrow>
        (\<exists>x. last_with (applied_files list_dir walk validate cfg) x \<and> f = em_entry x)) \<and>
     br_manifests r = filter is_manifest (map em_entry (applied_entries list_dir walk validate cfg)) \<and>
     (\<forall>y \<in> set (applied_files list_dir walk validate cfg). em_entry y \<in> set (br_files r) \<or>
        (\<exists>x. overrides (applied_files list_dir walk validate cfg) x y \<and>
           collide (extras (bc_segments cfg)) x y \<in> set (br_collisions r))) \<and>
     (\<forall>c \<in> set (br_collisions r). \<exists>x y. overrides (applied_files list_dir walk validate cfg) x y \<and>
        c = collide (extras (bc_segments cfg)) x y) \<and>
     length (br_files r) + length (br_manifests r) + length (br_collisions r) =
       length (applied_entries list_dir walk validate cfg)"
proof -
  note built = build_files [OF assms]
  have "em_entry y \<in> set (br_files r) \<or>
      (\<exists>x. overrides (applied_files list_dir walk validate cfg) x y \<and>
         collide (extras (bc_segments cfg)) x y \<in> set (br_collisions r))"
    if "y \<in> set (applied_files list_dir walk validate cfg)" for y
    using kept_or_overridden [OF that] built by blast
  with built show ?thesis by blast
qed

text \<open>C34: every collision of a build is an entry overriding the one last taken for its target, with the reason
  the code gives; the winner's source stands after the loser's in the list of sources, which may hold
  several of one layer, or it is the same source and the winner's directory is of no lower rank.\<close>

theorem collisions_follow_the_order:
  assumes "build list_dir walk validate cfg = Inr r" and "c \<in> set (br_collisions r)"
  shows "\<exists>x y. c = collide (extras (bc_segments cfg)) x y \<and>
     overrides (applied_files list_dir walk validate cfg) x y \<and>
     applied_no_later walk validate (applied_layers list_dir cfg) y x"
proof -
  obtain x y where xy: "c = collide (extras (bc_segments cfg)) x y"
    "overrides (applied_files list_dir walk validate cfg) x y"
    using build_files [OF assms(1)] assms(2) by blast
  have "sorted_wrt (applied_no_later walk validate (applied_layers list_dir cfg)) (applied_files list_dir walk validate cfg)"
    unfolding applied_files_def by (rule sorted_wrt_filter) (rule applied_in_order)
  then have "applied_no_later walk validate (applied_layers list_dir cfg) y x"
    using xy(2) by (auto simp: overrides_def sorted_wrt_append)
  with xy show ?thesis by blast
qed

section \<open>Refusals\<close>

text \<open>The malformed names of a layer, by the tree that is reported.\<close>

definition malformed :: "(path \<Rightarrow> (string \<times> bool) list) \<Rightarrow> build_config \<Rightarrow> layer_source \<Rightarrow> (path \<times> string) list" where
  "malformed listing cfg source =
     map (Pair (origin_root source))
       (filter (\<lambda>n. \<not> well_formed (selector_of (bc_segments cfg) (bc_projects cfg)) n)
         (project_names (listing (ls_source_root source))))"

lemma match_directories_errors:
  assumes "list_dir root = Inr es"
  shows "\<exists>ms errs. match_directories list_dir root projects ss = Inr (ms, errs) \<and>
     map ge_name errs = filter (\<lambda>n. \<not> well_formed (selector_of ss projects) n) (project_names es)"
  using assms errors_of_selection [of "selector_of ss projects" "project_names es"]
  by (simp add: match_directories_def split_beta)

lemma select_layers_errors:
  assumes "\<forall>s \<in> set sources. list_dir (ls_source_root s) = Inr (listing (ls_source_root s))"
  shows "\<exists>mss refused. select_layers list_dir (bc_projects cfg) (bc_segments cfg) sources = Inr (mss, refused) \<and>
     map (\<lambda>(p, e). (p, ge_name e)) refused = concat (map (malformed listing cfg) sources)"
  using assms
proof (induction sources)
  case (Cons s sources)
  obtain ms errs where m: "match_directories list_dir (ls_source_root s) (bc_projects cfg) (bc_segments cfg) = Inr (ms, errs)"
    "map ge_name errs = filter (\<lambda>n. \<not> well_formed (selector_of (bc_segments cfg) (bc_projects cfg)) n)
       (project_names (listing (ls_source_root s)))"
    using match_directories_errors Cons.prems by (metis list.set_intros(1))
  obtain mss refused where rest: "select_layers list_dir (bc_projects cfg) (bc_segments cfg) sources = Inr (mss, refused)"
    "map (\<lambda>(p, e). (p, ge_name e)) refused = concat (map (malformed listing cfg) sources)"
    using Cons.IH Cons.prems by (meson list.set_intros(2))
  have "map (\<lambda>(p, e). (p, ge_name e)) (map (Pair (origin_root s)) errs) = map (Pair (origin_root s)) (map ge_name errs)"
    by simp
  also have "\<dots> = malformed listing cfg s" by (simp only: m(2) malformed_def)
  finally show ?case using rest(2) by (simp add: m(1) rest(1))
qed simp

text \<open>When every layer can be listed and one holds a malformed directory name, the build is refused with every
  malformed name of every layer, in layer order, whatever the walk and the manifests would have said: no
  file is read.\<close>

theorem malformed_names_refuse_the_build:
  assumes "\<forall>s \<in> set (config_sources cfg). list_dir (ls_source_root s) = Inr (listing (ls_source_root s))"
    and "concat (map (malformed listing cfg) (config_sources cfg)) \<noteq> []"
  shows "\<exists>refused. (\<lambda>walk validate. build list_dir walk validate cfg) = (\<lambda>walk validate. Inl (Refused refused)) \<and>
     map (\<lambda>(p, e). (p, ge_name e)) refused = concat (map (malformed listing cfg) (config_sources cfg))"
proof -
  obtain mss refused where
    "select_layers list_dir (bc_projects cfg) (bc_segments cfg) (config_sources cfg) = Inr (mss, refused)"
    "map (\<lambda>(p, e). (p, ge_name e)) refused = concat (map (malformed listing cfg) (config_sources cfg))"
    using select_layers_errors [OF assms(1)] by blast
  moreover from this assms(2) have "refused \<noteq> []" by auto
  ultimately show ?thesis by (intro exI [of _ refused]) (simp add: build_def select_directories_def)
qed

section \<open>The listing order\<close>

definition same_listing :: "read_dir \<Rightarrow> read_dir \<Rightarrow> bool" where
  "same_listing l l' \<longleftrightarrow>
     (\<forall>p. case l p of Inl e \<Rightarrow> l' p = Inl e | Inr es \<Rightarrow> (\<exists>es'. l' p = Inr es' \<and> mset es' = mset es))"

lemma same_listing_matches:
  assumes "same_listing l l'" "match_directories l root projects ss = Inr (ms, errs)"
  shows "\<exists>errs'. match_directories l' root projects ss = Inr (ms, errs') \<and> (errs' = [] \<longleftrightarrow> errs = [])"
proof -
  obtain es where es: "l root = Inr es" using assms(2) by (auto simp: match_directories_def split: sum.splits)
  then obtain es' where es': "l' root = Inr es'" "mset es' = mset es"
    using assms(1) by (auto simp: same_listing_def dest!: spec [of _ root] split: sum.splits)
  have names: "mset (project_names es') = mset (project_names es)"
    by (simp add: project_names_def es'(2))
  let ?s = "selector_of ss projects"
  have "fst (select_names ?s (project_names es')) = fst (select_names ?s (project_names es))"
    using names unfolding select_names_eq by (intro sort_key_of_one_mset [OF _ order_key_inj]) simp
  moreover have "snd (select_names ?s (project_names es')) = [] \<longleftrightarrow> snd (select_names ?s (project_names es)) = []"
    using errors_of_selection [of ?s "project_names es"] errors_of_selection [of ?s "project_names es'"]
      mset_eq_setD [OF names] by (metis (no_types, lifting) filter_empty_conv map_is_Nil_conv)
  ultimately show ?thesis using assms(2) by (auto simp: match_directories_def es es' split_beta)
qed

lemma same_listing_layers:
  assumes "same_listing l l'" "select_layers l projects ss sources = Inr (mss, refused)"
  shows "\<exists>refused'. select_layers l' projects ss sources = Inr (mss, refused') \<and> (refused' = [] \<longleftrightarrow> refused = [])"
  using assms(2)
proof (induction sources arbitrary: mss refused)
  case (Cons s sources)
  obtain ms errs mss1 refused1 where one: "match_directories l (ls_source_root s) projects ss = Inr (ms, errs)"
    and rest: "select_layers l projects ss sources = Inr (mss1, refused1)"
    and eq: "mss = ms # mss1" "refused = map (Pair (origin_root s)) errs @ refused1"
    using Cons.prems by (auto split: sum.splits prod.splits)
  obtain errs' where one': "match_directories l' (ls_source_root s) projects ss = Inr (ms, errs')" "errs' = [] \<longleftrightarrow> errs = []"
    using same_listing_matches [OF assms(1) one] by blast
  obtain refused1' where rest': "select_layers l' projects ss sources = Inr (mss1, refused1')" "refused1' = [] \<longleftrightarrow> refused1 = []"
    using Cons.IH [OF rest] by blast
  show ?case by (simp add: eq one' rest')
qed simp

text \<open>A build that succeeds does not depend on the order in which its directories were listed.\<close>

theorem build_ignores_the_listing_order:
  assumes "same_listing l l'" "build l walk validate cfg = Inr r"
  shows "build l' walk validate cfg = Inr r"
proof -
  obtain mss where sel: "select_directories l cfg (config_sources cfg) = Inr mss"
    using assms(2) by (auto simp: build_def split: sum.splits)
  then obtain refused where "select_layers l (bc_projects cfg) (bc_segments cfg) (config_sources cfg) = Inr (mss, refused)"
    "refused = []"
    by (auto simp: select_directories_def split: sum.splits prod.splits if_splits)
  then have "select_directories l' cfg (config_sources cfg) = Inr mss"
    using same_listing_layers [OF assms(1), of "bc_projects cfg" "bc_segments cfg" "config_sources cfg" mss refused]
    by (auto simp: select_directories_def)
  then show ?thesis using assms(2) sel by (simp add: build_def)
qed

section \<open>Targets and counts\<close>

lemma is_manifest_resolves: "is_manifest e \<longleftrightarrow> fe_operations e = [''manifest.resolve'']"
  by (simp add: is_manifest_def manifest_resolve_operation_def)

lemma pipeline_resolves:
  "''manifest.resolve'' \<in> set (snd (processing_pipeline name)) \<longleftrightarrow> snd (processing_pipeline name) = [''manifest.resolve'']"
  by (auto simp: processing_pipeline_def manifest_resolve_operation_def Let_def)

lemma entry_at_pipeline:
  assumes "file_entry_at validate m source origin rel = Inr e"
  shows "fe_operations e = snd (processing_pipeline (last rel))"
  using assms by (auto simp: file_entry_at_def Let_def split: prod.splits if_splits option.splits)

lemma walked_pipeline:
  assumes "walk_entries validate m source evs = Inr es" "e \<in> set es"
  shows "\<exists>name. fe_operations e = snd (processing_pipeline name)"
  using assms
  by (induction evs arbitrary: es)
    (auto split: option.splits if_splits sum.splits, blast dest: entry_at_pipeline)

lemma applied_pipeline:
  assumes "x \<in> set (applied_entries list_dir walk validate cfg)"
  shows "\<exists>name. fe_operations (em_entry x) = snd (processing_pipeline name)"
proof -
  obtain source m where x: "x \<in> set (entries_of walk validate source m)"
    using assms by (auto simp: applied_entries_def layer_entries_def)
  then obtain es where es: "walk_directory walk validate m source = Inr es"
    by (cases "walk_directory walk validate m source") (auto simp: entries_of_def)
  then obtain e where "e \<in> set es" "x = meta_of source m e" using x by (auto simp: entries_of_def)
  then show ?thesis using walked_pipeline [OF es [unfolded walk_directory_def]] by (simp add: meta_of_def)
qed

text \<open>
  \<open>PackagesCount\<close> is documented as the number of packages-manifest entries. A manifest's whole pipeline is
  \<open>manifest.resolve\<close>, so the build keeps it out of the files the count looks through: the count is always zero.
\<close>

theorem packages_are_never_counted:
  assumes "build list_dir walk validate cfg = Inr r"
  shows "packages_count r = 0"
proof -
  have "\<not> has_action (fe_operations f) ''manifest.resolve''" if "f \<in> set (br_files r)" for f
  proof -
    note mem = that
    obtain x where last: "last_with (applied_files list_dir walk validate cfg) x" "f = em_entry x"
      using build_files [OF assms, of f] mem by blast
    then have x: "x \<in> set (applied_files list_dir walk validate cfg)" "f = em_entry x" by (auto simp: last_with_def)
    then obtain name where "fe_operations f = snd (processing_pipeline name)" "\<not> is_manifest f"
      using applied_pipeline by (force simp: applied_files_def)
    then show ?thesis using pipeline_resolves by (auto simp: has_action_def is_manifest_resolves)
  qed
  then show ?thesis by (simp add: packages_count_def count_with_def filter_empty_conv)
qed

lemma sops_parent: "processing_pipeline name = (''..'', p) \<Longrightarrow> name \<noteq> ''..'' \<Longrightarrow>
    name \<in> {''...sops'', ''...tmpl'', ''...tmpl.sops''}"
  by (auto simp: processing_pipeline_def Let_def trim_suffix_def has_suffix_iff packages_manifest_files_def split: if_splits)

lemma dotted_pipelines:
  "fst (processing_pipeline ''...sops'') = ''..''" "fst (processing_pipeline ''...tmpl'') = ''..''"
  "fst (processing_pipeline ''...tmpl.sops'') = ''..''"
  by code_simp+

text \<open>C35: A walked file's target lies under the target root, except exactly for a file at the top of a selected directory
  whose name is two dots once its processing suffixes are gone: its target is the parent of the root.\<close>

theorem targets_stay_under_the_root:
  assumes "file_entry_at validate m source origin rel = Inr e" "rel \<noteq> []" "last rel \<noteq> ''..''"
    and "ls_target_root source \<noteq> []"
  shows "(if rel \<in> {[''...sops''], [''...tmpl''], [''...tmpl.sops'']} then fe_target e = butlast (ls_target_root source)
          else prefix (ls_target_root source) (fe_target e))"
proof -
  let ?name = "fst (processing_pipeline (last rel))" and ?root = "ls_target_root source"
  have target: "fe_target e = (if butlast rel \<noteq> [] then ?root @ enter (butlast rel) ?name else enter ?root ?name)"
    using assms(1) by (auto simp: file_entry_at_def Let_def split: prod.splits if_splits option.splits)
  have rel: "rel = butlast rel @ [last rel]" using assms(2) by simp
  show ?thesis
  proof (cases "butlast rel = []")
    case False
    then have "rel \<notin> {[''...sops''], [''...tmpl''], [''...tmpl.sops'']}" by auto
    then show ?thesis using False by (simp add: target)
  next
    case True
    then have one: "rel = [last rel]" using rel by simp
    show ?thesis
    proof (cases "?name = ''..''")
      case True
      then have "last rel \<in> {''...sops'', ''...tmpl'', ''...tmpl.sops''}"
        using sops_parent [of "last rel"] assms(3) by (metis prod.collapse)
      then show ?thesis using True one \<open>butlast rel = []\<close> by (subst (1) one) (auto simp: target enter_def)
    next
      case False
      then have "rel \<notin> {[''...sops''], [''...tmpl''], [''...tmpl.sops'']}" using dotted_pipelines by auto
      then show ?thesis using False \<open>butlast rel = []\<close> by (simp add: target enter_def)
    qed
  qed
qed

section \<open>A build\<close>

text \<open>Two layers of one project on the Ubuntu machine; both hold a shell profile, and one a template beside it.\<close>

definition demo_segments :: segments where
  "demo_segments = detect_segments demo_host"

definition demo_sources :: "layer_source list" where
  "demo_sources =
     [\<lparr>ls_layer = ''base'', ls_source_root = [''base''], ls_origin_root = None, ls_target_root = [''home'', ''u''],
       ls_target_name = ''Home''\<rparr>,
      \<lparr>ls_layer = ''team'', ls_source_root = [''pin''], ls_origin_root = Some [''team''], ls_target_root = [''home'', ''u''],
       ls_target_name = ''Home''\<rparr>]"

definition demo_config :: build_config where
  "demo_config =
     \<lparr>bc_source_root = [], bc_target_root = [''home'', ''u''], bc_sources = demo_sources,
      bc_projects = [''common''], bc_segments = demo_segments\<rparr>"

definition demo_listing :: "path \<Rightarrow> (string \<times> bool) list" where
  "demo_listing p =
     (if p = [''base''] then [(''common.Ubuntu'', True), (''.git'', True), (''common'', True), (''README'', False)]
      else [(''common'', True)])"

definition demo_file :: "path \<Rightarrow> walk_event" where
  "demo_file rel = \<lparr>we_rel = rel, we_dir = False, we_err = None\<rparr>"

definition demo_walk :: walk where
  "demo_walk p =
     \<lparr>we_rel = [], we_dir = True, we_err = None\<rparr> #
     (if p = [''base'', ''common''] then map demo_file [[''.profile''], [''packages-manifest.yaml'']]
      else if p = [''base'', ''common.Ubuntu''] then map demo_file [[''.profile''], [''.profile.tmpl'']]
      else map demo_file [[''.profile.sops''], [''...tmpl'']])"

definition demo_built :: "(build_error, build_result) result" where
  "demo_built = build (\<lambda>p. Inr (demo_listing p)) demo_walk (\<lambda>p. None) demo_config"

definition demo_result :: build_result where
  "demo_result = (case demo_built of Inr r \<Rightarrow> r | Inl e \<Rightarrow> fresh_result demo_config)"

lemma demo_builds: "build (\<lambda>p. Inr (demo_listing p)) demo_walk (\<lambda>p. None) demo_config = Inr demo_result"
proof -
  have "\<not> isl demo_built" by code_simp
  then show ?thesis by (cases demo_built) (auto simp: demo_result_def demo_built_def)
qed

lemma demo_outcome:
  "map (\<lambda>f. (fe_id f, fe_source f)) (br_files demo_result) =
     [(''..'', [''pin'', ''common'', ''...tmpl'']), (''.profile'', [''pin'', ''common'', ''.profile.sops''])]"
  "map (\<lambda>c. (co_loser c, co_reason c)) (br_collisions demo_result) =
     [([''base'', ''common'', ''.profile''], ''a more specific OS word''),
      ([''base'', ''common.Ubuntu'', ''.profile''], ''applied later''),
      ([''base'', ''common.Ubuntu'', ''.profile.tmpl''], ''a later layer'')]"
  "map fe_target (br_files demo_result) = [[''home''], [''home'', ''u'', ''.profile'']]"
  by code_simp+

theorem build_takes_the_last_applied_witness:
  "\<exists>x. last_with (applied_files (\<lambda>p. Inr (demo_listing p)) demo_walk (\<lambda>p. None) demo_config) x \<and>
     em_entry x = br_files demo_result ! 1"
proof -
  have "length (br_files demo_result) = 2" using arg_cong [OF demo_outcome(1), of length] by simp
  then have "br_files demo_result ! 1 \<in> set (br_files demo_result)" by simp
  then show ?thesis
    using build_takes_the_last_applied [OF demo_builds, of "br_files demo_result ! 1"] by auto
qed

theorem collisions_follow_the_order_witness:
  "\<exists>x y. br_collisions demo_result ! 2 = collide (extras demo_segments) x y \<and>
     applied_no_later demo_walk (\<lambda>p. None) (applied_layers (\<lambda>p. Inr (demo_listing p)) demo_config) y x"
proof -
  have "length (br_collisions demo_result) = 3" using arg_cong [OF demo_outcome(2), of length] by simp
  then have "br_collisions demo_result ! 2 \<in> set (br_collisions demo_result)" by simp
  from collisions_follow_the_order [OF demo_builds this]
  show ?thesis by (auto simp: demo_config_def)
qed

definition demo_bad_listing :: "path \<Rightarrow> (string \<times> bool) list" where
  "demo_bad_listing p = [(''common.Unbuntu'', True)]"

theorem malformed_names_refuse_the_build_witness:
  "\<exists>refused. build (\<lambda>p. Inr (demo_bad_listing p)) demo_walk (\<lambda>p. None) demo_config = Inl (Refused refused) \<and>
     map (\<lambda>(p, e). (p, ge_name e)) refused = [([''base''], ''common.Unbuntu''), ([''team''], ''common.Unbuntu'')]"
proof -
  have bad: "concat (map (malformed demo_bad_listing demo_config) (config_sources demo_config)) =
      [([''base''], ''common.Unbuntu''), ([''team''], ''common.Unbuntu'')]"
    by code_simp
  obtain refused where all: "(\<lambda>walk validate. build (\<lambda>p. Inr (demo_bad_listing p)) walk validate demo_config) =
      (\<lambda>walk validate. Inl (Refused refused))"
    and names: "map (\<lambda>(p, e). (p, ge_name e)) refused =
      concat (map (malformed demo_bad_listing demo_config) (config_sources demo_config))"
    using malformed_names_refuse_the_build
      [of demo_config "\<lambda>p. Inr (demo_bad_listing p)" demo_bad_listing] bad by auto
  have "build (\<lambda>p. Inr (demo_bad_listing p)) demo_walk (\<lambda>p. None) demo_config = Inl (Refused refused)"
    by (rule fun_cong [OF fun_cong [OF all]])
  then show ?thesis using names bad by metis
qed

definition demo_dotted :: "(gerror, file_entry) result" where
  "demo_dotted =
     file_entry_at (\<lambda>p. None) \<lparr>mr_path = [''base'', ''common''], mr_project = ''common'', mr_rank = first_rank (selector_of [] [])\<rparr>
       (hd demo_sources) [''base''] [''...tmpl'']"

theorem targets_stay_under_the_root_witness:
  "\<exists>e. demo_dotted = Inr e \<and> fe_target e = [''home'']"
proof -
  have "\<not> isl demo_dotted" by code_simp
  then obtain e where e: "demo_dotted = Inr e" by (metis isl_def sum.exhaust)
  show ?thesis
    using targets_stay_under_the_root [OF e [unfolded demo_dotted_def]] e by (auto simp: demo_sources_def)
qed

theorem packages_are_never_counted_witness: "packages_count demo_result = 0 \<and> length (br_manifests demo_result) = 1"
proof -
  have "length (br_manifests demo_result) = 1" by code_simp
  then show ?thesis using packages_are_never_counted [OF demo_builds] by simp
qed

end
