(* ===== verification/Lifetimes.thy ===== *)
theory Lifetimes
  imports Errors Selector
begin

text \<open>
  The lifetimes of writ's deployments, \<open>cmd/internal/cli/lifetime.go\<close>: one document per deploy and the name of the
  current one. A stored document is the value \<open>yaml.Unmarshal\<close> gives back for what \<open>yaml.Marshal\<close> wrote. Every call of the
  store that can fail asks the argument \<open>faults\<close>; a document is replaced through a temporary file and a
  rename, so a failure leaves the one before it. A time is a number, zero when unset.
\<close>

section \<open>Documents\<close>

definition lifetime_current :: string where "lifetime_current = ''current''"
definition lifetime_replaced :: string where "lifetime_replaced = ''replaced''"
definition lifetime_ended :: string where "lifetime_ended = ''ended''"

lemmas lifetime_states = lifetime_current_def lifetime_replaced_def lifetime_ended_def

record lifetime_run =
  lr_at :: int
  lr_operation :: string
  lr_graph_checksum :: string
  lr_trace_file :: string

record lifetime =
  lt_id :: string
  lt_opened :: int
  lt_closed :: int
  lt_state :: string
  lt_runs :: "lifetime_run list"

record store =
  st_documents :: "(string \<times> lifetime) list"
  st_current :: "string option"

datatype store_call =
    OpenStore
  | MakeLifetimes
  | ReadCurrent
  | ReadLifetime string
  | SaveLifetime string
  | PlaceCurrent

type_synonym store_faults = "store_call \<Rightarrow> gerror option"

definition new_lifetime :: "int \<Rightarrow> string \<Rightarrow> lifetime" where
  "new_lifetime now uuid =
     \<lparr>lt_id = uuid, lt_opened = now, lt_closed = 0, lt_state = lifetime_current, lt_runs = []\<rparr>"

definition load_lifetime :: "store_faults \<Rightarrow> string \<Rightarrow> store \<Rightarrow> (gerror, lifetime) result" where
  "load_lifetime faults i st =
     (case faults (ReadLifetime i) of
        Some e \<Rightarrow> Inl e
      | None \<Rightarrow> (case alookup (st_documents st) i of None \<Rightarrow> Inl ErrNotExist | Some l \<Rightarrow> Inr l))"

definition current_lifetime :: "store_faults \<Rightarrow> store \<Rightarrow> (gerror, lifetime) result" where
  "current_lifetime faults st =
     (case faults ReadCurrent of
        Some e \<Rightarrow> Inl e
      | None \<Rightarrow>
          (case st_current st of
             None \<Rightarrow> Inl ErrNotExist
           | Some text \<Rightarrow> load_lifetime faults (trim_space text) st))"

definition require_current_lifetime :: "store_faults \<Rightarrow> string \<Rightarrow> store \<Rightarrow> (gerror, lifetime) result" where
  "require_current_lifetime faults operation st =
     (case current_lifetime faults st of
        Inr l \<Rightarrow> Inr l
      | Inl e \<Rightarrow>
          Inl (if err_is ErrNotExist e then
                 ENew (operation @ '': no current deployment to write into: nothing has been deployed, or it was decommissioned'')
               else e))"

section \<open>Recording a run\<close>

definition save_lifetime :: "store_faults \<Rightarrow> lifetime \<Rightarrow> store \<Rightarrow> store \<times> gerror option" where
  "save_lifetime faults l st =
     (case faults (SaveLifetime (lt_id l)) of
        Some e \<Rightarrow> (st, Some e)
      | None \<Rightarrow> (st\<lparr>st_documents := aput (lt_id l) l (st_documents st)\<rparr>, None))"

definition replace_previous :: "store_faults \<Rightarrow> int \<Rightarrow> lifetime \<Rightarrow> store \<Rightarrow> store \<times> gerror option" where
  "replace_previous faults now l st =
     (if length (lt_runs l) \<noteq> 1 then (st, None)
      else (case current_lifetime faults st of
              Inl e \<Rightarrow> (st, if err_is ErrNotExist e then None else Some e)
            | Inr previous \<Rightarrow>
                if lt_id previous = lt_id l \<or> lt_state previous \<noteq> lifetime_current then (st, None)
                else save_lifetime faults (previous\<lparr>lt_state := lifetime_replaced, lt_closed := now\<rparr>) st))"

definition place_current :: "store_faults \<Rightarrow> lifetime \<Rightarrow> store \<Rightarrow> store \<times> gerror option" where
  "place_current faults l st =
     (case faults PlaceCurrent of
        Some e \<Rightarrow> (st, Some e)
      | None \<Rightarrow> (st\<lparr>st_current := Some (lt_id l @ [CHR 0x0A])\<rparr>, None))"

text \<open>\<open>AppendRun\<close> changes the lifetime it is given, also when the store then fails.\<close>

definition append_run ::
  "store_faults \<Rightarrow> int \<Rightarrow> lifetime \<Rightarrow> lifetime_run \<Rightarrow> store \<Rightarrow> lifetime \<times> store \<times> gerror option"
where
  "append_run faults now l run st =
     (if lt_state l \<noteq> lifetime_current then
        (l, st, Some (ENew (''lifetime '' @ lt_id l @ '' is '' @ lt_state l @ '': it no longer records runs'')))
      else
        let l' = l\<lparr>lt_runs := lt_runs l @ [if lr_at run = 0 then run\<lparr>lr_at := now\<rparr> else run]\<rparr> in
        (case faults OpenStore of
           Some e \<Rightarrow> (l', st, Some e)
         | None \<Rightarrow>
             (case faults MakeLifetimes of
                Some e \<Rightarrow> (l', st, Some (wrapf ''create lifetimes directory: '' e))
              | None \<Rightarrow>
                  (case replace_previous faults now l' st of
                     (st1, Some e) \<Rightarrow> (l', st1, Some e)
                   | (st1, None) \<Rightarrow>
                       (case save_lifetime faults l' st1 of
                          (st2, Some e) \<Rightarrow> (l', st2, Some e)
                        | (st2, None) \<Rightarrow>
                            (case place_current faults l' st2 of (st3, e) \<Rightarrow> (l', st3, e)))))))"

text \<open>\<open>WriteLifetimeTrace\<close>; \<open>written\<close> is what \<open>WriteTrace\<close> returned, the trace's file name or its error.\<close>

definition write_lifetime_trace ::
  "store_faults \<Rightarrow> int \<Rightarrow> lifetime \<Rightarrow> string \<Rightarrow> string \<Rightarrow> (gerror, string) result \<Rightarrow> store \<Rightarrow>
     lifetime \<times> store \<times> gerror option"
where
  "write_lifetime_trace faults now l operation checksum written st =
     (case written of
        Inl e \<Rightarrow> (l, st, Some e)
      | Inr file \<Rightarrow>
          (case append_run faults now l
                  \<lparr>lr_at = 0, lr_operation = operation, lr_graph_checksum = checksum, lr_trace_file = file\<rparr> st of
             (l', st', e) \<Rightarrow>
               (l', st', map_option (wrapf (''record '' @ operation @ '' run on lifetime '' @ lt_id l @ '': '')) e)))"

section \<open>Histories\<close>

text \<open>
  The store's history: a deploy mints a lifetime with a fresh id and records its scopes' runs on it; upgrade,
  reconcile, adopt and decommission load the current one and record theirs. The runs of one invocation are
  recorded on one value, each under its own faults.
\<close>

fun record_runs ::
  "(store_faults \<times> int \<times> lifetime_run) list \<Rightarrow> lifetime \<Rightarrow> store \<Rightarrow> lifetime \<times> store"
where
  "record_runs [] l st = (l, st)"
| "record_runs ((faults, now, run) # runs) l st =
     (case append_run faults now l run st of (l', st', e) \<Rightarrow> record_runs runs l' st')"

inductive store_step :: "store_faults set \<Rightarrow> store \<Rightarrow> store \<Rightarrow> bool" for F where
  deploy: "\<lbrakk>alookup (st_documents st) uuid = None; trim_space (uuid @ [CHR 0x0A]) = uuid; fst ` set runs \<subseteq> F;
            record_runs runs (new_lifetime now uuid) st = (l, st')\<rbrakk> \<Longrightarrow> store_step F st st'"
| write_into: "\<lbrakk>require_current_lifetime faults operation st = Inr l; fst ` set runs \<subseteq> F; faults \<in> F;
            record_runs runs l st = (l', st')\<rbrakk> \<Longrightarrow> store_step F st st'"

definition empty_store :: store where
  "empty_store = \<lparr>st_documents = [], st_current = None\<rparr>"

definition no_faults :: store_faults where
  "no_faults c = None"

section \<open>What the store keeps\<close>

definition proper :: "lifetime \<Rightarrow> bool" where
  "proper l \<longleftrightarrow> trim_space (lt_id l @ [CHR 0x0A]) = lt_id l \<and> lt_state l \<in> {lifetime_current, lifetime_replaced}"

definition documented :: "store \<Rightarrow> bool" where
  "documented st \<longleftrightarrow>
     (\<forall>i l. alookup (st_documents st) i = Some l \<longrightarrow> lt_id l = i \<and> proper l) \<and>
     (\<forall>t. st_current st = Some t \<longrightarrow> (\<exists>l. alookup (st_documents st) (trim_space t) = Some l))"

lemma current_lifetime_Inr:
  "current_lifetime faults st = Inr l \<Longrightarrow>
     \<exists>t. st_current st = Some t \<and> alookup (st_documents st) (trim_space t) = Some l"
  by (auto simp: current_lifetime_def load_lifetime_def split: option.splits)

lemma current_lifetime_calm:
  "current_lifetime no_faults st = Inr l \<longleftrightarrow>
     (\<exists>t. st_current st = Some t \<and> alookup (st_documents st) (trim_space t) = Some l)"
  by (auto simp: current_lifetime_def load_lifetime_def no_faults_def split: option.splits)

lemma save_keeps:
  assumes "documented st" "proper l" "save_lifetime faults l st = (st', e)"
  shows "documented st' \<and> st_current st' = st_current st"
  using assms by (auto simp: save_lifetime_def documented_def split: option.splits if_splits)

lemma replace_keeps:
  assumes "documented st" "replace_previous faults now l st = (st', e)"
  shows "documented st' \<and> st_current st' = st_current st \<and>
     (\<forall>i k. alookup (st_documents st) i = Some k \<longrightarrow> (\<exists>k'. alookup (st_documents st') i = Some k' \<and> lt_runs k' = lt_runs k)) \<and>
     (\<forall>i k'. alookup (st_documents st') i = Some k' \<longrightarrow> (\<exists>k. alookup (st_documents st) i = Some k \<and> lt_runs k = lt_runs k'))"
proof (cases "st' = st")
  case True then show ?thesis using assms by auto
next
  case False
  obtain p where p: "current_lifetime faults st = Inr p"
    and save: "save_lifetime faults (p\<lparr>lt_state := lifetime_replaced, lt_closed := now\<rparr>) st = (st', e)"
    using False assms(2) by (auto simp: replace_previous_def split: if_splits sum.splits)
  obtain t where "alookup (st_documents st) (trim_space t) = Some p" using current_lifetime_Inr [OF p] by blast
  then have pp: "proper p" "alookup (st_documents st) (lt_id p) = Some p"
    using assms(1) by (auto simp: documented_def)
  have "documented st' \<and> st_current st' = st_current st"
    by (rule save_keeps [OF assms(1) _ save]) (use pp in \<open>auto simp: proper_def\<close>)
  moreover have "st' = st\<lparr>st_documents := aput (lt_id p) (p\<lparr>lt_state := lifetime_replaced, lt_closed := now\<rparr>) (st_documents st)\<rparr>"
    using save False by (auto simp: save_lifetime_def split: option.splits)
  ultimately show ?thesis using pp by auto
qed

lemma place_keeps:
  assumes "documented st" "proper l" "place_current faults l st = (st', e)"
  shows "st_documents st' = st_documents st"
    and "alookup (st_documents st) (lt_id l) = Some l \<Longrightarrow> documented st'"
    and "e \<noteq> None \<Longrightarrow> st_current st' = st_current st"
    and "alookup (st_documents st) (lt_id l) = Some l \<Longrightarrow> e = None \<Longrightarrow> current_lifetime no_faults st' = Inr l"
proof -
  have trim: "trim_space (lt_id l @ [CHR 0x0A]) = lt_id l" using assms(2) by (simp add: proper_def)
  have two: "(st' = st\<lparr>st_current := Some (lt_id l @ [CHR 0x0A])\<rparr> \<and> e = None) \<or> (st' = st \<and> e \<noteq> None)"
    using assms(3) by (auto simp: place_current_def split: option.splits)
  then show "st_documents st' = st_documents st" "e \<noteq> None \<Longrightarrow> st_current st' = st_current st" by auto
  assume here: "alookup (st_documents st) (lt_id l) = Some l"
  show "documented st'" using two
  proof
    assume "st' = st\<lparr>st_current := Some (lt_id l @ [CHR 0x0A])\<rparr> \<and> e = None"
    then have st': "st_documents st' = st_documents st" "st_current st' = Some (lt_id l @ [CHR 0x0A])" by simp_all
    have "\<exists>k. alookup (st_documents st) (trim_space t) = Some k" if "st_current st' = Some t" for t
      using that st'(2) here trim by auto
    then show ?thesis using assms(1) unfolding documented_def st'(1) by blast
  next
    assume "st' = st \<and> e \<noteq> None"
    then show ?thesis using assms(1) by simp
  qed
  assume "e = None"
  with two have "st' = st\<lparr>st_current := Some (lt_id l @ [CHR 0x0A])\<rparr>" by simp
  then show "current_lifetime no_faults st' = Inr l" using here trim by (simp add: current_lifetime_calm)
qed

text \<open>A run is stamped with the time when it has none.\<close>

definition stamped_run :: "int \<Rightarrow> lifetime_run \<Rightarrow> lifetime_run" where
  "stamped_run now run = (if lr_at run = 0 then run\<lparr>lr_at := now\<rparr> else run)"

lemma append_run_keeps:
  assumes ok: "documented st" "proper l" and run: "append_run faults now l run st = (l', st', e)"
  shows "documented st' \<and> proper l' \<and> lt_id l' = lt_id l \<and> lt_state l' = lt_state l \<and>
    (\<forall>i k. alookup (st_documents st) i = Some k \<longrightarrow>
       (\<exists>k'. alookup (st_documents st') i = Some k' \<and> (i = lt_id l \<and> k' = l' \<and> lt_runs l' = lt_runs l @ [stamped_run now run] \<or> lt_runs k' = lt_runs k))) \<and>
    (\<forall>i k'. alookup (st_documents st') i = Some k' \<longrightarrow>
       i = lt_id l \<and> k' = l' \<or> (\<exists>k. alookup (st_documents st) i = Some k \<and> lt_runs k = lt_runs k')) \<and>
    lt_runs l' \<in> {lt_runs l, lt_runs l @ [stamped_run now run]} \<and>
    (if e = None then current_lifetime no_faults st' = Inr l' \<and> lt_runs l' = lt_runs l @ [stamped_run now run]
     else st_current st' = st_current st)"
proof -
  let ?l = "l\<lparr>lt_runs := lt_runs l @ [stamped_run now run]\<rparr>"
  have proper: "proper ?l" using ok(2) by (simp add: proper_def)
  show ?thesis
  proof (cases "lt_state l = lifetime_current \<and> faults OpenStore = None \<and> faults MakeLifetimes = None")
    case False
    then have "st' = st" "e \<noteq> None" "l' = l \<or> l' = ?l"
      using run by (cases "faults OpenStore"; cases "faults MakeLifetimes"; auto simp: append_run_def stamped_run_def [symmetric] Let_def split: if_splits)+
    then show ?thesis using ok proper by auto
  next
    case True
    obtain st1 e1 where r: "replace_previous faults now ?l st = (st1, e1)" by (metis surj_pair)
    obtain st2 e2 where s: "save_lifetime faults ?l st1 = (st2, e2)" by (metis surj_pair)
    note one = replace_keeps [OF ok(1) r]
    have two: "documented st2" "st_current st2 = st_current st1" using save_keeps [OF _ proper s] one by auto
    have new: "e2 = None \<Longrightarrow> alookup (st_documents st2) = (alookup (st_documents st1))(lt_id l \<mapsto> ?l)"
      "e2 \<noteq> None \<Longrightarrow> st2 = st1"
      using s by (auto simp: save_lifetime_def split: option.splits)
    consider "e1 \<noteq> None" | "e1 = None" "e2 \<noteq> None" | "e1 = None" "e2 = None" by blast
    then show ?thesis
    proof cases
      case 1
      then have "l' = ?l" "st' = st1" "e = e1" using run True r by (auto simp: append_run_def stamped_run_def [symmetric])
      then show ?thesis using 1 one proper by simp blast
    next
      case 2
      then have "l' = ?l" "st' = st1" "e = e2" using run True r s new by (auto simp: append_run_def stamped_run_def [symmetric])
      then show ?thesis using 2 one proper by simp blast
    next
      case 3
      then have l: "l' = ?l" and place: "place_current faults ?l st2 = (st', e)"
        using run True r s by (auto simp: append_run_def stamped_run_def [symmetric] Let_def split: prod.splits)
      have "\<exists>k'. alookup (st_documents st') i = Some k' \<and> (i = lt_id l \<and> k' = l' \<and> lt_runs l' = lt_runs l @ [stamped_run now run] \<or> lt_runs k' = lt_runs k)"
        if "alookup (st_documents st) i = Some k" for i k
        using one that 3 new(1) l unfolding place_keeps(1) [OF two(1) proper place] by fastforce
      moreover have "i = lt_id l \<and> k' = l' \<or> (\<exists>k. alookup (st_documents st) i = Some k \<and> lt_runs k = lt_runs k')"
        if "alookup (st_documents st') i = Some k'" for i k'
        using one that 3 new(1) l unfolding place_keeps(1) [OF two(1) proper place] by (auto split: if_splits)
      ultimately show ?thesis
        using place_keeps(2-) [OF two(1) proper place] new(1) 3 proper one two l by auto
    qed
  qed
qed

text \<open>The lifetime in hand has not fallen behind the store: what the store holds of its runs, it begins with.\<close>

definition up_to_date :: "lifetime \<Rightarrow> store \<Rightarrow> bool" where
  "up_to_date l st \<longleftrightarrow> (\<forall>k. alookup (st_documents st) (lt_id l) = Some k \<longrightarrow> prefix (lt_runs k) (lt_runs l))"

lemma append_run_up_to_date:
  assumes "documented st" "proper l" "up_to_date l st" "append_run faults now l run st = (l', st', e)"
  shows "documented st' \<and> up_to_date l' st' \<and>
    (\<forall>i k. alookup (st_documents st) i = Some k \<longrightarrow>
       (\<exists>k'. alookup (st_documents st') i = Some k' \<and> prefix (lt_runs k) (lt_runs k') \<and>
          (lt_runs k' = lt_runs k \<or> i = lt_id l \<and> lt_runs k' = lt_runs l @ [stamped_run now run]))) \<and>
    (if e = None then current_lifetime no_faults st' = Inr l' \<and> lt_runs l' = lt_runs l @ [stamped_run now run]
     else st_current st' = st_current st)"
proof -
  note kept = append_run_keeps [OF assms(1,2,4)]
  then have runs: "prefix (lt_runs l) (lt_runs l')" "lt_id l' = lt_id l"
    "lt_runs l' = lt_runs l \<or> lt_runs l' = lt_runs l @ [stamped_run now run]" by auto
  have "\<exists>k'. alookup (st_documents st') i = Some k' \<and> prefix (lt_runs k) (lt_runs k') \<and>
      (lt_runs k' = lt_runs k \<or> i = lt_id l \<and> lt_runs k' = lt_runs l @ [stamped_run now run])"
    if k: "alookup (st_documents st) i = Some k" for i k
  proof -
    from kept k obtain k' where k': "alookup (st_documents st') i = Some k'"
      "i = lt_id l \<and> k' = l' \<and> lt_runs l' = lt_runs l @ [stamped_run now run] \<or> lt_runs k' = lt_runs k" by blast
    show ?thesis
    proof (cases "lt_runs k' = lt_runs k")
      case False
      then have "i = lt_id l" "k' = l'" "lt_runs l' = lt_runs l @ [stamped_run now run]" using k'(2) by auto
      moreover from this have "prefix (lt_runs k) (lt_runs l)" using assms(3) k by (simp add: up_to_date_def)
      ultimately show ?thesis using k'(1) runs False by auto
    qed (use k' in auto)
  qed
  moreover have "up_to_date l' st'"
    using kept assms(3) runs by (fastforce simp: up_to_date_def)
  ultimately show ?thesis using kept by blast
qed

lemma up_to_date_new: "alookup (st_documents st) (lt_id l) = None \<Longrightarrow> up_to_date l st"
  by (simp add: up_to_date_def)

text \<open>C26: whatever call of the store fails, recording a run on a lifetime that is up to date with the store
  (new, just loaded, or extended since by the same invocation) loses nothing that was recorded: every document keeps
  its runs, in their order, and only that lifetime's can grow, at the end; a run recorded without an error makes its lifetime the
  current one, with the runs it had and then the new one, stamped; a failed one leaves the current one
  named as it was. The lifetime in hand is up to date again, so the next run may be recorded on it. Assumed
  of the store and the lifetime, and kept by every operation (store_step_keeps): documents are filed under
  their ids, current names one if anything, and states are current or replaced. One invocation writes at a time: a lifetime another one has extended meanwhile is stored over.\<close>

theorem recording_a_run_loses_nothing:
  assumes "documented st" "proper l" "up_to_date l st" "append_run faults now l run st = (l', st', e)"
  shows "documented st' \<and> up_to_date l' st' \<and>
    (alookup (st_documents st) i = Some k \<longrightarrow>
       (\<exists>k'. alookup (st_documents st') i = Some k' \<and> prefix (lt_runs k) (lt_runs k') \<and>
          (lt_runs k' = lt_runs k \<or> i = lt_id l \<and> lt_runs k' = lt_runs l @ [stamped_run now run]))) \<and>
    (if e = None then current_lifetime no_faults st' = Inr l' \<and> lt_runs l' = lt_runs l @ [stamped_run now run]
     else st_current st' = st_current st)"
  using append_run_up_to_date [OF assms] by blast

lemma record_runs_keeps:
  assumes "documented st" "proper l" "record_runs runs l st = (l', st')"
  shows "documented st' \<and> proper l'"
  using assms
proof (induction runs l st rule: record_runs.induct)
  case (2 faults now run runs l st)
  obtain l1 st1 e where one: "append_run faults now l run st = (l1, st1, e)" by (metis prod_cases3)
  show ?case using 2 append_run_keeps [OF 2(2,3) one] by (auto simp: one)
qed auto

lemma proper_new: "trim_space (uuid @ [CHR 0x0A]) = uuid \<Longrightarrow> proper (new_lifetime now uuid)"
  by (simp add: proper_def new_lifetime_def)

lemma require_current_Inr:
  "require_current_lifetime faults operation st = Inr l \<Longrightarrow> current_lifetime faults st = Inr l"
  by (auto simp: require_current_lifetime_def split: sum.splits)

lemma store_step_keeps:
  assumes "store_step F st st'" "documented st"
  shows "documented st'"
  using assms
proof cases
  case (deploy uuid runs now l)
  then show ?thesis using record_runs_keeps [OF assms(2) proper_new] by blast
next
  case (write_into faults operation l runs l')
  then obtain t where "alookup (st_documents st) (trim_space t) = Some l"
    using current_lifetime_Inr [OF require_current_Inr] by blast
  then have "proper l" using assms(2) by (auto simp: documented_def)
  then show ?thesis using record_runs_keeps assms(2) write_into by blast
qed

text \<open>Along a history, whatever fails, the runs of a lifetime only grow at the end.\<close>

lemma record_runs_grow:
  assumes "documented st" "proper l" "up_to_date l st" "record_runs runs l st = (l', st')"
    and "alookup (st_documents st) i = Some k"
  shows "\<exists>k'. alookup (st_documents st') i = Some k' \<and> prefix (lt_runs k) (lt_runs k')"
  using assms
proof (induction runs l st arbitrary: k rule: record_runs.induct)
  case (2 faults now run runs l st)
  obtain l1 st1 e where one: "append_run faults now l run st = (l1, st1, e)" by (metis prod_cases3)
  note up = append_run_up_to_date [OF 2(2,3,4) one]
  with 2(6) obtain k1 where k1: "alookup (st_documents st1) i = Some k1" "prefix (lt_runs k) (lt_runs k1)" by blast
  have "proper l1" using append_run_keeps [OF 2(2,3) one] by blast
  from 2(1) [OF one [symmetric] refl _ this] up 2(5) k1 one show ?case
    by (auto intro: prefix_order.trans)
qed auto

theorem histories_lose_nothing:
  assumes "store_step F st st'" "documented st" "alookup (st_documents st) i = Some k"
  shows "\<exists>k'. alookup (st_documents st') i = Some k' \<and> prefix (lt_runs k) (lt_runs k')"
  using assms(1)
proof cases
  case (deploy uuid runs now l)
  have "up_to_date (new_lifetime now uuid) st" using deploy by (simp add: up_to_date_def new_lifetime_def)
  then show ?thesis using record_runs_grow [OF assms(2) proper_new] deploy assms(3) by blast
next
  case (write_into faults operation l runs l')
  then obtain t where t: "alookup (st_documents st) (trim_space t) = Some l"
    using current_lifetime_Inr [OF require_current_Inr] by blast
  then have "proper l" "lt_id l = trim_space t" using assms(2) by (auto simp: documented_def)
  moreover from this t have "up_to_date l st" by (simp add: up_to_date_def)
  ultimately show ?thesis using record_runs_grow [OF assms(2)] write_into assms(3) by blast
qed

text \<open>A store that deploys, upgrades, reconciliations, adoptions and decommissions write, with any failures, only
  ever holds current and replaced lifetimes, and what \<open>current\<close> names is a document: no lifetime is ever
  ended, and after a decommission the fold still finds a current one.\<close>

theorem lifetimes_never_end:
  assumes "(store_step UNIV)\<^sup>*\<^sup>* empty_store st"
  shows "lt_state ` ran (alookup (st_documents st)) \<subseteq> {lifetime_current, lifetime_replaced} \<and>
     (st_current st = Some t \<longrightarrow> (\<exists>l. current_lifetime no_faults st = Inr l))"
proof -
  have "documented st"
    using assms
  proof induction
    case base show ?case by (simp add: documented_def empty_store_def)
  next
    case (step st st') then show ?case using store_step_keeps by blast
  qed
  then show ?thesis
    by (auto simp: documented_def proper_def ran_def current_lifetime_calm)
qed

section \<open>One current lifetime\<close>

text \<open>Exactly the document \<open>current\<close> names is in the state current.\<close>

definition settled :: "store \<Rightarrow> bool" where
  "settled st \<longleftrightarrow>
     documented st \<and>
     (\<forall>i l. alookup (st_documents st) i = Some l \<longrightarrow>
        (lt_state l = lifetime_current \<longleftrightarrow> (\<exists>t. st_current st = Some t \<and> trim_space t = i)))"

definition in_hand :: "lifetime \<Rightarrow> store \<Rightarrow> bool" where
  "in_hand l st \<longleftrightarrow>
     proper l \<and> lt_state l = lifetime_current \<and>
     (current_lifetime no_faults st = Inr l \<or> lt_runs l = [] \<and> alookup (st_documents st) (lt_id l) = None)"

lemma states_differ: "lifetime_replaced \<noteq> lifetime_current" by (simp add: lifetime_states)

lemma replace_settles:
  assumes "settled st" "alookup (st_documents st) (lt_id l) = None" "length (lt_runs l) = 1"
    and "replace_previous no_faults now l st = (st', e)"
  shows "e = None \<and> (\<forall>i k. alookup (st_documents st') i = Some k \<longrightarrow> lt_state k \<noteq> lifetime_current)"
proof (cases "st_current st")
  case None
  then have "current_lifetime no_faults st = Inl ErrNotExist"
    by (simp add: current_lifetime_def no_faults_def)
  then show ?thesis using assms None by (auto simp: replace_previous_def settled_def)
next
  case (Some t)
  then obtain p where p: "alookup (st_documents st) (trim_space t) = Some p"
    using assms(1) by (auto simp: settled_def documented_def)
  then have cur: "current_lifetime no_faults st = Inr p" using Some by (auto simp: current_lifetime_calm)
  have id: "lt_id p = trim_space t" "lt_state p = lifetime_current"
    using assms(1) p Some by (auto simp: settled_def documented_def)
  then have "lt_id p \<noteq> lt_id l" using p assms(2) by auto
  then have "st' = st\<lparr>st_documents := aput (lt_id p) (p\<lparr>lt_state := lifetime_replaced, lt_closed := now\<rparr>) (st_documents st)\<rparr>"
    "e = None"
    using assms(3,4) cur id by (auto simp: replace_previous_def save_lifetime_def no_faults_def)
  then show ?thesis using assms(1) Some id states_differ by (auto simp: settled_def)
qed

lemma append_run_settles:
  assumes "settled st" "in_hand l st" "append_run no_faults now l run st = (l', st', e)"
  shows "e = None \<and> settled st' \<and> in_hand l' st'"
proof -
  let ?l = "l\<lparr>lt_runs := lt_runs l @ [stamped_run now run]\<rparr>"
  have l: "proper l" "lt_state l = lifetime_current" using assms(2) by (auto simp: in_hand_def)
  have doc: "documented st" using assms(1) by (simp add: settled_def)
  obtain st1 e1 where r: "replace_previous no_faults now ?l st = (st1, e1)" by (metis surj_pair)
  have others: "e1 = None \<and> (\<forall>i k. alookup (st_documents st1) i = Some k \<and> i \<noteq> lt_id l \<longrightarrow> lt_state k \<noteq> lifetime_current)"
  proof (cases "current_lifetime no_faults st = Inr l")
    case True
    then obtain t where t: "st_current st = Some t" "alookup (st_documents st) (trim_space t) = Some l"
      by (auto simp: current_lifetime_calm)
    then have "trim_space t = lt_id l" using doc by (auto simp: documented_def)
    moreover have "st1 = st" "e1 = None" using r True by (auto simp: replace_previous_def split: if_splits)
    ultimately show ?thesis using assms(1) t by (auto simp: settled_def)
  next
    case False
    then have "lt_runs l = []" "alookup (st_documents st) (lt_id l) = None"
      using assms(2) by (auto simp: in_hand_def)
    then show ?thesis using replace_settles [OF assms(1) _ _ r] by auto
  qed
  have st': "l' = ?l" "e = None"
    "st' = st1\<lparr>st_documents := aput (lt_id l) ?l (st_documents st1), st_current := Some (lt_id l @ [CHR 0x0A])\<rparr>"
    using assms(3) l r others by (auto simp: append_run_def stamped_run_def [symmetric] save_lifetime_def place_current_def no_faults_def Let_def)
  have trim: "trim_space (lt_id l @ [CHR 0x0A]) = lt_id l" using l by (simp add: proper_def)
  have "documented st' \<and> proper l'" "current_lifetime no_faults st' = Inr l'"
    using append_run_keeps [OF doc l(1) assms(3)] st'(2) by auto
  moreover have "settled st'"
    using calculation(1) others l trim by (auto simp: settled_def st'(3) split: if_splits)
  ultimately show ?thesis using st'(1,2) l by (simp add: in_hand_def)
qed

lemma record_runs_settles:
  assumes "settled st" "in_hand l st" "fst ` set runs \<subseteq> {no_faults}" "record_runs runs l st = (l', st')"
  shows "settled st'"
  using assms
proof (induction runs l st rule: record_runs.induct)
  case (2 faults now run runs l st)
  obtain l1 st1 e where one: "append_run no_faults now l run st = (l1, st1, e)" by (metis prod_cases3)
  show ?case using 2 append_run_settles [OF 2(2,3) one] by (auto simp: one)
qed auto

lemma store_step_settles:
  assumes "store_step {no_faults} st st'" "settled st"
  shows "settled st'"
  using assms
proof cases
  case (deploy uuid runs now l)
  have "in_hand (new_lifetime now uuid) st"
    using deploy proper_new by (simp add: in_hand_def) (simp add: new_lifetime_def)
  then show ?thesis using record_runs_settles assms(2) deploy by blast
next
  case (write_into faults operation l runs l')
  then have cur: "current_lifetime no_faults st = Inr l" using require_current_Inr by blast
  then obtain t where "st_current st = Some t" "alookup (st_documents st) (trim_space t) = Some l"
    using current_lifetime_Inr by blast
  then have "in_hand l st" using cur assms(2) by (auto simp: in_hand_def settled_def documented_def)
  then show ?thesis using record_runs_settles assms(2) write_into by blast
qed

text \<open>C27: While the store's calls succeed, at most one lifetime is in the state current, and it is the one \<open>current\<close>
  names: a deploy's first run replaces the one before it.\<close>

theorem one_lifetime_is_current:
  assumes "(store_step {no_faults})\<^sup>*\<^sup>* empty_store st"
    and "alookup (st_documents st) i = Some l" "lt_state l = lifetime_current"
  shows "current_lifetime no_faults st = Inr l \<and>
     (\<forall>j k. alookup (st_documents st) j = Some k \<and> lt_state k = lifetime_current \<longrightarrow> j = i)"
proof -
  have "settled st"
    using assms(1)
  proof induction
    case base show ?case by (simp add: settled_def documented_def empty_store_def)
  next
    case (step st st') then show ?case using store_step_settles by blast
  qed
  then show ?thesis using assms(2,3) by (auto simp: settled_def current_lifetime_calm)
qed

section \<open>Histories of a store\<close>

definition demo_run :: "string \<Rightarrow> string \<Rightarrow> lifetime_run" where
  "demo_run operation trace =
     \<lparr>lr_at = 0, lr_operation = operation, lr_graph_checksum = ''sha256:00'', lr_trace_file = trace\<rparr>"

definition demo_first :: "lifetime \<times> store" where
  "demo_first = record_runs [(no_faults, 5, demo_run ''deploy'' ''t1'')] (new_lifetime 4 ''A'') empty_store"

lemma trims: "trim_space (''A'' @ [CHR 0x0A]) = ''A''" "trim_space (''B'' @ [CHR 0x0A]) = ''B''"
  by code_simp+

lemma demo_deployed: "store_step {no_faults} empty_store (snd demo_first)"
  by (rule store_step.deploy [of _ "''A''" "[(no_faults, 5, demo_run ''deploy'' ''t1'')]" _ 4 "fst demo_first"])
    (simp_all only: trims, simp_all add: demo_first_def empty_store_def)

lemma demo_history: "(store_step {no_faults})\<^sup>*\<^sup>* empty_store (snd demo_first)"
  by (rule r_into_rtranclp, rule demo_deployed)

lemma demo_first_facts:
  "alookup (st_documents (snd demo_first)) ''A'' = Some (fst demo_first)" "lt_state (fst demo_first) = lifetime_current"
  "st_current (snd demo_first) = Some (''A'' @ [CHR 0x0A])"
  by (simp_all add: demo_first_def empty_store_def new_lifetime_def append_run_def replace_previous_def current_lifetime_def
      load_lifetime_def save_lifetime_def place_current_def no_faults_def demo_run_def Let_def)

theorem one_lifetime_is_current_witness: "current_lifetime no_faults (snd demo_first) = Inr (fst demo_first)"
  using one_lifetime_is_current [OF demo_history demo_first_facts(1,2)] by blast

lemma store_step_mono: "store_step F st st' \<Longrightarrow> F \<subseteq> G \<Longrightarrow> store_step G st st'"
  by (erule store_step.cases) (blast intro: store_step.intros)+

lemma demo_history_any: "(store_step UNIV)\<^sup>*\<^sup>* empty_store (snd demo_first)"
  by (rule r_into_rtranclp, rule store_step_mono [OF demo_deployed]) simp

theorem lifetimes_never_end_witness:
  "lt_state ` ran (alookup (st_documents (snd demo_first))) \<subseteq> {lifetime_current, lifetime_replaced} \<and>
     (\<exists>l. current_lifetime no_faults (snd demo_first) = Inr l)"
  using lifetimes_never_end [OF demo_history_any, of "''A'' @ [CHR 0x0A]"] demo_first_facts(3) by simp

lemma demo_first_documented: "documented (snd demo_first)" "proper (new_lifetime 6 ''B'')"
  using store_step_keeps [OF demo_deployed] proper_new [OF trims(2)]
  by (auto simp: documented_def empty_store_def)

lemma demo_second_fresh: "up_to_date (new_lifetime 6 ''B'') (snd demo_first)"
proof -
  have "alookup (st_documents (snd demo_first)) ''B'' = None" by code_simp
  then show ?thesis by (simp add: up_to_date_def new_lifetime_def)
qed

theorem recording_a_run_loses_nothing_witness:
  "case append_run no_faults 7 (new_lifetime 6 ''B'') (demo_run ''deploy'' ''t2'') (snd demo_first) of (l', st', e) \<Rightarrow>
     e = None \<and> current_lifetime no_faults st' = Inr l' \<and> map lr_trace_file (lt_runs l') = [''t2''] \<and>
     (\<exists>k'. alookup (st_documents st') ''A'' = Some k' \<and> prefix (lt_runs (fst demo_first)) (lt_runs k'))"
proof -
  obtain l' st' e where run: "append_run no_faults 7 (new_lifetime 6 ''B'') (demo_run ''deploy'' ''t2'') (snd demo_first) = (l', st', e)"
    by (metis prod_cases3)
  have "snd (snd (append_run no_faults 7 (new_lifetime 6 ''B'') (demo_run ''deploy'' ''t2'') (snd demo_first))) = None"
    by code_simp
  then show ?thesis
    using recording_a_run_loses_nothing [OF demo_first_documented demo_second_fresh run, of "''A''" "fst demo_first"]
      demo_first_facts(1) unfolding run
    by (auto simp: new_lifetime_def stamped_run_def demo_run_def)
qed

text \<open>
  A deploy's second scope. When the first scope's run could not be recorded (here \<open>current\<close> could not be read;
  deploy warns and goes on), the second is no longer the lifetime's first run, so the lifetime before it is
  never marked replaced: two lifetimes are current.
\<close>

definition unreadable :: store_faults where
  "unreadable c = (if c = ReadCurrent then Some (ENew ''input/output error'') else None)"

theorem two_lifetimes_are_current:
  "let st = snd (record_runs [(unreadable, 7, demo_run ''deploy'' ''t2''), (no_faults, 8, demo_run ''deploy'' ''t3'')]
                   (new_lifetime 6 ''B'') (snd demo_first))
   in map (\<lambda>(i, l). (i, lt_state l)) (st_documents st) = [(''A'', ''current''), (''B'', ''current'')]"
  by code_simp

text \<open>
  A deploy whose last write fails leaves the lifetime before it named, readable and marked replaced: the fold
  goes on reading it, and every operation that would write into it is refused.
\<close>

definition unplaceable :: store_faults where
  "unplaceable c = (if c = PlaceCurrent then Some (ENew ''permission denied'') else None)"

theorem replaced_lifetime_stays_named:
  "let st = snd (record_runs [(unplaceable, 7, demo_run ''deploy'' ''t2'')] (new_lifetime 6 ''B'') (snd demo_first))
   in case current_lifetime no_faults st of
        Inl e \<Rightarrow> False
      | Inr l \<Rightarrow> lt_id l = ''A'' \<and> lt_state l = ''replaced'' \<and>
          snd (snd (append_run no_faults 9 l (demo_run ''upgrade'' ''t4'') st)) \<noteq> None"
  by code_simp

end
