(* ===== verification/Readback.thy ===== *)
theory Readback
  imports Lifetimes Ledger_Snapshot Engine Scoped_Path
begin

text \<open>
  writ's record of what it deployed, \<open>cmd/writ/writ/readback/readback.go\<close>: the fold of the current lifetime's runs. A
  run is its trace (the receipts of \<open>Recovery_Stack\<close> and the ledger snapshot of \<open>Ledger_Snapshot\<close>) and the origin of
  its graph, whose \<open>files\<close> annotation says which unit produced which target. Loading the documents is an
  argument; \<open>None\<close> is a failed assertion. Paths are those of a Unix host.
\<close>

section \<open>Entries\<close>

record deployed =
  de_target :: string
  de_source :: string
  de_action :: string
  de_scope :: string
  de_project :: string
  de_layer :: string
  de_target_root :: string
  de_recorded_etag :: string
  de_recorded_digest :: string
  de_recorded_source_digest :: string
  de_graph_checksum :: string
  de_at :: int

record package_record =
  pr_action :: string
  pr_unit_id :: string
  pr_graph_checksum :: string
  pr_at :: int

record inventory =
  in_entries :: "(string \<times> deployed) list"
  in_packages :: "package_record list"
  in_findings :: "string list"
  in_runs :: nat

definition deploying_actions :: "string list" where
  "deploying_actions =
     [''encryption.decrypt_sops_file'', ''file.copy'', ''file.link'', ''file.write_bytes'', ''file.write_text'']"

definition removing_actions :: "string list" where
  "removing_actions = [''file.remove'']"

section \<open>A run's annotations\<close>

record graph_origin =
  go_tool :: string
  go_scope :: string
  go_annotations :: "(string \<times> gvalue) list"

record trace_doc =
  td_stack :: "rstack option"
  td_catalog :: "ledger_snapshot option"

record file_meta =
  fm_target :: string
  fm_source :: string
  fm_read_from :: string
  fm_project :: string
  fm_layer :: string
  fm_action :: string

definition meta_field :: "(string \<times> gvalue) list \<Rightarrow> string \<Rightarrow> string option" where
  "meta_field fs key =
     (case alookup fs key of None \<Rightarrow> Some [] | Some v \<Rightarrow> (case v of VStr s \<Rightarrow> Some s | _ \<Rightarrow> None))"

definition map_fields :: "gvalue \<Rightarrow> (string \<times> gvalue) list option" where
  "map_fields v = (case v of VMap kvs \<Rightarrow> Some (case kvs of Some m \<Rightarrow> m | None \<Rightarrow> []) | _ \<Rightarrow> None)"

definition file_meta_of :: "(string \<times> gvalue) list \<Rightarrow> file_meta option" where
  "file_meta_of fs =
     (case map (meta_field fs) [''target'', ''source'', ''read_from'', ''project'', ''layer'', ''action''] of
        [Some t, Some s, Some r, Some p, Some l, Some a] \<Rightarrow>
          Some \<lparr>fm_target = t, fm_source = s, fm_read_from = (if r = [] then s else r), fm_project = p,
                fm_layer = l, fm_action = a\<rparr>
      | _ \<Rightarrow> None)"

fun unit_metas :: "(string \<times> gvalue) list \<Rightarrow> (string \<times> file_meta) list option" where
  "unit_metas [] = Some []"
| "unit_metas ((uid, entry) # raw) =
     (case map_fields entry of
        None \<Rightarrow> unit_metas raw
      | Some fs \<Rightarrow>
          (case (file_meta_of fs, unit_metas raw) of
             (Some fm, Some metas) \<Rightarrow> Some ((uid, fm) # metas)
           | _ \<Rightarrow> None))"

definition file_metadata :: "graph_origin \<Rightarrow> (string \<times> file_meta) list option" where
  "file_metadata origin =
     (case Option.bind (alookup (go_annotations origin) ''files'') map_fields of
        None \<Rightarrow> Some []
      | Some raw \<Rightarrow> unit_metas raw)"

section \<open>Recorded identities\<close>

type_synonym identities = "(string \<times> string \<times> string) list"

definition file_rel :: "ledger_entry \<Rightarrow> string option" where
  "file_rel x =
     (case extract_tag_specific (le_uri x) of
        Inl e \<Rightarrow> None
      | Inr (specific, type_id) \<Rightarrow>
          if has_prefix specific ''file:'' then Some (trim_prefix specific ''file:'') else None)"

definition recorded_identity :: "ledger_snapshot option \<Rightarrow> identities" where
  "recorded_identity catalog =
     (case catalog of
        None \<Rightarrow> []
      | Some s \<Rightarrow>
          fold (\<lambda>x m.
              if le_etag x = [] \<and> le_digest x = [] then m
              else (case file_rel x of
                      None \<Rightarrow> m
                    | Some rel \<Rightarrow> aput (join_path [sn_root s, rel]) (le_etag x, le_digest x) m))
            (sn_entries s) [])"

definition identity_of :: "identities \<Rightarrow> string \<Rightarrow> string \<times> string" where
  "identity_of m p = (case alookup m p of Some i \<Rightarrow> i | None \<Rightarrow> ([], []))"

section \<open>Folding a run\<close>

record located_run =
  ru_checksum :: string
  ru_scope :: string
  ru_trace_path :: string
  ru_at :: int

record run_facts =
  rf_metas :: "(string \<times> file_meta) list"
  rf_scope :: string
  rf_target_root :: string
  rf_recorded :: identities

definition adelete :: "'k \<Rightarrow> ('k \<times> 'v) list \<Rightarrow> ('k \<times> 'v) list" where
  "adelete k m = filter (\<lambda>(k', v). k' \<noteq> k) m"

definition deployed_entry :: "located_run \<Rightarrow> run_facts \<Rightarrow> file_meta \<Rightarrow> deployed" where
  "deployed_entry r f fm =
     \<lparr>de_target = fm_target fm, de_source = fm_source fm, de_action = fm_action fm, de_scope = rf_scope f,
      de_project = fm_project fm, de_layer = fm_layer fm, de_target_root = rf_target_root f,
      de_recorded_etag = fst (identity_of (rf_recorded f) (fm_target fm)),
      de_recorded_digest = snd (identity_of (rf_recorded f) (fm_target fm)),
      de_recorded_source_digest = snd (identity_of (rf_recorded f) (fm_read_from fm)),
      de_graph_checksum = ru_checksum r, de_at = ru_at r\<rparr>"

definition fold_receipt :: "located_run \<Rightarrow> run_facts \<Rightarrow> receipt \<Rightarrow> inventory \<Rightarrow> inventory" where
  "fold_receipt r f rc iv =
     (if r_forward rc = [] \<or> r_err rc \<noteq> None then iv
      else if has_prefix (r_forward rc) ''pkg.'' then
        iv\<lparr>in_packages := in_packages iv @
              [\<lparr>pr_action = r_forward rc, pr_unit_id = r_unit_id rc, pr_graph_checksum = ru_checksum r, pr_at = ru_at r\<rparr>]\<rparr>
      else (case alookup (rf_metas f) (r_unit_id rc) of
              None \<Rightarrow> iv
            | Some fm \<Rightarrow>
                if fm_action fm \<in> set deploying_actions then
                  iv\<lparr>in_entries := aput (fm_target fm) (deployed_entry r f fm) (in_entries iv)\<rparr>
                else if fm_action fm \<in> set removing_actions then
                  iv\<lparr>in_entries := adelete (fm_target fm) (in_entries iv)\<rparr>
                else iv))"

definition string_annotation :: "graph_origin \<Rightarrow> string \<Rightarrow> string option" where
  "string_annotation origin key =
     (case alookup (go_annotations origin) key of
        None \<Rightarrow> Some []
      | Some v \<Rightarrow> (case v of VStr s \<Rightarrow> Some s | _ \<Rightarrow> None))"

definition facts_of :: "located_run \<Rightarrow> graph_origin \<Rightarrow> trace_doc \<Rightarrow> (string \<times> file_meta) list \<Rightarrow> string \<Rightarrow> run_facts" where
  "facts_of r origin trace metas root =
     \<lparr>rf_metas = metas, rf_scope = (if ru_scope r = [] then go_scope origin else ru_scope r),
      rf_target_root = root, rf_recorded = recorded_identity (td_catalog trace)\<rparr>"

record documents =
  dc_traces_dir :: string
  dc_trace_there :: "string \<Rightarrow> bool"
  dc_load_trace :: "string \<Rightarrow> (gerror, trace_doc) result"
  dc_load_graph :: "string \<Rightarrow> (gerror, graph_origin) result"

definition find_out :: "string \<Rightarrow> inventory \<Rightarrow> inventory" where
  "find_out text iv = iv\<lparr>in_findings := in_findings iv @ [text]\<rparr>"

definition fold_run :: "documents \<Rightarrow> located_run \<Rightarrow> inventory \<Rightarrow> inventory option" where
  "fold_run D r iv =
     (case dc_load_trace D (ru_trace_path r) of
        Inl e \<Rightarrow> Some (find_out (''trace '' @ ru_trace_path r @ '' cannot be read: '' @ error_text e) iv)
      | Inr trace \<Rightarrow>
          (case dc_load_graph D (ru_checksum r) of
             Inl e \<Rightarrow>
               Some (find_out (''graph '' @ ru_checksum r @ '' for trace '' @ ru_trace_path r @ '' is unavailable: ''
                               @ error_text e) iv)
           | Inr origin \<Rightarrow>
               if go_tool origin \<noteq> ''writ'' then Some iv
               else
                 (case (file_metadata origin, td_stack trace, string_annotation origin ''target_root'') of
                    (None, _, _) \<Rightarrow> None
                  | (Some metas, None, _) \<Rightarrow> Some (iv\<lparr>in_runs := Suc (in_runs iv)\<rparr>)
                  | (Some metas, Some stack, None) \<Rightarrow> None
                  | (Some metas, Some stack, Some root) \<Rightarrow>
                      (let iv' = fold (fold_receipt r (facts_of r origin trace metas root)) (receipts stack) iv
                       in Some (iv'\<lparr>in_runs := Suc (in_runs iv')\<rparr>)))))"

section \<open>Folding a lifetime\<close>

definition safe_checksum :: "string \<Rightarrow> string" where
  "safe_checksum c = map (\<lambda>x. if x = CHR 0x3A then CHR 0x2D else x) c"

definition located :: "documents \<Rightarrow> lifetime_run \<Rightarrow> located_run" where
  "located D owned =
     \<lparr>ru_checksum = lr_graph_checksum owned, ru_scope = [],
      ru_trace_path = join_path [dc_traces_dir D, safe_checksum (lr_graph_checksum owned), lr_trace_file owned],
      ru_at = lr_at owned\<rparr>"

fun fold_runs :: "documents \<Rightarrow> string \<Rightarrow> lifetime_run list \<Rightarrow> inventory \<Rightarrow> inventory option" where
  "fold_runs D lifetime_id [] iv = Some iv"
| "fold_runs D lifetime_id (owned # runs) iv =
     (if \<not> dc_trace_there D (ru_trace_path (located D owned)) then
        fold_runs D lifetime_id runs
          (find_out (''lifetime '' @ lifetime_id @ '' names trace '' @ lr_trace_file owned @ '' for graph ''
                     @ lr_graph_checksum owned @ '', but the document is gone'') iv)
      else
        (case fold_run D (located D owned) iv of
           None \<Rightarrow> None
         | Some iv' \<Rightarrow> fold_runs D lifetime_id runs iv'))"

definition empty_inventory :: inventory where
  "empty_inventory = \<lparr>in_entries = [], in_packages = [], in_findings = [], in_runs = 0\<rparr>"

text \<open>\<open>Fold\<close>; \<open>environment\<close> is the error of building the loading environment, if any.\<close>

definition fold_record ::
  "store_faults \<Rightarrow> store \<Rightarrow> string \<Rightarrow> gerror option \<Rightarrow> documents \<Rightarrow> (gerror, inventory) result option"
where
  "fold_record faults st home environment D =
     (case current_lifetime faults st of
        Inl e \<Rightarrow>
          Some (Inl (if err_is ErrNotExist e then
                       wrapf (''no current deployment in the store '' @ home
                              @ '': nothing has been deployed, or it was decommissioned: '') e
                     else e))
      | Inr l \<Rightarrow>
          (case environment of
             Some e \<Rightarrow> Some (Inl e)
           | None \<Rightarrow> map_option Inr (fold_runs D (lt_id l) (lt_runs l) empty_inventory)))"

end
