(* ===== verification/Deploy_Plan.thy ===== *)
theory Deploy_Plan
  imports Deploy_Tree Readback
begin

text \<open>
  The planning of a deployment, \<open>cmd/writ/writ/deploy/plan.go\<close>: the run root of a scope, the paths of a plan, the
  chain of actions a file's pipeline becomes, the parent directories, the annotation the record is read back from,
  and the scopes of a build, each with a plan of its own. \<open>plan.Provider.Plan\<close> is an argument that answers a call
  with the id of the unit it made or refuses it, and so is \<open>planManifests\<close>, which plans the package units before the
  files. Paths are those of a Unix host, a list of elements from the root.
\<close>

section \<open>The run root and plan space\<close>

fun common_ancestor :: "path \<Rightarrow> path \<Rightarrow> path" where
  "common_ancestor (a # as) (b # bs) = (if a = b then a # common_ancestor as bs else [])"
| "common_ancestor as bs = []"

text \<open>The root spans the target root, a single source's root, and the folders of every source and origin. An entry of a
  build has an origin, and a build without layers a source root.\<close>

definition widen_root :: "path \<Rightarrow> file_entry \<Rightarrow> path" where
  "widen_root root f =
     (let root1 = common_ancestor root (butlast (fe_source f)) in
      if fe_origin f \<noteq> fe_source f then common_ancestor root1 (butlast (fe_origin f)) else root1)"

definition run_root_for :: "layer_source list \<Rightarrow> path \<Rightarrow> path \<Rightarrow> file_entry list \<Rightarrow> path" where
  "run_root_for sources source_root target_root files =
     foldl widen_root (if sources = [] then common_ancestor target_root source_root else target_root) files"

definition plan_space_path :: "path \<Rightarrow> path \<Rightarrow> (gerror, string) result" where
  "plan_space_path root p =
     (case rel_elements root p of
        None \<Rightarrow> Inl (ENew (''plan space: '' @ quote (show_path True p) @ '' against root '' @ quote (show_path True root)))
      | Some es \<Rightarrow>
          (let s = show_path False es in
           if s = ''..'' \<or> has_prefix s ''../'' then
             Inl (ENew (''plan space: '' @ quote (show_path True p) @ '' escapes the run root ''
               @ quote (show_path True root) @ '' '' @ [CHR 0xE2, CHR 0x80, CHR 0x94] @ '' widen the root before planning''))
           else Inr s))"

section \<open>Calls of the planner\<close>

datatype plan_arg = PlanText string | PlanPromise string | PlanMode nat | PlanData

record planned_call =
  pc_id :: string
  pc_action :: string
  pc_args :: "(string \<times> plan_arg) list"

type_synonym plan_ledger = "planned_call list"
type_synonym plan_answers = "plan_ledger \<Rightarrow> string \<Rightarrow> (string \<times> plan_arg) list \<Rightarrow> (gerror, string) result"

definition plan_call ::
  "plan_answers \<Rightarrow> string \<Rightarrow> (string \<times> plan_arg) list \<Rightarrow> plan_ledger \<Rightarrow> (gerror, string) result \<times> plan_ledger"
where
  "plan_call answers action args l =
     (case answers l action args of
        Inl e \<Rightarrow> (Inl e, l)
      | Inr i \<Rightarrow> (Inr i, l @ [\<lparr>pc_id = i, pc_action = action, pc_args = args\<rparr>]))"

text \<open>A call that needs the product of the one before it.\<close>

definition and_then ::
  "(gerror, string) result \<times> plan_ledger \<Rightarrow> (string \<Rightarrow> plan_ledger \<Rightarrow> (gerror, 'a) result \<times> plan_ledger) \<Rightarrow>
     (gerror, 'a) result \<times> plan_ledger"
where
  "and_then run next_call = (case run of (Inl e, l) \<Rightarrow> (Inl e, l) | (Inr i, l) \<Rightarrow> next_call i l)"

definition final_call ::
  "plan_answers \<Rightarrow> string \<Rightarrow> (string \<times> plan_arg) list \<Rightarrow> plan_ledger \<Rightarrow>
     (gerror, string \<times> string) result \<times> plan_ledger"
where
  "final_call answers action args l =
     and_then (plan_call answers action args l) (\<lambda>i l. (Inr (i, action), l))"

definition write_args :: "string \<Rightarrow> string \<Rightarrow> nat \<Rightarrow> (string \<times> plan_arg) list" where
  "write_args target rendered mode =
     [(''destination_path'', PlanText target), (''content'', PlanPromise rendered), (''mode'', PlanMode mode),
      (''user'', PlanText []), (''group'', PlanText [])]"

definition render_args :: "string \<Rightarrow> (string \<times> plan_arg) list" where
  "render_args content = [(''content'', PlanPromise content), (''data'', PlanData)]"

definition decrypt_args :: "string \<Rightarrow> string \<Rightarrow> (string \<times> plan_arg) list" where
  "decrypt_args source target = [(''source'', PlanText source), (''destination_path'', PlanText target)]"

definition pipeline_text :: "string list \<Rightarrow> string" where
  "pipeline_text ops = join_with ''+'' ops"

definition plan_file_chain ::
  "plan_answers \<Rightarrow> path \<Rightarrow> file_entry \<Rightarrow> plan_ledger \<Rightarrow> (gerror, string \<times> string) result \<times> plan_ledger"
where
  "plan_file_chain answers root f l =
     (case plan_space_path root (fe_source f) of Inl e \<Rightarrow> (Inl e, l) | Inr source \<Rightarrow>
     (case plan_space_path root (fe_target f) of Inl e \<Rightarrow> (Inl e, l) | Inr target \<Rightarrow>
     (case plan_space_path root (fe_origin f) of Inl e \<Rightarrow> (Inl e, l) | Inr origin \<Rightarrow>
       (let pipeline = pipeline_text (fe_operations f) in
        if pipeline = ''file.link'' then
          final_call answers ''file.link'' [(''source_path'', PlanText origin), (''target_path'', PlanText target)] l
        else if pipeline = ''encryption.decrypt+file.copy'' then
          final_call answers ''encryption.decrypt_sops_file'' (decrypt_args source target) l
        else if pipeline = ''template.render_bytes+file.copy'' then
          and_then (plan_call answers ''file.read_text'' [(''resource'', PlanText source)] l) (\<lambda>content l.
          and_then (plan_call answers ''template.render_text'' (render_args content) l) (\<lambda>rendered l.
          final_call answers ''file.write_text''
            (write_args target rendered (if fe_mode f = 0 then 420 else fe_mode f)) l))
        else if pipeline = ''encryption.decrypt+template.render_bytes+file.copy'' then
          and_then (plan_call answers ''encryption.decrypt_sops_file'' (decrypt_args source target) l) (\<lambda>decrypted l.
          and_then (plan_call answers ''file.read_text'' [(''resource'', PlanPromise decrypted)] l) (\<lambda>content l.
          and_then (plan_call answers ''template.render_text'' (render_args content) l) (\<lambda>rendered l.
          final_call answers ''file.write_text'' (write_args target rendered 384) l)))
        else (Inl (ENew (''unknown pipeline '' @ quote pipeline)), l)))))"

section \<open>A scope\<close>

definition planned_meta :: "file_entry \<Rightarrow> string \<Rightarrow> gvalue" where
  "planned_meta f action =
     VMap (Some [(''target'', VStr (show_path True (fe_target f))), (''source'', VStr (show_path True (fe_origin f))),
       (''read_from'', VStr (show_path True (fe_source f))), (''project'', VStr (fe_project f)),
       (''layer'', VStr (fe_layer f)), (''action'', VStr action)])"

fun plan_chains ::
  "plan_answers \<Rightarrow> path \<Rightarrow> file_entry list \<Rightarrow> (string \<times> gvalue) list \<Rightarrow> plan_ledger \<Rightarrow>
     (gerror, (string \<times> gvalue) list) result \<times> plan_ledger"
where
  "plan_chains answers root [] metas l = (Inr metas, l)"
| "plan_chains answers root (f # fs) metas l =
     (case plan_file_chain answers root f l of
        (Inl e, l') \<Rightarrow> (Inl (wrapf (''plan '' @ fe_id f @ '': '') e), l')
      | (Inr (i, action), l') \<Rightarrow> plan_chains answers root fs (aput i (planned_meta f action) metas) l')"

text \<open>One mkdir for each folder of a target, in the order of their texts. Its path is the folder's absolute one.\<close>

definition parent_directories :: "file_entry list \<Rightarrow> string list" where
  "parent_directories fs = sort (remdups (map (\<lambda>f. show_path True (butlast (fe_target f))) fs))"

definition mkdir_args :: "string \<Rightarrow> (string \<times> plan_arg) list" where
  "mkdir_args d = [(''path'', PlanText d), (''mode'', PlanMode 493), (''user'', PlanText []), (''group'', PlanText [])]"

fun plan_directories :: "plan_answers \<Rightarrow> string list \<Rightarrow> plan_ledger \<Rightarrow> gerror option \<times> plan_ledger" where
  "plan_directories answers [] l = (None, l)"
| "plan_directories answers (d # ds) l =
     (case plan_call answers ''file.mkdir'' (mkdir_args d) l of
        (Inl e, l') \<Rightarrow> (Some (wrapf (''plan mkdir '' @ d @ '': '') e), l')
      | (Inr i, l') \<Rightarrow> plan_directories answers ds l')"

definition plan_parent_directories :: "plan_answers \<Rightarrow> file_entry list \<Rightarrow> plan_ledger \<Rightarrow> gerror option \<times> plan_ledger" where
  "plan_parent_directories answers fs l = plan_directories answers (parent_directories fs) l"

record scope_plan =
  gp_scope :: string
  gp_run_root :: path
  gp_target_root :: path
  gp_layers :: "string list"
  gp_metas :: "(string \<times> gvalue) list"
  gp_calls :: plan_ledger

text \<open>What planning the manifests of a scope registers before the files.\<close>

type_synonym manifest_plans = "string \<Rightarrow> file_entry list \<Rightarrow> (gerror, plan_ledger) result"

definition build_scope_graph ::
  "plan_answers \<Rightarrow> manifest_plans \<Rightarrow> layer_source list \<Rightarrow> path \<Rightarrow> string \<Rightarrow> path \<Rightarrow> string list \<Rightarrow> file_entry list \<Rightarrow>
     file_entry list \<Rightarrow> (gerror, scope_plan) result"
where
  "build_scope_graph answers plan_manifests sources source_root scope target_root layers files manifests =
     (let root = run_root_for sources source_root target_root files in
      case plan_manifests scope manifests of
        Inl e \<Rightarrow> Inl e
      | Inr packages \<Rightarrow>
          (case plan_parent_directories answers files packages of
             (Some e, l) \<Rightarrow> Inl e
           | (None, l) \<Rightarrow>
               (case plan_chains answers root files [] l of
                  (Inl e, l') \<Rightarrow> Inl e
                | (Inr metas, l') \<Rightarrow>
                    Inr \<lparr>gp_scope = scope, gp_run_root = root, gp_target_root = target_root, gp_layers = layers,
                         gp_metas = metas, gp_calls = l'\<rparr>)))"

text \<open>The annotations of the graph's origin that are read back: the roots and the inventory of the files.\<close>

definition scope_origin :: "scope_plan \<Rightarrow> graph_origin" where
  "scope_origin p =
     \<lparr>go_tool = ''writ'', go_scope = gp_scope p,
      go_annotations =
        [(''target_root'', VStr (show_path True (gp_target_root p))),
         (''run_root'', VStr (show_path True (gp_run_root p))), (''files'', VMap (Some (gp_metas p)))]\<rparr>"

section \<open>The scopes of a build\<close>

definition scope_layers :: "layer_source list \<Rightarrow> string \<Rightarrow> string list" where
  "scope_layers sources scope =
     rev (remdups (rev (map ls_layer (filter (\<lambda>s. ls_target_name s = scope) sources))))"

definition populated_scopes :: "build_result \<Rightarrow> string list" where
  "populated_scopes r = sort (remdups (map fe_target_name (br_files r) @ map fe_target_name (br_manifests r)))"

text \<open>The map of target roots keeps the last source of a name.\<close>

definition scope_target_root :: "layer_source list \<Rightarrow> string \<Rightarrow> path" where
  "scope_target_root sources scope =
     (case filter (\<lambda>s. ls_target_name s = scope) (rev sources) of [] \<Rightarrow> [] | s # ss \<Rightarrow> ls_target_root s)"

definition of_scope :: "string \<Rightarrow> file_entry list \<Rightarrow> file_entry list" where
  "of_scope scope fs = filter (\<lambda>f. fe_target_name f = scope) fs"

fun plan_scopes ::
  "plan_answers \<Rightarrow> manifest_plans \<Rightarrow> build_config \<Rightarrow> build_result \<Rightarrow> string list \<Rightarrow> (gerror, scope_plan list) result"
where
  "plan_scopes answers plan_manifests cfg r [] = Inr []"
| "plan_scopes answers plan_manifests cfg r (scope # scopes) =
     (case build_scope_graph answers plan_manifests (bc_sources cfg) (bc_source_root cfg) (map lower_char scope)
             (scope_target_root (bc_sources cfg) scope) (scope_layers (bc_sources cfg) scope)
             (of_scope scope (br_files r)) (of_scope scope (br_manifests r)) of
        Inl e \<Rightarrow> Inl e
      | Inr p \<Rightarrow>
          (case plan_scopes answers plan_manifests cfg r scopes of Inl e \<Rightarrow> Inl e | Inr ps \<Rightarrow> Inr (p # ps)))"

definition build_graphs ::
  "read_dir \<Rightarrow> walk \<Rightarrow> validator \<Rightarrow> plan_answers \<Rightarrow> manifest_plans \<Rightarrow> build_config \<Rightarrow>
     (build_error, scope_plan list \<times> collision list) result"
where
  "build_graphs list_dir walk validate answers plan_manifests cfg =
     (case build list_dir walk validate cfg of
        Inl (BuildFailed e) \<Rightarrow> Inl (BuildFailed (wrapf ''build tree: '' e))
      | Inl (Refused names) \<Rightarrow> Inl (Refused names)
      | Inr r \<Rightarrow>
          (let planned =
             (if bc_sources cfg = [] then
                if br_files r = [] \<and> br_manifests r = [] then Inr []
                else map_sum id (\<lambda>p. [p])
                  (build_scope_graph answers plan_manifests [] (bc_source_root cfg) [] (bc_target_root cfg) []
                    (br_files r) (br_manifests r))
              else plan_scopes answers plan_manifests cfg r (populated_scopes r))
           in case planned of Inl e \<Rightarrow> Inl (BuildFailed e) | Inr ps \<Rightarrow> Inr (ps, br_collisions r)))"

end
