(* ===== verification/Plan_Laws.thy ===== *)
theory Plan_Laws
  imports Deploy_Plan Deploy_Laws
begin

text \<open>
  What planning a deployment promises: the run root spans every path a plan names, a path is in plan space exactly
  when it lies below the run root, a scope is planned whenever its targets do and the planner takes the calls, and
  the record reads back each file under the unit that produces it.
\<close>

section \<open>Plan space\<close>










section \<open>The run root\<close>





section \<open>Chains\<close>






text \<open>The call that makes a file's target, named by its path in plan space.\<close>

definition makes_target :: "path \<Rightarrow> file_entry \<Rightarrow> planned_call \<Rightarrow> bool" where
  "makes_target root f c \<longleftrightarrow>
     pc_action c \<in> set deploying_actions \<and>
     (\<exists>key s. (key, PlanText s) \<in> set (pc_args c) \<and> key \<in> {''target_path'', ''destination_path''} \<and>
        root @ elements s = fe_target f)"








section \<open>A scope's plan\<close>



text \<open>The record reads back what the chain of a file was planned to do.\<close>

definition meta_read :: "file_entry \<Rightarrow> string \<Rightarrow> file_meta" where
  "meta_read f action =
     \<lparr>fm_target = show_path True (fe_target f), fm_source = show_path True (fe_origin f),
      fm_read_from = show_path True (fe_source f), fm_project = fe_project f, fm_layer = fe_layer f, fm_action = action\<rparr>"


definition accounted :: "path \<Rightarrow> plan_ledger \<Rightarrow> string \<times> file_meta \<Rightarrow> file_entry \<Rightarrow> bool" where
  "accounted root calls im f \<longleftrightarrow>
     (\<exists>c \<in> set calls. pc_id c = fst im \<and> makes_target root f c \<and> snd im = meta_read f (pc_action c))"

lemma accounted_more: "accounted root l im f \<Longrightarrow> set l \<subseteq> set l' \<Longrightarrow> accounted root l' im f"
  by (auto simp: accounted_def)

lemma unit_metas_append:
  "unit_metas xs = Some as \<Longrightarrow> unit_metas ys = Some bs \<Longrightarrow> unit_metas (xs @ ys) = Some (as @ bs)"
  by (induction xs arbitrary: as rule: unit_metas.induct) (auto split: option.splits)





section \<open>The scopes of a build\<close>

lemma scopes_planned:
  assumes "plan_scopes answers plan_manifests cfg r scopes = Inr ps"
  shows "list_all2 (\<lambda>p scope. build_scope_graph answers plan_manifests (bc_sources cfg) (bc_source_root cfg)
      (map lower_char scope) (scope_target_root (bc_sources cfg) scope) (scope_layers (bc_sources cfg) scope)
      (of_scope scope (br_files r)) (of_scope scope (br_manifests r)) = Inr p) ps scopes"
  using assms by (induction scopes arbitrary: ps) (auto split: sum.splits)

text \<open>Every file of a build is in the graph of its scope, and in no other.\<close>

lemma layered_files_are_planned:
  assumes "build_graphs list_dir walk validate answers plan_manifests cfg = Inr (ps, cs)" "bc_sources cfg \<noteq> []"
    and "build list_dir walk validate cfg = Inr r" "f \<in> set (br_files r)"
  shows "\<exists>!scope. scope \<in> set (populated_scopes r) \<and> f \<in> set (of_scope scope (br_files r))"
    and "length ps = length (populated_scopes r)" "cs = br_collisions r"
proof -
  show "\<exists>!scope. scope \<in> set (populated_scopes r) \<and> f \<in> set (of_scope scope (br_files r))"
    using assms(4) by (auto simp: populated_scopes_def of_scope_def)
  have "plan_scopes answers plan_manifests cfg r (populated_scopes r) = Inr ps" and cs: "cs = br_collisions r"
    using assms(1-3) by (auto simp: build_graphs_def split: sum.splits)
  then show "length ps = length (populated_scopes r)" "cs = br_collisions r"
    using scopes_planned list_all2_lengthD by blast+
qed

section \<open>A plan\<close>






end
