(* ===== verification/Record_Laws.thy ===== *)
theory Record_Laws
  imports Readback Demo_World
begin

text \<open>
  What the record says: the fold holds for a target exactly what the last effective unit of the lifetime's runs
  did to it. A clean rollback leaves no trace in the record; a failed one is folded as if nothing had been
  undone, and a write that the conflict policy skipped as if it had been made.
\<close>

section \<open>Events\<close>

datatype record_event = Deployed deployed | Removed string

fun event_target :: "record_event \<Rightarrow> string" where
  "event_target (Deployed x) = de_target x"
| "event_target (Removed t) = t"

definition receipt_events :: "located_run \<Rightarrow> run_facts \<Rightarrow> receipt \<Rightarrow> record_event list" where
  "receipt_events r f rc =
     (if r_forward rc = [] \<or> r_err rc \<noteq> None \<or> has_prefix (r_forward rc) ''pkg.'' then []
      else (case alookup (rf_metas f) (r_unit_id rc) of
              None \<Rightarrow> []
            | Some fm \<Rightarrow>
                if fm_action fm \<in> set deploying_actions then [Deployed (deployed_entry r f fm)]
                else if fm_action fm \<in> set removing_actions then [Removed (fm_target fm)]
                else []))"

text \<open>The events of a run; none when its documents are missing or it is not writ's.\<close>

definition run_events :: "documents \<Rightarrow> lifetime_run \<Rightarrow> record_event list" where
  "run_events D owned =
     (let r = located D owned in
      if \<not> dc_trace_there D (ru_trace_path r) then []
      else (case (dc_load_trace D (ru_trace_path r), dc_load_graph D (ru_checksum r)) of
              (Inr trace, Inr origin) \<Rightarrow>
                if go_tool origin \<noteq> ''writ'' then []
                else (case (file_metadata origin, td_stack trace, string_annotation origin ''target_root'') of
                        (Some metas, Some stack, Some root) \<Rightarrow>
                          concat (map (receipt_events r (facts_of r origin trace metas root)) (receipts stack))
                      | _ \<Rightarrow> [])
            | _ \<Rightarrow> []))"

definition record_events :: "documents \<Rightarrow> lifetime_run list \<Rightarrow> record_event list" where
  "record_events D runs = concat (map (run_events D) runs)"

fun apply_event :: "record_event \<Rightarrow> (string \<times> deployed) list \<Rightarrow> (string \<times> deployed) list" where
  "apply_event (Deployed x) m = aput (de_target x) x m"
| "apply_event (Removed t) m = adelete t m"

lemma alookup_adelete: "alookup (adelete k m) = (alookup m)(k := None)"
  by (induction m) (auto simp: adelete_def fun_eq_iff)

lemma fold_receipt_events:
  "in_entries (fold_receipt r f rc iv) = fold apply_event (receipt_events r f rc) (in_entries iv)"
  by (auto simp: fold_receipt_def receipt_events_def deployed_entry_def split: option.splits)

lemma fold_receipts_events:
  "in_entries (fold (fold_receipt r f) rcs iv) =
     fold apply_event (concat (map (receipt_events r f) rcs)) (in_entries iv)"
  by (induction rcs arbitrary: iv) (simp_all add: fold_receipt_events)

lemma fold_run_events:
  assumes "fold_run D (located D owned) iv = Some iv'" "dc_trace_there D (ru_trace_path (located D owned))"
  shows "in_entries iv' = fold apply_event (run_events D owned) (in_entries iv)"
  using assms
  by (auto simp: fold_run_def run_events_def find_out_def Let_def fold_receipts_events
      split: sum.splits if_splits option.splits)

lemma fold_runs_events:
  assumes "fold_runs D lid runs iv = Some iv'"
  shows "in_entries iv' = fold apply_event (record_events D runs) (in_entries iv)"
  using assms
proof (induction D lid runs iv rule: fold_runs.induct)
  case (2 D lid owned runs iv)
  show ?case
  proof (cases "dc_trace_there D (ru_trace_path (located D owned))")
    case False
    then have "run_events D owned = []" by (simp add: run_events_def)
    then show ?thesis using 2(1) [OF False] 2(3) False by (simp add: record_events_def find_out_def)
  next
    case True
    then obtain iv1 where one: "fold_run D (located D owned) iv = Some iv1" "fold_runs D lid runs iv1 = Some iv'"
      using 2(3) by (auto split: option.splits)
    show ?thesis
      using 2(2) [OF _ one] True fold_run_events [OF one(1) True] by (simp add: record_events_def)
  qed
qed (simp add: record_events_def)

definition last_deploys :: "record_event list \<Rightarrow> deployed \<Rightarrow> bool" where
  "last_deploys evs x \<longleftrightarrow>
     (\<exists>us ws. evs = us @ Deployed x # ws \<and> (\<forall>e \<in> set ws. event_target e \<noteq> de_target x))"

lemma last_deploys_snoc:
  "last_deploys (evs @ [e]) x \<longleftrightarrow> e = Deployed x \<or> last_deploys evs x \<and> event_target e \<noteq> de_target x"
proof
  assume "last_deploys (evs @ [e]) x"
  then obtain us ws where "evs @ [e] = us @ Deployed x # ws" "\<forall>e \<in> set ws. event_target e \<noteq> de_target x"
    by (auto simp: last_deploys_def)
  then show "e = Deployed x \<or> last_deploys evs x \<and> event_target e \<noteq> de_target x"
    by (cases ws rule: rev_cases) (auto simp: last_deploys_def)
next
  assume "e = Deployed x \<or> last_deploys evs x \<and> event_target e \<noteq> de_target x"
  then show "last_deploys (evs @ [e]) x"
  proof
    assume "e = Deployed x" then show ?thesis by (force simp: last_deploys_def)
  next
    assume "last_deploys evs x \<and> event_target e \<noteq> de_target x"
    then obtain us ws where "evs = us @ Deployed x # ws" "\<forall>v \<in> set (ws @ [e]). event_target v \<noteq> de_target x"
      by (auto simp: last_deploys_def)
    then show ?thesis unfolding last_deploys_def by (metis append_Cons append_assoc)
  qed
qed

lemma fold_apply_event:
  "alookup (fold apply_event evs []) t = Some x \<longleftrightarrow> last_deploys evs x \<and> de_target x = t"
proof (induction evs rule: rev_induct)
  case (snoc e evs)
  then show ?case by (cases e) (auto simp: last_deploys_snoc alookup_adelete)
qed (simp add: last_deploys_def)

text \<open>C23: The record holds an entry for a target exactly when a deploying unit that succeeded produced it, in a run of
  the current lifetime whose documents can be read, and no later successful unit deployed or removed that
  target; the entry is the one that unit's run recorded.\<close>

theorem record_holds_the_last_outcome:
  assumes "fold_record faults st home environment D = Some (Inr iv)"
  shows "\<exists>l. current_lifetime faults st = Inr l \<and>
     (alookup (in_entries iv) t = Some x \<longleftrightarrow> last_deploys (record_events D (lt_runs l)) x \<and> de_target x = t)"
proof -
  obtain l where l: "current_lifetime faults st = Inr l" "fold_runs D (lt_id l) (lt_runs l) empty_inventory = Some iv"
    using assms by (auto simp: fold_record_def split: sum.splits option.splits)
  then show ?thesis
    using fold_runs_events [OF l(2)] by (simp add: fold_apply_event empty_inventory_def)
qed

section \<open>Rollbacks\<close>

lemma clean_unwind_clears: "unwind revert s w = (s', w', None) \<Longrightarrow> receipts s' = []"
  by (cases s) (auto simp: join_errors_def split: prod.splits if_splits)

definition plain_stack :: "rstack \<Rightarrow> bool" where
  "plain_stack s \<longleftrightarrow> list_all (\<lambda>x. case x of EReceipt r \<Rightarrow> True | EStack c \<Rightarrow> False) (entries s)"

definition stack_events :: "located_run \<Rightarrow> run_facts \<Rightarrow> rstack \<Rightarrow> record_event list" where
  "stack_events r f s = concat (map (receipt_events r f) (receipts s))"

lemma receipt_events_marked:
  "receipt_events r f (set_compensation_error err rc) = receipt_events r f rc"
  by (cases rc) (simp add: receipt_events_def)

lemma entry_events_marked:
  "concat (map (receipt_events r f) (entry_receipts (EReceipt (set_compensation_error err rc)))) =
   concat (map (receipt_events r f) (entry_receipts (EReceipt rc)))"
  using receipt_events_marked [of r f err rc] by (cases rc) simp

lemma unwind_entries_events:
  assumes "unwind_entries revert es w = (es', w', errs)"
    and "list_all (\<lambda>x. case x of EReceipt r \<Rightarrow> True | EStack c \<Rightarrow> False) es"
  shows "concat (map (\<lambda>x. concat (map (receipt_events r f) (entry_receipts x))) es') =
         concat (map (\<lambda>x. concat (map (receipt_events r f) (entry_receipts x))) es)"
  using assms
proof (induction es arbitrary: es' w' errs)
  case (Cons x es)
  obtain rc where x: "x = EReceipt rc" using Cons.prems(2) by (cases x) auto
  obtain es1 w1 errs1 where rest: "unwind_entries revert es w = (es1, w1, errs1)" by (metis prod_cases3)
  obtain x' w2 errs2 where one: "unwind_entry revert x w1 = (x', w2, errs2)" by (metis prod_cases3)
  have "concat (map (receipt_events r f) (entry_receipts x')) = concat (map (receipt_events r f) (entry_receipts x))"
    using one entry_events_marked [of r f] by (auto simp: x split: if_splits prod.splits option.splits)
  then show ?case using Cons.IH [OF rest] Cons.prems by (auto simp: rest one)
qed simp

lemma stack_events_entries:
  "stack_events r f s = concat (map (\<lambda>x. concat (map (receipt_events r f) (entry_receipts x))) (entries s))"
proof (cases s)
  case (RStack es u v e)
  have "concat (map g (concat xss)) = concat (map (\<lambda>xs. concat (map g xs)) xss)"
    for g :: "receipt \<Rightarrow> record_event list" and xss
    by (induction xss) simp_all
  from this [of "receipt_events r f" "map entry_receipts es"] show ?thesis
    by (simp add: RStack stack_events_def comp_def)
qed

text \<open>What the record reads of one entry.\<close>

abbreviation entry_events :: "located_run \<Rightarrow> run_facts \<Rightarrow> recovery_entry \<Rightarrow> record_event list" where
  "entry_events r f x \<equiv> concat (map (receipt_events r f) (entry_receipts x))"

text \<open>An unwind adds nothing to what the record reads, and takes nothing of a receipt away.\<close>

lemma unwind_events:
  "unwind revert s w = (s', w', e) \<Longrightarrow> subseq (stack_events r f s') (stack_events r f s)"
  "unwind_entries revert es w = (es', w', errs) \<Longrightarrow>
     subseq (concat (map (entry_events r f) es')) (concat (map (entry_events r f) es))"
  "unwind_entry revert x w = (x', w', errs) \<Longrightarrow> subseq (entry_events r f x') (entry_events r f x)"
proof (induction revert s w and revert es w and revert x w
    arbitrary: s' w' e and es' w' errs and x' w' errs rule: unwind_unwind_entries_unwind_entry.induct)
  case (1 revert es u v err w)
  then show ?case by (auto simp: stack_events_entries split: prod.splits if_splits)
next
  case (3 revert x xs w)
  then show ?case by (fastforce split: prod.splits intro: list_emb_append_mono)
next
  case (4 revert rc w)
  then show ?case
    using entry_events_marked [of r f] by (auto split: if_splits prod.splits option.splits)
next
  case (5 revert s w)
  then show ?case by (fastforce simp: stack_events_def split: prod.splits option.splits)
qed simp_all

lemma own_receipt_events:
  assumes "list_all2 keeps_entry es es'" "EReceipt rc \<in> set es"
  shows "set (entry_events r f (EReceipt rc)) \<subseteq> set (concat (map (entry_events r f) es'))"
  using assms
proof (induction rule: list_all2_induct)
  case (Cons x xs y ys)
  show ?case
  proof (cases "x = EReceipt rc")
    case True
    then obtain rc' where "y = EReceipt rc'" "rc' = rc \<or> (\<exists>err. rc' = set_compensation_error err rc)"
      using Cons(1) by (cases y) auto
    then have "entry_events r f y = entry_events r f (EReceipt rc)"
      using entry_events_marked [of r f] by auto
    then show ?thesis by auto
  qed (use Cons in auto)
qed simp

text \<open>C24: a run that was rolled back cleanly leaves nothing in its receipts for the record. One whose rollback
  failed leaves every receipt the stack itself holds, the targets that were restored included, in the
  order they were pushed and nothing besides what stood there before: without nested stacks, it is recorded
  exactly as if nothing of it had been undone. Of nested stacks nothing is said but the order, for one that
  unwinds cleanly is emptied even when the stack above it fails.\<close>

theorem rollbacks_in_the_record:
  assumes "unwind revert s w = (s', w', e)"
  shows "(e = None \<longrightarrow> stack_events r f s' = []) \<and>
     subseq (stack_events r f s') (stack_events r f s) \<and>
     (e \<noteq> None \<longrightarrow> (\<forall>rc. EReceipt rc \<in> set (entries s) \<longrightarrow>
        set (entry_events r f (EReceipt rc)) \<subseteq> set (stack_events r f s'))) \<and>
     (e \<noteq> None \<and> plain_stack s \<longrightarrow> stack_events r f s' = stack_events r f s)"
proof (cases e)
  case None
  then have "receipts s' = []" using clean_unwind_clears [of revert s w s' w'] assms(1) by simp
  then show ?thesis using None by (simp add: stack_events_def)
next
  case (Some x)
  obtain es u v err where s: "s = RStack es u v err" by (cases s)
  obtain es' w1 errs where run: "unwind_entries revert es w = (es', w1, errs)" by (metis prod_cases3)
  then have "entries s' = es'" using assms(1) Some by (auto simp: s join_errors_def split: if_splits)
  then have "plain_stack s \<Longrightarrow> stack_events r f s' = stack_events r f s"
    using unwind_entries_events [OF run] by (simp add: stack_events_entries plain_stack_def s)
  moreover have "list_all2 keeps_entry (entries s) (entries s')" using assms Some by (simp add: unwind_keeps_entries)
  ultimately show ?thesis
    using own_receipt_events [of "entries s" "entries s'" _ r f] unwind_events(1) [OF assms] Some
    by (simp add: stack_events_entries)
qed

section \<open>Skipped writes\<close>

text \<open>
  A write whose occupied target the conflict policy leaves alone returns no product, no receipt and no error,
  and its unit is stamped with a bare receipt like any other success.
\<close>

text \<open>So the record holds the occupant that was left untouched as deployed by writ, as it does for any success.\<close>

theorem skipped_write_is_recorded:
  assumes "push_audit_receipt W root u stack slots VNil CvNone None True m = (None, stack', m')"
    and "unit_names root (unit_id u) = Some (a, full)" "a \<noteq> []" "\<not> has_prefix a ''pkg.''" "unit_id u \<noteq> []"
    and "alookup (rf_metas f) (unit_id u) = Some fm" "fm_action fm \<in> set deploying_actions"
  shows "stack_events r f stack' = stack_events r f stack @ [Deployed (deployed_entry r f fm)]"
proof -
  obtain rc where "stack' = push rc stack" "r_forward rc = a" "r_err rc = None" "r_unit_id rc = unit_id u"
    "r_compensator rc = NoCompensator"
    using assms(1-3,5)
    by (auto simp: push_audit_receipt_def commit_def new_receipt_def Let_def split: prod.splits if_splits option.splits)
  then show ?thesis
    using assms(4,6,7) \<open>a \<noteq> []\<close> by (cases rc) (simp add: stack_events_entries entries_push receipt_events_def)
qed

section \<open>A record\<close>

definition demo_receipt :: "string \<Rightarrow> string \<Rightarrow> compensator \<Rightarrow> gerror option \<Rightarrow> receipt" where
  "demo_receipt u a k e = Receipt u a [] True k e None VNil None VNil"

definition demo_file_meta :: "string \<Rightarrow> string \<Rightarrow> string \<Rightarrow> gvalue" where
  "demo_file_meta t s a =
     VMap (Some [(''target'', VStr t), (''source'', VStr s), (''project'', VStr ''common''), (''action'', VStr a)])"

definition demo_origin :: graph_origin where
  "demo_origin =
     \<lparr>go_tool = ''writ'', go_scope = ''home'',
      go_annotations =
        [(''target_root'', VStr ''/home/u''),
         (''files'', VMap (Some
            [(''u1'', demo_file_meta ''/home/u/.profile'' ''/base/.profile'' ''file.link''),
             (''u2'', demo_file_meta ''/home/u/.vimrc'' ''/base/.vimrc'' ''file.copy''),
             (''u3'', demo_file_meta ''/home/u/.old'' ''/base/.old'' ''file.remove'')]))]\<rparr>"

definition demo_trace_stack :: rstack where
  "demo_trace_stack =
     RStack [EReceipt (demo_receipt ''u1'' ''file.link'' SelfCompensator None),
             EReceipt (demo_receipt ''u2'' ''file.copy'' SelfCompensator None),
             EReceipt (demo_receipt ''u3'' ''file.remove'' NoCompensator (Some (ENew ''busy''))),
             EReceipt (demo_receipt ''p1'' ''pkg.install'' NoCompensator None)] [] VNil None"

definition demo_documents :: documents where
  "demo_documents =
     \<lparr>dc_traces_dir = ''/store/traces'', dc_trace_there = (\<lambda>p. p = ''/store/traces/sha256-00/t1''),
      dc_load_trace = (\<lambda>p. Inr \<lparr>td_stack = Some demo_trace_stack, td_catalog = None\<rparr>),
      dc_load_graph = (\<lambda>c. Inr demo_origin)\<rparr>"

definition demo_inventory :: inventory where
  "demo_inventory =
     (case fold_record no_faults (snd demo_first) ''/store'' None demo_documents of
        Some (Inr iv) \<Rightarrow> iv | _ \<Rightarrow> empty_inventory)"

lemma demo_folded: "fold_record no_faults (snd demo_first) ''/store'' None demo_documents = Some (Inr demo_inventory)"
  by code_simp

lemma demo_inventory_holds:
  "map fst (in_entries demo_inventory) = [''/home/u/.profile'', ''/home/u/.vimrc'']"
  "map pr_unit_id (in_packages demo_inventory) = [''p1'']"
  "map_option de_scope (alookup (in_entries demo_inventory) ''/home/u/.vimrc'') = Some ''home''"
  by code_simp+

theorem record_holds_the_last_outcome_witness:
  "\<exists>l x. current_lifetime no_faults (snd demo_first) = Inr l \<and>
     last_deploys (record_events demo_documents (lt_runs l)) x \<and> de_target x = ''/home/u/.vimrc''"
proof -
  obtain x where "alookup (in_entries demo_inventory) ''/home/u/.vimrc'' = Some x"
    using demo_inventory_holds(3) by auto
  then show ?thesis
    using record_holds_the_last_outcome [OF demo_folded, of "''/home/u/.vimrc''" x] by auto
qed

definition demo_facts :: run_facts where
  "demo_facts =
     \<lparr>rf_metas = (case file_metadata demo_origin of Some ms \<Rightarrow> ms | None \<Rightarrow> []), rf_scope = ''home'',
      rf_target_root = ''/home/u'', rf_recorded = []\<rparr>"

definition demo_located :: located_run where
  "demo_located = \<lparr>ru_checksum = ''sha256:00'', ru_scope = [], ru_trace_path = ''t1'', ru_at = 5\<rparr>"

text \<open>The copy is undone, the link cannot be.\<close>

definition demo_revert :: "receipt \<Rightarrow> string list \<Rightarrow> string list \<times> gerror option" where
  "demo_revert rc w =
     (if r_unit_id rc = ''u1'' then (w, Some (ENew ''read-only file system'')) else (w @ [r_unit_id rc], None))"

theorem rollbacks_in_the_record_witness:
  "\<exists>s' e. unwind demo_revert demo_trace_stack [] = (s', [''u2''], e) \<and> e \<noteq> None \<and>
     map event_target (stack_events demo_located demo_facts s') = [''/home/u/.profile'', ''/home/u/.vimrc'']"
proof -
  obtain s' w' e where run: "unwind demo_revert demo_trace_stack [] = (s', w', e)" by (metis prod_cases3)
  have w: "fst (snd (unwind demo_revert demo_trace_stack [])) = [''u2'']"
    "snd (snd (unwind demo_revert demo_trace_stack [])) \<noteq> None"
    "plain_stack demo_trace_stack"
    "map event_target (stack_events demo_located demo_facts demo_trace_stack) = [''/home/u/.profile'', ''/home/u/.vimrc'']"
    by code_simp+
  show ?thesis using rollbacks_in_the_record [OF run, of demo_located demo_facts] w run by auto
qed

end
