(* ===== verification/Reconcile.thy ===== *)
theory Reconcile
  imports Record_Laws
begin

text \<open>
  The record against the system: whether an occupant is what the record wrote (\<open>readback.Entry.AsRecorded\<close>), the
  reconcile report (\<open>cmd/writ/writ/reconcile\<close>), the registration of a layer (\<open>cmd/writ/writ/layer\<close>), deploy's conflict
  pre-flight (\<open>deploy.go\<close>) and decommission's selection (\<open>decommission.go\<close>). The live file system is what the calls of
  \<open>os\<close> answer, and the digest of a content an argument.
\<close>

section \<open>The live file system\<close>

datatype lstat_answer = LGone | LFailed | LThere bool bool

record live =
  lv_lstat :: "string \<Rightarrow> lstat_answer"
  lv_readlink :: "string \<Rightarrow> string option"
  lv_read :: "string \<Rightarrow> string option"
  lv_digest :: "string \<Rightarrow> string"

text \<open>\<open>LThere\<close> says whether the entry is a symbolic link, and whether it is a directory. \<open>filepath.Dir\<close>:\<close>

definition dir_path :: "string \<Rightarrow> string" where
  "dir_path s = clean_path (rev (dropWhile (\<lambda>c. c \<noteq> slash) (rev s)))"

definition as_recorded :: "live \<Rightarrow> deployed \<Rightarrow> bool" where
  "as_recorded L x =
     (if de_action x = ''file.link'' then
        (case lv_lstat L (de_target x) of
           LThere True d \<Rightarrow>
             (case lv_readlink L (de_target x) of
                None \<Rightarrow> False
              | Some endpoint \<Rightarrow>
                  clean_path (if is_abs endpoint then endpoint else join_path [dir_path (de_target x), endpoint])
                  = clean_path (de_source x))
         | _ \<Rightarrow> False)
      else if de_recorded_digest x = [] then False
      else (case lv_read L (de_target x) of
              None \<Rightarrow> False
            | Some content \<Rightarrow> lv_digest L content = de_recorded_digest x))"

section \<open>Classification\<close>

datatype report_state = StateLinked | StateCopied | StateAbsent | StateChanged | StateDangling | StateStale

fun state_label :: "report_state \<Rightarrow> string" where
  "state_label StateLinked = ''linked''"
| "state_label StateCopied = ''copied''"
| "state_label StateAbsent = ''absent''"
| "state_label StateChanged = ''changed''"
| "state_label StateDangling = ''dangling''"
| "state_label StateStale = ''stale''"

record report_entry =
  re_target :: string
  re_source :: string
  re_project :: string
  re_layer :: string
  re_scope :: string
  re_action :: string
  re_state :: report_state
  re_repair :: string
  re_message :: string

definition judged :: "report_state \<Rightarrow> string \<Rightarrow> string \<Rightarrow> report_entry \<Rightarrow> report_entry" where
  "judged s repair message x = x\<lparr>re_state := s, re_repair := repair, re_message := message\<rparr>"

definition classify_link :: "live \<Rightarrow> deployed \<Rightarrow> report_entry \<Rightarrow> report_entry" where
  "classify_link L x c =
     (if lv_lstat L (re_target c) = LGone then judged StateAbsent ''writ deploy'' ''symlink not present'' c
      else if \<not> as_recorded L x then judged StateChanged ''writ deploy'' ''not the symlink the record wrote'' c
      else (case lv_read L (re_target c) of
              None \<Rightarrow> judged StateDangling ''writ deploy'' ''the recorded source does not resolve'' c
            | Some referent \<Rightarrow>
                if de_recorded_source_digest x \<noteq> [] \<and> lv_digest L referent \<noteq> de_recorded_source_digest x then
                  judged StateStale ''writ upgrade'' ''source changed since deployment'' c
                else c\<lparr>re_state := StateLinked\<rparr>))"

definition classify_copied :: "live \<Rightarrow> deployed \<Rightarrow> report_entry \<Rightarrow> report_entry" where
  "classify_copied L x c =
     (if lv_lstat L (re_target c) = LGone then judged StateAbsent ''writ deploy'' ''file not present'' c
      else if de_recorded_digest x \<noteq> [] \<and> \<not> as_recorded L x then
        judged StateChanged ''writ upgrade --force'' ''not the content the record wrote'' c
      else (case lv_read L (re_source c) of
              None \<Rightarrow> judged StateDangling ''writ deploy'' ''the recorded source does not resolve'' c
            | Some source \<Rightarrow>
                if de_recorded_source_digest x \<noteq> [] \<and> lv_digest L source \<noteq> de_recorded_source_digest x then
                  judged StateStale ''writ upgrade'' ''source changed since deployment'' c
                else c\<lparr>re_state := StateCopied\<rparr>))"

definition classify_entry :: "live \<Rightarrow> deployed \<Rightarrow> report_entry" where
  "classify_entry L x =
     (let c = \<lparr>re_target = de_target x, re_source = de_source x, re_project = de_project x, re_layer = de_layer x,
               re_scope = de_scope x, re_action = de_action x, re_state = StateLinked, re_repair = [],
               re_message = []\<rparr>
      in if de_action x = ''file.link'' then classify_link L x c else classify_copied L x c)"

section \<open>Layers\<close>

datatype layer_state = Registered | Unregistered | Broken | Unreadable

record registration =
  rg_name :: string
  rg_path :: string
  rg_link :: bool
  rg_target :: string
  rg_root :: string
  rg_state :: layer_state

text \<open>\<open>stat_dir\<close> is whether \<open>os.Stat\<close> finds a directory, \<open>stat_there\<close> whether it finds anything, \<open>eval_links\<close> \<open>filepath.EvalSymlinks\<close>.\<close>

record layer_probe =
  lp_stat_dir :: "string \<Rightarrow> bool"
  lp_stat_there :: "string \<Rightarrow> bool"
  lp_eval_links :: "string \<Rightarrow> string option"

definition is_working_tree :: "layer_probe \<Rightarrow> string \<Rightarrow> bool" where
  "is_working_tree P root \<longleftrightarrow> lp_stat_dir P root \<and> lp_stat_there P (join_path [root, ''.git''])"

definition read_layer :: "live \<Rightarrow> layer_probe \<Rightarrow> string \<Rightarrow> string \<Rightarrow> registration" where
  "read_layer L P layers_dir name =
     (let p = join_path [layers_dir, name];
          r = \<lparr>rg_name = name, rg_path = p, rg_link = False, rg_target = [], rg_root = [], rg_state = Unregistered\<rparr>
      in case lv_lstat L p of
           LGone \<Rightarrow> r
         | LFailed \<Rightarrow> r\<lparr>rg_state := Unreadable\<rparr>
         | LThere False dir \<Rightarrow>
             if \<not> dir then r\<lparr>rg_target := p, rg_state := Broken\<rparr>
             else if is_working_tree P p then r\<lparr>rg_target := p, rg_root := p, rg_state := Registered\<rparr>
             else r
         | LThere True dir \<Rightarrow>
             (case lv_readlink L p of
                None \<Rightarrow> r\<lparr>rg_link := True, rg_state := Unreadable\<rparr>
              | Some target \<Rightarrow>
                  (case lp_eval_links P p of
                     None \<Rightarrow> r\<lparr>rg_link := True, rg_target := target, rg_state := Broken\<rparr>
                   | Some root \<Rightarrow>
                       if \<not> is_working_tree P root then r\<lparr>rg_link := True, rg_target := target, rg_state := Broken\<rparr>
                       else r\<lparr>rg_link := True, rg_target := target, rg_root := root, rg_state := Registered\<rparr>)))"

record layer_status =
  ly_name :: string
  ly_path :: string
  ly_state :: string
  ly_target :: string

definition layer_status_of :: "registration \<Rightarrow> layer_status" where
  "layer_status_of r =
     (let s = \<lparr>ly_name = rg_name r, ly_path = rg_path r, ly_state = [], ly_target = []\<rparr> in
      if rg_state r = Unregistered then s\<lparr>ly_state := ''absent''\<rparr>
      else if rg_state r \<noteq> Registered then s\<lparr>ly_state := ''broken-link''\<rparr>
      else if rg_link r then s\<lparr>ly_state := ''link'', ly_target := rg_root r\<rparr>
      else s\<lparr>ly_state := ''directory''\<rparr>)"

definition layer_statuses :: "live \<Rightarrow> layer_probe \<Rightarrow> string \<Rightarrow> layer_status list" where
  "layer_statuses L P layers_dir =
     map (\<lambda>name. layer_status_of (read_layer L P layers_dir name)) [''base'', ''team'', ''personal'']"

section \<open>The report\<close>

record report =
  rp_layers :: "layer_status list"
  rp_entries :: "report_entry list"
  rp_packages :: "package_record list"
  rp_runs :: nat
  rp_findings :: "string list"

definition wanted_entries :: "string list \<Rightarrow> inventory \<Rightarrow> deployed list" where
  "wanted_entries projects iv =
     filter (\<lambda>x. projects = [] \<or> de_project x \<in> set projects) (map snd (in_entries iv))"

definition report_of :: "live \<Rightarrow> layer_probe \<Rightarrow> string \<Rightarrow> string list \<Rightarrow> inventory \<Rightarrow> report" where
  "report_of L P layers_dir projects iv =
     \<lparr>rp_layers = layer_statuses L P layers_dir,
      rp_entries = sort_key re_target (map (classify_entry L) (wanted_entries projects iv)),
      rp_packages = in_packages iv, rp_runs = in_runs iv, rp_findings = in_findings iv\<rparr>"

text \<open>\<open>BuildReport\<close>; a missing deployment is reported with the exit code \<open>ExitNoInput\<close>, which the error carries.\<close>

definition build_report ::
  "live \<Rightarrow> layer_probe \<Rightarrow> string \<Rightarrow> string list \<Rightarrow> (gerror, inventory) result option \<Rightarrow> (bool \<times> gerror, report) result option"
where
  "build_report L P layers_dir projects folded =
     map_option (\<lambda>f. case f of
         Inl e \<Rightarrow> Inl (err_is ErrNotExist e, e)
       | Inr iv \<Rightarrow> Inr (report_of L P layers_dir projects iv)) folded"

definition drift_count :: "report \<Rightarrow> nat" where
  "drift_count r = length (filter (\<lambda>x. re_state x \<noteq> StateLinked \<and> re_state x \<noteq> StateCopied) (rp_entries r))"

definition has_drift :: "report \<Rightarrow> bool" where
  "has_drift r \<longleftrightarrow> drift_count r > 0"

section \<open>The conflict pre-flight\<close>

text \<open>\<open>plannedTargets\<close>; the second, checked conversion of a target forgives what \<open>stringField\<close> asserts.\<close>

definition planned_target :: "gvalue \<Rightarrow> string list" where
  "planned_target entry =
     (case Option.bind (map_fields entry) (\<lambda>fs. alookup fs ''target'') of
        Some v \<Rightarrow> (case v of VStr t \<Rightarrow> if t \<noteq> [] then [t] else [] | _ \<Rightarrow> [])
      | None \<Rightarrow> [])"

definition planned_targets :: "graph_origin \<Rightarrow> string list" where
  "planned_targets origin =
     (case Option.bind (alookup (go_annotations origin) ''files'') map_fields of
        None \<Rightarrow> []
      | Some raw \<Rightarrow> remdups (concat (map (planned_target \<circ> snd) raw)))"

datatype conflict_choice = ChooseStop | ChooseSkip | ChooseReplace

definition violations :: "live \<Rightarrow> inventory \<Rightarrow> graph_origin list \<Rightarrow> string list" where
  "violations L iv origins =
     filter (\<lambda>t. lv_lstat L t \<noteq> LGone \<and>
                 (case alookup (in_entries iv) t of Some x \<Rightarrow> \<not> as_recorded L x | None \<Rightarrow> True))
       (concat (map planned_targets origins))"

definition refusal_message :: "string list \<Rightarrow> string" where
  "refusal_message vs =
     ''refusing to deploy over '' @ show_nat (length vs)
     @ '' occupied target(s) not recognized as writ's own unmodified output:'' @ [CHR 0x0A] @ ''  ''
     @ join_with (CHR 0x0A # ''  '') vs @ [CHR 0x0A]
     @ ''use --conflict=replace to archive-and-overwrite them, or --conflict=skip to leave them''"

definition preflight_conflicts ::
  "live \<Rightarrow> conflict_choice \<Rightarrow> (gerror, inventory) result \<Rightarrow> graph_origin list \<Rightarrow> conflict_choice \<times> gerror option"
where
  "preflight_conflicts L choice folded origins =
     (if choice \<noteq> ChooseStop then (choice, None)
      else
        (case (case folded of Inl e \<Rightarrow> if err_is ErrNotExist e then Inr empty_inventory else Inl e | Inr iv \<Rightarrow> Inr iv) of
           Inl e \<Rightarrow> (ChooseStop, Some e)
         | Inr iv \<Rightarrow>
             (let vs = violations L iv origins in
              if vs \<noteq> [] then (ChooseStop, Some (ENew (refusal_message (sort vs))))
              else (ChooseReplace, None))))"

section \<open>Decommission\<close>

definition select_entries :: "inventory \<Rightarrow> string list \<Rightarrow> deployed list" where
  "select_entries iv projects = filter (\<lambda>x. de_project x \<in> set projects) (map snd (in_entries iv))"

definition scope_order :: "string \<Rightarrow> nat" where
  "scope_order scope = (if scope = ''system'' then 0 else if scope = ''home'' then 1 else 2)"

definition scopes_in_order :: "deployed list \<Rightarrow> string list" where
  "scopes_in_order xs = sort_key (\<lambda>s. (scope_order s, s)) (remdups (map de_scope xs))"

text \<open>\<open>sortGraphsByScope\<close> is stable and knows no order among the other scopes.\<close>

definition sort_graphs_by_scope :: "graph_origin list \<Rightarrow> graph_origin list" where
  "sort_graphs_by_scope gs = sort_key (\<lambda>g. scope_order (go_scope g)) gs"

end
