(* ===== verification/Reconcile_Laws.thy ===== *)
theory Reconcile_Laws
  imports Reconcile
begin

text \<open>
  What reconcile and the conflict pre-flight answer: a report without drift is a system that matches the record
  entry by entry, and a default deploy replaces only what the record vouches for.
\<close>

section \<open>Drift\<close>

text \<open>The system stands as the record says: the occupant is what was written, and its source still has the recorded content.\<close>

definition source_holds :: "live \<Rightarrow> deployed \<Rightarrow> string \<Rightarrow> bool" where
  "source_holds L x p =
     (case lv_read L p of
        None \<Rightarrow> False
      | Some content \<Rightarrow> de_recorded_source_digest x = [] \<or> lv_digest L content = de_recorded_source_digest x)"

definition faithful :: "live \<Rightarrow> deployed \<Rightarrow> bool" where
  "faithful L x =
     (if de_action x = ''file.link'' then as_recorded L x \<and> source_holds L x (de_target x)
      else lv_lstat L (de_target x) \<noteq> LGone \<and> (de_recorded_digest x = [] \<or> as_recorded L x) \<and>
           source_holds L x (de_source x))"

definition sound_state :: "report_state \<Rightarrow> bool" where
  "sound_state s \<longleftrightarrow> s = StateLinked \<or> s = StateCopied"

lemma recorded_link_is_there: "as_recorded L x \<Longrightarrow> de_action x = ''file.link'' \<Longrightarrow> lv_lstat L (de_target x) \<noteq> LGone"
  by (auto simp: as_recorded_def split: lstat_answer.splits)

lemma classify_sound: "sound_state (re_state (classify_entry L x)) \<longleftrightarrow> faithful L x"
  using recorded_link_is_there [of L x]
  by (auto simp: classify_entry_def classify_link_def classify_copied_def judged_def faithful_def source_holds_def
      sound_state_def Let_def split: option.splits)

lemma classify_target: "re_target (classify_entry L x) = de_target x"
  by (auto simp: classify_entry_def classify_link_def classify_copied_def judged_def Let_def split: option.splits)

lemma classify_repairs: "re_repair (classify_entry L x) = [] \<longleftrightarrow> faithful L x"
  using recorded_link_is_there [of L x]
  by (auto simp: classify_entry_def classify_link_def classify_copied_def judged_def faithful_def source_holds_def
      Let_def split: option.splits)

text \<open>C31: A reconcile report holds each entry of the record that the projects select once, sorted by target; it has no drift
  exactly when every one of them stands on the system as the record says, and an entry names a repair
  exactly when it does not.\<close>

theorem reconcile_is_exact:
  "mset (map re_target (rp_entries (report_of L P dir projects iv))) = mset (map de_target (wanted_entries projects iv)) \<and>
   sorted (map re_target (rp_entries (report_of L P dir projects iv))) \<and>
   (has_drift (report_of L P dir projects iv) \<longleftrightarrow> \<not> list_all (faithful L) (wanted_entries projects iv)) \<and>
   mset (map (\<lambda>x. (re_target x, re_repair x = [])) (rp_entries (report_of L P dir projects iv))) =
     mset (map (\<lambda>x. (de_target x, faithful L x)) (wanted_entries projects iv))"
proof -
  let ?es = "rp_entries (report_of L P dir projects iv)" and ?xs = "wanted_entries projects iv"
  have es: "mset ?es = mset (map (classify_entry L) ?xs)" by (simp add: report_of_def)
  have "has_drift (report_of L P dir projects iv) \<longleftrightarrow> (\<exists>x \<in> set ?es. \<not> sound_state (re_state x))"
    by (auto simp: has_drift_def drift_count_def sound_state_def filter_empty_conv)
  also have "set ?es = classify_entry L ` set ?xs" using mset_eq_setD [OF es] by simp
  finally have "has_drift (report_of L P dir projects iv) \<longleftrightarrow> \<not> list_all (faithful L) ?xs"
    by (auto simp: classify_sound list_all_iff)
  moreover have "sorted (map re_target ?es)" by (simp add: report_of_def)
  ultimately show ?thesis
    using es by (simp add: image_mset.compositionality comp_def classify_target classify_repairs)
qed

section \<open>The pre-flight\<close>

text \<open>A target is free, or what stands there is what the last effective unit of the record's runs wrote.\<close>

definition free_or_own :: "live \<Rightarrow> record_event list \<Rightarrow> string \<Rightarrow> bool" where
  "free_or_own L evs t \<longleftrightarrow>
     lv_lstat L t = LGone \<or> (\<exists>x. last_deploys evs x \<and> de_target x = t \<and> as_recorded L x)"

lemma violations_are_foreign:
  assumes "in_entries iv = fold apply_event evs []"
  shows "violations L iv origins = filter (\<lambda>t. \<not> free_or_own L evs t) (concat (map planned_targets origins))"
proof -
  have "alookup (in_entries iv) t = Some x \<longleftrightarrow> last_deploys evs x \<and> de_target x = t" for t x
    unfolding assms by (rule fold_apply_event)
  moreover have "(case m of Some x \<Rightarrow> \<not> as_recorded L x | None \<Rightarrow> True) \<longleftrightarrow> \<not> (\<exists>x. m = Some x \<and> as_recorded L x)" for m
    by (cases m) simp_all
  ultimately have "(case alookup (in_entries iv) t of Some x \<Rightarrow> \<not> as_recorded L x | None \<Rightarrow> True) \<longleftrightarrow>
      \<not> (\<exists>x. last_deploys evs x \<and> de_target x = t \<and> as_recorded L x)" for t
    by (simp only: conj_assoc)
  then show ?thesis by (simp add: violations_def free_or_own_def)
qed

lemma fold_record_events:
  assumes "fold_record faults st home environment D = Some (Inr iv)" "current_lifetime faults st = Inr l"
  shows "in_entries iv = fold apply_event (record_events D (lt_runs l)) []"
  using assms fold_runs_events by (fastforce simp: fold_record_def empty_inventory_def split: option.splits)

text \<open>C32: under the default policy a deploy over the folded record is cleared to replace exactly when every
  planned target is free or holds, unmodified, what the last effective unit of the current lifetime's runs
  wrote there; otherwise it stops with an error that lists exactly the targets that are neither, sorted. If
  there is no record, nothing counts as writ's own; if it cannot be read for another reason, the deploy
  stops with that error.\<close>

theorem deploy_replaces_only_its_own:
  assumes "fold_record faults st home environment D = Some folded"
  shows "preflight_conflicts L ChooseStop folded origins =
    (let evs = (case (folded, current_lifetime faults st) of (Inr iv, Inr l) \<Rightarrow> record_events D (lt_runs l) | _ \<Rightarrow> []);
         foreign = filter (\<lambda>t. \<not> free_or_own L evs t) (concat (map planned_targets origins))
     in case folded of
          Inl e \<Rightarrow>
            if \<not> err_is ErrNotExist e then (ChooseStop, Some e)
            else if foreign = [] then (ChooseReplace, None)
            else (ChooseStop, Some (ENew (refusal_message (sort foreign))))
        | Inr iv \<Rightarrow>
            if foreign = [] then (ChooseReplace, None)
            else (ChooseStop, Some (ENew (refusal_message (sort foreign)))))"
proof (cases folded)
  case (Inl e)
  have "violations L empty_inventory origins = filter (\<lambda>t. \<not> free_or_own L [] t) (concat (map planned_targets origins))"
    by (rule violations_are_foreign) (simp add: empty_inventory_def)
  then show ?thesis by (simp add: preflight_conflicts_def Inl Let_def)
next
  case (Inr iv)
  then obtain l where l: "current_lifetime faults st = Inr l"
    using assms by (auto simp: fold_record_def split: sum.splits)
  from violations_are_foreign [OF fold_record_events [OF assms [unfolded Inr] l], of L origins]
  show ?thesis by (simp add: preflight_conflicts_def Inr l Let_def)
qed

text \<open>The link of the demo record stands as it was written, and nothing stands at the other targets.\<close>

definition demo_live :: live where
  "demo_live =
     \<lparr>lv_lstat = (\<lambda>t. if t = ''/home/u/.profile'' then LThere True False else LGone),
      lv_readlink = (\<lambda>t. Some ''/base/.profile''), lv_read = (\<lambda>t. None), lv_digest = (\<lambda>s. s)\<rparr>"

theorem deploy_replaces_only_its_own_witness:
  "preflight_conflicts demo_live ChooseStop (Inr demo_inventory) [demo_origin] = (ChooseReplace, None) \<and>
   (\<exists>l. current_lifetime no_faults (snd demo_first) = Inr l \<and>
      free_or_own demo_live (record_events demo_documents (lt_runs l)) ''/home/u/.profile'')"
proof -
  have run: "preflight_conflicts demo_live ChooseStop (Inr demo_inventory) [demo_origin] = (ChooseReplace, None)"
    "''/home/u/.profile'' \<in> set (concat (map planned_targets [demo_origin]))"
    by code_simp+
  obtain l where l: "current_lifetime no_faults (snd demo_first) = Inr l"
    using demo_folded by (auto simp: fold_record_def split: sum.splits)
  from deploy_replaces_only_its_own [OF demo_folded, of demo_live "[demo_origin]"] run(1) l
  have "filter (\<lambda>t. \<not> free_or_own demo_live (record_events demo_documents (lt_runs l)) t)
      (concat (map planned_targets [demo_origin])) = []"
    by (simp add: Let_def split: if_splits)
  with run l show ?thesis unfolding filter_empty_conv by blast
qed

section \<open>Scopes and layers\<close>

text \<open>Removal goes through every scope once, the system's first, then the home's, then the rest by name.\<close>

lemma scopes_removed_in_order:
  "set (scopes_in_order xs) = de_scope ` set xs" "distinct (scopes_in_order xs)"
  "sorted (map scope_order (scopes_in_order xs))"
proof -
  have "sorted (map (\<lambda>s. (scope_order s, s)) (scopes_in_order xs))" by (simp add: scopes_in_order_def)
  then show "sorted (map scope_order (scopes_in_order xs))"
    unfolding sorted_map by (rule sorted_wrt_mono_rel [rotated]) (auto simp: less_eq_prod_def)
qed (simp_all add: scopes_in_order_def)

text \<open>A layer is registered exactly at the root of a working tree: its entry's, or what its link resolves to.\<close>

lemma registered_layers_are_working_trees:
  assumes "rg_state (read_layer L P dir name) = Registered"
  shows "is_working_tree P (rg_root (read_layer L P dir name)) \<and>
     (rg_root (read_layer L P dir name) = rg_path (read_layer L P dir name) \<or>
      lp_eval_links P (rg_path (read_layer L P dir name)) = Some (rg_root (read_layer L P dir name)))"
  using assms by (auto simp: read_layer_def Let_def split: lstat_answer.splits bool.splits option.splits if_splits)

section \<open>A skipped deploy, decommissioned\<close>

text \<open>
  The occupant a deploy was told to skip is in the record (\<open>Record_Laws\<close>), so decommissioning its project selects
  it, whatever its content: only its kind is claimed.
\<close>

theorem skipped_occupant_is_selected:
  assumes "last_deploys (record_events D (lt_runs l)) x"
    and "fold_record no_faults st home None D = Some (Inr iv)" "current_lifetime no_faults st = Inr l"
    and "de_project x \<in> set projects"
  shows "x \<in> set (select_entries iv projects)"
proof -
  note fold_record_events [OF assms(2,3)]
  then have "alookup (in_entries iv) (de_target x) = Some x" using assms(1) by (simp add: fold_apply_event)
  then show ?thesis using assms(4) map_of_SomeD by (force simp: select_entries_def)
qed

end
