(* ===== verification/Archive.thy ===== *)
theory Archive
  imports File_Provider
begin

text \<open>
  The archive provider (\<open>pkg/op/provider/archive/provider.go\<close>): the detection of a format, the tar and
  the zip reader as entry iterators, the guard every entry name passes, and the extraction, which makes one
  file mutation per entry and records its receipt. The decoders (\<open>archive/tar\<close>, \<open>archive/zip\<close>, the
  decompressors) are given by the headers they yield, \<open>SecureJoin\<close> is an argument, and a path below the
  session root stands for its absolute form.
\<close>

section \<open>Formats\<close>

datatype archive_format =
  FormatUnknown | FormatGzip | FormatBzip2 | FormatXz | FormatZstd | FormatZip | FormatTar

definition bytes_of :: "nat list \<Rightarrow> string" where
  "bytes_of ns = map char_of ns"

definition header_sniff_len :: nat where
  "header_sniff_len = 262"

definition tar_magic_offset :: nat where
  "tar_magic_offset = 257"

definition magic_table :: "(archive_format \<times> nat \<times> string) list" where
  "magic_table =
     [(FormatGzip, 0, bytes_of [0x1F, 0x8B]),
      (FormatBzip2, 0, ''BZh''),
      (FormatXz, 0, bytes_of [0xFD, 0x37, 0x7A, 0x58, 0x5A, 0x00]),
      (FormatZstd, 0, bytes_of [0x28, 0xB5, 0x2F, 0xFD]),
      (FormatZip, 0, bytes_of [0x50, 0x4B, 0x03, 0x04]),
      (FormatZip, 0, bytes_of [0x50, 0x4B, 0x05, 0x06]),
      (FormatZip, 0, bytes_of [0x50, 0x4B, 0x07, 0x08]),
      (FormatTar, tar_magic_offset, ''ustar'')]"

fun match_in :: "(archive_format \<times> nat \<times> string) list \<Rightarrow> string \<Rightarrow> archive_format" where
  "match_in [] header = FormatUnknown"
| "match_in ((f, offset, magic) # rows) header =
     (let end = offset + length magic in
      if end \<le> length header \<and> take (length magic) (drop offset header) = magic then f
      else match_in rows header)"

definition match_format :: "string \<Rightarrow> archive_format" where
  "match_format header = match_in magic_table header"

text \<open>\<open>detectFormat\<close>: what can be read of the first bytes, unless reading or rewinding fails.\<close>

definition detect_format :: "(gerror, string) result \<Rightarrow> gerror option \<Rightarrow> (gerror, archive_format) result" where
  "detect_format contents rewind =
     (case contents of
        Inl e \<Rightarrow> Inl e
      | Inr s \<Rightarrow>
          (case rewind of Some e \<Rightarrow> Inl e | None \<Rightarrow> Inr (match_format (take header_sniff_len s))))"

fun format_string :: "archive_format \<Rightarrow> string" where
  "format_string FormatGzip = ''gzip''"
| "format_string FormatBzip2 = ''bzip2''"
| "format_string FormatXz = ''xz''"
| "format_string FormatZstd = ''zstd''"
| "format_string FormatZip = ''zip''"
| "format_string FormatTar = ''tar''"
| "format_string FormatUnknown = ''unknown''"

section \<open>Entries\<close>

datatype entry_kind = EntryFile | EntryDir | EntrySymlink | EntryHardlink

text \<open>The body of a file entry is what its reader yields.\<close>

record archive_entry =
  ae_name :: string
  ae_mode :: file_mode
  ae_kind :: entry_kind
  ae_linkname :: string
  ae_body :: string

text \<open>\<open>io.EOF\<close>.\<close>

definition io_eof :: gerror where
  "io_eof = ENew ''EOF''"

section \<open>The tar reader\<close>

record tar_header =
  th_name :: string
  th_mode :: int
  th_typeflag :: char
  th_linkname :: string
  th_body :: string

text \<open>What the decoder still yields: the headers to come and the error after the last one.\<close>

record tar_reader =
  tr_format :: archive_format
  tr_saw_entry :: bool
  tr_headers :: "tar_header list"
  tr_last :: gerror

definition tar_typeflag_name :: "char \<Rightarrow> string" where
  "tar_typeflag_name c =
     (if c = CHR ''3'' then ''character device''
      else if c = CHR ''4'' then ''block device''
      else if c = CHR ''6'' then ''FIFO''
      else ''unknown'')"

definition diagnose :: "tar_reader \<Rightarrow> gerror \<Rightarrow> gerror" where
  "diagnose r e =
     (if tr_format r \<noteq> FormatTar \<and> \<not> tr_saw_entry r then
        (if err_is io_eof e then
           ENew (''archive: '' @ format_string (tr_format r) @ ''-compressed payload is empty ''
             @ bytes_of [0xE2, 0x80, 0x94] @ '' not a tar archive'')
         else wrapf (''archive: '' @ format_string (tr_format r) @ ''-compressed payload is not a tar archive: '') e)
      else if err_is io_eof e then io_eof
      else wrapf (''archive: '' @ format_string (tr_format r) @ '' tar: '') e)"

definition plain_entry :: "string \<Rightarrow> file_mode \<Rightarrow> archive_entry" where
  "plain_entry name mode =
     \<lparr>ae_name = name, ae_mode = mode, ae_kind = EntryFile, ae_linkname = [], ae_body = []\<rparr>"

definition tar_entry :: "tar_header \<Rightarrow> (gerror, archive_entry) result" where
  "tar_entry h =
     (let e = plain_entry (th_name h) (of_int (th_mode h) AND perms 7 7 7) in
      if th_typeflag h = CHR ''5'' then Inr (e\<lparr>ae_kind := EntryDir\<rparr>)
      else if th_typeflag h = CHR ''0'' then Inr (e\<lparr>ae_body := th_body h\<rparr>)
      else if th_typeflag h = CHR ''2'' then Inr (e\<lparr>ae_kind := EntrySymlink, ae_linkname := th_linkname h\<rparr>)
      else if th_typeflag h = CHR ''1'' then Inr (e\<lparr>ae_kind := EntryHardlink, ae_linkname := th_linkname h\<rparr>)
      else Inl (ENew (''archive: entry '' @ quote (th_name h) @ '': unsupported tar entry kind ''
             @ tar_typeflag_name (th_typeflag h)
             @ '' (typeflag '' @ [CHR 0x27, th_typeflag h, CHR 0x27] @ '')'')))"

definition tar_next :: "tar_reader \<Rightarrow> (gerror, archive_entry) result \<times> tar_reader" where
  "tar_next r =
     (case tr_headers r of
        [] \<Rightarrow> (Inl (diagnose r (tr_last r)), r)
      | h # hs \<Rightarrow> (tar_entry h, r\<lparr>tr_saw_entry := True, tr_headers := hs\<rparr>))"

section \<open>The zip reader\<close>

text \<open>A file of the central directory: its mode with the type bits, whether the name or the mode makes it a
  directory, whether it opens, what its body holds, and what goes wrong when a link's body is read. Reading a
  file's body is the copy's business: a failure there is one of the world's failures to come.\<close>

record zip_file =
  zf_name :: string
  zf_mode :: file_mode
  zf_is_dir :: bool
  zf_open :: "gerror option"
  zf_body :: string
  zf_target_error :: "gerror option"

definition mode_symlink :: file_mode where
  "mode_symlink = push_bit 27 1"

definition zip_entry :: "zip_file \<Rightarrow> (gerror, archive_entry) result" where
  "zip_entry f =
     (let e = plain_entry (zf_name f) (zf_mode f) in
      if zf_is_dir f then Inr (e\<lparr>ae_kind := EntryDir\<rparr>)
      else
        (case zf_open f of
           Some err \<Rightarrow> Inl err
         | None \<Rightarrow>
             if zf_mode f AND mode_symlink \<noteq> 0 then
               (case zf_target_error f of
                  Some err \<Rightarrow> Inl (wrapf (''archive: entry '' @ quote (zf_name f) @ '': read zip symlink target: '') err)
                | None \<Rightarrow> Inr (e\<lparr>ae_kind := EntrySymlink, ae_linkname := zf_body f\<rparr>))
             else Inr (e\<lparr>ae_body := zf_body f\<rparr>)))"

definition zip_next :: "zip_file list \<Rightarrow> (gerror, archive_entry) result \<times> zip_file list" where
  "zip_next fs = (case fs of [] \<Rightarrow> (Inl io_eof, []) | f # rest \<Rightarrow> (zip_entry f, rest))"

section \<open>Readers\<close>

datatype archive_reader = TarReader tar_reader | ZipReader "zip_file list"

fun next_entry :: "archive_reader \<Rightarrow> (gerror, archive_entry) result \<times> archive_reader" where
  "next_entry (TarReader r) = (case tar_next r of (x, r') \<Rightarrow> (x, TarReader r'))"
| "next_entry (ZipReader fs) = (case zip_next fs of (x, fs') \<Rightarrow> (x, ZipReader fs'))"

fun entries_left :: "archive_reader \<Rightarrow> nat" where
  "entries_left (TarReader r) = length (tr_headers r)"
| "entries_left (ZipReader fs) = length fs"

lemma next_entry_left: "next_entry r = (Inr e, r') \<Longrightarrow> entries_left r' < entries_left r"
  by (cases r) (auto simp: tar_next_def zip_next_def split: list.splits)

section \<open>The guard of a name\<close>

text \<open>What does not change in an extraction. \<open>SecureJoin\<close> answers on the tree as it stands; the \<open>n\<close>th commit
  may fail to mint an identifier.\<close>

record extractor =
  xt_session :: session
  xt_methods :: "tree \<Rightarrow> resource_methods"
  xt_caller :: string
  xt_secure_join :: "tree \<Rightarrow> path \<Rightarrow> string \<Rightarrow> (gerror, path) result"
  xt_commit :: "nat \<Rightarrow> gerror option"

definition contained_target :: "extractor \<Rightarrow> tree \<Rightarrow> path \<Rightarrow> string \<Rightarrow> (gerror, path) result" where
  "contained_target X t pre name =
     (let cleaned = clean_path name; entry = ''archive: entry '' @ quote name in
      if is_abs cleaned \<or> cleaned = ''..'' \<or> has_prefix cleaned ''../'' then
        Inl (ENew (entry @ '' escapes the extraction prefix''))
      else
        (let lexical = pre @ elements cleaned in
         case xt_secure_join X t pre cleaned of
           Inl e \<Rightarrow> Inl (wrapf (entry @ '': resolve against '' @ quote (absolute (xt_session X) pre) @ '': '') e)
         | Inr resolved \<Rightarrow>
             if resolved \<noteq> lexical then
               Inl (ENew (entry @ '': path traverses a symlink (resolves to '' @ quote (absolute (xt_session X) resolved)
                      @ '', not '' @ quote (absolute (xt_session X) lexical) @ '')''))
             else Inr lexical))"

section \<open>One entry\<close>

text \<open>The code returns the error alone when an entry fails, whether it was refused before the file provider
  was called or the provider's call failed, whose receipt is dropped. The model tells the two apart.\<close>

datatype entry_outcome =
  Extracted "product option" "file_receipt option" | Refused gerror | Broken gerror

definition settled_call :: "string \<Rightarrow> file_outcome \<times> world \<Rightarrow> entry_outcome \<times> world" where
  "settled_call context run =
     (case run of ((pr, rc, err), w) \<Rightarrow>
        (case err of Some e \<Rightarrow> (Broken (wrapf context e), w) | None \<Rightarrow> (Extracted pr rc, w)))"

definition context_of :: "extractor \<Rightarrow> string \<Rightarrow> path \<Rightarrow> string" where
  "context_of X verb target = ''archive: '' @ verb @ '' '' @ quote (absolute (xt_session X) target) @ '': ''"

text \<open>\<open>WriteFile\<close> from a handle whose content cannot be read, a directory's: the target is staged and opened
  before the copy fails.\<close>

definition write_unreadable :: "session \<Rightarrow> string \<Rightarrow> path \<Rightarrow> file_mode \<Rightarrow> world \<Rightarrow> file_outcome \<times> world" where
  "write_unreadable S caller p mode w =
     (case new_entry caller RegularKind p w of
        (Inl e, w1) \<Rightarrow> ((None, None, Some e), w1)
      | (Inr r, w1) \<Rightarrow>
          (case stage_write S p w1 of
             (Inl e, w2) \<Rightarrow> (unstaged e, w2)
           | (Inr rc, w2) \<Rightarrow>
               (case open_create S p mode w2 of
                  (Inl e, w3) \<Rightarrow> ((Some (r, p), Some rc, Some e), w3)
                | (Inr q, w3) \<Rightarrow> ((Some (r, p), Some rc, Some (ENew ''is a directory'')), w3))))"

definition copy_hardlink_entry ::
  "extractor \<Rightarrow> path \<Rightarrow> archive_entry \<Rightarrow> path \<Rightarrow> world \<Rightarrow> entry_outcome \<times> world"
where
  "copy_hardlink_entry X pre e target w =
     (let S = xt_session X in
      case contained_target X (w_tree w) pre (ae_linkname e) of
        Inl err \<Rightarrow> (Refused err, w)
      | Inr referent \<Rightarrow>
          (case open_read S referent w of
             (Inl err, w1) \<Rightarrow>
               (Refused (wrapf (''archive: entry '' @ quote (ae_name e) @ '': hardlink referent ''
                  @ quote (ae_linkname e) @ '' is not extracted: '') err), w1)
           | (Inr (q, x), w1) \<Rightarrow>
               settled_call (context_of X ''hardlink copy'' target)
                 (case x of
                    Plain s m own \<Rightarrow> write_file S (xt_caller X) target s (ae_mode e) w1
                  | _ \<Rightarrow> write_unreadable S (xt_caller X) target (ae_mode e) w1)))"

definition extract_entry ::
  "extractor \<Rightarrow> path \<Rightarrow> archive_entry \<Rightarrow> path \<Rightarrow> world \<Rightarrow> entry_outcome \<times> world"
where
  "extract_entry X pre e target w =
     (let S = xt_session X; caller = xt_caller X in
      case ae_kind e of
        EntryDir \<Rightarrow> settled_call (context_of X ''mkdir'' target) (mkdir S (xt_methods X) caller target (ae_mode e) [] [] w)
      | EntryFile \<Rightarrow> settled_call (context_of X ''write'' target) (write_file S caller target (ae_body e) (ae_mode e) w)
      | EntrySymlink \<Rightarrow> settled_call (context_of X ''link'' target) (link_entry S caller (ae_linkname e) target True w)
      | EntryHardlink \<Rightarrow> copy_hardlink_entry X pre e target w)"

section \<open>The extraction\<close>

text \<open>The products and the receipts in extraction order, and the error that ended the loop with whether the
  provider or the commit had been reached.\<close>

record extraction =
  ex_products :: "product option list"
  ex_receipts :: "file_receipt list"
  ex_stop :: "(bool \<times> gerror) option"

definition extracted_so_far :: "product option list \<Rightarrow> file_receipt list \<Rightarrow> (bool \<times> gerror) option \<Rightarrow> extraction" where
  "extracted_so_far products receipts stop =
     \<lparr>ex_products = products, ex_receipts = receipts, ex_stop = stop\<rparr>"

text \<open>\<open>products\<close> after an entry.\<close>

definition add_product :: "archive_entry \<Rightarrow> product option \<Rightarrow> file_receipt option \<Rightarrow> product option list \<Rightarrow> product option list" where
  "add_product e pr rc products =
     (if pr = None \<and> rc = None \<or> ae_kind e = EntryDir then products else products @ [pr])"

function extract_loop ::
  "extractor \<Rightarrow> path \<Rightarrow> archive_reader \<Rightarrow> product option list \<Rightarrow> file_receipt list \<Rightarrow> world \<Rightarrow> extraction \<times> world"
where
  "extract_loop X pre reader products receipts w =
     (case next_entry reader of
        (Inl e, reader') \<Rightarrow>
          (extracted_so_far products receipts
             (if err_is io_eof e then None else Some (False, wrapf ''archive: read: '' e)), w)
      | (Inr e, reader') \<Rightarrow>
          (case contained_target X (w_tree w) pre (ae_name e) of
             Inl err \<Rightarrow> (extracted_so_far products receipts (Some (False, err)), w)
           | Inr target \<Rightarrow>
               (case extract_entry X pre e target w of
                  (Refused err, w1) \<Rightarrow> (extracted_so_far products receipts (Some (False, err)), w1)
                | (Broken err, w1) \<Rightarrow> (extracted_so_far products receipts (Some (True, err)), w1)
                | (Extracted pr rc, w1) \<Rightarrow>
                    (let products' = add_product e pr rc products in
                     case rc of
                       None \<Rightarrow> extract_loop X pre reader' products' receipts w1
                     | Some r \<Rightarrow>
                         (case xt_commit X (length receipts) of
                            Some err \<Rightarrow>
                              (extracted_so_far products' receipts
                                 (Some (True, wrapf (context_of X ''commit receipt'' target) err)), w1)
                          | None \<Rightarrow> extract_loop X pre reader' products' (receipts @ [r]) w1)))))"
  by pat_completeness auto

termination
  by (relation "measure (\<lambda>(X, pre, reader, products, receipts, w). entries_left reader)")
    (auto dest: next_entry_left [OF sym])

declare extract_loop.simps [simp del]

definition resolve_extract_prefix :: "session \<Rightarrow> path \<Rightarrow> world \<Rightarrow> (gerror, path) result \<times> world" where
  "resolve_extract_prefix S p w =
     (case discover_entry DirectoryKind p w of
        (Inl e, w1) \<Rightarrow> (Inl e, w1)
      | (Inr r, w1) \<Rightarrow>
          (case resolve_product S DirectoryKind p w1 of
             (Some e, w2) \<Rightarrow> (Inl e, w2)
           | (None, w2) \<Rightarrow>
               if file_exists S (w_tree w2) (w_heap w2 ! r) then (Inr p, w2)
               else (Inl (ENew (''prefix path is not an existing directory: '' @ show_path False p)), w2)))"

text \<open>The reader is closed on every path; a failure to close is joined to the error.\<close>

definition extract_entries ::
  "extractor \<Rightarrow> archive_reader \<Rightarrow> gerror option \<Rightarrow> path \<Rightarrow> world \<Rightarrow> (extraction \<times> gerror option) \<times> world"
where
  "extract_entries X reader closing p w =
     (let closed = (\<lambda>err. join_errors ((case err of None \<Rightarrow> [] | Some e \<Rightarrow> [e]) @ (case closing of None \<Rightarrow> [] | Some e \<Rightarrow> [e]))) in
      case resolve_extract_prefix (xt_session X) p w of
        (Inl e, w1) \<Rightarrow> ((extracted_so_far [] [] (Some (False, e)), closed (Some e)), w1)
      | (Inr pre, w1) \<Rightarrow>
          (case extract_loop X pre reader [] [] w1 of
             (ex, w2) \<Rightarrow> ((ex, closed (map_option snd (ex_stop ex))), w2)))"

section \<open>The actions\<close>

text \<open>\<open>tarReaderFor\<close> and \<open>newZipArchiveReader\<close> over the bytes: the reader, or what the decoder says of the
  header. The decoders are an argument; a format outside the tar family and zip is refused.\<close>

type_synonym decoder = "archive_format \<Rightarrow> string \<Rightarrow> (gerror, archive_reader) result"

definition open_archive ::
  "session \<Rightarrow> decoder \<Rightarrow> gerror option \<Rightarrow> path \<Rightarrow> world \<Rightarrow> (gerror, archive_reader) result \<times> world"
where
  "open_archive S decode rewind source w =
     (case open_read S source w of
        (Inl e, w1) \<Rightarrow> (Inl e, w1)
      | (Inr (q, x), w1) \<Rightarrow>
          (let contents = (case x of Plain s m own \<Rightarrow> Inr s | _ \<Rightarrow> Inl (ENew ''is a directory'')) in
           case detect_format contents rewind of
             Inl e \<Rightarrow> (Inl (EJoin [wrapf (''archive: detect '' @ quote (absolute S source) @ '': '') e]), w1)
           | Inr f \<Rightarrow>
               if f = FormatUnknown then
                 (Inl (EJoin [ENew (''unsupported archive format: '' @ absolute S source)]), w1)
               else (decode f (case contents of Inl e \<Rightarrow> [] | Inr s \<Rightarrow> s), w1)))"

text \<open>A stream is read once: the sniffed bytes are put back before the rest. A zip is spooled to scratch first.\<close>

definition open_archive_stream :: "decoder \<Rightarrow> gerror option \<Rightarrow> (gerror, string) result \<Rightarrow> (gerror, archive_reader) result" where
  "open_archive_stream decode spooling stream =
     (case stream of
        Inl e \<Rightarrow> Inl (wrapf ''archive: sniff stream: '' e)
      | Inr s \<Rightarrow>
          (let f = match_format (take header_sniff_len s) in
           if f = FormatUnknown then Inl (ENew ''unsupported archive format on stream'')
           else if f = FormatZip then
             (case spooling of Some e \<Rightarrow> Inl (wrapf ''archive: spool zip stream: '' e) | None \<Rightarrow> decode f s)
           else decode f s))"

definition extract_archive ::
  "extractor \<Rightarrow> decoder \<Rightarrow> gerror option \<Rightarrow> gerror option \<Rightarrow> path \<Rightarrow> path \<Rightarrow> world
   \<Rightarrow> (extraction \<times> gerror option) \<times> world"
where
  "extract_archive X decode rewind closing source p w =
     (case open_archive (xt_session X) decode rewind source w of
        (Inl e, w1) \<Rightarrow> ((extracted_so_far [] [] (Some (False, e)), Some e), w1)
      | (Inr reader, w1) \<Rightarrow> extract_entries X reader closing p w1)"

definition extract_stream ::
  "extractor \<Rightarrow> decoder \<Rightarrow> gerror option \<Rightarrow> gerror option \<Rightarrow> (gerror, string) result \<Rightarrow> path \<Rightarrow> world
   \<Rightarrow> (extraction \<times> gerror option) \<times> world"
where
  "extract_stream X decode spooling closing stream p w =
     (case open_archive_stream decode spooling stream of
        Inl e \<Rightarrow> ((extracted_so_far [] [] (Some (False, e)), Some e), w)
      | Inr reader \<Rightarrow> extract_entries X reader closing p w)"

end
