(* ===== verification/File_Frame.thy ===== *)
theory File_Frame
  imports File_Mutations
begin

text \<open>
  Where a mutation of the file provider can change the disk: at its target and below it, by making
  the target's missing parents, and in the recovery site, whichever of its calls fail and whether or not it
  returns a receipt.
\<close>

definition in_site :: "path \<Rightarrow> bool" where
  "in_site k \<longleftrightarrow> scaffold k \<or> prefix recovery_dir k"

definition local_to :: "path \<Rightarrow> tree \<Rightarrow> tree \<Rightarrow> bool" where
  "local_to p t t' \<longleftrightarrow>
     (\<forall>k. look t' k = look t k \<or> prefix p k \<or> prefix k p \<and> look t k = None \<or> in_site k)"

lemma local_refl [simp]: "local_to p t t"
  by (simp add: local_to_def)

lemma local_trans: "local_to p t t1 \<Longrightarrow> local_to p t1 t2 \<Longrightarrow> local_to p t t2"
  unfolding local_to_def by metis

lemma local_view: "same_view t t' \<Longrightarrow> local_to p t t'"
  by (auto simp: same_view_def local_to_def in_site_def)

lemma local_touches: "touches p t t' \<Longrightarrow> local_to p t t'"
  by (auto simp: touches_def local_to_def)

lemma local_refolded: "refolded p w w' \<Longrightarrow> local_to p (w_tree w) (w_tree w')"
  by (auto simp: refolded_def local_to_def)

lemma local_adds: "adds_folders t q t' \<Longrightarrow> prefix q p \<Longrightarrow> local_to p t t'"
  unfolding adds_folders_def local_to_def by (meson prefix_order.trans)

lemma local_archived: "archived p i t t' \<Longrightarrow> local_to p t t'"
  unfolding local_to_def
proof
  fix k
  assume a: "archived p i t t'"
  have "prefix recovery_dir k" if "prefix (recovery_path i) k"
    using that by (auto simp: recovery_path_def dest: append_prefixD)
  with a show "look t' k = look t k \<or> prefix p k \<or> prefix k p \<and> look t k = None \<or> in_site k"
    by (cases "prefix (recovery_path i) k") (auto simp: archived_def in_site_def)
qed

lemma local_grown: "grown b p t t' \<Longrightarrow> local_to p t t'"
  unfolding local_to_def
proof
  fix k
  assume g: "grown b p t t'"
  have "prefix k p" if "prefix k (butlast p)"
    using that prefixeq_butlast [of p] by (rule prefix_order.trans)
  with g show "look t' k = look t k \<or> prefix p k \<or> prefix k p \<and> look t k = None \<or> in_site k"
    by (cases "k = p") (auto simp: grown_def)
qed

lemma local_grown_dir: "grown_dir b p t t' \<Longrightarrow> local_to p t t'"
  unfolding grown_dir_def local_to_def by blast

section \<open>Staging and filling\<close>

lemma archive_and_prune_local:
  assumes "ready S w" "aim (w_tree w) p" "archive_and_prune S p False bd w = (r, w')"
  shows "local_to p (w_tree w) (w_tree w')"
proof (cases r)
  case (Inl e)
  with archive_and_prune_fails [OF assms(1,2)] assms(3) show ?thesis by (simp add: local_view)
next
  case (Inr x)
  then obtain i d where "r = Inr (i, d)" by (cases x) auto
  with archive_and_prune_step [OF assms(1,2)] assms(3) show ?thesis by (blast intro: local_archived)
qed

lemma stage_write_local:
  assumes w: "ready S w" and p: "aim (w_tree w) p" and run: "stage_write S p w = (r, w')"
  shows "local_to p (w_tree w) (w_tree w')"
proof -
  have p': "ordinary p" "clear (w_tree w) p" "p \<noteq> []" using p by (simp_all add: aim_def ordinary_def)
  note seen = lstat_answered [OF ready_sane(2,1) [OF w] p'(2), of S]
  have dots: "''..'' \<notin> set (butlast p)" using ordinary_apart(6) [OF p'(1)] by (auto dest: in_set_butlastD)
  note fof = clear_fof_prefix [OF p'(2,3)]
  show ?thesis
  proof (cases "look (w_tree w) p")
    case None
    obtain f w1 where f: "find_closest_existing_dir S (butlast p) w = (f, w1)" by fastforce
    from find_closest_frame [OF ready_sane(2,1) [OF w] dots fof f] have w1: "w_tree w1 = w_tree w" by simp
    have "sane (w_tree w1)" using w w1 by (simp add: ready_def)
    from mkdir_all_step [OF this dots] fof w1
    have "local_to p (w_tree w) (w_tree w2)" if "mkdir_all S (butlast p) perm w1 = (e, w2)" for perm e w2
      using that by (metis local_adds prefixeq_butlast)
    with run seen None f w1 show ?thesis
      by (auto simp: stage_write_def split: prod.splits sum.splits option.splits)
  next
    case (Some x)
    obtain d w1 where d: "is_dir_and_not_empty S p w = (d, w1)" by fastforce
    from dir_probe_frame [OF d] have w1: "quiet w w1" "w_tree w1 = w_tree w" by simp_all
    have "local_to p (w_tree w) (w_tree w2)" if "archive_and_prune S p False None w1 = (a, w2)" for a w2
      using archive_and_prune_local [OF ready_quiet [OF w w1] _ that] p w1(2) by simp
    with run seen Some d w1(2) show ?thesis
      by (auto simp: stage_write_def split: prod.splits sum.splits option.splits conflict_policy.splits bool.splits)
  qed
qed

lemma filled_local:
  assumes w: "ready S w" and p: "aim (w_tree w) p" and s: "stage_write S p w = (Inr rc, w1)"
    and fill: "answered w1 \<Longrightarrow> vacant (w_tree w1) p \<Longrightarrow> fills p w1 w2"
  shows "local_to p (w_tree w) (w_tree w2)"
proof -
  have "fills p w1 w2" using staged_vacant [OF w p stage_write_step [OF w p s]] fill by simp
  then show ?thesis
    using stage_write_local [OF w p s] local_touches local_trans by (auto simp: fills_def)
qed

lemma write_file_local:
  assumes w: "ready S w" and p: "aim (w_tree w) p" and run: "write_file S u p src mode w = (out, w')"
  shows "local_to p (w_tree w) (w_tree w')"
proof -
  obtain n w1 where n: "new_entry u RegularKind p w = (n, w1)" by fastforce
  from new_entry_ready [OF n w] have w1: "ready S w1" "w_tree w1 = w_tree w" by simp_all
  have p1: "aim (w_tree w1) p" using p w1(2) by simp
  obtain s w2 where s: "stage_write S p w1 = (s, w2)" by fastforce
  obtain e w3 where f: "fill_file S p src mode [] [] w2 = (e, w3)" by fastforce
  show ?thesis
    using run n s f w1(2) stage_write_local [OF w1(1) p1 s] filled_local [OF w1(1) p1, of _ w2 w3] fill_file_step [OF _ f]
    by (cases n; cases s) (auto simp: write_file_def write_target_def)
qed

section \<open>Links\<close>

lemma place_link_local:
  assumes "ready S w" "vacant (w_tree w) (snd target)" "place_link S target stored verbatim rc w = (out, w')"
  shows "local_to (snd target) (w_tree w) (w_tree w')"
  using place_link_step [OF ready_vacant [OF assms(1)] assms(2), of S stored verbatim rc "fst out" "fst (snd out)" "snd (snd out)" w']
    assms(3) by (simp add: fills_def local_touches)

lemma link_free_local:
  assumes w: "ready S w" and p: "aim (w_tree w) (snd target)" "look (w_tree w) (snd target) = None"
    and run: "link_free S target stored verbatim w = (out, w')"
  shows "local_to (snd target) (w_tree w) (w_tree w')"
proof -
  let ?p = "snd target"
  have p': "ordinary ?p" "clear (w_tree w) ?p" "?p \<noteq> []" using p(1) by (simp_all add: aim_def ordinary_def)
  have dots: "''..'' \<notin> set (butlast ?p)" using ordinary_apart(6) [OF p'(1)] by (auto dest: in_set_butlastD)
  obtain f w1 where f: "find_closest_existing_dir S (butlast ?p) w = (f, w1)" by fastforce
  from find_closest_frame [OF ready_sane(2,1) [OF w] dots clear_fof_prefix [OF p'(2,3)] f]
  have w1: "w_tree w1 = w_tree w" by simp
  show ?thesis
  proof (cases f)
    case (Inl e)
    with run f w1 show ?thesis by (auto simp: link_free_def)
  next
    case (Inr y)
    then obtain r b x where r: "f = Inr ((r, b), x)" by (metis prod.collapse)
    obtain err w2 where m: "mkdir_all S (butlast ?p) (perms 7 5 0) w1 = (err, w2)" by fastforce
    from make_parent_step [OF w p f [unfolded r] m] have w2: "ready S w2" "grown b ?p (w_tree w) (w_tree w2)"
      "look (w_tree w2) ?p = None" "err = None \<longrightarrow> (\<exists>m o'. look (w_tree w2) (butlast ?p) = Some (Folder m o'))"
      by simp_all
    note l2 = local_grown [OF w2(2)]
    show ?thesis
    proof (cases err)
      case (Some e)
      with run f r m l2 show ?thesis by (auto simp: link_free_def Let_def)
    next
      case None
      have "vacant (w_tree w2) ?p"
        using w2 None p' grown_clear [OF w2(2) p'(2,3)] by (simp add: vacant_def ready_def)
      from place_link_local [OF w2(1) this] run f r m None local_trans [OF l2] show ?thesis
        by (auto simp: link_free_def Let_def)
    qed
  qed
qed

lemma link_occupied_local:
  assumes w: "ready S w" and p: "aim (w_tree w) (snd target)"
    and run: "link_occupied S target stored verbatim w = (out, w')"
  shows "local_to (snd target) (w_tree w) (w_tree w')"
proof -
  let ?p = "snd target"
  obtain a w1 where a: "archive_and_prune S ?p False None w = (a, w1)" by fastforce
  note l1 = archive_and_prune_local [OF w p a]
  show ?thesis
  proof (cases "write_conflict_policy S = ConflictReplace \<and> isl a = False")
    case True
    then obtain i d where r: "a = Inr (i, d)" by (cases a) auto
    from archive_and_prune_step [OF w p a [unfolded r]] obtain y where st: "ready S w1"
      "archived ?p i (w_tree w) (w_tree w1)" "look (w_tree w) ?p = Some y" by blast
    have "vacant (w_tree w1) ?p"
      by (rule archived_vacant [OF st(2) p st(3) ready_sane(1) [OF w] ready_sane(1) [OF st(1)]])
    from place_link_local [OF st(1) this] run a r True local_trans [OF l1] show ?thesis
      by (auto simp: link_occupied_def archive_occupant_eq)
  next
    case False
    with run a l1 show ?thesis
      by (cases a) (auto simp: link_occupied_def archive_occupant_eq split: conflict_policy.splits)
  qed
qed

lemma link_entry_local:
  assumes w: "ready S w" and p: "aim (w_tree w) p" and run: "link_entry S u source p verbatim w = (out, w')"
  shows "local_to p (w_tree w) (w_tree w')"
proof -
  obtain n w1 where n: "new_entry u SymbolicLinkKind p w = (n, w1)" by fastforce
  from new_entry_ready [OF n w] have w1: "ready S w1" "w_tree w1 = w_tree w" by simp_all
  have p1: "aim (w_tree w1) p" using p w1(2) by simp
  then have c: "clear (w_tree w1) p" by (simp add: aim_def)
  note seen = lstat_answered [OF ready_sane(2,1) [OF w1(1)] c, of S]
  have occ: "local_to p (w_tree w) (w_tree w2)" if "link_occupied S (r, p) stored verbatim w1 = (out, w2)" for r stored out w2
    using link_occupied_local [OF w1(1), of "(r, p)"] that p1 w1(2) by simp
  have free: "local_to p (w_tree w) (w_tree w2)"
    if "link_free S (r, p) stored verbatim w1 = (out, w2)" "look (w_tree w1) p = None" for r stored out w2
    using link_free_local [OF w1(1), of "(r, p)"] that p1 w1(2) by simp
  have still: "\<exists>b. existing_link_matches S p stored verbatim w1 = (b, w1)" for stored
    using link_matches_frame [OF _ ready_vacant [OF w1(1)]] by (metis prod.collapse)
  show ?thesis
  proof (cases "make_path (se_root S) [source]")
    case None
    with run show ?thesis by (auto simp: link_entry_def)
  next
    case (Some sp)
    let ?stored = "if verbatim then source else sp_abs sp"
    obtain b where "existing_link_matches S p ?stored verbatim w1 = (b, w1)" using still by blast
    with run n w1(2) seen occ free Some show ?thesis
      by (cases n; cases "look (w_tree w1) p"; cases b) (auto simp: link_entry_def Let_def split: if_splits)
  qed
qed

section \<open>Directories\<close>

lemma mkdir_leaf_local:
  assumes w: "ready S w" and p: "aim (w_tree w) p" "folder_or_free (w_tree w) p"
    and run: "mkdir_leaf S (r, p) mode user grp rc w = (out, w')"
  shows "local_to p (w_tree w) (w_tree w')"
proof -
  have p': "ordinary p" "clear (w_tree w) p" "''..'' \<notin> set p" using p(1) by (simp_all add: aim_def clear_def)
  obtain e1 w1 where m: "mkdir_all S p mode w = (e1, w1)" by fastforce
  from mkdir_all_step [OF ready_sane(1) [OF w] p'(3) fof_prefix [OF p'(2) p(2)] m]
  have a: "quiet w w1" "adds_folders (w_tree w) p (w_tree w1)"
    "e1 = None \<longrightarrow> (\<exists>m o'. look (w_tree w1) p = Some (Folder m o'))" by simp_all
  have l1: "local_to p (w_tree w) (w_tree w1)" by (rule local_adds [OF a(2) prefix_order.refl])
  have r1: "ready S w1" by (rule ready_adds [OF w a(1) p'(1) prefix_order.refl a(2)])
  show ?thesis
  proof (cases e1)
    case (Some e)
    with run m l1 show ?thesis by (auto simp: mkdir_leaf_def)
  next
    case None
    then obtain fm fo where f: "look (w_tree w1) p = Some (Folder fm fo)" using a(3) by blast
    obtain e2 w2 where o: "apply_ownership S p user grp w1 = (e2, w2)" by fastforce
    from own_folder_step [OF ready_sane(1) [OF r1] adds_folders_clear [OF a(2) p'(2)] f o]
    have re: "refolded p w1 w2" .
    note l2 = local_trans [OF l1 local_refolded [OF re]]
    have r2: "ready S w2" by (rule ready_refolded [OF r1 p'(1) re])
    obtain e3 w3 where k: "resolve_product S DirectoryKind p w2 = (e3, w3)" by fastforce
    from resolve_product_frame [OF k ready_vacant [OF r2]] run m None o k l2 show ?thesis
      by (auto simp: mkdir_leaf_def split: option.splits)
  qed
qed

lemma mkdir_claimed_local:
  assumes w: "ready S w" and p: "aim (w_tree w) p" "folder_or_free (w_tree w) p"
    and run: "mkdir_claimed S M u p mode user grp a w = (out, w')"
  shows "local_to p (w_tree w) (w_tree w')"
proof -
  have p': "ordinary p" "clear (w_tree w) p" "''..'' \<notin> set p" using p(1) by (simp_all add: aim_def clear_def)
  obtain f w1 where f: "find_closest_existing_dir S p w = (f, w1)" by fastforce
  from find_closest_frame [OF ready_sane(2,1) [OF w] p'(3) fof_prefix [OF p'(2) p(2)] f]
  have w1: "quiet w w1" "w_tree w1 = w_tree w" by simp_all
  have r1: "ready S w1" by (rule ready_quiet [OF w w1])
  obtain n w2 where n: "new_entry u DirectoryKind p w1 = (n, w2)" by fastforce
  from new_entry_ready [OF n r1] w1(2) have w2: "ready S w2" "w_tree w2 = w_tree w" by simp_all
  note leaf = mkdir_leaf_local [OF w2(1), of p]
  have fd: "w_tree w3 = w_tree w" if "found_directory S M b w1 = (out, w3)" for b w3
    using found_directory_frame [OF that] w1(2) by simp
  show ?thesis
    using run f n w1(2) w2(2) leaf fd p
    by (auto simp: mkdir_claimed_def split: sum.splits prod.splits if_splits)
qed

lemma mkdir_local:
  assumes w: "ready S w" and p: "aim (w_tree w) p" and run: "mkdir S M u p mode user grp w = (out, w')"
  shows "local_to p (w_tree w) (w_tree w')"
proof -
  have c: "clear (w_tree w) p" using p by (simp add: aim_def)
  note seen = lstat_answered [OF ready_sane(2,1) [OF w] c, of S]
  show ?thesis
  proof (cases "\<exists>x. look (w_tree w) p = Some x \<and> \<not> is_folder x")
    case True
    then obtain x where x: "look (w_tree w) p = Some x" "\<not> is_folder x" by blast
    obtain a w2 where a: "archive_mkdir_occupant S u p x w = (a, w2)" by fastforce
    obtain d w0 where d: "discover_of_mode p x w = (d, w0)" by fastforce
    from discover_of_mode_frame [OF d] have w0: "quiet w w0" "w_tree w0 = w_tree w" by simp_all
    have r0: "ready S w0" by (rule ready_quiet [OF w w0])
    obtain b w1 where b: "archive_and_prune S p False None w0 = (b, w1)" by fastforce
    have l1: "local_to p (w_tree w) (w_tree w1)"
      using archive_and_prune_local [OF r0 _ b] p w0(2) by simp
    have l2: "local_to p (w_tree w) (w_tree w2)"
      using a d b l1 w0(2) by (auto simp: archive_mkdir_occupant_def split: sum.splits prod.splits)
    show ?thesis
    proof (cases "\<exists>y. a = Inr y \<and> write_conflict_policy S = ConflictReplace")
      case False
      with run seen x a l2 show ?thesis
        by (auto simp: mkdir_def split: conflict_policy.splits sum.splits)
    next
      case True
      then obtain i d' where y: "a = Inr (i, d')" "write_conflict_policy S = ConflictReplace" by auto
      then obtain r where dr: "d = Inr r" "b = Inr (i, d')" "w2 = mark_entry_gone u r w1"
        using a d b by (auto simp: archive_mkdir_occupant_def split: sum.splits prod.splits)
      from archive_and_prune_step [OF r0 _ b [unfolded dr(2)]] p w0 x(1) have st: "ready S w1"
        "archived p i (w_tree w) (w_tree w1)" by (auto simp: quiet_def)
      have r2: "ready S w2" "w_tree w2 = w_tree w1" using mark_entry_gone_ready [OF st(1)] dr(3) by simp_all
      have "vacant (w_tree w2) p"
        using archived_vacant [OF st(2) p x(1) ready_sane(1) [OF w] ready_sane(1) [OF st(1)]] r2(2) by simp
      then have "aim (w_tree w2) p" "folder_or_free (w_tree w2) p"
        using p by (simp_all add: vacant_def aim_def folder_or_free_def)
      from mkdir_claimed_local [OF r2(1) this] run seen x a y local_trans [OF l2] show ?thesis
        by (auto simp: mkdir_def)
    qed
  next
    case False
    then have "folder_or_free (w_tree w) p" by (auto simp: folder_or_free_def split: option.splits)
    from mkdir_claimed_local [OF w p this] run seen False show ?thesis
      by (auto simp: mkdir_def split: option.splits)
  qed
qed

end
