(* ===== verification/Archive_Laws.thy ===== *)
theory Archive_Laws
  imports Archive File_Frame File_Saga
begin

text \<open>
  What an extraction promises: a name the guard lets through stays below the prefix, the disk changes nowhere
  but below the prefix and in the recovery site, and the receipts undo the extraction unless a mutation failed,
  whose receipt the provider drops.
\<close>

section \<open>Names\<close>

definition proper :: "string \<Rightarrow> bool" where
  "proper e \<longleftrightarrow> e \<noteq> [] \<and> e \<noteq> ''.'' \<and> slash \<notin> set e"

lemma elements_proper: "e \<in> set (elements s) \<Longrightarrow> proper e"
  using split_on_no_sep [of e slash s] by (auto simp: elements_def proper_def)

lemma elements_shown:
  assumes "\<And>e. e \<in> set es \<Longrightarrow> proper e"
  shows "elements (show_path False es) = es"
proof (cases "es = []")
  case False
  have "split_on slash (join_with [slash] es) = es" by (rule split_join [OF False]) (use assms in \<open>auto simp: proper_def\<close>)
  with False assms show ?thesis by (auto simp: elements_def show_path_def proper_def filter_id_conv)
qed (simp add: show_path_def elements_def)

text \<open>A cleaned relative path climbs first and then descends.\<close>

definition climbs_first :: "path \<Rightarrow> bool" where
  "climbs_first es \<longleftrightarrow> (\<exists>k ns. es = replicate k ''..'' @ ns \<and> ''..'' \<notin> set ns)"

lemma climbs_snoc: "climbs_first acc \<Longrightarrow> e \<noteq> ''..'' \<Longrightarrow> climbs_first (acc @ [e])"
  by (force simp: climbs_first_def)

lemma climbs_butlast:
  assumes "climbs_first acc" "acc \<noteq> []" "last acc \<noteq> ''..''"
  shows "climbs_first (butlast acc)"
proof -
  obtain k ns where a: "acc = replicate k ''..'' @ ns" "''..'' \<notin> set ns" using assms(1) by (auto simp: climbs_first_def)
  have "acc = [] \<or> last acc = ''..''" if "ns = []" using a that by (cases k) simp_all
  then have "ns \<noteq> []" using assms(2,3) by blast
  with a show ?thesis unfolding climbs_first_def
    by (intro exI [of _ k] exI [of _ "butlast ns"]) (auto simp: butlast_append dest: in_set_butlastD)
qed

lemma climbs_again:
  assumes "climbs_first acc" "acc = [] \<or> last acc = ''..''"
  shows "climbs_first (acc @ [''..''])"
proof -
  obtain k ns where a: "acc = replicate k ''..'' @ ns" "''..'' \<notin> set ns" using assms(1) by (auto simp: climbs_first_def)
  have "ns = []" using a assms(2) by (cases ns rule: rev_cases) auto
  with a have "acc @ [''..''] = replicate (Suc k) ''..'' @ []" by (simp add: replicate_append_same)
  then show ?thesis unfolding climbs_first_def by (intro exI [of _ "Suc k"] exI [of _ "[]"]) simp
qed

lemma clean_step_climbs: "climbs_first acc \<Longrightarrow> climbs_first (clean_step False acc e)"
  using climbs_snoc [of acc e] climbs_butlast [of acc] climbs_again [of acc] by (auto simp: clean_step_def)

lemma clean_climbs: "climbs_first (clean_elements False es)"
proof -
  have "climbs_first acc \<Longrightarrow> climbs_first (foldl (clean_step False) acc es)" for acc
    by (induction es arbitrary: acc) (simp_all add: clean_step_climbs)
  then show ?thesis by (simp add: clean_elements_def climbs_first_def)
qed

lemma clean_step_set: "set (clean_step r acc e) \<subseteq> insert e (set acc)"
  by (auto simp: clean_step_def dest: in_set_butlastD)

lemma clean_set: "set (clean_elements r es) \<subseteq> set es"
proof -
  have "set (foldl (clean_step r) acc es) \<subseteq> set acc \<union> set es" for acc
  proof (induction es arbitrary: acc)
    case (Cons e es)
    from Cons.IH [of "clean_step r acc e"] clean_step_set [of r acc e] show ?case by auto
  qed simp
  from this [of "[]"] show ?thesis by (simp add: clean_elements_def)
qed

lemma elements_clean:
  assumes "\<not> is_abs s"
  shows "elements (clean_path s) = clean_elements False (elements s)"
proof -
  have "proper e" if "e \<in> set (clean_elements False (elements s))" for e
    using that clean_set [of False "elements s"] elements_proper by blast
  from elements_shown [OF this] assms show ?thesis by (simp add: clean_path_def)
qed

lemma join_head: "join_with [sep] (x # xs) = (if xs = [] then x else x @ sep # join_with [sep] xs)"
  by (cases xs) auto

lemma is_abs_clean: "is_abs (clean_path s) = is_abs s"
proof (cases "is_abs s")
  case False
  let ?es = "clean_elements False (elements s)"
  have "\<not> is_abs (show_path False ?es)"
  proof (cases ?es)
    case (Cons e es)
    have "proper e" using Cons clean_set [of False "elements s"] elements_proper [of e s] by auto
    then have "e \<noteq> []" "slash \<notin> set e" by (simp_all add: proper_def)
    with Cons show ?thesis by (cases e) (auto simp: is_abs_def show_path_def join_head has_prefix_iff)
  qed (simp add: show_path_def is_abs_def has_prefix_iff)
  with False show ?thesis by (simp add: clean_path_def)
qed (simp add: clean_path_def show_path_def is_abs_def has_prefix_iff)

lemma escaping_text:
  assumes "\<And>e. e \<in> set es \<Longrightarrow> proper e" "climbs_first es"
  shows "show_path False es = ''..'' \<or> has_prefix (show_path False es) ''../'' \<longleftrightarrow> ''..'' \<in> set es"
proof -
  obtain k ns where es: "es = replicate k ''..'' @ ns" "''..'' \<notin> set ns" using assms(2) by (auto simp: climbs_first_def)
  have el: "elements (show_path False es) = es" by (rule elements_shown [OF assms(1)])
  show ?thesis
  proof (cases k)
    case (Suc j)
    with es show ?thesis by (auto simp: show_path_def join_head has_prefix_iff)
  next
    case 0
    show ?thesis
    proof (cases ns)
      case Nil
      with es 0 show ?thesis by (simp add: show_path_def has_prefix_iff)
    next
      case (Cons n rest)
      then have n: "n \<noteq> ''..''" "slash \<notin> set n" using es(2) assms(1) [of n] es(1) by (auto simp: proper_def)
      have "elements ''..'' = [''..'']" by (simp add: elements_def)
      then have "show_path False es \<noteq> ''..''"
        using el es 0 n(1) Cons by auto
      moreover have "\<not> has_prefix (show_path False es) ''../''"
      proof
        assume "has_prefix (show_path False es) ''../''"
        then obtain r where "show_path False es = ''..'' @ slash # r" by (auto simp: has_prefix_iff)
        then have "elements (show_path False es) = elements (''..'' @ slash # r)" by simp
        moreover have "elements (''..'' @ slash # r) = ''..'' # elements r"
          unfolding elements_def by (subst split_on_append) auto
        ultimately show False using el es 0 n(1) Cons by simp
      qed
      ultimately show ?thesis using es 0 by simp
    qed
  qed
qed

lemma guard_names: "contained_target X t pre name = Inr q \<Longrightarrow> prefix pre q"
  by (auto simp: contained_target_def Let_def split: sum.splits if_splits)

lemma guard_judges:
  "contained_target X t pre name = Inr q \<longleftrightarrow>
     \<not> is_abs name \<and> ''..'' \<notin> set (clean_elements False (elements name)) \<and>
     q = pre @ clean_elements False (elements name) \<and> xt_secure_join X t pre (clean_path name) = Inr q"
proof (cases "is_abs name")
  case True
  then show ?thesis by (simp add: contained_target_def is_abs_clean Let_def)
next
  case False
  let ?es = "clean_elements False (elements name)"
  have "proper e" if "e \<in> set ?es" for e
    using that clean_set [of False "elements name"] elements_proper by blast
  from escaping_text [OF this clean_climbs] False have
    "clean_path name = ''..'' \<or> has_prefix (clean_path name) ''../'' \<longleftrightarrow> ''..'' \<in> set ?es"
    by (simp add: clean_path_def)
  with False show ?thesis
    by (auto simp: contained_target_def is_abs_clean Let_def elements_clean split: sum.splits if_splits)
qed

text \<open>What is documented of \<open>SecureJoin\<close>: its answer lies within the prefix and none of its elements below the
  prefix, the last included, is a link; and it joins as \<open>filepath.Join\<close> does where it meets no link. It may
  fail.\<close>

definition linkless :: "tree \<Rightarrow> path \<Rightarrow> path \<Rightarrow> bool" where
  "linkless t pre q \<longleftrightarrow>
     (\<forall>n \<in> {Suc (length pre)..length q}. case look t (take n q) of Some x \<Rightarrow> \<not> is_symlink x | None \<Rightarrow> True)"

definition joins_securely :: "(tree \<Rightarrow> path \<Rightarrow> string \<Rightarrow> (gerror, path) result) \<Rightarrow> bool" where
  "joins_securely J \<longleftrightarrow> (\<forall>t pre c q. J t pre c = Inr q \<longrightarrow> prefix pre q \<and> linkless t pre q \<and>
     (\<not> is_abs c \<and> ''..'' \<notin> set (elements c) \<and> linkless t pre (pre @ elements c) \<longrightarrow> q = pre @ elements c))"

text \<open>C7: with a SecureJoin that behaves as it documents (its answer lies within the prefix and holds no link
  below it, and is the plain join where there is no link), the guard lets a name through exactly when it is
  relative, does not climb above where it starts once its dots are resolved, no element of the path it
  names below the prefix is a link, the last included, and the join does not fail; the target is then
  that path below the prefix.\<close>

theorem guard_judges_the_name:
  assumes "joins_securely (xt_secure_join X)"
  shows "contained_target X t pre name = Inr q \<longleftrightarrow>
     \<not> is_abs name \<and> ''..'' \<notin> set (clean_elements False (elements name)) \<and>
     q = pre @ clean_elements False (elements name) \<and> linkless t pre q \<and>
     (\<forall>e. xt_secure_join X t pre (clean_path name) \<noteq> Inl e)"
proof (cases "xt_secure_join X t pre (clean_path name)")
  case (Inl e)
  then show ?thesis by (simp add: guard_judges)
next
  case (Inr a)
  have "\<not> is_abs name \<Longrightarrow> elements (clean_path name) = clean_elements False (elements name)"
    by (simp add: elements_clean)
  with assms Inr have "linkless t pre a"
    "\<not> is_abs name \<Longrightarrow> ''..'' \<notin> set (clean_elements False (elements name)) \<Longrightarrow>
     linkless t pre (pre @ clean_elements False (elements name)) \<Longrightarrow> a = pre @ clean_elements False (elements name)"
    unfolding joins_securely_def by (metis is_abs_clean)+
  with Inr show ?thesis by (auto simp: guard_judges)
qed

section \<open>One entry\<close>

lemma unreadable_done:
  assumes "write_unreadable S u p mode w = ((pr, rc, None), w')"
  shows "write_file S u p [] mode w = ((pr, rc, None), w')"
  using assms by (auto simp: write_unreadable_def write_file_def write_target_def unstaged_def
      split: sum.splits prod.splits if_splits)

lemma unreadable_local:
  assumes w: "ready S w" and p: "aim (w_tree w) p" and run: "write_unreadable S u p mode w = (out, w')"
  shows "local_to p (w_tree w) (w_tree w')"
proof -
  obtain n w1 where n: "new_entry u RegularKind p w = (n, w1)" by fastforce
  from new_entry_ready [OF n w] have w1: "ready S w1" "w_tree w1 = w_tree w" by simp_all
  have p1: "aim (w_tree w1) p" using p w1(2) by simp
  obtain s w2 where s: "stage_write S p w1 = (s, w2)" by fastforce
  obtain e w3 where f: "open_create S p mode w2 = (e, w3)" by fastforce
  show ?thesis
    using run n s f w1(2) stage_write_local [OF w1(1) p1 s] filled_local [OF w1(1) p1, of _ w2 w3] open_create_step [OF _ f]
    by (cases n; cases s; cases e) (auto simp: write_unreadable_def)
qed

definition settles :: "session \<Rightarrow> path \<Rightarrow> world \<Rightarrow> entry_outcome \<times> world \<Rightarrow> bool" where
  "settles S p w run \<longleftrightarrow> (case run of (out, w') \<Rightarrow>
     local_to p (w_tree w) (w_tree w') \<and>
     (case out of
        Extracted pr (Some r) \<Rightarrow> undoes S r (w_tree w) (w_tree w') \<and> ready S w'
      | Extracted pr None \<Rightarrow> same_view (w_tree w) (w_tree w') \<and> ready S w'
      | Refused e \<Rightarrow> w_tree w' = w_tree w
      | Broken e \<Rightarrow> True))"

lemma call_settles:
  assumes "local_to p (w_tree w) (w_tree (snd run))"
    and "snd (snd (fst run)) = None \<Longrightarrow> compensated S run w"
  shows "settles S p w (settled_call context run)"
  using assms by (auto simp: settles_def settled_call_def compensated_def split: prod.splits option.splits)

lemma settles_later: "w_tree w1 = w_tree w \<Longrightarrow> settles S p w1 run \<Longrightarrow> settles S p w run"
  by (auto simp: settles_def split: prod.splits entry_outcome.splits option.splits)

lemma hardlink_settles:
  assumes w: "ready (xt_session X) w" and p: "aim (w_tree w) target"
  shows "settles (xt_session X) target w (copy_hardlink_entry X pre e target w)"
proof (cases "contained_target X (w_tree w) pre (ae_linkname e)")
  case (Inl err)
  then show ?thesis by (simp add: copy_hardlink_entry_def settles_def Let_def)
next
  case (Inr referent)
  let ?S = "xt_session X"
  obtain r w1 where o: "open_read ?S referent w = (r, w1)" by fastforce
  from open_read_frame [OF o] have w1: "quiet w w1" "w_tree w1 = w_tree w" by simp_all
  have r1: "ready ?S w1" by (rule ready_quiet [OF w w1])
  have p1: "aim (w_tree w1) target" using p w1(2) by simp
  show ?thesis
  proof (cases r)
    case (Inl err)
    with Inr o w1(2) show ?thesis by (simp add: copy_hardlink_entry_def settles_def Let_def)
  next
    case (Inr qx)
    then obtain q x where qx: "r = Inr (q, x)" by (cases qx) auto
    let ?run = "case x of Plain s m own \<Rightarrow> write_file ?S (xt_caller X) target s (ae_mode e) w1
      | _ \<Rightarrow> write_unreadable ?S (xt_caller X) target (ae_mode e) w1"
    have un: "compensated ?S (write_unreadable ?S (xt_caller X) target (ae_mode e) w1) w1"
      if "snd (snd (fst (write_unreadable ?S (xt_caller X) target (ae_mode e) w1))) = None"
    proof -
      note none = that
      obtain pr rc w2 where run: "write_unreadable ?S (xt_caller X) target (ae_mode e) w1 = ((pr, rc, None), w2)"
        using none by (metis prod.collapse)
      from unreadable_done [OF this] write_file_compensated [OF r1 p1, of "xt_caller X" "[]" "ae_mode e"] run
      show ?thesis by simp
    qed
    have "settles ?S target w1 (settled_call (context_of X ''hardlink copy'' target) ?run)"
    proof (rule call_settles)
      show "local_to target (w_tree w1) (w_tree (snd ?run))"
        by (cases x) (auto intro: write_file_local [OF r1 p1] unreadable_local [OF r1 p1] prod.collapse [symmetric])
      show "compensated ?S ?run w1" if "snd (snd (fst ?run)) = None"
        using that un write_file_compensated [OF r1 p1] by (cases x) auto
    qed
    from settles_later [OF w1(2) this] show ?thesis
      by (simp add: copy_hardlink_entry_def Let_def \<open>contained_target X (w_tree w) pre (ae_linkname e) = Inr referent\<close> o qx)
  qed
qed

lemma entry_settles:
  assumes w: "ready (xt_session X) w" and p: "aim (w_tree w) target"
  shows "settles (xt_session X) target w (extract_entry X pre e target w)"
proof -
  let ?S = "xt_session X"
  note pair = prod.collapse [symmetric]
  show ?thesis
    using call_settles [OF mkdir_local [OF w p pair]] mkdir_compensated [OF w p]
      call_settles [OF write_file_local [OF w p pair]] write_file_compensated [OF w p]
      call_settles [OF link_entry_local [OF w p pair]] link_entry_compensated [OF w p]
      hardlink_settles [OF w p]
    by (cases "ae_kind e") (simp_all add: extract_entry_def Let_def)
qed

section \<open>The extraction as a saga\<close>

text \<open>An entry with its target is an operation of a compensable provider.\<close>

definition extract_step ::
  "extractor \<Rightarrow> path \<Rightarrow> archive_entry \<times> path \<Rightarrow> world \<Rightarrow> (file_receipt option \<times> gerror option) \<times> world"
where
  "extract_step X pre op w =
     (case extract_entry X pre (fst op) (snd op) w of
        (Extracted pr rc, w1) \<Rightarrow> ((rc, None), w1)
      | (Refused e, w1) \<Rightarrow> ((None, Some e), w1)
      | (Broken e, w1) \<Rightarrow> ((None, Some e), w1))"

interpretation archive_saga: compensable "ready (xt_session X)" "\<lambda>w op. aim (w_tree w) (snd op)" "extract_step X pre"
    "compensate_file_mutation (xt_session X)" "\<lambda>v w. shows_tree v (w_tree w)"
  for X pre
proof unfold_locales
  fix w op r err w'
  assume a: "ready (xt_session X) w" "aim (w_tree w) (snd op)" "extract_step X pre op w = ((Some r, err), w')"
  obtain pr where "extract_entry X pre (fst op) (snd op) w = (Extracted pr (Some r), w')"
    using a(3) by (auto simp: extract_step_def split: prod.splits entry_outcome.splits)
  with entry_settles [OF a(1,2), of pre "fst op"]
  show "ready (xt_session X) w' \<and> (\<forall>v. shows_tree v (w_tree w') \<longrightarrow>
      (\<exists>v'. compensate_file_mutation (xt_session X) r v = (None, v') \<and> shows_tree v' (w_tree w)))"
    by (simp add: settles_def undoes_def)
next
  fix w op w'
  assume a: "ready (xt_session X) w" "aim (w_tree w) (snd op)" "extract_step X pre op w = ((None, None), w')"
  obtain pr where "extract_entry X pre (fst op) (snd op) w = (Extracted pr None, w')"
    using a(3) by (auto simp: extract_step_def split: prod.splits entry_outcome.splits)
  with entry_settles [OF a(1,2), of pre "fst op"]
  show "ready (xt_session X) w' \<and> (\<forall>v. shows_tree v (w_tree w') \<longrightarrow> shows_tree v (w_tree w))"
    using shows_same by (auto simp: settles_def)
qed

text \<open>Every target the extraction comes to can be aimed at: outside the site and reached without a link.\<close>

function targets_all :: "(tree \<Rightarrow> path \<Rightarrow> bool) \<Rightarrow> extractor \<Rightarrow> path \<Rightarrow> archive_reader \<Rightarrow> world \<Rightarrow> bool" where
  "targets_all P X pre reader w =
     (case next_entry reader of
        (Inl e, reader') \<Rightarrow> True
      | (Inr e, reader') \<Rightarrow>
          (case contained_target X (w_tree w) pre (ae_name e) of
             Inl err \<Rightarrow> True
           | Inr target \<Rightarrow> P (w_tree w) target \<and>
               (case extract_entry X pre e target w of
                  (Extracted pr rc, w1) \<Rightarrow> targets_all P X pre reader' w1
                | _ \<Rightarrow> True)))"
  by pat_completeness auto

termination
  by (relation "measure (\<lambda>(P, X, pre, reader, w). entries_left reader)") (auto dest: next_entry_left [OF sym])

declare targets_all.simps [simp del]

abbreviation aims_along :: "extractor \<Rightarrow> path \<Rightarrow> archive_reader \<Rightarrow> world \<Rightarrow> bool" where
  "aims_along \<equiv> targets_all aim"

definition broke :: "extraction \<Rightarrow> bool" where
  "broke ex \<longleftrightarrow> (case ex_stop ex of Some (True, e) \<Rightarrow> True | _ \<Rightarrow> False)"

text \<open>What one round of the loop does.\<close>

lemma loop_cases:
  assumes "extract_loop X pre reader ps rs w = (ex, w')"
  obtains
    (over) stop where "ex_receipts ex = rs" "w' = w" "ex_stop ex = stop" "\<not> broke ex"
  | (failed) e target out reader' where "next_entry reader = (Inr e, reader')"
      "contained_target X (w_tree w) pre (ae_name e) = Inr target" "extract_entry X pre e target w = (out, w')"
      "ex_receipts ex = rs" "broke ex \<or> (\<exists>err. out = Refused err)"
  | (more) e target pr rc w1 reader' ps' where "next_entry reader = (Inr e, reader')"
      "contained_target X (w_tree w) pre (ae_name e) = Inr target" "extract_entry X pre e target w = (Extracted pr rc, w1)"
      "extract_loop X pre reader' ps' (rs @ (case rc of None \<Rightarrow> [] | Some r \<Rightarrow> [r])) w1 = (ex, w')"
proof -
  obtain x reader' where n: "next_entry reader = (x, reader')" by fastforce
  note un = assms [unfolded extract_loop.simps [of X pre reader ps rs w]]
  show ?thesis
  proof (cases x)
    case (Inl err)
    with un n show ?thesis by (intro over) (auto simp: extracted_so_far_def broke_def split: if_splits)
  next
    case (Inr e)
    show ?thesis
    proof (cases "contained_target X (w_tree w) pre (ae_name e)")
      case (Inl err)
      with un n Inr show ?thesis by (intro over) (auto simp: extracted_so_far_def broke_def)
    next
      case (Inr target)
      obtain out w1 where o: "extract_entry X pre e target w = (out, w1)" by fastforce
      note here = un n \<open>x = Inr e\<close> Inr o
      show ?thesis
      proof (cases out)
        case (Extracted pr rc)
        show ?thesis
        proof (cases "\<exists>r err. rc = Some r \<and> xt_commit X (length rs) = Some err")
          case True
          with here Extracted show ?thesis
            by (intro failed [of e reader' target out]) (auto simp: extracted_so_far_def broke_def Let_def)
        next
          case False
          with here Extracted show ?thesis
            by (intro more [of e reader' target pr rc w1 "add_product e pr rc ps"])
              (auto simp: Let_def split: option.splits)
        qed
      next
        case (Refused err)
        with here show ?thesis by (intro failed [of e reader' target out]) (auto simp: extracted_so_far_def broke_def)
      next
        case (Broken err)
        with here show ?thesis by (intro failed [of e reader' target out]) (auto simp: extracted_so_far_def broke_def)
      qed
    qed
  qed
qed

lemma aims_next:
  assumes "aims_along X pre reader w" "next_entry reader = (Inr e, reader')"
    and "contained_target X (w_tree w) pre (ae_name e) = Inr target"
  shows "aim (w_tree w) target"
    and "extract_entry X pre e target w = (Extracted pr rc, w1) \<Longrightarrow> aims_along X pre reader' w1"
  using assms by (subst (asm) targets_all.simps; simp)+

lemma loop_performs:
  assumes "ready (xt_session X) w" "aims_along X pre reader w" "extract_loop X pre reader ps rs w = (ex, w')"
  shows "\<exists>steps new w1. ex_receipts ex = rs @ new \<and>
     fits_all (\<lambda>w op. aim (w_tree w) (snd op)) (extract_step X pre) steps w \<and>
     perform_all (extract_step X pre) steps w = ((new, None), w1) \<and> (\<not> broke ex \<longrightarrow> w_tree w' = w_tree w1)"
  using assms
proof (induction "entries_left reader" arbitrary: reader ps rs w rule: less_induct)
  case less
  note ready = less.prems(1) and aims = less.prems(2)
  from less.prems(3) show ?case
  proof (cases rule: loop_cases)
    case (over stop)
    then show ?thesis by (intro exI [of _ "[]"]) simp
  next
    case (failed e target out reader')
    from entry_settles [OF ready aims_next(1) [OF aims failed(1,2)], of pre e] failed(3-5) show ?thesis
      by (intro exI [of _ "[]"]) (auto simp: settles_def)
  next
    case (more e target pr rc w1 reader' ps')
    note a = aims_next [OF aims more(1,2)]
    from entry_settles [OF ready a(1), of pre e] more(3) have r1: "ready (xt_session X) w1"
      by (auto simp: settles_def split: option.splits)
    have step: "extract_step X pre (e, target) w = ((rc, None), w1)" using more(3) by (simp add: extract_step_def)
    from less.hyps [OF next_entry_left [OF more(1)] r1 a(2) [OF more(3)] more(4)] obtain steps new w2 where
      "ex_receipts ex = (rs @ (case rc of None \<Rightarrow> [] | Some r \<Rightarrow> [r])) @ new"
      "fits_all (\<lambda>w op. aim (w_tree w) (snd op)) (extract_step X pre) steps w1"
      "perform_all (extract_step X pre) steps w1 = ((new, None), w2)" "\<not> broke ex \<longrightarrow> w_tree w' = w_tree w2"
      by auto
    with step a(1) show ?thesis
      by (intro exI [of _ "(e, target) # steps"] exI [of _ "(case rc of None \<Rightarrow> [] | Some r \<Rightarrow> [r]) @ new"] exI [of _ w2])
        (auto split: option.splits)
  qed
qed

text \<open>Below a prefix whose ancestors stand, a change is below the prefix or in the site.\<close>

lemma local_below:
  assumes l: "local_to target t t'" and a: "aim t target" "prefix pre target"
    and up: "\<forall>k. strict_prefix k pre \<longrightarrow> look t k \<noteq> None"
  shows "(\<forall>k. look t' k = look t k \<or> prefix pre k \<or> in_site k) \<and> (\<forall>k. strict_prefix k pre \<longrightarrow> look t' k \<noteq> None)"
proof -
  have near: "look t' k = look t k \<or> prefix pre k \<or> in_site k" for k
  proof -
    have "prefix pre k \<or> strict_prefix k pre" if "prefix k target"
      using prefix_same_cases [OF that a(2)] by (auto simp: strict_prefix_def)
    moreover have "prefix pre k" if "prefix target k" using a(2) that by (rule prefix_order.trans)
    ultimately show ?thesis using l up unfolding local_to_def by blast
  qed
  have "\<not> in_site k" if "strict_prefix k pre" for k
  proof
    assume "in_site k"
    then have "prefix [''.devlore''] k" 
      by (cases k) (auto simp: in_site_def scaffold_def recovery_dir_def)
    then have "prefix [''.devlore''] target" using that a(2) unfolding strict_prefix_def by (meson prefix_order.trans)
    with a(1) show False by (cases target) (auto simp: aim_def ordinary_def)
  qed
  moreover have "\<not> prefix pre k" if "strict_prefix k pre" for k
    using that by (auto simp: strict_prefix_def)
  ultimately show ?thesis using near up by metis
qed

lemma loop_stays:
  assumes "ready (xt_session X) w" "aims_along X pre reader w" "extract_loop X pre reader ps rs w = (ex, w')"
    and "\<forall>k. strict_prefix k pre \<longrightarrow> look (w_tree w) k \<noteq> None"
  shows "look (w_tree w') k = look (w_tree w) k \<or> prefix pre k \<or> in_site k"
  using assms
proof (induction "entries_left reader" arbitrary: reader ps rs w rule: less_induct)
  case less
  note ready = less.prems(1) and aims = less.prems(2) and up = less.prems(4)
  have here: "(\<forall>k. look (w_tree w1) k = look (w_tree w) k \<or> prefix pre k \<or> in_site k)
      \<and> (\<forall>k. strict_prefix k pre \<longrightarrow> look (w_tree w1) k \<noteq> None)"
    if "next_entry reader = (Inr e, reader')" "contained_target X (w_tree w) pre (ae_name e) = Inr target"
      "extract_entry X pre e target w = (out, w1)" for e reader' target out w1
  proof -
    note a = aims_next(1) [OF aims that(1,2)]
    have "local_to target (w_tree w) (w_tree w1)"
      using entry_settles [OF ready a, of pre e] that(3) by (simp add: settles_def)
    from local_below [OF this a _ up] that(2) show ?thesis by (simp add: guard_names)
  qed
  from less.prems(3) show ?case
  proof (cases rule: loop_cases)
    case (over stop)
    then show ?thesis by simp
  next
    case (failed e target out reader')
    from here [OF failed(1-3)] show ?thesis by blast
  next
    case (more e target pr rc w1 reader' ps')
    note a = aims_next [OF aims more(1,2)]
    from entry_settles [OF ready a(1), of pre e] more(3) have r1: "ready (xt_session X) w1"
      by (auto simp: settles_def split: option.splits)
    note h = here [OF more(1-3)]
    from less.hyps [OF next_entry_left [OF more(1)] r1 a(2) [OF more(3)] more(4)] h show ?thesis by metis
  qed
qed

section \<open>Extractions\<close>

lemma resolve_prefix_frame:
  assumes "resolve_extract_prefix S p w = (r, w1)" "ready S w"
  shows "ready S w1 \<and> w_tree w1 = w_tree w \<and> (\<forall>pre. r = Inr pre \<longrightarrow> pre = p)"
proof -
  obtain d w0 where d: "discover_entry DirectoryKind p w = (d, w0)" by fastforce
  then have q: "quiet w w0 \<and> w_tree w0 = w_tree w" unfolding discover_entry_def by (rule intern_frame)
  have r0: "ready S w0" by (rule ready_quiet [OF assms(2)]) (use q in simp_all)
  obtain e w2 where e: "resolve_product S DirectoryKind p w0 = (e, w2)" by fastforce
  from resolve_product_frame [OF e ready_vacant [OF r0]] assms(1) d e q r0 show ?thesis
    by (auto simp: resolve_extract_prefix_def split: sum.splits option.splits if_splits)
qed

text \<open>The hypothesis on the targets, after the prefix has been resolved.\<close>

definition extraction_targets :: "(tree \<Rightarrow> path \<Rightarrow> bool) \<Rightarrow> extractor \<Rightarrow> archive_reader \<Rightarrow> path \<Rightarrow> world \<Rightarrow> bool" where
  "extraction_targets P X reader p w =
     (case resolve_extract_prefix (xt_session X) p w of
        (Inl e, w1) \<Rightarrow> True
      | (Inr pre, w1) \<Rightarrow> targets_all P X pre reader w1)"

lemma extract_entries_cases:
  assumes "ready (xt_session X) w" "extraction_targets aim X reader p w"
    and "extract_entries X reader closing p w = ((ex, err), w')"
  obtains (unresolved) "ex_receipts ex = []" "w_tree w' = w_tree w"
  | (looped) w1 where "ready (xt_session X) w1" "w_tree w1 = w_tree w" "aims_along X p reader w1"
      "extract_loop X p reader [] [] w1 = (ex, w')"
proof -
  obtain r w1 where r: "resolve_extract_prefix (xt_session X) p w = (r, w1)" by fastforce
  note f = resolve_prefix_frame [OF r assms(1)]
  show ?thesis
  proof (cases r)
    case (Inl e)
    with assms(3) r f show ?thesis by (intro unresolved) (auto simp: extract_entries_def Let_def extracted_so_far_def)
  next
    case (Inr pre)
    with assms(2,3) r f show ?thesis
      by (intro looped [of w1]) (auto simp: extract_entries_def extraction_targets_def Let_def split: prod.splits)
  qed
qed

text \<open>C6: whatever the archive holds and whichever of the changing calls fail, an extraction into a folder
  changes the disk only below that folder and in the recovery site. Assumed: the disk is ready as C2 says
  (no lstat, stat or readlink fails, a sound tree, a usable recovery site with unused keys), and every
  target the guard lets through is, on the tree as it then stands, below the root, outside .devlore,
  without an element that begins with two dots, and has only folders or nothing above it, so no link.\<close>

theorem extraction_stays_below_the_prefix:
  assumes "ready (xt_session X) w" and "extraction_targets aim X reader p w"
    and "look (w_tree w) p = Some (Folder m own)"
    and "extract_entries X reader closing p w = ((ex, err), w')"
  shows "look (w_tree w') k = look (w_tree w) k \<or> prefix p k \<or> in_site k"
  using assms(1,2,4)
proof (cases rule: extract_entries_cases)
  case unresolved
  then show ?thesis by simp
next
  case (looped w1)
  have "look (w_tree w1) k \<noteq> None" if "strict_prefix k p" for k
  proof -
    from that obtain r where "p = k @ r" "r \<noteq> []" by (auto simp: strict_prefix_def prefix_def)
    with sane_up [of "w_tree w" k r] assms(3) ready_sane(1) [OF assms(1)] looped(2) show ?thesis by auto
  qed
  with loop_stays [OF looped(1,3,4)] looped(2) show ?thesis by simp
qed

text \<open>\<open>CompensateExtract\<close>, and \<open>CompensateExtractStream\<close>, which is the same: the stack is unwound over the file
  provider's compensation; \<open>book\<close> tells which file receipt stands behind a receipt of the stack.\<close>

definition compensate_extract ::
  "session \<Rightarrow> (receipt \<Rightarrow> file_receipt) \<Rightarrow> rstack option \<Rightarrow> world \<Rightarrow> gerror option \<times> world"
where
  "compensate_extract S book stack w =
     (case stack of
        None \<Rightarrow> (None, w)
      | Some s \<Rightarrow> (case unwind (companion (compensate_file_mutation S) book) s w of (s', w', err) \<Rightarrow> (err, w')))"

text \<open>C5: an extraction that comes to its end, and one that stops because the archive cannot be read further or
  a name is refused, is undone by its compensation: on a disk with no failure to come that shows what it
  left, the disk shows again what it showed before, .devlore and .devlore/recovery themselves apart.
  Assumed: the disk is ready as C2 says (no lstat, stat or readlink fails, a sound tree, a usable recovery
  site with unused keys); every target the guard lets through is, on the tree as it then stands, below
  the root, outside .devlore, without an element that begins with two dots, and below folders or nothing;
  and no mutation or commit has failed, which loses the receipt at hand (a finding).\<close>

theorem extraction_is_undone:
  assumes "ready (xt_session X) w" and "extraction_targets aim X reader p w"
    and "extract_entries X reader closing p w = ((ex, err), w')" and "\<not> broke ex"
    and "shows_tree v (w_tree w')" and "map book (saga s) = ex_receipts ex"
  shows "case compensate_extract (xt_session X) book (Some s) v of (err, v') \<Rightarrow> err = None \<and> shows_tree v' (w_tree w)"
  using assms(1-3)
proof (cases rule: extract_entries_cases)
  case unresolved
  with assms(5,6) show ?thesis
    using archive_saga.unwind_restores [OF assms(1), where ops = "[]" and rs = "[]" and out = None and w' = w
        and v = v and book = book and s = s] by (simp add: compensate_extract_def split: prod.splits)
next
  case (looped w1)
  from loop_performs [OF looped(1,3,4)] obtain steps w2 where
    run: "fits_all (\<lambda>w op. aim (w_tree w) (snd op)) (extract_step X p) steps w1"
      "perform_all (extract_step X p) steps w1 = ((ex_receipts ex, None), w2)" "\<not> broke ex \<longrightarrow> w_tree w' = w_tree w2"
    by auto
  have "shows_tree v (w_tree w2)" using assms(4,5) run(3) by simp
  from archive_saga.unwind_restores [OF looped(1) run(1,2) _ this assms(6)] looped(2) show ?thesis
    by (simp add: compensate_extract_def split: prod.splits)
qed

section \<open>An archive to extract\<close>

text \<open>A join that answers the lexical path where no link stands on it below the prefix, and else the prefix.\<close>

definition demo_join :: "tree \<Rightarrow> path \<Rightarrow> string \<Rightarrow> (gerror, path) result" where
  "demo_join t pre c =
     (let q = pre @ elements c in
      if list_all (\<lambda>n. case look t (take n q) of Some x \<Rightarrow> \<not> is_symlink x | None \<Rightarrow> True) [Suc (length pre)..<Suc (length q)]
      then Inr q else Inr pre)"

lemma demo_join_alt: "demo_join t pre c = (if linkless t pre (pre @ elements c) then Inr (pre @ elements c) else Inr pre)"
  unfolding demo_join_def linkless_def Let_def list_all_iff set_upt atLeastLessThanSuc_atLeastAtMost by simp

lemma linkless_listed: "linkless t pre q \<longleftrightarrow>
    list_all (\<lambda>n. case look t (take n q) of Some x \<Rightarrow> \<not> is_symlink x | None \<Rightarrow> True) [Suc (length pre)..<Suc (length q)]"
  unfolding linkless_def list_all_iff set_upt atLeastLessThanSuc_atLeastAtMost ..

lemma linkless_prefix [simp]: "linkless t pre pre"
  by (simp add: linkless_def)

lemma demo_joins: "joins_securely demo_join"
  by (auto simp: joins_securely_def demo_join_alt)

definition demo_extractor :: extractor where
  "demo_extractor =
     \<lparr>xt_session = demo_disk_session, xt_methods = demo_methods, xt_caller = ''u'', xt_secure_join = demo_join,
      xt_commit = (\<lambda>n. None)\<rparr>"

definition demo_header :: "string \<Rightarrow> char \<Rightarrow> string \<Rightarrow> string \<Rightarrow> tar_header" where
  "demo_header name flag linkname body =
     \<lparr>th_name = name, th_mode = 420, th_typeflag = flag, th_linkname = linkname, th_body = body\<rparr>"

text \<open>The environment has no catalog.\<close>

definition demo_extract_disk :: "fault option list \<Rightarrow> world" where
  "demo_extract_disk fs = (demo_disk demo_tree fs)\<lparr>w_catalog := None\<rparr>"

text \<open>A folder, a file in it, a link to it, a copy of it, a file that replaces one, and a FIFO.\<close>

definition demo_tar :: archive_reader where
  "demo_tar = TarReader
     \<lparr>tr_format = FormatGzip, tr_saw_entry = False, tr_headers =
        [demo_header ''n/'' CHR ''5'' [] [], demo_header ''./n/f'' CHR ''0'' [] ''text'',
         demo_header ''n/l'' CHR ''2'' ''f'' [], demo_header ''h'' CHR ''1'' ''n/f'' [],
         demo_header ''x'' CHR ''0'' [] ''new'', demo_header ''p'' CHR ''6'' [] []],
      tr_last = io_eof\<rparr>"

definition demo_extraction :: "(extraction \<times> gerror option) \<times> world" where
  "demo_extraction = extract_entries demo_extractor demo_tar None [''d''] (demo_extract_disk [])"

lemma demo_extraction_facts:
  "case demo_extraction of ((ex, err), w') \<Rightarrow>
     length (ex_receipts ex) = 5 \<and> length (ex_products ex) = 4 \<and> err \<noteq> None \<and> \<not> broke ex
     \<and> look (w_tree w') [''d'', ''h''] = Some (Plain ''text'' (perms 6 4 4) (1, 1))
     \<and> look (w_tree w') [''d'', ''n'', ''l''] = Some (Symlink ''f'')
     \<and> look (w_tree w') [''d'', ''x''] = Some (Plain ''new'' (perms 6 4 4) (1, 1))"
  by code_simp

lemma demo_targets:
  "extraction_targets listed_clear demo_extractor demo_tar [''d''] (demo_extract_disk [])"
  by code_simp

lemma targets_all_mono:
  assumes "\<And>t q. P t q \<Longrightarrow> Q t q"
  shows "targets_all P X pre reader w \<Longrightarrow> targets_all Q X pre reader w"
proof (induction "entries_left reader" arbitrary: reader w rule: less_induct)
  case less
  show ?case
  proof (cases "next_entry reader")
    case (Pair x reader')
    show ?thesis
    proof (cases x)
      case (Inr e)
      with Pair have "next_entry reader = (Inr e, reader')" by simp
      from less.hyps [OF next_entry_left [OF this]] less.prems assms Pair Inr show ?thesis
        unfolding targets_all.simps [of _ X pre reader w]
        by (auto split: sum.splits prod.splits entry_outcome.splits)
    qed (use Pair in \<open>simp add: targets_all.simps [of Q]\<close>)
  qed
qed

lemma demo_aims: "extraction_targets aim demo_extractor demo_tar [''d''] (demo_extract_disk [])"
  using demo_targets targets_all_mono [of listed_clear aim, OF aim_if_listed]
  by (auto simp: extraction_targets_def split: sum.splits prod.splits)

lemma demo_extract_ready: "ready demo_disk_session (demo_extract_disk [])"
proof -
  have "ready demo_disk_session (demo_disk demo_tree [])" by (rule demo_ready) simp
  then show ?thesis by (simp add: demo_extract_disk_def ready_def answered_def honest_def keys_fresh_def)
qed

lemma demo_extractor_parts [simp]: "xt_session demo_extractor = demo_disk_session" "w_tree (demo_extract_disk fs) = demo_tree"
  by (simp_all add: demo_extractor_def demo_extract_disk_def demo_disk_def)

theorem extraction_stays_below_the_prefix_witness:
  "case demo_extraction of (r, w') \<Rightarrow>
     look (w_tree w') [''d'', ''x''] = Some (Plain ''new'' (perms 6 4 4) (1, 1)) \<and>
     look (w_tree w') [''a''] = look demo_tree [''a'']"
proof -
  obtain ex err w' where run: "demo_extraction = ((ex, err), w')" by (metis prod.collapse)
  have d: "look (w_tree (demo_extract_disk [])) [''d''] = Some (Folder (perms 7 0 0) (1, 1))"
    by (simp add: look_def demo_tree_def)
  have x: "look (w_tree w') [''d'', ''x''] = Some (Plain ''new'' (perms 6 4 4) (1, 1))"
    using demo_extraction_facts unfolding run by simp
  from extraction_stays_below_the_prefix [OF _ demo_aims d run [unfolded demo_extraction_def], of "[''a'']"]
    demo_extract_ready x show ?thesis
    by (simp add: run in_site_def scaffold_def recovery_dir_def)
qed

definition demo_receipts_stack :: rstack where
  "demo_receipts_stack =
     RStack (map (\<lambda>n. EReceipt (Receipt (replicate n CHR ''1'') [] [] True SelfCompensator None None VNil None VNil)) [0..<5])
       ''run'' VNil None"

lemma demo_extract_settled:
  "case demo_extraction of (r, w') \<Rightarrow> sane_listed (w_tree w') \<and> w_tree w' \<noteq> []
     \<and> list_all (\<lambda>(k, x). k = [] \<longrightarrow> is_folder x) (w_tree w') \<and> w_faults w' = [] \<and> w_probe_faults w' = []"
  by code_simp

theorem extraction_is_undone_witness:
  "case demo_extraction of ((ex, err), w') \<Rightarrow> length (ex_receipts ex) = 5 \<and> err \<noteq> None \<and>
     (case compensate_extract demo_disk_session (\<lambda>r. ex_receipts ex ! length (r_unit_id r)) (Some demo_receipts_stack) w' of
        (err, v') \<Rightarrow> err = None \<and> shows_tree v' demo_tree)"
proof -
  obtain ex err w' where run: "demo_extraction = ((ex, err), w')" by (metis prod.collapse)
  have f: "length (ex_receipts ex) = 5" "err \<noteq> None" "\<not> broke ex" using demo_extraction_facts unfolding run by simp_all
  have "sane_listed (w_tree w') \<and> w_tree w' \<noteq> [] \<and> list_all (\<lambda>(k, x). k = [] \<longrightarrow> is_folder x) (w_tree w') \<and> calm w'"
    using demo_extract_settled unfolding run by (simp add: calm_def)
  then have sh: "shows_tree w' (w_tree w')"
    using sane_if_listed [of "w_tree w'"] by (auto simp: shows_tree_def same_view_def list_all_iff)
  have book: "map (\<lambda>r. ex_receipts ex ! length (r_unit_id r)) (saga demo_receipts_stack) = ex_receipts ex"
    using map_nth [of "ex_receipts ex"] f(1) by (simp add: demo_receipts_stack_def upt_conv_Cons)
  from extraction_is_undone [OF _ demo_aims run [unfolded demo_extraction_def] f(3) sh, of _ demo_receipts_stack]
    demo_extract_ready book f show ?thesis by (simp add: run)
qed

section \<open>What an extraction does not promise\<close>

text \<open>A copy that fails inside an entry: the receipt \<open>WriteFile\<close> returned with the error is dropped, so the
  stack is empty, the file is cut short and the one it displaced is left in the recovery site.\<close>

definition demo_broken :: "(extraction \<times> gerror option) \<times> world" where
  "demo_broken = extract_entries demo_extractor
     (ZipReader [\<lparr>zf_name = ''x'', zf_mode = 420, zf_is_dir = False, zf_open = None, zf_body = ''new'', zf_target_error = None\<rparr>])
     None [''d''] (demo_extract_disk (replicate 6 None @ [Some (ErrCanceled, 2)]))"

theorem failed_entry_is_not_undone:
  "case demo_broken of ((ex, err), w') \<Rightarrow> err \<noteq> None \<and> ex_receipts ex = [] \<and>
     look demo_tree [''d'', ''x''] = Some (Plain ''text'' (perms 6 0 0) (1, 1)) \<and>
     look (w_tree w') [''d'', ''x''] = Some (Plain ''ne'' (perms 6 4 4) (1, 1)) \<and>
     look (w_tree w') (recovery_path ''u'') = Some (Plain ''text'' (perms 6 0 0) (1, 1))"
  by code_simp

text \<open>A zip entry whose body lies at the end of the file opens with \<open>io.EOF\<close>, which ends the extraction: it
  succeeds and neither that entry nor any after it is extracted.\<close>

theorem unopened_zip_entry_ends_the_extraction:
  assumes "\<not> zf_is_dir f" and "zf_open f = Some io_eof"
  shows "extract_loop X pre (ZipReader (f # rest)) ps rs w = (extracted_so_far ps rs None, w)"
  using assms by (subst extract_loop.simps) (simp add: zip_next_def zip_entry_def Let_def io_eof_def)

text \<open>A name below a folder is let through, one below a link is not.\<close>

lemma guard_judges_the_name_witness:
  "contained_target demo_extractor demo_tree [''d''] ''./n/../x'' = Inr [''d'', ''x''] \<and>
   contained_target demo_extractor (([''d'', ''l''], Symlink ''/'') # demo_tree) [''d''] ''l/y'' \<noteq> Inr [''d'', ''l'', ''y'']"
proof -
  have J: "joins_securely (xt_secure_join demo_extractor)"
    "\<And>t pre c e. xt_secure_join demo_extractor t pre c \<noteq> Inl e"
    by (simp_all add: demo_extractor_def demo_joins demo_join_alt)
  have "\<not> is_abs ''./n/../x'' \<and> ''..'' \<notin> set (clean_elements False (elements ''./n/../x''))
      \<and> [''d'', ''x''] = [''d''] @ clean_elements False (elements ''./n/../x'') \<and> linkless demo_tree [''d''] [''d'', ''x'']"
    unfolding linkless_listed by code_simp
  moreover have "\<not> linkless (([''d'', ''l''], Symlink ''/'') # demo_tree) [''d''] [''d'', ''l'', ''y'']"
    unfolding linkless_listed by code_simp
  ultimately show ?thesis
    unfolding guard_judges_the_name [OF J(1)] using J(2) by blast
qed

text \<open>A join that never answers with a link refuses every entry whose target is one, also a link that is
  already right.\<close>

theorem occupied_link_is_refused:
  assumes "\<forall>q. xt_secure_join X t pre (clean_path name) = Inr q \<longrightarrow> (\<forall>s. look t q \<noteq> Some (Symlink s))"
    and "look t (pre @ clean_elements False (elements name)) = Some (Symlink s)"
  shows "\<exists>e. contained_target X t pre name = Inl e"
  using assms guard_judges [of X t pre name] by (cases "contained_target X t pre name") auto

text \<open>A plain tar whose first name begins like a compressed file is taken for one: the table asks for the
  leading bytes, which are that name, before the tar's own mark.\<close>

theorem tar_taken_for_bzip2:
  assumes "take 3 header = ''BZh''"
  shows "match_format header = FormatBzip2"
proof -
  obtain r where "header = ''BZh'' @ r" using assms by (metis append_take_drop_id)
  moreover have "bytes_of [0x1F, 0x8B] = [CHR 0x1F, CHR 0x8B]" by code_simp
  ultimately show ?thesis by (simp add: match_format_def magic_table_def)
qed

end
