(* ===== verification/Package_URL.thy ===== *)
theory Package_URL
  imports Identity "HOL-Library.List_Lexorder" "HOL-Library.Char_ord"
begin

text \<open>
  Package identifiers, \<open>pkg/platform\<close>: the package URL with its text and its parser (\<open>purl.go\<close>) and the
  grammar of identifiers that falls back to it (\<open>identifier.go\<close>). Qualifiers are a map as a list of pairs. The
  managers a platform answers to are an argument. A URL that is written and read again is the same unless a
  part holds a separator, which the text does not escape.
\<close>

section \<open>Percent escapes\<close>

text \<open>\<open>url.PathUnescape\<close>.\<close>

fun path_unescape :: "string \<Rightarrow> string option" where
  "path_unescape [] = Some []"
| "path_unescape (c # cs) =
     (if c = CHR 0x25 then
        (case cs of
           a # b # rest \<Rightarrow>
             (case (hex_value a, hex_value b) of
                (Some x, Some y) \<Rightarrow> map_option (Cons (char_of (16 * unat x + unat y))) (path_unescape rest)
              | _ \<Rightarrow> None)
         | _ \<Rightarrow> None)
      else map_option (Cons c) (path_unescape cs))"

section \<open>Package URLs\<close>

record purl =
  pu_type :: string
  pu_namespace :: string
  pu_name :: string
  pu_version :: string
  pu_qualifiers :: "(string \<times> string) list"
  pu_subpath :: string

definition qualifiers_text :: "(string \<times> string) list \<Rightarrow> string" where
  "qualifiers_text qs =
     join_with ''&'' (map (\<lambda>k. k @ ''='' @ (case alookup qs k of Some v \<Rightarrow> v | None \<Rightarrow> []))
       (sort (remdups (map fst qs))))"

definition purl_string :: "purl \<Rightarrow> string" where
  "purl_string p =
     ''pkg:'' @ pu_type p @ ''/''
     @ (if pu_namespace p \<noteq> [] then pu_namespace p @ ''/'' else [])
     @ pu_name p
     @ (if pu_version p \<noteq> [] then ''@'' @ pu_version p else [])
     @ (if pu_qualifiers p \<noteq> [] then ''?'' @ qualifiers_text (pu_qualifiers p) else [])
     @ (if pu_subpath p \<noteq> [] then CHR 0x23 # pu_subpath p else [])"

text \<open>What precedes the last occurrence of a byte, what follows it, and whether there is one.\<close>

definition cut_last :: "string \<Rightarrow> char \<Rightarrow> string \<times> string \<times> bool" where
  "cut_last s sep = (case cut (rev s) sep of (after, before, found) \<Rightarrow>
     if found then (rev before, rev after, True) else (s, [], False))"

definition parse_qualifiers :: "string \<Rightarrow> (string \<times> string) list" where
  "parse_qualifiers qs =
     fold (\<lambda>pair m. case cut pair CHR ''='' of (k, v, found) \<Rightarrow> aput k v m) (split_on CHR ''&'' qs) []"

definition parse_purl :: "string \<Rightarrow> (gerror, purl) result" where
  "parse_purl raw =
     (if \<not> has_prefix raw ''pkg:'' then Inl (ENew (''purl: missing pkg: scheme: '' @ quote raw))
      else
        (case cut (drop 4 raw) CHR 0x23 of (r1, subpath, has_sub) \<Rightarrow>
         case cut r1 CHR ''?'' of (r2, qs, has_qs) \<Rightarrow>
         case cut_last r2 CHR ''@'' of (r3, v, has_v) \<Rightarrow>
         (case (if has_v then path_unescape v else Some []) of
            None \<Rightarrow> Inl (ENew (''purl '' @ quote raw @ '': version: invalid URL escape''))
          | Some version \<Rightarrow>
              (case cut r3 CHR ''/'' of (type_name, rest, ok) \<Rightarrow>
                 if \<not> ok \<or> type_name = [] then Inl (ENew (''purl: missing type: '' @ quote raw))
                 else
                   (case cut_last rest CHR ''/'' of (before, after, found) \<Rightarrow>
                      (let namespace = (if found then before else []); name = (if found then after else rest) in
                       if name = [] then Inl (ENew (''purl: missing name: '' @ quote raw))
                       else Inr \<lparr>pu_type = type_name, pu_namespace = namespace, pu_name = name, pu_version = version,
                                 pu_qualifiers = (if has_qs then parse_qualifiers qs else []),
                                 pu_subpath = subpath\<rparr>))))))"

section \<open>Identifiers\<close>

text \<open>What a platform answers: the canonical type of a manager's name, and its default type.\<close>

record managers =
  mg_resolve :: "string \<Rightarrow> string option"
  mg_default :: string

definition unknown_manager :: "string \<Rightarrow> gerror" where
  "unknown_manager m = ENew (''unknown package manager '' @ quote m)"

definition native_purl :: "string \<Rightarrow> string \<Rightarrow> purl" where
  "native_purl type raw =
     (case cut raw CHR ''@'' of (name, version, found) \<Rightarrow>
        \<lparr>pu_type = type, pu_namespace = [], pu_name = name, pu_version = version, pu_qualifiers = [], pu_subpath = []\<rparr>)"

definition parse_identifier :: "managers \<Rightarrow> string \<Rightarrow> (gerror, purl) result" where
  "parse_identifier M raw =
     (if has_prefix raw ''pkg:'' then
        (case parse_purl raw of
           Inl e \<Rightarrow> Inl e
         | Inr p \<Rightarrow>
             (case mg_resolve M (pu_type p) of
                None \<Rightarrow> Inl (unknown_manager (pu_type p))
              | Some t \<Rightarrow> Inr (p\<lparr>pu_type := t\<rparr>)))
      else
        (case cut raw CHR '':'' of (manager, after, found) \<Rightarrow>
           if found then
             (case mg_resolve M manager of
                None \<Rightarrow> Inl (unknown_manager manager)
              | Some t \<Rightarrow> Inr (native_purl t after))
           else Inr (native_purl (mg_default M) raw)))"

section \<open>Written and read\<close>

definition lacks :: "char list \<Rightarrow> string \<Rightarrow> bool" where
  "lacks seps s \<longleftrightarrow> list_all (\<lambda>c. c \<notin> set s) seps"

text \<open>A URL no part of which holds what separates it from the next.\<close>

definition separable :: "purl \<Rightarrow> bool" where
  "separable p \<longleftrightarrow>
     pu_type p \<noteq> [] \<and> lacks [CHR ''/'', CHR ''@'', CHR ''?'', CHR 0x23] (pu_type p) \<and>
     lacks [CHR ''@'', CHR ''?'', CHR 0x23] (pu_namespace p) \<and>
     pu_name p \<noteq> [] \<and> lacks [CHR ''/'', CHR ''@'', CHR ''?'', CHR 0x23] (pu_name p) \<and>
     lacks [CHR 0x25, CHR ''@'', CHR ''?'', CHR 0x23] (pu_version p) \<and>
     sorted (map fst (pu_qualifiers p)) \<and> distinct (map fst (pu_qualifiers p)) \<and>
     list_all (\<lambda>(k, v). lacks [CHR ''='', CHR ''&'', CHR 0x23] k \<and> lacks [CHR ''&'', CHR 0x23] v) (pu_qualifiers p)"

lemma cut_none: "sep \<notin> set s \<Longrightarrow> cut s sep = (s, [], False)"
  by (induction s) auto

lemma cut_last_append: "sep \<notin> set after \<Longrightarrow> cut_last (before @ sep # after) sep = (before, after, True)"
  by (simp add: cut_last_def cut_append)

lemma cut_last_none: "sep \<notin> set s \<Longrightarrow> cut_last s sep = (s, [], False)"
  by (simp add: cut_last_def cut_none)

lemma path_unescape_plain: "CHR 0x25 \<notin> set s \<Longrightarrow> path_unescape s = Some s"
  by (induction s) auto

lemma aput_fresh: "k \<notin> fst ` set m \<Longrightarrow> aput k v m = m @ [(k, v)]"
  by (induction m) auto

lemma fold_pairs:
  "distinct (map fst (m @ qs)) \<Longrightarrow> (\<And>k v. (k, v) \<in> set qs \<Longrightarrow> CHR ''='' \<notin> set k) \<Longrightarrow>
   fold (\<lambda>pair m. case cut pair CHR ''='' of (k, v, found) \<Rightarrow> aput k v m) (map (\<lambda>(k, v). k @ ''='' @ v) qs) m = m @ qs"
proof (induction qs arbitrary: m)
  case (Cons kv qs)
  obtain k v where kv: "kv = (k, v)" by force
  have "cut (k @ CHR ''='' # v) CHR ''='' = (k, v, True)" using Cons.prems(2) kv by (intro cut_append) auto
  moreover have "aput k v m = m @ [(k, v)]" using Cons.prems(1) kv by (intro aput_fresh) auto
  ultimately show ?case using Cons.IH [of "m @ [(k, v)]"] Cons.prems kv by auto
qed simp

lemma qualifiers_sorted:
  assumes "sorted (map fst qs)" "distinct (map fst qs)"
  shows "qualifiers_text qs = join_with ''&'' (map (\<lambda>(k, v). k @ ''='' @ v) qs)"
proof -
  have "sort (remdups (map fst qs)) = map fst qs"
    using assms by (simp add: distinct_remdups_id sorted_sort_id)
  moreover have "map (\<lambda>k. k @ ''='' @ (case alookup qs k of Some v \<Rightarrow> v | None \<Rightarrow> [])) (map fst qs)
      = map (\<lambda>(k, v). k @ ''='' @ v) qs"
    using assms(2) by (auto simp: map_of_is_SomeI)
  ultimately show ?thesis by (simp only: qualifiers_text_def)
qed

lemma qualifiers_roundtrip:
  assumes "sorted (map fst qs)" "distinct (map fst qs)" "qs \<noteq> []"
    and "\<And>k v. (k, v) \<in> set qs \<Longrightarrow> lacks [CHR ''='', CHR ''&'', CHR 0x23] k \<and> lacks [CHR ''&'', CHR 0x23] v"
  shows "parse_qualifiers (qualifiers_text qs) = qs"
proof -
  have "split_on CHR ''&'' (qualifiers_text qs) = map (\<lambda>(k, v). k @ ''='' @ v) qs"
    unfolding qualifiers_sorted [OF assms(1,2)]
    by (rule split_join) (use assms(3,4) in \<open>auto simp: lacks_def\<close>)
  with fold_pairs [of "[]" qs] assms(2,4) show ?thesis by (auto simp: parse_qualifiers_def lacks_def)
qed

lemma join_lacks: "c \<notin> set sep \<Longrightarrow> (\<And>w. w \<in> set ws \<Longrightarrow> c \<notin> set w) \<Longrightarrow> c \<notin> set (join_with sep ws)"
  by (induction sep ws rule: join_with.induct) auto

lemma qualifiers_lack:
  assumes "sorted (map fst qs)" "distinct (map fst qs)"
    and "\<And>k v. (k, v) \<in> set qs \<Longrightarrow> lacks [CHR ''='', CHR ''&'', CHR 0x23] k \<and> lacks [CHR ''&'', CHR 0x23] v"
  shows "CHR 0x23 \<notin> set (qualifiers_text qs)"
  unfolding qualifiers_sorted [OF assms(1,2)]
  by (rule join_lacks) (use assms(3) in \<open>auto simp: lacks_def\<close>)

text \<open>The last two steps of the parser, on what precedes the version.\<close>

lemma names_parsed:
  assumes "pu_type p \<noteq> []" "lacks [CHR ''/''] (pu_type p)" "pu_name p \<noteq> []" "lacks [CHR ''/''] (pu_name p)"
  defines "rest \<equiv> (if pu_namespace p \<noteq> [] then pu_namespace p @ ''/'' else []) @ pu_name p"
  shows "cut (pu_type p @ ''/'' @ rest) CHR ''/'' = (pu_type p, rest, True)"
    and "cut_last rest CHR ''/'' = (if pu_namespace p \<noteq> [] then (pu_namespace p, pu_name p, True) else (pu_name p, [], False))"
  using assms(2,4) by (auto simp: rest_def lacks_def cut_append cut_last_append cut_last_none)

text \<open>C30: a package URL is read back from its text as it was written if its parts can be told apart there: type and
  name are not empty and hold none of slash, at, question mark and hash; the namespace holds no at, question
  mark or hash; the version holds none of these and no percent sign, which the parser unescapes and the text
  does not escape; the qualifiers are in the order of their distinct keys, no key holds an equals
  sign, and no key or value an ampersand or a hash. The subpath is free.\<close>

theorem purl_survives_its_text:
  assumes "separable p"
  shows "parse_purl (purl_string p) = Inr p"
proof -
  let ?rest = "(if pu_namespace p \<noteq> [] then pu_namespace p @ ''/'' else []) @ pu_name p"
  let ?r3 = "pu_type p @ ''/'' @ ?rest"
  let ?v = "if pu_version p \<noteq> [] then ''@'' @ pu_version p else []"
  let ?q = "if pu_qualifiers p \<noteq> [] then ''?'' @ qualifiers_text (pu_qualifiers p) else []"
  let ?s = "if pu_subpath p \<noteq> [] then CHR 0x23 # pu_subpath p else []"
  note sep = assms [unfolded separable_def]
  have quals: "(k, v) \<in> set (pu_qualifiers p) \<Longrightarrow> lacks [CHR ''='', CHR ''&'', CHR 0x23] k \<and> lacks [CHR ''&'', CHR 0x23] v" for k v
    using sep by (auto simp: list_all_iff)
  have r3: "CHR ''@'' \<notin> set ?r3" "CHR ''?'' \<notin> set ?r3" "CHR 0x23 \<notin> set ?r3"
    using sep by (auto simp: lacks_def)
  have v: "CHR ''@'' \<notin> set (pu_version p)" "CHR ''?'' \<notin> set ?v" "CHR 0x23 \<notin> set ?v" "CHR 0x25 \<notin> set (pu_version p)"
    using sep by (auto simp: lacks_def)
  have "CHR 0x23 \<notin> set ?q" using qualifiers_lack [OF _ _ quals] sep by auto
  then have c1: "cut (?r3 @ ?v @ ?q @ ?s) CHR 0x23 = (?r3 @ ?v @ ?q, pu_subpath p, pu_subpath p \<noteq> [])"
    using cut_append [of "CHR 0x23" "?r3 @ ?v @ ?q" "pu_subpath p"] cut_none [of "CHR 0x23" "?r3 @ ?v @ ?q"] r3 v by auto
  have c2: "cut (?r3 @ ?v @ ?q) CHR ''?'' =
      (?r3 @ ?v, (if pu_qualifiers p \<noteq> [] then qualifiers_text (pu_qualifiers p) else []), pu_qualifiers p \<noteq> [])"
    using cut_append [of "CHR ''?''" "?r3 @ ?v"] cut_none [of "CHR ''?''" "?r3 @ ?v"] r3 v by auto
  have c3: "cut_last (?r3 @ ?v) CHR ''@'' = (?r3, pu_version p, pu_version p \<noteq> [])"
    using cut_last_append [of "CHR ''@''" "pu_version p" ?r3] cut_last_none [of "CHR ''@''" ?r3] r3 v by auto
  have q: "parse_qualifiers (qualifiers_text (pu_qualifiers p)) = pu_qualifiers p" if "pu_qualifiers p \<noteq> []"
    using qualifiers_roundtrip [OF _ _ that quals] sep by simp
  have names: "cut ?r3 CHR ''/'' = (pu_type p, ?rest, True)"
    "cut_last ?rest CHR ''/'' = (if pu_namespace p \<noteq> [] then (pu_namespace p, pu_name p, True) else (pu_name p, [], False))"
    using names_parsed [of p] sep by (simp_all add: lacks_def)
  have shape: "purl_string p = ''pkg:'' @ ?r3 @ ?v @ ?q @ ?s" by (simp add: purl_string_def)
  have drop: "drop 4 (purl_string p) = ?r3 @ ?v @ ?q @ ?s" "has_prefix (purl_string p) ''pkg:''"
    unfolding shape by simp_all
  have version: "(if pu_version p \<noteq> [] then path_unescape (pu_version p) else Some []) = Some (pu_version p)"
    using path_unescape_plain [OF v(4)] by simp
  have made: "\<lparr>pu_type = pu_type p, pu_namespace = pu_namespace p, pu_name = pu_name p, pu_version = pu_version p,
      pu_qualifiers = pu_qualifiers p, pu_subpath = pu_subpath p\<rparr> = p" by simp
  show ?thesis
    unfolding parse_purl_def drop c1 prod.case c2 c3 version names
    using sep q made by (cases "pu_namespace p = []"; cases "pu_qualifiers p = []") (simp_all add: drop(2) Let_def)
qed

text \<open>A URL with a namespace, a version, qualifiers and a subpath.\<close>

definition demo_purl :: purl where
  "demo_purl =
     \<lparr>pu_type = ''winget'', pu_namespace = ''Git/Tools'', pu_name = ''Git'', pu_version = ''2.40'',
      pu_qualifiers = [(''arch'', ''x64''), (''os'', ''a=b'')], pu_subpath = ''bin''\<rparr>"

theorem purl_survives_its_text_witness:
  "purl_string demo_purl = ''pkg:winget/Git/Tools/Git@2.40?arch=x64&os=a=b#bin'' \<and>
   parse_purl (purl_string demo_purl) = Inr demo_purl"
proof -
  have "separable demo_purl" by code_simp
  moreover have "purl_string demo_purl = ''pkg:winget/Git/Tools/Git@2.40?arch=x64&os=a=b#bin''" by code_simp
  ultimately show ?thesis using purl_survives_its_text [of demo_purl] by simp
qed

text \<open>The parser undoes the escapes of a version and the text does not make them: an escaped separator in a
  version becomes a separator.\<close>

theorem escaped_version_is_not_kept:
  "map_sum (\<lambda>_. ()) purl_string (parse_purl ''pkg:deb/x@1%23a'') = Inr ''pkg:deb/x@1#a''"
  "map_sum (\<lambda>_. ()) (\<lambda>p. (pu_version p, pu_subpath p)) (parse_purl ''pkg:deb/x@1#a'') = Inr (''1'', ''a'')"
  by code_simp+

text \<open>A name that starts with the version's mark is taken for a version of the package without a name, whose URL
  cannot be read back.\<close>

theorem scoped_name_is_taken_for_a_version:
  assumes "mg_resolve M ''npm'' = Some ''npm''"
  shows "case parse_identifier M ''npm:@angular/cli'' of
      Inr p \<Rightarrow> pu_name p = [] \<and> pu_version p = ''angular/cli'' \<and> isl (parse_purl (purl_string p))
    | Inl e \<Rightarrow> False"
proof -
  have "parse_identifier M ''npm:@angular/cli'' = Inr (native_purl ''npm'' ''@angular/cli'')"
    using assms by (simp add: parse_identifier_def)
  moreover have "pu_name (native_purl ''npm'' ''@angular/cli'') = [] \<and>
      pu_version (native_purl ''npm'' ''@angular/cli'') = ''angular/cli'' \<and>
      isl (parse_purl (purl_string (native_purl ''npm'' ''@angular/cli'')))"
    by code_simp
  ultimately show ?thesis by simp
qed

end
