(* ===== verification/Package_Claims.thy ===== *)
theory Package_Claims
  imports Package_URL
begin

text \<open>
  The packages of a scope, \<open>cmd/writ/writ/deploy/manifest.go\<close>: the claims of every manifest merged in the order
  of contribution into one claim per product. Loading a manifest and asking the registry are arguments. What
  the merge promises: every claim is met by a product, no two products are one, nothing is claimed that no
  manifest claimed, and a refusal names two pins that disagree.
\<close>

section \<open>Claims\<close>

record claim =
  cl_purl :: purl
  cl_version :: string
  cl_pinned_by :: string
  cl_with :: "string list"
  cl_manifests :: "string list"
  cl_decisions :: "string list"

record duplicate =
  du_package :: string
  du_manifests :: "string list"
  du_decisions :: "string list"

record deferred =
  df_package :: string
  df_manifests :: "string list"

text \<open>One entry of a manifest, as the merge sees it: its coordinates, its features, the manifest.\<close>

type_synonym made_claim = "purl \<times> string list \<times> string"

definition has_coordinates :: "purl \<Rightarrow> bool" where
  "has_coordinates p \<longleftrightarrow> pu_namespace p \<noteq> [] \<or> pu_qualifiers p \<noteq> []"

text \<open>\<open>maps.Equal\<close>.\<close>

definition same_fields :: "(string \<times> string) list \<Rightarrow> (string \<times> string) list \<Rightarrow> bool" where
  "same_fields a b \<longleftrightarrow> list_all (\<lambda>k. alookup a k = alookup b k) (map fst a @ map fst b)"

definition same_coordinates :: "purl \<Rightarrow> purl \<Rightarrow> bool" where
  "same_coordinates p q \<longleftrightarrow> pu_namespace p = pu_namespace q \<and> same_fields (pu_qualifiers p) (pu_qualifiers q)"

definition same_name :: "purl \<Rightarrow> purl \<Rightarrow> bool" where
  "same_name p q \<longleftrightarrow> pu_type p = pu_type q \<and> pu_name p = pu_name q"

fun first_position :: "('a \<Rightarrow> bool) \<Rightarrow> 'a list \<Rightarrow> nat option" where
  "first_position P [] = None"
| "first_position P (x # xs) = (if P x then Some 0 else map_option Suc (first_position P xs))"

definition claims_on :: "purl \<Rightarrow> claim \<Rightarrow> bool" where
  "claims_on parsed c \<longleftrightarrow> same_name (cl_purl c) parsed \<and>
     (same_coordinates (cl_purl c) parsed \<or> \<not> has_coordinates parsed \<or> \<not> has_coordinates (cl_purl c))"

definition matching_claim :: "claim list \<Rightarrow> purl \<Rightarrow> nat option" where
  "matching_claim cs parsed = first_position (claims_on parsed) cs"

definition same_product :: "claim list \<Rightarrow> purl \<Rightarrow> nat option" where
  "same_product cs parsed = first_position (\<lambda>c. same_name (cl_purl c) parsed) cs"

definition union_features :: "string list \<Rightarrow> string list \<Rightarrow> string list" where
  "union_features xs ys = fold (\<lambda>f u. if f \<in> set u then u else u @ [f]) (xs @ ys) []"

definition claim_identifier :: "claim \<Rightarrow> string" where
  "claim_identifier c = purl_string ((cl_purl c)\<lparr>pu_version := cl_version c\<rparr>)"

section \<open>Merging\<close>

definition decide :: "string \<Rightarrow> claim \<Rightarrow> claim" where
  "decide d c = c\<lparr>cl_decisions := cl_decisions c @ [d]\<rparr>"

definition new_claim :: "purl \<Rightarrow> string \<Rightarrow> string list \<Rightarrow> string \<Rightarrow> claim" where
  "new_claim bare version features m =
     \<lparr>cl_purl = bare, cl_version = version, cl_pinned_by = (if version \<noteq> [] then m else []),
      cl_with = union_features [] features, cl_manifests = [m], cl_decisions = []\<rparr>"

text \<open>What a later claim adds to the product it is on, before its version is judged.\<close>

definition joined_claim :: "claim \<Rightarrow> purl \<Rightarrow> string list \<Rightarrow> string \<Rightarrow> claim" where
  "joined_claim c bare features m =
     (let c1 = c\<lparr>cl_manifests := cl_manifests c @ [m], cl_with := union_features (cl_with c) features\<rparr> in
      if has_coordinates bare \<and> \<not> has_coordinates (cl_purl c)
      then (decide (''met by '' @ purl_string bare @ '' ('' @ m @ '')'') c1)\<lparr>cl_purl := bare\<rparr> else c1)"

definition pin_clash :: "claim \<Rightarrow> string \<Rightarrow> string \<Rightarrow> gerror" where
  "pin_clash c version m =
     ENew (''package '' @ quote (pu_name (cl_purl c)) @ '' is claimed at version '' @ quote (cl_version c) @ '' by ''
       @ cl_pinned_by c @ '' and at version '' @ quote version @ '' by '' @ m
       @ '': one package interns one catalog entry, so no version satisfies both claims'')"

definition judge_version :: "claim \<Rightarrow> string \<Rightarrow> string \<Rightarrow> (gerror, claim) result" where
  "judge_version c version m =
     (if version = [] \<or> version = cl_version c then Inr (decide (''claimed again by '' @ m) c)
      else if cl_version c = [] then
        Inr ((decide (''pin '' @ version @ '' ('' @ m @ '') satisfies'') c)\<lparr>cl_version := version, cl_pinned_by := m\<rparr>)
      else Inl (pin_clash c version m))"

definition merge_claim :: "made_claim \<Rightarrow> claim list \<Rightarrow> (gerror, claim list) result" where
  "merge_claim made cs =
     (case made of (parsed, features, m) \<Rightarrow>
        (let version = pu_version parsed; bare = parsed\<lparr>pu_version := []\<rparr> in
         case matching_claim cs bare of
           None \<Rightarrow>
             (let noted = (case same_product cs bare of
                  None \<Rightarrow> cs
                | Some i \<Rightarrow> cs[i := decide (purl_string bare @ '' ('' @ m @ '') is a second product on '' @ pu_type bare) (cs ! i)])
              in Inr (noted @ [new_claim bare version features m]))
         | Some i \<Rightarrow>
             (case judge_version (joined_claim (cs ! i) bare features m) version m of
                Inl e \<Rightarrow> Inl e
              | Inr c \<Rightarrow> Inr (cs[i := c]))))"

fun merge_all :: "made_claim list \<Rightarrow> claim list \<Rightarrow> (gerror, claim list) result" where
  "merge_all [] cs = Inr cs"
| "merge_all (x # xs) cs = (case merge_claim x cs of Inl e \<Rightarrow> Inl e | Inr cs' \<Rightarrow> merge_all xs cs')"

definition duplicates_of :: "claim list \<Rightarrow> duplicate list" where
  "duplicates_of cs =
     map (\<lambda>c. \<lparr>du_package = claim_identifier c, du_manifests = cl_manifests c, du_decisions = cl_decisions c\<rparr>)
       (filter (\<lambda>c. length (cl_manifests c) > 1 \<or> cl_decisions c \<noteq> []) cs)"

section \<open>Manifests\<close>

definition package_name :: "string \<Rightarrow> string" where
  "package_name raw = (case cut raw CHR ''@'' of (name, after, found) \<Rightarrow> name)"

definition is_registry_package :: "(string \<Rightarrow> bool) \<Rightarrow> string \<Rightarrow> bool" where
  "is_registry_package holds raw \<longleftrightarrow> CHR '':'' \<notin> set raw \<and> CHR ''/'' \<notin> set raw \<and> holds (package_name raw)"

fun defer_claim :: "string \<Rightarrow> string \<Rightarrow> deferred list \<Rightarrow> deferred list" where
  "defer_claim name m [] = [\<lparr>df_package = name, df_manifests = [m]\<rparr>]"
| "defer_claim name m (d # ds) =
     (if df_package d = name then d\<lparr>df_manifests := df_manifests d @ [m]\<rparr> # ds else d # defer_claim name m ds)"

text \<open>A manifest's entries: the name and the features.\<close>

type_synonym package_entry = "string \<times> string list"

fun merge_entries ::
  "managers \<Rightarrow> (string \<Rightarrow> bool) \<Rightarrow> string \<Rightarrow> package_entry list \<Rightarrow> claim list \<times> deferred list
     \<Rightarrow> (gerror, claim list \<times> deferred list) result"
where
  "merge_entries M holds m [] st = Inr st"
| "merge_entries M holds m ((raw, features) # es) (cs, ds) =
     (if is_registry_package holds raw then merge_entries M holds m es (cs, defer_claim (package_name raw) m ds)
      else
        (case parse_identifier M raw of
           Inl e \<Rightarrow> Inl (wrapf (''manifest '' @ m @ '': package '' @ quote raw @ '': '') e)
         | Inr parsed \<Rightarrow>
             (case merge_claim (parsed, features, m) cs of
                Inl e \<Rightarrow> Inl e
              | Inr cs' \<Rightarrow> merge_entries M holds m es (cs', ds))))"

fun merge_manifests_from ::
  "managers \<Rightarrow> (string \<Rightarrow> bool) \<Rightarrow> (string \<Rightarrow> (gerror, package_entry list) result) \<Rightarrow> string list
     \<Rightarrow> claim list \<times> deferred list \<Rightarrow> (gerror, claim list \<times> deferred list) result"
where
  "merge_manifests_from M holds load [] st = Inr st"
| "merge_manifests_from M holds load (m # ms) st =
     (case load m of
        Inl e \<Rightarrow> Inl (wrapf (''parsing manifest '' @ m @ '': '') e)
      | Inr es \<Rightarrow>
          (case merge_entries M holds m es st of
             Inl e \<Rightarrow> Inl e
           | Inr st' \<Rightarrow> merge_manifests_from M holds load ms st'))"

definition merge_manifests ::
  "managers \<Rightarrow> (string \<Rightarrow> bool) \<Rightarrow> (string \<Rightarrow> (gerror, package_entry list) result) \<Rightarrow> string list
     \<Rightarrow> (gerror, claim list \<times> duplicate list \<times> deferred list) result"
where
  "merge_manifests M holds load ms =
     (case merge_manifests_from M holds load ms ([], []) of
        Inl e \<Rightarrow> Inl e
      | Inr (cs, ds) \<Rightarrow> Inr (cs, duplicates_of cs, ds))"

section \<open>Coordinates\<close>

lemma same_fields_iff: "same_fields a b \<longleftrightarrow> map_of a = map_of b"
proof
  assume s: "same_fields a b"
  show "map_of a = map_of b"
  proof
    fix k
    show "map_of a k = map_of b k"
    proof (cases "k \<in> fst ` set a \<or> k \<in> fst ` set b")
      case True
      with s show ?thesis by (auto simp: same_fields_def list_all_iff)
    next
      case False
      then have "map_of a k = None" "map_of b k = None" by (simp_all add: map_of_eq_None_iff)
      then show ?thesis by simp
    qed
  qed
qed (simp add: same_fields_def list_all_iff)

lemma same_coordinates_iff:
  "same_coordinates p q \<longleftrightarrow> pu_namespace p = pu_namespace q \<and> map_of (pu_qualifiers p) = map_of (pu_qualifiers q)"
  by (simp add: same_coordinates_def same_fields_iff)

lemma versionless [simp]:
  "has_coordinates (p\<lparr>pu_version := v\<rparr>) = has_coordinates p"
  "same_coordinates (p\<lparr>pu_version := v\<rparr>) q = same_coordinates p q"
  "same_coordinates q (p\<lparr>pu_version := v\<rparr>) = same_coordinates q p"
  "same_name (p\<lparr>pu_version := v\<rparr>) q = same_name p q" "same_name q (p\<lparr>pu_version := v\<rparr>) = same_name q p"
  by (simp_all add: has_coordinates_def same_coordinates_def same_name_def)

lemma no_coordinates: "same_coordinates p q \<Longrightarrow> has_coordinates p \<longleftrightarrow> has_coordinates q"
  by (auto simp: same_coordinates_iff has_coordinates_def)

lemma first_position_some: "first_position P xs = Some i \<Longrightarrow> i < length xs \<and> P (xs ! i)"
  by (induction xs arbitrary: i) (auto split: if_splits)

lemma first_position_none: "first_position P xs = None \<longleftrightarrow> (\<forall>x \<in> set xs. \<not> P x)"
  by (induction xs) auto

lemma union_set [simp]: "set (union_features xs ys) = set xs \<union> set ys"
proof -
  have "set (fold (\<lambda>f u. if f \<in> set u then u else u @ [f]) zs u) = set u \<union> set zs" for zs u :: "string list"
    by (induction zs arbitrary: u) auto
  then show ?thesis by (simp add: union_features_def)
qed

section \<open>What the merge keeps\<close>

definition products :: "claim list \<Rightarrow> bool" where
  "products cs \<longleftrightarrow> (\<forall>i < length cs. \<forall>j < length cs. i \<noteq> j \<longrightarrow> same_name (cl_purl (cs ! i)) (cl_purl (cs ! j)) \<longrightarrow>
     has_coordinates (cl_purl (cs ! i)) \<and> \<not> same_coordinates (cl_purl (cs ! i)) (cl_purl (cs ! j)))"

definition meets :: "claim \<Rightarrow> made_claim \<Rightarrow> bool" where
  "meets c x \<longleftrightarrow> (case x of (p, features, m) \<Rightarrow>
     same_name (cl_purl c) p \<and> (has_coordinates p \<longrightarrow> same_coordinates (cl_purl c) p) \<and>
     (pu_version p \<noteq> [] \<longrightarrow> cl_version c = pu_version p) \<and> set features \<subseteq> set (cl_with c) \<and> m \<in> set (cl_manifests c))"

text \<open>Everything a product says comes from a claim on its manager and name.\<close>

definition sourced :: "made_claim set \<Rightarrow> claim \<Rightarrow> bool" where
  "sourced made c \<longleftrightarrow> (let on = {x \<in> made. same_name (cl_purl c) (fst x)} in
     (\<forall>f \<in> set (cl_with c). \<exists>x \<in> on. f \<in> set (fst (snd x))) \<and>
     (\<forall>m \<in> set (cl_manifests c). \<exists>x \<in> on. snd (snd x) = m) \<and>
     (cl_version c \<noteq> [] \<longrightarrow> (\<exists>x \<in> on. pu_version (fst x) = cl_version c \<and> snd (snd x) = cl_pinned_by c)) \<and>
     (has_coordinates (cl_purl c) \<longrightarrow> (\<exists>x \<in> on. same_coordinates (cl_purl c) (fst x))))"

definition merged :: "made_claim set \<Rightarrow> claim list \<Rightarrow> bool" where
  "merged made cs \<longleftrightarrow> products cs \<and> (\<forall>x \<in> made. \<exists>c \<in> set cs. meets c x) \<and> (\<forall>c \<in> set cs. sourced made c)"

lemma sourced_more: "sourced made c \<Longrightarrow> made \<subseteq> made' \<Longrightarrow> sourced made' c"
  unfolding sourced_def Let_def by (intro conjI ballI impI; fastforce)

lemma decide_parts [simp]:
  "cl_purl (decide d c) = cl_purl c" "cl_version (decide d c) = cl_version c" "cl_with (decide d c) = cl_with c"
  "cl_manifests (decide d c) = cl_manifests c" "cl_pinned_by (decide d c) = cl_pinned_by c"
  by (simp_all add: decide_def)

lemma decide_same [simp]: "meets (decide d c) x = meets c x" "sourced made (decide d c) = sourced made c"
  by (simp_all add: meets_def sourced_def split: prod.splits)

lemma merged_decide: "merged made cs \<Longrightarrow> i < length cs \<Longrightarrow> merged made (cs[i := decide d (cs ! i)])"
proof -
  assume m: "merged made cs" and i: "i < length cs"
  have nth: "cl_purl (cs[i := decide d (cs ! i)] ! j) = cl_purl (cs ! j)" for j
    using i by (cases "j = i") auto
  have "\<exists>c \<in> set (cs[i := decide d (cs ! i)]). meets c x" if "x \<in> made" for x
  proof -
    from m that obtain c where "c \<in> set cs" "meets c x" by (auto simp: merged_def)
    then obtain j where "j < length cs" "meets (cs ! j) x" by (metis in_set_conv_nth)
    then have "meets (cs[i := decide d (cs ! i)] ! j) x" "j < length (cs[i := decide d (cs ! i)])"
      using i by (auto simp: nth_list_update)
    then show ?thesis by (metis nth_mem)
  qed
  moreover have "sourced made c" if "c \<in> set (cs[i := decide d (cs ! i)])" for c
    using m i set_update_subset_insert [of cs i "decide d (cs ! i)"] that by (auto simp: merged_def)
  ultimately show ?thesis using m nth by (simp add: merged_def products_def)
qed

text \<open>A claim no product takes.\<close>

lemma merged_new:
  assumes m: "merged made cs" and none: "\<And>c. c \<in> set cs \<Longrightarrow> \<not> claims_on (p\<lparr>pu_version := []\<rparr>) c"
  shows "merged (insert (p, features, f) made) (cs @ [new_claim (p\<lparr>pu_version := []\<rparr>) (pu_version p) features f])"
proof -
  let ?c = "new_claim (p\<lparr>pu_version := []\<rparr>) (pu_version p) features f"
  have apart: "has_coordinates (cl_purl c) \<and> has_coordinates p \<and> \<not> same_coordinates (cl_purl c) p"
    if "c \<in> set cs" "same_name (cl_purl c) p" for c
    using none [OF that(1)] that(2) by (auto simp: claims_on_def)
  have sym: "same_name p q \<longleftrightarrow> same_name q p" "same_coordinates p q \<longleftrightarrow> same_coordinates q p" for q
    by (auto simp: same_name_def same_coordinates_iff)
  have "products (cs @ [?c])"
    unfolding products_def
  proof (intro allI impI)
    fix i j
    assume ij: "i < length (cs @ [?c])" "j < length (cs @ [?c])" "i \<noteq> j"
      and n: "same_name (cl_purl ((cs @ [?c]) ! i)) (cl_purl ((cs @ [?c]) ! j))"
    consider "i < length cs" "j < length cs" | "i < length cs" "j = length cs" | "i = length cs" "j < length cs"
      using ij by force
    then show "has_coordinates (cl_purl ((cs @ [?c]) ! i)) \<and>
        \<not> same_coordinates (cl_purl ((cs @ [?c]) ! i)) (cl_purl ((cs @ [?c]) ! j))"
    proof cases
      case 1
      with m n ij(3) show ?thesis by (auto simp: merged_def products_def nth_append)
    next
      case 2
      with n apart [of "cs ! i"] show ?thesis by (simp add: nth_append new_claim_def)
    next
      case 3
      with n apart [of "cs ! j"] sym show ?thesis by (simp add: nth_append new_claim_def)
    qed
  qed
  moreover have "meets ?c (p, features, f)"
    by (auto simp: meets_def new_claim_def same_name_def same_coordinates_iff)
  moreover have "sourced (insert (p, features, f) made) ?c"
    by (auto simp: sourced_def new_claim_def same_name_def same_coordinates_iff)
  ultimately show ?thesis using m by (auto simp: merged_def intro: sourced_more)
qed

text \<open>A claim a product takes, with a version that does not clash.\<close>

lemma judged_parts:
  assumes "judge_version (joined_claim c (p\<lparr>pu_version := []\<rparr>) features f) (pu_version p) f = Inr c'"
  shows "cl_purl c' = (if has_coordinates p \<and> \<not> has_coordinates (cl_purl c) then p\<lparr>pu_version := []\<rparr> else cl_purl c)"
    and "set (cl_with c') = set (cl_with c) \<union> set features" and "set (cl_manifests c') = insert f (set (cl_manifests c))"
    and "pu_version p \<noteq> [] \<Longrightarrow> cl_version c' = pu_version p" and "cl_version c \<noteq> [] \<Longrightarrow> cl_version c' = cl_version c"
    and "cl_version c' \<noteq> [] \<Longrightarrow> cl_version c' = cl_version c \<and> cl_pinned_by c' = cl_pinned_by c
        \<or> cl_version c' = pu_version p \<and> cl_pinned_by c' = f"
  using assms by (auto simp: judge_version_def joined_claim_def Let_def split: if_splits)

lemma sourced_joined:
  assumes src: "sourced S c" and purl: "cl_purl c' = (if has_coordinates p \<and> \<not> has_coordinates (cl_purl c)
      then p\<lparr>pu_version := []\<rparr> else cl_purl c)"
    and feat: "set (cl_with c') = set (cl_with c) \<union> set features" and mans: "set (cl_manifests c') = insert f (set (cl_manifests c))"
    and pin: "cl_version c' \<noteq> [] \<Longrightarrow> cl_version c' = cl_version c \<and> cl_pinned_by c' = cl_pinned_by c
        \<or> cl_version c' = pu_version p \<and> cl_pinned_by c' = f"
    and name: "\<And>q. same_name (cl_purl c') q \<longleftrightarrow> same_name (cl_purl c) q"
    and on: "same_name (cl_purl c) p" "(p, features, f) \<in> S"
  shows "sourced S c'"
proof -
  define here where "here = {x \<in> S. same_name (cl_purl c) (fst x)}"
  have mem: "(p, features, f) \<in> here" using on by (simp add: here_def)
  have old: "\<forall>f \<in> set (cl_with c). \<exists>x \<in> here. f \<in> set (fst (snd x))" "\<forall>m \<in> set (cl_manifests c). \<exists>x \<in> here. snd (snd x) = m"
    "cl_version c \<noteq> [] \<longrightarrow> (\<exists>x \<in> here. pu_version (fst x) = cl_version c \<and> snd (snd x) = cl_pinned_by c)"
    "has_coordinates (cl_purl c) \<longrightarrow> (\<exists>x \<in> here. same_coordinates (cl_purl c) (fst x))"
    using src by (simp_all add: sourced_def here_def Let_def)
  have "\<forall>g \<in> set (cl_with c'). \<exists>x \<in> here. g \<in> set (fst (snd x))"
    using old(1) mem feat by (metis Un_iff fst_conv snd_conv)
  moreover have "\<forall>m \<in> set (cl_manifests c'). \<exists>x \<in> here. snd (snd x) = m"
    using old(2) mem mans by (metis insert_iff snd_conv)
  moreover have "\<exists>x \<in> here. pu_version (fst x) = cl_version c' \<and> snd (snd x) = cl_pinned_by c'" if "cl_version c' \<noteq> []"
    using pin [OF that] old(3) mem that by (metis fst_conv snd_conv)
  moreover have "\<exists>x \<in> here. same_coordinates (cl_purl c') (fst x)" if "has_coordinates (cl_purl c')"
  proof (cases "has_coordinates p \<and> \<not> has_coordinates (cl_purl c)")
    case True
    then show ?thesis using purl mem by (intro bexI [OF _ mem]) (simp add: same_coordinates_iff)
  next
    case False
    then have "cl_purl c' = cl_purl c" using purl by auto
    then show ?thesis using old(4) that by simp
  qed
  moreover have "{x \<in> S. same_name (cl_purl c') (fst x)} = here" by (simp add: name here_def)
  ultimately show ?thesis by (simp add: sourced_def)
qed

lemma products_update:
  assumes m: "products cs" and i: "i < length cs"
    and name: "\<And>q. same_name (cl_purl c') q \<longleftrightarrow> same_name (cl_purl (cs ! i)) q"
    and same: "has_coordinates (cl_purl (cs ! i)) \<Longrightarrow> cl_purl c' = cl_purl (cs ! i)"
  shows "products (cs[i := c'])"
  unfolding products_def
proof (intro allI impI)
  fix a b
  assume ab: "a < length (cs[i := c'])" "b < length (cs[i := c'])" "a \<noteq> b"
    and n: "same_name (cl_purl (cs[i := c'] ! a)) (cl_purl (cs[i := c'] ! b))"
  have names: "same_name (cl_purl (cs ! a)) (cl_purl (cs ! b))"
    using n name i by (auto simp: nth_list_update same_name_def split: if_splits)
  with ab m have old: "has_coordinates (cl_purl (cs ! a)) \<and> \<not> same_coordinates (cl_purl (cs ! a)) (cl_purl (cs ! b))"
    "has_coordinates (cl_purl (cs ! b))"
    by (auto simp: products_def same_name_def)
  then have "cl_purl (cs[i := c'] ! a) = cl_purl (cs ! a)" "cl_purl (cs[i := c'] ! b) = cl_purl (cs ! b)"
    using same i by (auto simp: nth_list_update)
  with old show "has_coordinates (cl_purl (cs[i := c'] ! a)) \<and>
      \<not> same_coordinates (cl_purl (cs[i := c'] ! a)) (cl_purl (cs[i := c'] ! b))" by simp
qed

lemma merged_joined:
  assumes m: "merged made cs" and i: "i < length cs" "claims_on (p\<lparr>pu_version := []\<rparr>) (cs ! i)"
    and j: "judge_version (joined_claim (cs ! i) (p\<lparr>pu_version := []\<rparr>) features f) (pu_version p) f = Inr c'"
  shows "merged (insert (p, features, f) made) (cs[i := c'])"
proof -
  note parts = judged_parts [OF j]
  let ?c = "cs ! i"
  have on: "same_name (cl_purl ?c) p"
    "same_coordinates (cl_purl ?c) p \<or> \<not> has_coordinates p \<or> \<not> has_coordinates (cl_purl ?c)"
    using i(2) by (simp_all add: claims_on_def)
  have name: "same_name (cl_purl c') q \<longleftrightarrow> same_name (cl_purl ?c) q" for q
    using parts(1) on(1) by (auto simp: same_name_def)
  have kept: "meets c' x" if "meets ?c x" for x
    using that parts(1-3,5) name no_coordinates [of "cl_purl ?c" "fst x"]
    by (auto simp: meets_def split: prod.splits)
  have new: "meets c' (p, features, f)"
    using parts(1-4) on name by (auto simp: meets_def same_coordinates_iff)
  have "sourced made ?c" using m i(1) by (simp add: merged_def)
  then have "sourced (insert (p, features, f) made) ?c" by (rule sourced_more) blast
  then have src: "sourced (insert (p, features, f) made) c'"
    by (rule sourced_joined [OF _ parts(1-3,6) name]) (use on(1) in \<open>simp_all\<close>)
  moreover have "products (cs[i := c'])"
    by (rule products_update [OF _ i(1) name]) (use m parts(1) in \<open>auto simp: merged_def\<close>)
  moreover have "\<exists>c \<in> set (cs[i := c']). meets c x" if "x \<in> insert (p, features, f) made" for x
  proof -
    have "\<exists>k < length cs. meets (cs[i := c'] ! k) x"
    proof (cases "x = (p, features, f)")
      case True
      with new i(1) show ?thesis by (intro exI [of _ i]) simp
    next
      case False
      with that m obtain c where "c \<in> set cs" "meets c x" by (auto simp: merged_def)
      then obtain k where "k < length cs" "meets (cs ! k) x" by (metis in_set_conv_nth)
      with kept [of x] i(1) show ?thesis by (intro exI [of _ k]) (cases "k = i"; simp)
    qed
    then show ?thesis by (metis length_list_update nth_mem)
  qed
  moreover have "sourced (insert (p, features, f) made) c" if "c \<in> set cs" for c
    using m that by (auto simp: merged_def intro: sourced_more)
  ultimately show ?thesis
    using set_update_subset_insert [of cs i c'] src by (auto simp: merged_def)
qed

lemma merge_claim_keeps:
  assumes "merged made cs" "merge_claim (p, features, f) cs = Inr cs'"
  shows "merged (insert (p, features, f) made) cs'"
proof (cases "matching_claim cs (p\<lparr>pu_version := []\<rparr>)")
  case None
  let ?p = "p\<lparr>pu_version := []\<rparr>"
  have free: "\<not> claims_on ?p c" if "c \<in> set cs" for c
    using None that by (simp add: matching_claim_def first_position_none)
  show ?thesis
  proof (cases "same_product cs ?p")
    case None
    with \<open>matching_claim cs ?p = None\<close> assms(2) merged_new [OF assms(1) free] show ?thesis
      by (auto simp: merge_claim_def Let_def)
  next
    case (Some i)
    then have i: "i < length cs" using first_position_some by (fastforce simp: same_product_def)
    define d where "d = purl_string ?p @ '' ('' @ f @ '') is a second product on '' @ pu_type p"
    have free': "\<not> claims_on ?p c" if "c \<in> set (cs[i := decide d (cs ! i)])" for c
    proof -
      have "c \<in> set cs \<or> c = decide d (cs ! i)"
        using that set_update_subset_insert [of cs i "decide d (cs ! i)"] by auto
      then show ?thesis using free free [OF nth_mem [OF i]] by (auto simp: claims_on_def)
    qed
    from merged_new [OF merged_decide [OF assms(1) i] free'] assms(2) Some \<open>matching_claim cs ?p = None\<close>
    show ?thesis by (auto simp: merge_claim_def Let_def d_def)
  qed
next
  case (Some i)
  with first_position_some have i: "i < length cs" "claims_on (p\<lparr>pu_version := []\<rparr>) (cs ! i)"
    by (fastforce simp: matching_claim_def)+
  with assms Some merged_joined [OF assms(1) i] show ?thesis
    by (auto simp: merge_claim_def Let_def split: sum.splits)
qed

lemma merge_all_keeps: "merged made cs \<Longrightarrow> merge_all xs cs = Inr cs' \<Longrightarrow> merged (made \<union> set xs) cs'"
proof (induction xs arbitrary: made cs)
  case (Cons x xs)
  obtain p features f where x: "x = (p, features, f)" by (cases x)
  obtain cs1 where c: "merge_claim x cs = Inr cs1" "merge_all xs cs1 = Inr cs'"
    using Cons.prems(2) by (auto split: sum.splits)
  from Cons.IH [OF merge_claim_keeps [OF Cons.prems(1) c(1) [unfolded x]] c(2)] x show ?case by simp
qed simp

lemma merge_all_append:
  "merge_all (xs @ ys) cs = (case merge_all xs cs of Inl e \<Rightarrow> Inl e | Inr cs' \<Rightarrow> merge_all ys cs')"
  by (induction xs arbitrary: cs) (auto split: sum.splits)

lemma merged_empty: "merged {} []"
  by (simp add: merged_def products_def)

text \<open>A merge stops at the first claim refused, and a claim is refused by a product it shares a manager and a
  name with, over two versions.\<close>

lemma merge_all_stops:
  "merge_all made [] = Inl e \<Longrightarrow> \<exists>earlier p features f later cs.
     made = earlier @ (p, features, f) # later \<and> merge_all earlier [] = Inr cs \<and> merge_claim (p, features, f) cs = Inl e"
proof (induction made rule: rev_induct)
  case (snoc x xs)
  have split: "merge_all (xs @ [x]) [] = (case merge_all xs [] of Inl e \<Rightarrow> Inl e | Inr cs \<Rightarrow> merge_claim x cs)"
    by (simp add: merge_all_append split: sum.splits)
  show ?case
  proof (cases "merge_all xs []")
    case (Inl e')
    with split snoc.prems snoc.IH show ?thesis by fastforce
  next
    case (Inr cs)
    obtain p features f where "x = (p, features, f)" by (cases x)
    with split snoc.prems Inr show ?thesis by (intro exI [of _ xs]) auto
  qed
qed simp

lemma merge_claim_refuses:
  assumes "merge_claim (p, features, f) cs = Inl e"
  shows "\<exists>c c'. c \<in> set cs \<and> same_name (cl_purl c) p \<and> pu_version p \<noteq> [] \<and> cl_version c \<noteq> [] \<and>
    cl_version c \<noteq> pu_version p \<and> e = pin_clash c' (pu_version p) f \<and> cl_version c' = cl_version c \<and>
    cl_pinned_by c' = cl_pinned_by c"
proof -
  let ?p = "p\<lparr>pu_version := []\<rparr>"
  obtain i where i: "matching_claim cs ?p = Some i"
    and j: "judge_version (joined_claim (cs ! i) ?p features f) (pu_version p) f = Inl e"
    using assms by (auto simp: merge_claim_def Let_def split: option.splits sum.splits)
  have c: "cs ! i \<in> set cs" "same_name (cl_purl (cs ! i)) p"
    using first_position_some [OF i [unfolded matching_claim_def]] by (simp_all add: claims_on_def)
  let ?c = "joined_claim (cs ! i) ?p features f"
  have joined: "cl_version ?c = cl_version (cs ! i)" "cl_pinned_by ?c = cl_pinned_by (cs ! i)"
    by (simp_all add: joined_claim_def Let_def)
  with j have "pu_version p \<noteq> []" "cl_version (cs ! i) \<noteq> []" "cl_version (cs ! i) \<noteq> pu_version p"
    "e = pin_clash ?c (pu_version p) f"
    by (auto simp: judge_version_def split: if_splits)
  with c joined show ?thesis by blast
qed

section \<open>The merge\<close>

text \<open>C28: The merged claims hold one product for one manager, name and coordinates, and when several products
  share a manager and a name each has coordinates. Every claim is met by a product: its manager and name, its
  coordinates and its version where it asks for them, its features, its manifest among the product's. And what a
  product says comes from the claims on its manager and name: each feature, each manifest, the pinned version
  with the manifest that pinned it, the coordinates.\<close>

theorem merge_meets_every_claim:
  assumes "merge_all made [] = Inr cs"
  shows "products cs \<and> list_all (\<lambda>x. list_ex (\<lambda>c. meets c x) cs) made \<and> list_all (sourced (set made)) cs"
  using merge_all_keeps [OF merged_empty assms] by (auto simp: merged_def list_all_iff list_ex_iff)

text \<open>C29: A merge is refused only over two claims on one manager and name that pin different versions, and the
  refusal names both versions and both manifests.\<close>

theorem refusal_names_two_pins:
  assumes "merge_all made [] = Inl e"
  shows "\<exists>earlier p features f later q gs g c. made = earlier @ (p, features, f) # later \<and> (q, gs, g) \<in> set earlier \<and>
    same_name q p \<and> pu_version q \<noteq> [] \<and> pu_version p \<noteq> [] \<and> pu_version q \<noteq> pu_version p \<and>
    e = pin_clash c (pu_version p) f \<and> cl_version c = pu_version q \<and> cl_pinned_by c = g"
proof -
  from merge_all_stops [OF assms] obtain earlier p features f later cs
    where made: "made = earlier @ (p, features, f) # later" "merge_all earlier [] = Inr cs"
      and refused: "merge_claim (p, features, f) cs = Inl e" by blast
  from merge_claim_refuses [OF refused] obtain c c' where c: "c \<in> set cs" "same_name (cl_purl c) p"
      "pu_version p \<noteq> []" "cl_version c \<noteq> []" "cl_version c \<noteq> pu_version p"
    and e: "e = pin_clash c' (pu_version p) f" "cl_version c' = cl_version c" "cl_pinned_by c' = cl_pinned_by c"
    by blast
  have "sourced (set earlier) c" using merge_all_keeps [OF merged_empty made(2)] c(1) by (simp add: merged_def)
  then obtain q gs where q: "(q, gs, cl_pinned_by c) \<in> set earlier" "same_name (cl_purl c) q" "pu_version q = cl_version c"
    using c(4) by (force simp: sourced_def)
  have "same_name q p" using q(2) c(2) by (simp add: same_name_def)
  with made(1) c e q(1,3) show ?thesis by (metis (no_types, lifting))
qed

text \<open>The merge of the manifests is the merge of the claims they make on native packages, in the order of
  contribution.\<close>

definition entry_claims ::
  "managers \<Rightarrow> (string \<Rightarrow> bool) \<Rightarrow> (string \<Rightarrow> (gerror, package_entry list) result) \<Rightarrow> string \<Rightarrow> made_claim list"
where
  "entry_claims M holds load m =
     (case load m of
        Inl e \<Rightarrow> []
      | Inr es \<Rightarrow> concat (map (\<lambda>(raw, features).
          if is_registry_package holds raw then []
          else (case parse_identifier M raw of Inl e \<Rightarrow> [] | Inr p \<Rightarrow> [(p, features, m)])) es))"

lemma merge_entries_claims:
  "merge_entries M holds m es (cs, ds) = Inr (cs', ds') \<Longrightarrow>
   merge_all (concat (map (\<lambda>(raw, features).
      if is_registry_package holds raw then []
      else (case parse_identifier M raw of Inl e \<Rightarrow> [] | Inr p \<Rightarrow> [(p, features, m)])) es)) cs = Inr cs'"
  by (induction M holds m es "(cs, ds)" arbitrary: cs ds rule: merge_entries.induct)
    (auto split: if_splits sum.splits)

theorem manifests_merge_their_claims:
  assumes "merge_manifests M holds load ms = Inr (cs, du, ds)"
  shows "merge_all (concat (map (entry_claims M holds load) ms)) [] = Inr cs"
proof -
  have "merge_manifests_from M holds load ms (cs0, ds0) = Inr (cs, ds1) \<Longrightarrow>
      merge_all (concat (map (entry_claims M holds load) ms)) cs0 = Inr cs" for cs0 ds0 ds1
  proof (induction ms arbitrary: cs0 ds0)
    case (Cons m ms)
    obtain es cs1 ds2 where "load m = Inr es" "merge_entries M holds m es (cs0, ds0) = Inr (cs1, ds2)"
      "merge_manifests_from M holds load ms (cs1, ds2) = Inr (cs, ds1)"
      using Cons.prems by (auto split: sum.splits)
    with Cons.IH [of cs1 ds2] merge_entries_claims [of M holds m es cs0 ds0 cs1 ds2] show ?case
      by (simp add: entry_claims_def merge_all_append)
  qed simp
  with assms show ?thesis by (auto simp: merge_manifests_def split: sum.splits prod.splits)
qed

section \<open>Claims to merge\<close>

definition demo_claim :: "string \<Rightarrow> string \<Rightarrow> string \<Rightarrow> string \<Rightarrow> made_claim" where
  "demo_claim namespace version feature m =
     (\<lparr>pu_type = ''brew'', pu_namespace = namespace, pu_name = ''curl'', pu_version = version,
       pu_qualifiers = [], pu_subpath = []\<rparr>, [feature], m)"

definition demo_claims :: "made_claim list" where
  "demo_claims = [demo_claim [] [] ''tls'' ''base'', demo_claim ''tap'' ''8'' ''http3'' ''team'',
     demo_claim ''other'' [] ''tls'' ''personal'']"

theorem merge_meets_every_claim_witness:
  "case merge_all demo_claims [] of
     Inr cs \<Rightarrow> map claim_identifier cs = [''pkg:brew/tap/curl@8'', ''pkg:brew/other/curl''] \<and>
       map cl_with cs = [[''tls'', ''http3''], [''tls'']] \<and> products cs
   | Inl e \<Rightarrow> False"
proof -
  have run: "case merge_all demo_claims [] of
      Inr cs \<Rightarrow> map claim_identifier cs = [''pkg:brew/tap/curl@8'', ''pkg:brew/other/curl''] \<and>
        map cl_with cs = [[''tls'', ''http3''], [''tls'']]
    | Inl e \<Rightarrow> False" by code_simp
  then obtain cs where cs: "merge_all demo_claims [] = Inr cs" by (cases "merge_all demo_claims []") auto
  from merge_meets_every_claim [OF cs] run cs show ?thesis by simp
qed

definition demo_clash :: "made_claim list" where
  "demo_clash = [demo_claim [] ''1'' ''tls'' ''base'', demo_claim ''tap'' ''2'' ''tls'' ''team'']"

theorem refusal_names_two_pins_witness:
  "case merge_all demo_clash [] of
     Inl e \<Rightarrow> (\<exists>c. e = pin_clash c ''2'' ''team'' \<and> cl_version c = ''1'' \<and> cl_pinned_by c = ''base'')
   | Inr cs \<Rightarrow> False"
proof -
  have "isl (merge_all demo_clash [])" by code_simp
  then obtain e where e: "merge_all demo_clash [] = Inl e" by (auto simp: isl_def)
  from refusal_names_two_pins [OF e] obtain earlier p features f later q gs g c where
    m: "demo_clash = earlier @ (p, features, f) # later" "(q, gs, g) \<in> set earlier"
      "e = pin_clash c (pu_version p) f" "cl_version c = pu_version q" "cl_pinned_by c = g" by blast
  obtain x where "earlier = [x]" "later = []"
    using m(1,2) by (cases earlier; cases "tl earlier") (auto simp: demo_clash_def)
  with m e show ?thesis by (auto simp: demo_clash_def demo_claim_def)
qed

text \<open>A claim goes to the first product it is on, so the order decides which of two products a bare pin is for,
  and whether there is an answer at all: one order of these three claims is refused, although two products meet
  them, as the other order shows.\<close>

theorem order_decides_the_merge:
  "isl (merge_all [demo_claim [] ''1'' [] ''a'', demo_claim ''tap'' ''2'' [] ''b'', demo_claim ''other'' ''1'' [] ''c''] [])"
  "\<not> isl (merge_all [demo_claim ''other'' ''1'' [] ''c'', demo_claim ''tap'' ''2'' [] ''b'', demo_claim [] ''1'' [] ''a''] [])"
  by code_simp+

text \<open>A manifest that names a product twice is reported as two manifests that claim it.\<close>

theorem one_manifest_is_a_duplicate:
  "case merge_all [demo_claim [] [] [] ''base'', demo_claim [] [] [] ''base''] [] of
     Inr cs \<Rightarrow> map du_manifests (duplicates_of cs) = [[''base'', ''base'']] | Inl e \<Rightarrow> False"
  by code_simp

end
