(* ===== verification/Spec2Isabelle.thy ===== *)
theory Spec2Isabelle
  imports Evolution Attempts Defects Graph_Resources Graph_Document Catalog_Behaviour File_Defects Deploy_Laws Plan_Laws Reconcile_Laws Archive_Laws Package_Claims
begin

text \<open>
  A verification library for devlore: the execution core under \<open>src/pkg/op\<close>, the providers that change the
  disk, and the parts of the writ command that decide what is deployed and remember what was. Paths below are
  relative to \<open>src/\<close>.

  How the program works. A graph (\<open>pkg/op/graph.go\<close>) is a tree of executable units: nodes, which call one
  action of a provider, and subgraphs, which hold further units, the edges between them and the flow action that
  runs them (\<open>node.go\<close>, \<open>subgraph.go\<close>). \<open>GraphExecutor.Run\<close> (\<open>graph_executor.go\<close>) binds the variables,
  dispatches the root and settles the run's status. A dispatch is an attempt loop: under the unit's retry policy
  it verifies the claims of the scope, resolves the slots, calls the action and pushes the receipt, with the
  companion that undoes the action, on the recovery stack; when attempts are spent a failure handler and the
  transition policy decide between failing, going on degraded, pausing and stopping. A failed or stopped run
  unwinds its stack. The control plane hands a client's commands to the run and its events to the client. The
  resource catalog records each resource the run discovers or produces, and the file and archive providers claim
  theirs in it. A trace and a graph document carry the state from one process to the next. writ
  (\<open>cmd/writ/writ\<close>) selects directories by the machine's segments, builds a tree of targets, merges the
  packages the layers ask for, plans a graph, and folds the traces of its lifetime into a record that reconcile,
  deploy and decommission compare with the live disk.

  The engine.
  \<^item> \<open>Prelude\<close>: results as sums, the functions of Go's \<open>strings\<close>, \<open>strconv\<close> and \<open>fmt\<close> in use, association
    lists for maps that are iterated, and the lemmas and simplification sets all theories share.
  \<^item> \<open>Run_State\<close> (\<open>run_state.go\<close>), \<open>Policies\<close> (\<open>retry_policy.go\<close>, \<open>policies_config.go\<close>,
    \<open>missing_resource_policy.go\<close>): enumerations with the integers and texts of the code, durations as 64-bit
    words. The locale \<open>text_codec\<close> states once what a codec promises; it is interpreted for conditions, phases,
    reasons, reactions and guards.
  \<^item> \<open>Errors\<close>, \<open>Values\<close> (\<open>truthiness.go\<close>), \<open>Units\<close> (\<open>binding.go\<close>, \<open>variable.go\<close>,
    \<open>executable_unit.go\<close>, \<open>guard_result.go\<close>): Go errors with their wrapping, dynamic values, units.
  \<^item> \<open>Recovery_Stack\<close> (\<open>recovery_stack.go\<close>, \<open>receipt.go\<close>): receipts, adopted child stacks, lookup by unit
    and the unwinding, which refines an abstract saga. The locale \<open>result_ledger\<close> states what a lookup returns
    after a record; receipts and stacks interpret it.
  \<^item> \<open>Control_Plane\<close> (\<open>control_plane.go\<close>): queue, subscriptions and delivery as a step relation with its
    reachable states, over the plane and the events that goroutines have numbered and not yet delivered.
  \<^item> \<open>Kahn\<close>, \<open>Topology\<close> (\<open>helpers.go\<close>, \<open>subgraph.go\<close>): the topological order, construction, lookup by id,
    and the validation of edges, against declarative specifications of order, cycle and decision tree.
  \<^item> \<open>Engine\<close>, \<open>Flow\<close> (\<open>provider/flow\<close>), \<open>Executor\<close> (\<open>node.go\<close>, \<open>subgraph.go\<close>,
    \<open>graph_executor.go\<close>): the executor's state, the step every transition goes through, the seven flow actions,
    node and subgraph execution, handlers, the attempt loop and \<open>run\<close>. The rest of the world is an argument: a
    record of the calls the code makes (\<open>world_ops\<close>, \<open>session_ops\<close>), run in \<open>Demo_World\<close> on a concrete log of
    effects.
  \<^item> \<open>Evolution\<close>: what every dispatch keeps, through the locale \<open>engine_relation\<close>, a preorder each primitive
    step respects. \<open>Walk\<close>: choose against the paths of a decision tree. \<open>Ledger\<close>, \<open>Gather_Books\<close>,
    \<open>Books\<close>: the recovery stack records exactly the effects that stand. \<open>Runs\<close>: how a run ends, that it ends,
    what it leaves. \<open>Attempts\<close>: how often an action is tried. \<open>Resume\<close> (\<open>trace.go\<close>): traces, the executor
    built from one, the resumed unwind, and completed units that are not dispatched again. \<open>Defects\<close>: runs that
    show behaviour the documentation does not promise.

  Resources.
  \<^item> \<open>Identity\<close> (\<open>resource.go\<close>, \<open>digest.go\<close>, \<open>addressing.go\<close>, \<open>resource_state.go\<close>): tag URIs, digests.
  \<^item> \<open>Resource_Catalog\<close>, \<open>Catalog_Laws\<close>, \<open>Catalog_Behaviour\<close> (\<open>resource_catalog.go\<close>): the list of
    generations, its index and its namespace over an explicit store of shared objects. The laws give the invariant
    of every run of operations and the locale \<open>generation_log\<close>: what was entered is never written again. Clone is
    modelled in a memory where a catalog refers to its slice and its maps, so that sharing one would show; the
    other operations are given on the contents, and read and write them through the references.
  \<^item> \<open>Ledger_Snapshot\<close> (\<open>resource_catalog.go\<close>, \<open>graph.go\<close>), \<open>Graph_Document\<close>, \<open>Graph_Resources\<close>
    (\<open>graph.go\<close>, \<open>node.go\<close>, \<open>subgraph.go\<close>): serial forms and what is read back from them.

  The disk.
  \<^item> \<open>Scoped_Path\<close>, \<open>File_System\<close> (\<open>pkg/fsroot/fsroot.go\<close>): lexical paths, and a tree of entries with the
    calls on it, any of which may fail: the world carries the failures to come. \<open>Recovery_Site\<close>
    (\<open>recovery_site.go\<close>): the archive of what a mutation displaces.
  \<^item> \<open>File_Claims\<close>, \<open>File_Provider\<close> (\<open>provider/file\<close>): kinds, claims, every mutation and every compensation.
    \<open>File_Trees\<close> and \<open>File_Calls\<close> give the effect of each call entry by entry, \<open>File_Forward\<close> what a mutation
    leaves when any of its calls may fail, \<open>File_Undo\<close> what a compensation leaves, \<open>File_Mutations\<close> puts them
    together, and \<open>File_Frame\<close> bounds where a mutation can write. \<open>File_Trace\<close>: receipts in a trace.
    \<open>File_Defects\<close>: the cases the hypotheses of the undo theorems leave out.
  \<^item> \<open>File_Saga\<close>: the contract of a provider that can be undone, as the locale \<open>compensable\<close>, with the theorem
    that a run of its operations unwinds; interpreted on the file provider here and on the extraction of an archive
    in \<open>Archive_Laws\<close>.
  \<^item> \<open>Archive\<close>, \<open>Archive_Laws\<close> (\<open>provider/archive/provider.go\<close>): formats, readers as iterators, the guard of a
    name, and the extraction over the file provider's own mutations. \<open>SecureJoin\<close> is an argument; what it documents
    about links is the hypothesis \<open>joins_securely\<close> of the theorem that needs it.

  writ.
  \<^item> \<open>Selector\<close>, \<open>Selection\<close> (\<open>pkg/selector\<close>), \<open>Segments\<close> (\<open>cmd/writ/writ/segment\<close>): the words of a
    machine, the names that match it and the order they apply in.
  \<^item> \<open>Deploy_Tree\<close>, \<open>Deploy_Laws\<close> (\<open>cmd/writ/writ/tree\<close>): a file's name to its target and pipeline, the build
    over layers and directories, overriding and collisions.
  \<^item> \<open>Deploy_Plan\<close>, \<open>Plan_Laws\<close> (\<open>cmd/writ/writ/deploy/plan.go\<close>): the run root, the calls that a file's pipeline
    becomes, and the inventory the record reads back; the planner's answers are an argument.
  \<^item> \<open>Package_URL\<close> (\<open>pkg/platform/purl.go\<close>, \<open>identifier.go\<close>), \<open>Package_Claims\<close>
    (\<open>cmd/writ/writ/deploy/manifest.go\<close>): package identifiers, and the merge of all claims into products.
  \<^item> \<open>Lifetimes\<close> (\<open>cmd/internal/cli/lifetime.go\<close>), \<open>Readback\<close>, \<open>Record_Laws\<close>
    (\<open>cmd/writ/writ/readback\<close>): the documents of a lifetime under failing stores, and the fold of its runs.
  \<^item> \<open>Reconcile\<close>, \<open>Reconcile_Laws\<close> (\<open>cmd/writ/writ/reconcile\<close>, \<open>layer\<close>, \<open>deploy/deploy.go\<close>,
    \<open>decommission\<close>): the record against the system.

  Fuel and termination. \<open>dispatch\<close> recurses on units it looks up by name, so it takes a depth; \<open>OutOfFuel\<close> marks
  its end and is never an answer of the code. On a graph that validation accepts, whose ids are distinct and which
  does not poll, the height of the unit is enough and more changes nothing (\<open>Fuel\<close>, \<open>Runs\<close>). A second number
  bounds the polls of \<open>wait_until\<close>, which the code itself does not bound. The walk of a choose is given one step
  per child and the Kahn loop one round per vertex, which the theories prove to be enough. The walk over a loaded
  document's units takes a depth: every depth above one decides a document the code can load, and a cyclic document,
  whose walk has no end in the code, has none. Everything else is structural or comes with a measure.

  What the undo theorems assume. A disk is \<open>ready\<close> when no query fails (lstat, stat, readlink), the tree is sound
  and the recovery site can be used; a mutation \<open>fits\<close> when its targets lie below the root, outside \<open>.devlore\<close>, and
  are reached without links. The books of a run assume a \<open>plain_graph\<close>, one without handlers and polls, in an
  environment that answers for its effects (\<open>answers_for\<close>). Each text before a theorem says which it uses, and
  \<open>File_Defects\<close> and \<open>Defects\<close> what happens outside them.

  Simplifications that hold throughout. Gather runs its iterations on the schedule of one worker. Hooks and
  narration, which only observe, and timestamps are left out. Contexts are the failures and cancellations the world
  reports. Error texts are kept where the code compares, prints or stores them. Counters are unbounded where the
  code's are 64-bit and only ever counted up.

  Not modelled: the Starlark bridge and the reflection that turns Go methods into actions (\<open>method.go\<close>,
  \<open>receiver_registry.go\<close>, \<open>convert.go\<close> and the planner), because their subject is the Go and Starlark type
  systems; an action is an argument instead. The process, console and platform services (\<open>broker*.go\<close>,
  \<open>pkg/platform\<close> managers, \<open>pkg/process\<close>) and the providers that only call them (git, package, service, shell,
  appnet), because their behaviour is that of the programs they start. The commands lore and star, and those of writ
  that migrate, adopt, upgrade and encrypt. The result pipeline, the secret store and the signing of documents,
  which rest on third-party libraries.
\<close>

end
